(* ===== verification/Obsr_Prelude.thy ===== *)
theory Obsr_Prelude
  imports Main "HOL-Library.Word"
begin

text \<open>
  Shared vocabulary of the development: the machine integer types of the C++ code, the byte
  representation of an integer in memory, blocks of memory as byte lists, the arithmetic of
  \<open>size_t\<close>, the exceptions the program can throw, ordered maps as sorted association lists, and
  the lemma collections the component theories extend.
\<close>

unbundle bit_operations_syntax

section \<open>Lemma collections\<close>

named_theorems mem_simps \<open>reading and writing blocks of memory\<close>
named_theorems wire_simps \<open>encoding and decoding of integers, strings and values\<close>
named_theorems table_simps \<open>look-ups in handle tables\<close>
named_theorems store_simps \<open>field updates of storage entries and of the storage\<close>

section \<open>Machine types\<close>

type_synonym u8 = "8 word"
type_synonym u16 = "16 word"
type_synonym u32 = "32 word"
type_synonym u64 = "64 word"
type_synonym bytes = "u8 list"

text \<open>Handles of entries, objects and listeners; the all-ones handle is reserved.\<close>

type_synonym handle = u32
type_synonym milliseconds = int

text \<open>
  Readings of the system clock: \<open>tm k\<close> is what the \<open>k\<close>-th call site of an operation reads. The
  readings of one operation are not assumed equal, or ordered, unless a theorem says so.
\<close>

type_synonym readings = "nat \<Rightarrow> milliseconds"

section \<open>Unsigned size arithmetic\<close>

text \<open>\<open>size_t\<close> has 64 bits; its subtraction wraps around.\<close>

definition size_limit :: nat where
  "size_limit = 2 ^ 64"

definition size_sub :: "nat \<Rightarrow> nat \<Rightarrow> nat" where
  "size_sub a b = (if b \<le> a then a - b else size_limit + a - b)"

lemma size_sub_le [simp]: "b \<le> a \<Longrightarrow> size_sub a b = a - b"
  by (simp add: size_sub_def)

lemma ucast_up_down [simp]:
  "LENGTH('a) \<le> LENGTH('b) \<Longrightarrow> ucast (ucast x :: 'b::len word) = (x :: 'a::len word)"
  by (rule bit_eqI) (auto simp: bit_simps dest: bit_imp_le_length)

lemma unat_eq_unat [simp]: "unat x = unat y \<longleftrightarrow> x = y" for x y :: "'a::len word"
  by (simp only: word_unat_eq_iff)

section \<open>Bytes of an integer, least significant first\<close>

fun le_bytes :: "nat \<Rightarrow> 'a::len word \<Rightarrow> bytes" where
  "le_bytes 0 w = []"
| "le_bytes (Suc n) w = ucast w # le_bytes n (drop_bit 8 w)"

fun of_le :: "bytes \<Rightarrow> 'a::len word" where
  "of_le [] = 0"
| "of_le (b # bs) = ucast b OR push_bit 8 (of_le bs)"

lemma le_bytes_numeral:
  "le_bytes (numeral k) w = ucast w # le_bytes (pred_numeral k) (drop_bit 8 w)"
  by (simp add: numeral_eq_Suc)

lemma length_le_bytes [simp, wire_simps]: "length (le_bytes n w) = n"
  by (induction n arbitrary: w) auto

lemma of_le_le_bytes: "of_le (le_bytes n w) = take_bit (8 * n) w"
proof (induction n arbitrary: w)
  case (Suc n)
  show ?case
    by (rule bit_eqI) (auto simp: Suc bit_simps)
qed simp

lemma le_bytes_take_bit: "8 * n \<le> m \<Longrightarrow> le_bytes n (take_bit m w) = le_bytes n w"
proof (induction n arbitrary: w m)
  case (Suc n)
  have "ucast (take_bit m w) = (ucast w :: u8)"
    using Suc.prems by (intro bit_eqI) (auto simp: bit_simps)
  moreover have "drop_bit 8 (take_bit m w) = take_bit (m - 8) (drop_bit 8 w)"
    using Suc.prems by (simp add: drop_bit_take_bit)
  ultimately show ?case
    using Suc.IH [of "m - 8" "drop_bit 8 w"] Suc.prems by simp
qed simp

lemma le_bytes_of_le:
  "8 * length bs \<le> LENGTH('a) \<Longrightarrow> le_bytes (length bs) (of_le bs :: 'a::len word) = bs"
proof (induction bs)
  case (Cons b bs)
  let ?w = "ucast b OR push_bit 8 (of_le bs) :: 'a word"
  have hd: "ucast ?w = b"
    using Cons.prems by (intro bit_eqI) (auto simp: bit_simps)
  have tl: "drop_bit 8 ?w = take_bit (LENGTH('a) - 8) (of_le bs)"
    using Cons.prems by (intro bit_eqI) (auto simp: bit_simps dest: bit_imp_le_length)
  have "8 * length bs \<le> LENGTH('a) - 8"
    using Cons.prems by simp
  then have "le_bytes (length bs) (drop_bit 8 ?w) = bs"
    unfolding tl using Cons.IH Cons.prems by (simp add: le_bytes_take_bit)
  with hd show ?case by simp
qed simp

lemma le_bytes_of_le':
  assumes "length bs = n" and "8 * n \<le> LENGTH('a)"
  shows "le_bytes n (of_le bs :: 'a::len word) = bs"
  using le_bytes_of_le [of bs] assms by simp

section \<open>Blocks of memory\<close>

text \<open>
  A block of memory is the list of its bytes. \<open>mem_write\<close> is \<open>memcpy\<close> into the block: a copy that
  runs past the end of the block makes the list longer than the allocation, so a theorem that the
  length is unchanged says that nothing was written out of bounds; likewise \<open>mem_read\<close> returns fewer
  bytes than asked for exactly when the copy would read past the end.
\<close>

definition mem_read :: "bytes \<Rightarrow> nat \<Rightarrow> nat \<Rightarrow> bytes" where
  "mem_read m p n = take n (drop p m)"

definition mem_write :: "bytes \<Rightarrow> nat \<Rightarrow> bytes \<Rightarrow> bytes" where
  "mem_write m p xs = take p m @ xs @ drop (p + length xs) m"

lemma length_mem_read [simp, mem_simps]: "length (mem_read m p n) = min n (length m - p)"
  by (simp add: mem_read_def min.commute)

lemma length_mem_write [simp, mem_simps]:
  "p + length xs \<le> length m \<Longrightarrow> length (mem_write m p xs) = length m"
  by (simp add: mem_write_def)

lemma mem_write_Nil [simp, mem_simps]: "mem_write m p [] = m"
  by (simp add: mem_write_def)

lemma mem_read_0 [simp, mem_simps]: "mem_read m p 0 = []"
  by (simp add: mem_read_def)

lemma nth_mem_write:
  assumes "p + length xs \<le> length m" and "i < length m"
  shows "mem_write m p xs ! i = (if p \<le> i \<and> i < p + length xs then xs ! (i - p) else m ! i)"
  using assms by (auto simp: mem_write_def nth_append min_def)

lemma nth_mem_read: "i < n \<Longrightarrow> p + n \<le> length m \<Longrightarrow> mem_read m p n ! i = m ! (p + i)"
  by (simp add: mem_read_def)

text \<open>What a write leaves before, in and after the bytes it wrote.\<close>

lemma take_mem_write_before [mem_simps]:
  "q \<le> p \<Longrightarrow> p \<le> length m \<Longrightarrow> take q (mem_write m p xs) = take q m"
  by (simp add: mem_write_def min_def)

lemma take_mem_write_upto [mem_simps]:
  "p \<le> length m \<Longrightarrow> q = p + length xs \<Longrightarrow> take q (mem_write m p xs) = take p m @ xs"
  by (simp add: mem_write_def)

lemma drop_mem_write_after [mem_simps]:
  "p \<le> length m \<Longrightarrow> p + length xs \<le> q \<Longrightarrow> drop q (mem_write m p xs) = drop q m"
  by (simp add: mem_write_def)

lemma drop_mem_write_before [mem_simps]:
  "q \<le> p \<Longrightarrow> p \<le> length m \<Longrightarrow>
   drop q (mem_write m p xs) = drop q (take p m) @ xs @ drop (p + length xs) m"
  by (simp add: mem_write_def)

text \<open>The element arrays of a value: each element occupies \<open>w\<close> bytes of the block.\<close>

definition mem_of_words :: "nat \<Rightarrow> 'a::len word list \<Rightarrow> bytes" where
  "mem_of_words w xs = concat (map (le_bytes w) xs)"

fun words_of_mem :: "nat \<Rightarrow> nat \<Rightarrow> bytes \<Rightarrow> 'a::len word list" where
  "words_of_mem w 0 bs = []"
| "words_of_mem w (Suc n) bs = of_le (take w bs) # words_of_mem w n (drop w bs)"

lemma length_mem_of_words [simp]: "length (mem_of_words w xs) = w * length xs"
  by (induction xs) (auto simp: mem_of_words_def)

lemma words_of_mem_of_words:
  "8 * w = LENGTH('a) \<Longrightarrow> words_of_mem w (length xs) (mem_of_words w xs) = (xs :: 'a::len word list)"
  by (induction xs) (auto simp: mem_of_words_def of_le_le_bytes)

section \<open>Strings as bytes\<close>

definition byte_of_char :: "char \<Rightarrow> u8" where
  "byte_of_char c = word_of_nat (of_char c)"

definition char_of_byte :: "u8 \<Rightarrow> char" where
  "char_of_byte b = char_of (unat b)"

definition bytes_of_string :: "string \<Rightarrow> bytes" where
  "bytes_of_string s = map byte_of_char s"

definition string_of_bytes :: "bytes \<Rightarrow> string" where
  "string_of_bytes bs = map char_of_byte bs"

lemma char_of_byte_of_char [simp]: "char_of_byte (byte_of_char c) = c"
proof -
  have "(of_char c :: nat) < 256"
    using nat_of_char_less_256 by simp
  then show ?thesis
    by (simp add: char_of_byte_def byte_of_char_def unsigned_of_nat take_bit_nat_eq_self)
qed

lemma byte_of_char_of_byte [simp]: "byte_of_char (char_of_byte b) = b"
proof -
  have "unat b < 256"
    using unsigned_less [of b] by simp
  then show ?thesis
    by (simp add: char_of_byte_def byte_of_char_def)
qed

lemma string_of_bytes_of_string [simp, wire_simps]: "string_of_bytes (bytes_of_string s) = s"
  by (simp add: string_of_bytes_def bytes_of_string_def comp_def)

lemma bytes_of_string_of_bytes [simp, wire_simps]: "bytes_of_string (string_of_bytes bs) = bs"
  by (simp add: string_of_bytes_def bytes_of_string_def comp_def)

lemma length_bytes_of_string [simp, wire_simps]: "length (bytes_of_string s) = length s"
  by (simp add: bytes_of_string_def)

lemma length_string_of_bytes [simp, wire_simps]: "length (string_of_bytes bs) = length bs"
  by (simp add: string_of_bytes_def)

text \<open>
  \<open>std::string::find\<close>: the first position at which the needle occurs. The search is over every
  position, so \<open>find(\<dots>) != npos\<close> is containment, not a prefix test.
\<close>

fun is_prefix_of :: "'a list \<Rightarrow> 'a list \<Rightarrow> bool" where
  "is_prefix_of [] ys = True"
| "is_prefix_of (x # xs) [] = False"
| "is_prefix_of (x # xs) (y # ys) = (x = y \<and> is_prefix_of xs ys)"

fun str_find :: "'a list \<Rightarrow> 'a list \<Rightarrow> nat option" where
  "str_find needle [] = (if needle = [] then Some 0 else None)"
| "str_find needle (h # hs) =
     (if is_prefix_of needle (h # hs) then Some 0 else map_option Suc (str_find needle hs))"

lemma is_prefix_of_iff: "is_prefix_of xs ys \<longleftrightarrow> (\<exists>zs. ys = xs @ zs)"
  by (induction xs ys rule: is_prefix_of.induct) auto

lemma str_find_Some_iff: "str_find needle hay \<noteq> None \<longleftrightarrow> (\<exists>p q. hay = p @ needle @ q)"
proof (induction hay)
  case Nil
  show ?case by auto
next
  case (Cons h hs)
  show ?case
  proof (cases "is_prefix_of needle (h # hs)")
    case True
    then obtain q where "h # hs = [] @ needle @ q" by (auto simp: is_prefix_of_iff)
    moreover have "str_find needle (h # hs) \<noteq> None" using True by simp
    ultimately show ?thesis by blast
  next
    case False
    then have no: "h # hs \<noteq> needle @ q" for q by (auto simp: is_prefix_of_iff)
    have "(\<exists>p q. h # hs = p @ needle @ q) \<longleftrightarrow> (\<exists>p q. hs = p @ needle @ q)"
    proof
      assume "\<exists>p q. h # hs = p @ needle @ q"
      then obtain p q where pq: "h # hs = p @ needle @ q" by blast
      with no have "p \<noteq> []" by (metis append_Nil)
      with pq obtain p' where "hs = p' @ needle @ q" by (cases p) auto
      then show "\<exists>p q. hs = p @ needle @ q" by blast
    next
      assume "\<exists>p q. hs = p @ needle @ q"
      then obtain p q where "hs = p @ needle @ q" by blast
      then have "h # hs = (h # p) @ needle @ q" by simp
      then show "\<exists>p q. h # hs = p @ needle @ q" by blast
    qed
    with False Cons.IH show ?thesis by simp
  qed
qed

definition contains :: "string \<Rightarrow> string \<Rightarrow> bool" where
  "contains hay needle = (str_find needle hay \<noteq> None)"

lemma contains_iff: "contains hay needle \<longleftrightarrow> (\<exists>p q. hay = p @ needle @ q)"
  by (simp only: contains_def str_find_Some_iff)

lemma contains_refl [simp]: "contains s s"
  unfolding contains_iff by (rule exI [of _ "[]"], rule exI [of _ "[]"]) simp

lemma contains_prefix: "contains (s @ t) s"
  unfolding contains_iff by (rule exI [of _ "[]"], rule exI [of _ t]) simp

section \<open>Ordered maps\<close>

text \<open>
  A \<open>std::map\<close> that the code iterates over is a list of pairs sorted by key. \<open>emplace\<close> keeps an
  existing binding, as the C++ function does.
\<close>

type_synonym ('k, 'v) omap = "('k \<times> 'v) list"

fun omap_emplace :: "'k::linorder \<Rightarrow> 'v \<Rightarrow> ('k, 'v) omap \<Rightarrow> ('k, 'v) omap" where
  "omap_emplace k v [] = [(k, v)]"
| "omap_emplace k v ((k', v') # m) =
     (if k < k' then (k, v) # (k', v') # m
      else if k = k' then (k', v') # m
      else (k', v') # omap_emplace k v m)"

definition omap_sorted :: "('k::linorder, 'v) omap \<Rightarrow> bool" where
  "omap_sorted m = sorted_wrt (<) (map fst m)"

lemma omap_sorted_Nil [simp]: "omap_sorted []"
  by (simp add: omap_sorted_def)

lemma set_fst_omap_emplace: "fst ` set (omap_emplace k v m) = insert k (fst ` set m)"
  by (induction k v m rule: omap_emplace.induct) auto

lemma omap_sorted_emplace: "omap_sorted m \<Longrightarrow> omap_sorted (omap_emplace k v m)"
proof (induction k v m rule: omap_emplace.induct)
  case (2 k v k' v' m)
  then show ?case
    using set_fst_omap_emplace [of k v m] by (auto simp: omap_sorted_def)
qed (simp add: omap_sorted_def)

lemma map_of_omap_emplace:
  "omap_sorted m \<Longrightarrow>
   map_of (omap_emplace k v m) = (if map_of m k = None then (map_of m)(k \<mapsto> v) else map_of m)"
proof (induction k v m rule: omap_emplace.induct)
  case (2 k v k' v' m)
  have srt: "omap_sorted m" and lt: "\<forall>j\<in>fst ` set m. k' < j"
    using 2(2) by (auto simp: omap_sorted_def)
  have absent: "map_of m k = None" if "k < k'"
    using lt that by (auto simp: map_of_eq_None_iff)
  show ?case
  proof (cases k k' rule: linorder_cases)
    case less
    then show ?thesis using absent by (auto simp: fun_eq_iff)
  next
    case equal
    then show ?thesis by simp
  next
    case greater
    with 2(1) srt show ?thesis by (auto simp: fun_eq_iff)
  qed
qed simp

text \<open>An insertion into a map that is only looked up.\<close>

definition map_emplace :: "'k \<Rightarrow> 'v \<Rightarrow> ('k \<rightharpoonup> 'v) \<Rightarrow> ('k \<rightharpoonup> 'v)" where
  "map_emplace k v m = (case m k of None \<Rightarrow> m(k \<mapsto> v) | Some _ \<Rightarrow> m)"

lemma map_emplace_same: "map_emplace k v m k = Some (case m k of None \<Rightarrow> v | Some v' \<Rightarrow> v')"
  by (simp add: map_emplace_def split: option.split)

lemma map_emplace_other: "j \<noteq> k \<Longrightarrow> map_emplace k v m j = m j"
  by (simp add: map_emplace_def split: option.split)

lemma map_emplace_SomeD: "map_emplace k v m j = Some x \<Longrightarrow> m j = Some x \<or> (j = k \<and> x = v)"
  by (auto simp: map_emplace_def split: option.splits if_splits)

end
