(* ===== verification/Obsr_Types.thy ===== *)
theory Obsr_Types
  imports Obsr_Prelude
begin

text \<open>
  The public data types (\<open>include/obsr_types.h\<close>, \<open>src/obsr_types.cpp\<close>) and the exceptions
  (\<open>include/obsr_except.h\<close>, \<open>src/internal_except.h\<close>): handles, value types, the tagged union
  \<open>value\<close> with its setters, getters and factories, and events.

  The union of a \<open>value\<close> is modelled by what its bytes hold: a scalar, or a pointer with an element
  count. A getter that reads an array through the pointer reads \<open>count\<close> elements of its own width
  from the allocation, so reading with the wrong width runs past the allocation exactly when the
  bytes do not suffice; \<open>Undefined_behaviour\<close> is the result of such a read.
\<close>

section \<open>Handles\<close>

definition empty_handle :: handle where
  "empty_handle = - 1"

definition entry_not_exists :: u32 where
  "entry_not_exists = - 1"

section \<open>Value types\<close>

text \<open>
  \<open>value_type\<close> is an enumeration over \<open>uint8_t\<close>, so every byte is a value of it; the bytes that have
  no enumerator are \<open>vt_unnamed\<close>.
\<close>

datatype value_type =
    vt_empty
  | vt_raw
  | vt_string
  | vt_boolean
  | vt_integer32
  | vt_integer64
  | vt_floating_point32
  | vt_floating_point64
  | vt_integer32_array
  | vt_integer64_array
  | vt_floating_point32_array
  | vt_floating_point64_array
  | vt_unnamed u8

fun vt_code :: "value_type \<Rightarrow> u8" where
  "vt_code vt_empty = 0"
| "vt_code vt_raw = 1"
| "vt_code vt_string = 2"
| "vt_code vt_boolean = 3"
| "vt_code vt_integer32 = 4"
| "vt_code vt_integer64 = 5"
| "vt_code vt_floating_point32 = 6"
| "vt_code vt_floating_point64 = 7"
| "vt_code vt_integer32_array = 8"
| "vt_code vt_integer64_array = 9"
| "vt_code vt_floating_point32_array = 10"
| "vt_code vt_floating_point64_array = 11"
| "vt_code (vt_unnamed b) = b"

definition vt_of_code :: "u8 \<Rightarrow> value_type" where
  "vt_of_code b =
     (if b = 0 then vt_empty else if b = 1 then vt_raw else if b = 2 then vt_string
      else if b = 3 then vt_boolean else if b = 4 then vt_integer32
      else if b = 5 then vt_integer64 else if b = 6 then vt_floating_point32
      else if b = 7 then vt_floating_point64 else if b = 8 then vt_integer32_array
      else if b = 9 then vt_integer64_array else if b = 10 then vt_floating_point32_array
      else if b = 11 then vt_floating_point64_array else vt_unnamed b)"

fun vt_named :: "value_type \<Rightarrow> bool" where
  "vt_named (vt_unnamed b) = False"
| "vt_named _ = True"

lemma vt_code_of_code [simp, wire_simps]: "vt_code (vt_of_code b) = b"
  by (simp add: vt_of_code_def)

lemma vt_of_code_code [simp, wire_simps]: "vt_named t \<Longrightarrow> vt_of_code (vt_code t) = t"
  by (cases t) (simp_all add: vt_of_code_def)

section \<open>Exceptions\<close>

text \<open>
  The exception classes of the program. \<open>Out_of_range\<close> is the standard library's
  \<open>std::out_of_range\<close>; \<open>Assertion_failed\<close> is a failing \<open>assert\<close>; \<open>Undefined_behaviour\<close> marks a read
  or write the language does not define; \<open>Deadlock\<close> marks a thread that locks a mutex it already
  holds. No handler catches the last three.
\<close>

datatype exn =
    No_such_handle handle
  | No_space
  | Entry_type_mismatch handle value_type value_type
  | Cannot_delete_root
  | Data_exceeds_size_limits
  | No_parent
  | Invalid_path string
  | Invalid_name string
  | Entry_does_not_exist handle
  | Io_exception int
  | Closed_fd
  | Eof
  | Illegal_state string
  | Illegal_argument string
  | Out_of_range
  | Assertion_failed
  | Undefined_behaviour
  | Deadlock

section \<open>Values\<close>

datatype payload =
    P_zero
  | P_scalar u64
  | P_span bytes nat

record obsr_value =
  v_type :: value_type
  v_union :: payload
  v_data :: bool

text \<open>The constructor \<open>value(value_type)\<close>: the union is zero, nothing is allocated.\<close>

definition new_value :: "value_type \<Rightarrow> obsr_value" where
  "new_value t = \<lparr>v_type = t, v_union = P_zero, v_data = False\<rparr>"

definition value_get_type :: "obsr_value \<Rightarrow> value_type" where
  "value_get_type v = v_type v"

definition value_empty :: "obsr_value \<Rightarrow> bool" where
  "value_empty v = (v_type v = vt_empty)"

definition value_clear :: "obsr_value \<Rightarrow> obsr_value" where
  "value_clear v = v\<lparr>v_type := vt_empty, v_data := False\<rparr>"

definition verify_within_size_limits :: "nat \<Rightarrow> exn + unit" where
  "verify_within_size_limits sz = (if sz \<ge> 255 then Inl Data_exceeds_size_limits else Inr ())"

definition create_array :: "nat \<Rightarrow> 'a::len word list \<Rightarrow> exn + bytes" where
  "create_array w xs =
     (case verify_within_size_limits (length xs) of
        Inl e \<Rightarrow> Inl e
      | Inr _ \<Rightarrow> Inr (mem_of_words w xs))"

text \<open>
  The common shape of the array setters: the type is written first, then the array is created,
  which may throw; only then are the pointer, the size and the owner written.
\<close>

definition set_array :: "value_type \<Rightarrow> nat \<Rightarrow> 'a::len word list \<Rightarrow> obsr_value \<Rightarrow> (exn + unit) \<times> obsr_value" where
  "set_array t w xs v =
     (let v = v\<lparr>v_type := t\<rparr> in
      case create_array w xs of
        Inl e \<Rightarrow> (Inl e, v)
      | Inr data \<Rightarrow> (Inr (), v\<lparr>v_union := P_span data (length xs), v_data := True\<rparr>))"

definition set_raw :: "bytes \<Rightarrow> obsr_value \<Rightarrow> (exn + unit) \<times> obsr_value" where
  "set_raw xs v = set_array vt_raw 1 xs v"

definition set_string :: "string \<Rightarrow> obsr_value \<Rightarrow> (exn + unit) \<times> obsr_value" where
  "set_string s v = set_array vt_string 1 (bytes_of_string s) v"

definition set_boolean :: "bool \<Rightarrow> obsr_value \<Rightarrow> obsr_value" where
  "set_boolean b v = v\<lparr>v_type := vt_boolean, v_union := P_scalar (of_bool b)\<rparr>"

definition set_int32 :: "u32 \<Rightarrow> obsr_value \<Rightarrow> obsr_value" where
  "set_int32 x v = v\<lparr>v_type := vt_integer32, v_union := P_scalar (ucast x)\<rparr>"

definition set_int64 :: "u64 \<Rightarrow> obsr_value \<Rightarrow> obsr_value" where
  "set_int64 x v = v\<lparr>v_type := vt_integer64, v_union := P_scalar x\<rparr>"

definition set_float :: "u32 \<Rightarrow> obsr_value \<Rightarrow> obsr_value" where
  "set_float x v = v\<lparr>v_type := vt_floating_point32, v_union := P_scalar (ucast x)\<rparr>"

definition set_double :: "u64 \<Rightarrow> obsr_value \<Rightarrow> obsr_value" where
  "set_double x v = v\<lparr>v_type := vt_floating_point64, v_union := P_scalar x\<rparr>"

definition set_int32_array :: "u32 list \<Rightarrow> obsr_value \<Rightarrow> (exn + unit) \<times> obsr_value" where
  "set_int32_array xs v = set_array vt_integer32_array 4 xs v"

definition set_int64_array :: "u64 list \<Rightarrow> obsr_value \<Rightarrow> (exn + unit) \<times> obsr_value" where
  "set_int64_array xs v = set_array vt_integer64_array 8 xs v"

text \<open>The setters of the floating point arrays write the tag \<open>integer64_array\<close>.\<close>

definition set_float_array :: "u32 list \<Rightarrow> obsr_value \<Rightarrow> (exn + unit) \<times> obsr_value" where
  "set_float_array xs v = set_array vt_integer64_array 4 xs v"

definition set_double_array :: "u64 list \<Rightarrow> obsr_value \<Rightarrow> (exn + unit) \<times> obsr_value" where
  "set_double_array xs v = set_array vt_integer64_array 8 xs v"

subsection \<open>Reading the union\<close>

definition array_view :: "nat \<Rightarrow> obsr_value \<Rightarrow> exn + 'a::len word list" where
  "array_view w v =
     (case v_union v of
        P_zero \<Rightarrow> Inr []
      | P_scalar _ \<Rightarrow> Inl Undefined_behaviour
      | P_span data count \<Rightarrow>
          (if v_data v \<and> w * count \<le> length data then Inr (words_of_mem w count data)
           else Inl Undefined_behaviour))"

definition scalar_view :: "obsr_value \<Rightarrow> exn + u64" where
  "scalar_view v =
     (case v_union v of
        P_zero \<Rightarrow> Inr 0
      | P_scalar x \<Rightarrow> Inr x
      | P_span _ _ \<Rightarrow> Inl Undefined_behaviour)"

text \<open>Every getter asserts the type tag first.\<close>

definition checked :: "value_type \<Rightarrow> obsr_value \<Rightarrow> (exn + 'a) \<Rightarrow> exn + 'a" where
  "checked t v r = (if v_type v = t then r else Inl Assertion_failed)"

definition get_raw :: "obsr_value \<Rightarrow> exn + bytes" where
  "get_raw v = checked vt_raw v (array_view 1 v)"

definition get_string :: "obsr_value \<Rightarrow> exn + string" where
  "get_string v = checked vt_string v (map_sum id string_of_bytes (array_view 1 v))"

definition get_boolean :: "obsr_value \<Rightarrow> exn + bool" where
  "get_boolean v = checked vt_boolean v (map_sum id (\<lambda>x. x \<noteq> 0) (scalar_view v))"

definition get_int32 :: "obsr_value \<Rightarrow> exn + u32" where
  "get_int32 v = checked vt_integer32 v (map_sum id ucast (scalar_view v))"

definition get_int64 :: "obsr_value \<Rightarrow> exn + u64" where
  "get_int64 v = checked vt_integer64 v (scalar_view v)"

definition get_float :: "obsr_value \<Rightarrow> exn + u32" where
  "get_float v = checked vt_floating_point32 v (map_sum id ucast (scalar_view v))"

definition get_double :: "obsr_value \<Rightarrow> exn + u64" where
  "get_double v = checked vt_floating_point64 v (scalar_view v)"

definition get_int32_array :: "obsr_value \<Rightarrow> exn + u32 list" where
  "get_int32_array v = checked vt_integer32_array v (array_view 4 v)"

definition get_int64_array :: "obsr_value \<Rightarrow> exn + u64 list" where
  "get_int64_array v = checked vt_integer64_array v (array_view 8 v)"

definition get_float_array :: "obsr_value \<Rightarrow> exn + u32 list" where
  "get_float_array v = checked vt_floating_point32_array v (array_view 4 v)"

definition get_double_array :: "obsr_value \<Rightarrow> exn + u64 list" where
  "get_double_array v = checked vt_floating_point64_array v (array_view 8 v)"

text \<open>The getters with a default.\<close>

definition get_raw_or :: "obsr_value \<Rightarrow> bytes \<Rightarrow> exn + bytes" where
  "get_raw_or v d = (if v_type v = vt_raw then get_raw v else Inr d)"

definition get_boolean_or :: "obsr_value \<Rightarrow> bool \<Rightarrow> exn + bool" where
  "get_boolean_or v d = (if v_type v = vt_boolean then get_boolean v else Inr d)"

definition get_int32_or :: "obsr_value \<Rightarrow> u32 \<Rightarrow> exn + u32" where
  "get_int32_or v d = (if v_type v = vt_integer32 then get_int32 v else Inr d)"

definition get_int64_or :: "obsr_value \<Rightarrow> u64 \<Rightarrow> exn + u64" where
  "get_int64_or v d = (if v_type v = vt_integer64 then get_int64 v else Inr d)"

definition get_float_or :: "obsr_value \<Rightarrow> u32 \<Rightarrow> exn + u32" where
  "get_float_or v d = (if v_type v = vt_floating_point32 then get_float v else Inr d)"

definition get_double_or :: "obsr_value \<Rightarrow> u64 \<Rightarrow> exn + u64" where
  "get_double_or v d = (if v_type v = vt_floating_point64 then get_double v else Inr d)"

definition get_int32_array_or :: "obsr_value \<Rightarrow> u32 list \<Rightarrow> exn + u32 list" where
  "get_int32_array_or v d = (if v_type v = vt_integer32_array then get_int32_array v else Inr d)"

definition get_int64_array_or :: "obsr_value \<Rightarrow> u64 list \<Rightarrow> exn + u64 list" where
  "get_int64_array_or v d = (if v_type v = vt_integer64_array then get_int64_array v else Inr d)"

definition get_float_array_or :: "obsr_value \<Rightarrow> u32 list \<Rightarrow> exn + u32 list" where
  "get_float_array_or v d = (if v_type v = vt_floating_point32_array then get_float_array v else Inr d)"

definition get_double_array_or :: "obsr_value \<Rightarrow> u64 list \<Rightarrow> exn + u64 list" where
  "get_double_array_or v d = (if v_type v = vt_floating_point64_array then get_double_array v else Inr d)"

subsection \<open>Factories\<close>

definition made :: "(exn + unit) \<times> obsr_value \<Rightarrow> exn + obsr_value" where
  "made r = (case r of (Inl e, _) \<Rightarrow> Inl e | (Inr _, v) \<Rightarrow> Inr v)"

definition value_make :: obsr_value where
  "value_make = new_value vt_empty"

definition make_raw :: "bytes \<Rightarrow> exn + obsr_value" where
  "make_raw xs = made (set_raw xs (new_value vt_raw))"

definition make_string :: "string \<Rightarrow> exn + obsr_value" where
  "make_string s = made (set_string s (new_value vt_string))"

definition make_boolean :: "bool \<Rightarrow> obsr_value" where
  "make_boolean b = set_boolean b (new_value vt_boolean)"

definition make_int32 :: "u32 \<Rightarrow> obsr_value" where
  "make_int32 x = set_int32 x (new_value vt_integer32)"

definition make_int64 :: "u64 \<Rightarrow> obsr_value" where
  "make_int64 x = set_int64 x (new_value vt_floating_point64)"

definition make_float :: "u32 \<Rightarrow> obsr_value" where
  "make_float x = set_float x (new_value vt_floating_point32)"

definition make_double :: "u64 \<Rightarrow> obsr_value" where
  "make_double x = set_double x (new_value vt_floating_point64)"

definition make_int32_array :: "u32 list \<Rightarrow> exn + obsr_value" where
  "make_int32_array xs = made (set_int32_array xs (new_value vt_integer32_array))"

definition make_int64_array :: "u64 list \<Rightarrow> exn + obsr_value" where
  "make_int64_array xs = made (set_int64_array xs (new_value vt_integer64_array))"

definition make_float_array :: "u32 list \<Rightarrow> exn + obsr_value" where
  "make_float_array xs = made (set_float_array xs (new_value vt_floating_point32_array))"

definition make_double_array :: "u64 list \<Rightarrow> exn + obsr_value" where
  "make_double_array xs = made (set_double_array xs (new_value vt_floating_point64_array))"

section \<open>Events\<close>

datatype event_type = ev_created | ev_deleted | ev_value_changed

record event =
  ev_timestamp :: milliseconds
  ev_type :: event_type
  ev_path :: string
  ev_entry :: handle
  ev_old_value :: obsr_value
  ev_value :: obsr_value

definition new_event :: "milliseconds \<Rightarrow> event_type \<Rightarrow> string \<Rightarrow> handle \<Rightarrow> event" where
  "new_event ts t p h =
     \<lparr>ev_timestamp = ts, ev_type = t, ev_path = p, ev_entry = h,
      ev_old_value = value_make, ev_value = value_make\<rparr>"

definition new_change_event ::
  "milliseconds \<Rightarrow> event_type \<Rightarrow> string \<Rightarrow> handle \<Rightarrow> obsr_value \<Rightarrow> obsr_value \<Rightarrow> event" where
  "new_change_event ts t p h old new =
     \<lparr>ev_timestamp = ts, ev_type = t, ev_path = p, ev_entry = h,
      ev_old_value = old, ev_value = new\<rparr>"

definition event_get_old_value :: "event \<Rightarrow> exn + obsr_value" where
  "event_get_old_value e =
     (if ev_type e = ev_value_changed then Inr (ev_old_value e) else Inl Assertion_failed)"

definition event_get_value :: "event \<Rightarrow> exn + obsr_value" where
  "event_get_value e =
     (if ev_type e = ev_value_changed then Inr (ev_value e) else Inl Assertion_failed)"

section \<open>Lemmas on values\<close>

lemmas set_defs = set_raw_def set_string_def set_boolean_def set_int32_def set_int64_def
  set_float_def set_double_def set_int32_array_def set_int64_array_def set_float_array_def
  set_double_array_def

lemmas get_defs = get_raw_def get_string_def get_boolean_def get_int32_def get_int64_def
  get_float_def get_double_def get_int32_array_def get_int64_array_def get_float_array_def
  get_double_array_def

lemmas make_defs = value_make_def make_raw_def make_string_def make_boolean_def make_int32_def
  make_int64_def make_float_def make_double_def make_int32_array_def make_int64_array_def
  make_float_array_def make_double_array_def

lemma create_array_eq:
  "create_array w xs =
     (if length xs < 255 then Inr (mem_of_words w xs) else Inl Data_exceeds_size_limits)"
  by (simp add: create_array_def verify_within_size_limits_def)

text \<open>A value whose array setter returned, and the array getter of the same width on it.\<close>

definition array_value :: "value_type \<Rightarrow> nat \<Rightarrow> 'a::len word list \<Rightarrow> obsr_value" where
  "array_value t w xs =
     \<lparr>v_type = t, v_union = P_span (mem_of_words w xs) (length xs), v_data = True\<rparr>"

lemma made_set_array:
  "made (set_array t w xs (new_value t')) =
     (if length xs < 255 then Inr (array_value t w xs) else Inl Data_exceeds_size_limits)"
  by (simp add: set_array_def create_array_eq made_def new_value_def array_value_def Let_def)

lemma array_view_array_value:
  "8 * w = LENGTH('a) \<Longrightarrow> array_view w (array_value t w xs) = Inr (xs :: 'a::len word list)"
  by (simp add: array_view_def array_value_def words_of_mem_of_words)

lemma v_type_array_value [simp]: "v_type (array_value t w xs) = t"
  by (simp add: array_value_def)

lemma make_raw_eq:
  "make_raw xs = (if length xs < 255 then Inr (array_value vt_raw 1 xs) else Inl Data_exceeds_size_limits)"
  by (simp add: make_raw_def set_raw_def made_set_array)

lemma make_string_eq:
  "make_string s = (if length s < 255 then Inr (array_value vt_string 1 (bytes_of_string s))
                    else Inl Data_exceeds_size_limits)"
  by (simp add: make_string_def set_string_def made_set_array)

lemma make_int32_array_eq:
  "make_int32_array xs = (if length xs < 255 then Inr (array_value vt_integer32_array 4 xs)
                          else Inl Data_exceeds_size_limits)"
  by (simp add: make_int32_array_def set_int32_array_def made_set_array)

lemma make_int64_array_eq:
  "make_int64_array xs = (if length xs < 255 then Inr (array_value vt_integer64_array 8 xs)
                          else Inl Data_exceeds_size_limits)"
  by (simp add: make_int64_array_def set_int64_array_def made_set_array)

lemma make_float_array_eq:
  "make_float_array xs = (if length xs < 255 then Inr (array_value vt_integer64_array 4 xs)
                          else Inl Data_exceeds_size_limits)"
  by (simp add: make_float_array_def set_float_array_def made_set_array)

lemma make_double_array_eq:
  "make_double_array xs = (if length xs < 255 then Inr (array_value vt_integer64_array 8 xs)
                           else Inl Data_exceeds_size_limits)"
  by (simp add: make_double_array_def set_double_array_def made_set_array)

lemmas make_array_eqs = make_raw_eq make_string_eq make_int32_array_eq make_int64_array_eq
  make_float_array_eq make_double_array_eq

lemma make_scalar_types [simp]:
  "v_type value_make = vt_empty"
  "v_type (make_boolean b) = vt_boolean"
  "v_type (make_int32 x) = vt_integer32"
  "v_type (make_int64 y) = vt_integer64"
  "v_type (make_float x) = vt_floating_point32"
  "v_type (make_double y) = vt_floating_point64"
  by (simp_all add: make_defs set_defs new_value_def)

lemma get_make_boolean [simp]: "get_boolean (make_boolean b) = Inr b"
  by (simp add: make_defs set_defs get_defs new_value_def checked_def scalar_view_def)

lemma get_make_int32 [simp]: "get_int32 (make_int32 x) = Inr x"
  by (simp add: make_defs set_defs get_defs new_value_def checked_def scalar_view_def)

lemma get_make_int64 [simp]: "get_int64 (make_int64 x) = Inr x"
  by (simp add: make_defs set_defs get_defs new_value_def checked_def scalar_view_def)

lemma get_make_float [simp]: "get_float (make_float x) = Inr x"
  by (simp add: make_defs set_defs get_defs new_value_def checked_def scalar_view_def)

lemma get_make_double [simp]: "get_double (make_double x) = Inr x"
  by (simp add: make_defs set_defs get_defs new_value_def checked_def scalar_view_def)

lemma get_array_value [simp]:
  "get_raw (array_value vt_raw 1 bs) = Inr bs"
  "get_string (array_value vt_string 1 (bytes_of_string s)) = Inr s"
  "get_int32_array (array_value vt_integer32_array 4 xs) = Inr xs"
  "get_int64_array (array_value vt_integer64_array 8 ys) = Inr ys"
  by (simp_all add: get_defs checked_def array_view_array_value)

lemmas get_array_value_Suc [simp] = get_array_value [unfolded One_nat_def]

section \<open>The abstract content of a value\<close>

text \<open>
  What a client can read out of a value, as one datatype: the contract of the class is that the
  getter of the value's own type returns its content.
\<close>

datatype content =
    C_empty
  | C_raw bytes
  | C_string string
  | C_boolean bool
  | C_int32 u32
  | C_int64 u64
  | C_float u32
  | C_double u64
  | C_int32_array "u32 list"
  | C_int64_array "u64 list"
  | C_float_array "u32 list"
  | C_double_array "u64 list"

definition result_option :: "'e + 'a \<Rightarrow> 'a option" where
  "result_option r = (case r of Inl _ \<Rightarrow> None | Inr x \<Rightarrow> Some x)"

lemma result_option_simps [simp]:
  "result_option (Inl e) = None"
  "result_option (Inr x) = Some x"
  by (simp_all add: result_option_def)

definition content_of :: "obsr_value \<Rightarrow> content option" where
  "content_of v =
     (case v_type v of
        vt_empty \<Rightarrow> Some C_empty
      | vt_raw \<Rightarrow> map_option C_raw (result_option (get_raw v))
      | vt_string \<Rightarrow> map_option C_string (result_option (get_string v))
      | vt_boolean \<Rightarrow> map_option C_boolean (result_option (get_boolean v))
      | vt_integer32 \<Rightarrow> map_option C_int32 (result_option (get_int32 v))
      | vt_integer64 \<Rightarrow> map_option C_int64 (result_option (get_int64 v))
      | vt_floating_point32 \<Rightarrow> map_option C_float (result_option (get_float v))
      | vt_floating_point64 \<Rightarrow> map_option C_double (result_option (get_double v))
      | vt_integer32_array \<Rightarrow> map_option C_int32_array (result_option (get_int32_array v))
      | vt_integer64_array \<Rightarrow> map_option C_int64_array (result_option (get_int64_array v))
      | vt_floating_point32_array \<Rightarrow> map_option C_float_array (result_option (get_float_array v))
      | vt_floating_point64_array \<Rightarrow> map_option C_double_array (result_option (get_double_array v))
      | vt_unnamed _ \<Rightarrow> None)"

fun content_type :: "content \<Rightarrow> value_type" where
  "content_type C_empty = vt_empty"
| "content_type (C_raw _) = vt_raw"
| "content_type (C_string _) = vt_string"
| "content_type (C_boolean _) = vt_boolean"
| "content_type (C_int32 _) = vt_integer32"
| "content_type (C_int64 _) = vt_integer64"
| "content_type (C_float _) = vt_floating_point32"
| "content_type (C_double _) = vt_floating_point64"
| "content_type (C_int32_array _) = vt_integer32_array"
| "content_type (C_int64_array _) = vt_integer64_array"
| "content_type (C_float_array _) = vt_floating_point32_array"
| "content_type (C_double_array _) = vt_floating_point64_array"

fun content_count :: "content \<Rightarrow> nat" where
  "content_count (C_raw xs) = length xs"
| "content_count (C_string s) = length s"
| "content_count (C_int32_array xs) = length xs"
| "content_count (C_int64_array xs) = length xs"
| "content_count (C_float_array xs) = length xs"
| "content_count (C_double_array xs) = length xs"
| "content_count _ = 0"

lemma content_type_of: "content_of v = Some c \<Longrightarrow> content_type c = v_type v"
  by (auto simp: content_of_def split: value_type.splits)

lemma content_type_named [simp]: "vt_named (content_type c)"
  by (cases c) auto

text \<open>The factory of each content.\<close>

fun make_content :: "content \<Rightarrow> exn + obsr_value" where
  "make_content C_empty = Inr value_make"
| "make_content (C_raw xs) = make_raw xs"
| "make_content (C_string s) = make_string s"
| "make_content (C_boolean b) = Inr (make_boolean b)"
| "make_content (C_int32 x) = Inr (make_int32 x)"
| "make_content (C_int64 x) = Inr (make_int64 x)"
| "make_content (C_float x) = Inr (make_float x)"
| "make_content (C_double x) = Inr (make_double x)"
| "make_content (C_int32_array xs) = make_int32_array xs"
| "make_content (C_int64_array xs) = make_int64_array xs"
| "make_content (C_float_array xs) = make_float_array xs"
| "make_content (C_double_array xs) = make_double_array xs"

text \<open>The contents whose factory writes the right tag.\<close>

fun tagged :: "content \<Rightarrow> bool" where
  "tagged (C_float_array _) = False"
| "tagged (C_double_array _) = False"
| "tagged _ = True"

lemma content_of_make: "content_of value_make = Some C_empty"
  by (simp add: content_of_def)

lemma make_content_content:
  assumes "tagged c" and "content_count c < 255"
  shows "\<exists>v. make_content c = Inr v \<and> content_of v = Some c"
  using assms by (cases c) (auto simp: content_of_def make_array_eqs)

lemma make_content_too_big: "255 \<le> content_count c \<Longrightarrow> make_content c = Inl Data_exceeds_size_limits"
  by (cases c) (auto simp: make_array_eqs)

lemma set_scalar_content:
  "content_of (set_boolean b v) = Some (C_boolean b)"
  "content_of (set_int32 x v) = Some (C_int32 x)"
  "content_of (set_int64 y v) = Some (C_int64 y)"
  "content_of (set_float x v) = Some (C_float x)"
  "content_of (set_double y v) = Some (C_double y)"
  by (simp_all add: set_defs content_of_def get_defs checked_def scalar_view_def)

lemma set_array_Inr:
  "set_array t w xs v = (Inr (), v') \<Longrightarrow> v' = array_value t w xs \<and> length xs < 255"
  by (cases v) (auto simp: set_array_def create_array_eq array_value_def Let_def split: if_splits)

lemma set_array_content:
  "set_raw xs v = (Inr (), v') \<Longrightarrow> content_of v' = Some (C_raw xs)"
  "set_string s v = (Inr (), v') \<Longrightarrow> content_of v' = Some (C_string s)"
  "set_int32_array is v = (Inr (), v') \<Longrightarrow> content_of v' = Some (C_int32_array is)"
  "set_int64_array ls v = (Inr (), v') \<Longrightarrow> content_of v' = Some (C_int64_array ls)"
  by (auto simp: set_defs content_of_def dest!: set_array_Inr)

text \<open>A value with a content: its tag, and what the getter of that tag returns.\<close>

lemma content_getters:
  "content_of v = Some C_empty \<Longrightarrow> v_type v = vt_empty"
  "content_of v = Some (C_raw bs) \<Longrightarrow> v_type v = vt_raw \<and> get_raw v = Inr bs"
  "content_of v = Some (C_string s) \<Longrightarrow> v_type v = vt_string \<and> get_string v = Inr s"
  "content_of v = Some (C_boolean b) \<Longrightarrow> v_type v = vt_boolean \<and> get_boolean v = Inr b"
  "content_of v = Some (C_int32 x) \<Longrightarrow> v_type v = vt_integer32 \<and> get_int32 v = Inr x"
  "content_of v = Some (C_int64 y) \<Longrightarrow> v_type v = vt_integer64 \<and> get_int64 v = Inr y"
  "content_of v = Some (C_float x) \<Longrightarrow> v_type v = vt_floating_point32 \<and> get_float v = Inr x"
  "content_of v = Some (C_double y) \<Longrightarrow> v_type v = vt_floating_point64 \<and> get_double v = Inr y"
  "content_of v = Some (C_int32_array xs) \<Longrightarrow>
     v_type v = vt_integer32_array \<and> get_int32_array v = Inr xs"
  "content_of v = Some (C_int64_array ys) \<Longrightarrow>
     v_type v = vt_integer64_array \<and> get_int64_array v = Inr ys"
  "content_of v = Some (C_float_array xs) \<Longrightarrow>
     v_type v = vt_floating_point32_array \<and> get_float_array v = Inr xs"
  "content_of v = Some (C_double_array ys) \<Longrightarrow>
     v_type v = vt_floating_point64_array \<and> get_double_array v = Inr ys"
  by (auto simp: content_of_def result_option_def split: value_type.splits sum.splits)

end
