(* ===== verification/Obsr_Buffers.thy ===== *)
theory Obsr_Buffers
  imports Obsr_Types
begin

text \<open>
  The buffers of \<open>src/io/buffer.h\<close> and \<open>src/io/buffer.cpp\<close>: the virtual interfaces
  \<open>readable_buffer\<close> and \<open>writable_buffer\<close> as locales, and the three classes that implement them.
  A read returns the bytes it copied out, or \<open>None\<close> where the C++ function returns \<open>false\<close>.
  Positions and sizes are natural numbers; every subtraction of the code is \<open>size_sub\<close>, which wraps
  as \<open>size_t\<close> does.
\<close>

type_synonym 'b read_op = "'b \<Rightarrow> nat \<Rightarrow> bytes option \<times> 'b"
type_synonym 'b write_op = "'b \<Rightarrow> bytes \<Rightarrow> bool \<times> 'b"

section \<open>The interfaces\<close>

text \<open>
  \<open>unread b\<close> is what the buffer still holds for its reader. A read of what is there returns its
  front and consumes it; a longer read fails and changes nothing.
\<close>

locale readable_buffer =
  fixes rd :: "'b read_op"
    and unread :: "'b \<Rightarrow> bytes"
    and ok :: "'b \<Rightarrow> bool"
  assumes rd_enough: "ok b \<Longrightarrow> n \<le> length (unread b) \<Longrightarrow> fst (rd b n) = Some (take n (unread b))"
    and rd_rest: "ok b \<Longrightarrow> n \<le> length (unread b) \<Longrightarrow> unread (snd (rd b n)) = drop n (unread b)"
    and rd_short: "ok b \<Longrightarrow> length (unread b) < n \<Longrightarrow> rd b n = (None, b)"
    and rd_ok: "ok b \<Longrightarrow> ok (snd (rd b n))"
begin

lemma rd_front:
  assumes "ok b" and "unread b = xs @ rest" and "n = length xs"
  shows "\<exists>b'. rd b n = (Some xs, b') \<and> ok b' \<and> unread b' = rest"
proof -
  have "n \<le> length (unread b)" using assms by simp
  then show ?thesis
    using rd_enough [OF assms(1)] rd_rest [OF assms(1)] rd_ok [OF assms(1), of n] assms
    by (metis append_eq_conv_conj prod.collapse)
qed

lemma rd_Some:
  assumes "ok b" and "rd b n = (Some xs, b')"
  shows "unread b = xs @ unread b' \<and> length xs = n \<and> ok b'"
proof (cases "n \<le> length (unread b)")
  case True
  then show ?thesis
    using rd_enough [OF assms(1) True] rd_rest [OF assms(1) True] rd_ok [OF assms(1), of n] assms(2)
    by simp
next
  case False
  then show ?thesis using rd_short [OF assms(1), of n] assms(2) by simp
qed

text \<open>Two reads in a row return what one read of both lengths returns.\<close>

lemma rd_append:
  assumes "ok b" and "rd b n = (Some xs, b')" and "rd b' m = (Some ys, b'')"
  shows "fst (rd b (n + m)) = Some (xs @ ys) \<and> unread (snd (rd b (n + m))) = unread b''"
proof -
  from rd_Some [OF assms(1,2)] have 1: "unread b = xs @ unread b'" "length xs = n" "ok b'" by auto
  from rd_Some [OF 1(3) assms(3)] have 2: "unread b' = ys @ unread b''" "length ys = m" by auto
  have "unread b = (xs @ ys) @ unread b''" using 1 2 by simp
  from rd_front [OF assms(1) this, of "n + m"] 1 2 show ?thesis by auto
qed

end

text \<open>
  \<open>written b\<close> is what has been stored, \<open>room b\<close> how much more is guaranteed to fit. A write that
  fails changes nothing.
\<close>

locale writable_buffer =
  fixes wr :: "'b write_op"
    and written :: "'b \<Rightarrow> bytes"
    and room :: "'b \<Rightarrow> nat"
    and ok :: "'b \<Rightarrow> bool"
  assumes wr_fits: "ok b \<Longrightarrow> length xs \<le> room b \<Longrightarrow> fst (wr b xs)"
    and wr_written: "ok b \<Longrightarrow> length xs \<le> room b \<Longrightarrow> written (snd (wr b xs)) = written b @ xs"
    and wr_room: "ok b \<Longrightarrow> length xs \<le> room b \<Longrightarrow> room (snd (wr b xs)) = room b - length xs"
    and wr_fails: "ok b \<Longrightarrow> \<not> fst (wr b xs) \<Longrightarrow> snd (wr b xs) = b"
    and wr_ok: "ok b \<Longrightarrow> ok (snd (wr b xs))"
begin

lemma wr_app:
  assumes "ok b" and "length xs \<le> room b"
  shows "\<exists>b'. wr b xs = (True, b') \<and> ok b' \<and> written b' = written b @ xs \<and> room b' = room b - length xs"
  using wr_fits [OF assms] wr_written [OF assms] wr_room [OF assms] wr_ok [OF assms(1), of xs]
  by (cases "wr b xs") auto

end

text \<open>A buffer whose guaranteed room is also all the room there is.\<close>

locale bounded_writable_buffer = writable_buffer +
  assumes wr_full: "ok b \<Longrightarrow> room b < length xs \<Longrightarrow> wr b xs = (False, b)"
begin

lemma wr_True_iff: "ok b \<Longrightarrow> fst (wr b xs) \<longleftrightarrow> length xs \<le> room b"
  by (metis fst_conv linorder_not_less wr_fits wr_full)

lemma wr_True:
  assumes "ok b" and "wr b xs = (True, b')"
  shows "written b' = written b @ xs \<and> length xs \<le> room b \<and> room b' = room b - length xs \<and> ok b'"
proof -
  have "length xs \<le> room b" using wr_True_iff [OF assms(1), of xs] assms(2) by simp
  then show ?thesis using wr_app [OF assms(1), of xs] assms(2) by auto
qed

end

text \<open>A first-in first-out buffer: what is written is what will be read.\<close>

locale fifo_buffer =
  readable_buffer rd content ok + writable_buffer wr content room ok
  for rd :: "'b read_op" and wr :: "'b write_op"
    and content :: "'b \<Rightarrow> bytes" and room :: "'b \<Rightarrow> nat" and ok :: "'b \<Rightarrow> bool"
begin

lemma write_then_read:
  assumes "ok b" and "content b = []" and "length xs \<le> room b"
  shows "\<exists>b'. wr b xs = (True, b') \<and> (\<exists>b''. rd b' (length xs) = (Some xs, b'') \<and> content b'' = [])"
proof -
  obtain b' where b': "wr b xs = (True, b')" "ok b'" "content b' = xs"
    using wr_app [OF assms(1,3)] assms(2) by auto
  then show ?thesis using rd_front [of b' xs "[]" "length xs"] by auto
qed

end

section \<open>\<open>readonly_buffer_view\<close>\<close>

record ro_view =
  rv_buffer :: bytes
  rv_read_pos :: nat
  rv_size :: nat

definition ro_view_new :: ro_view where
  "ro_view_new = \<lparr>rv_buffer = [], rv_read_pos = 0, rv_size = 0\<rparr>"

definition ro_view_reset :: "bytes \<Rightarrow> nat \<Rightarrow> ro_view \<Rightarrow> ro_view" where
  "ro_view_reset buffer sz v = v\<lparr>rv_buffer := buffer, rv_read_pos := 0, rv_size := sz\<rparr>"

definition ro_view_read :: "ro_view read_op" where
  "ro_view_read v sz =
     (let space_to_max = size_sub (rv_size v) (rv_read_pos v) in
      if sz > space_to_max then (None, v)
      else (Some (mem_read (rv_buffer v) (rv_read_pos v) sz), v\<lparr>rv_read_pos := rv_read_pos v + sz\<rparr>))"

definition ro_view_ok :: "ro_view \<Rightarrow> bool" where
  "ro_view_ok v \<longleftrightarrow> rv_read_pos v \<le> rv_size v \<and> rv_size v \<le> length (rv_buffer v)"

definition ro_view_unread :: "ro_view \<Rightarrow> bytes" where
  "ro_view_unread v = mem_read (rv_buffer v) (rv_read_pos v) (rv_size v - rv_read_pos v)"

lemma ro_view_reset_ok [simp]: "sz \<le> length buffer \<Longrightarrow> ro_view_ok (ro_view_reset buffer sz v)"
  by (simp add: ro_view_ok_def ro_view_reset_def)

lemma ro_view_reset_unread [simp]: "ro_view_unread (ro_view_reset buffer sz v) = take sz buffer"
  by (simp add: ro_view_unread_def ro_view_reset_def mem_read_def)

lemma ro_view_unread_length: "ro_view_ok v \<Longrightarrow> length (ro_view_unread v) = rv_size v - rv_read_pos v"
  by (auto simp: ro_view_ok_def ro_view_unread_def)

interpretation rov: readable_buffer ro_view_read ro_view_unread ro_view_ok
proof
  fix v n
  assume ok: "ro_view_ok v"
  then have pos: "rv_read_pos v \<le> rv_size v" by (simp add: ro_view_ok_def)
  show "fst (ro_view_read v n) = Some (take n (ro_view_unread v))"
    if "n \<le> length (ro_view_unread v)"
    using ok pos that
    by (simp add: ro_view_unread_length ro_view_read_def ro_view_unread_def mem_read_def min_absorb1)
  show "ro_view_unread (snd (ro_view_read v n)) = drop n (ro_view_unread v)"
    if "n \<le> length (ro_view_unread v)"
    using ok pos that
    by (simp add: ro_view_unread_length ro_view_read_def ro_view_unread_def mem_read_def
        drop_take add.commute diff_diff_add)
  show "ro_view_read v n = (None, v)" if "length (ro_view_unread v) < n"
    using ok pos that by (simp add: ro_view_unread_length ro_view_read_def)
  show "ro_view_ok (snd (ro_view_read v n))"
    using ok pos by (auto simp: ro_view_ok_def ro_view_read_def Let_def)
qed

section \<open>\<open>linear_buffer\<close>\<close>

record linear_buffer =
  lb_buffer :: bytes
  lb_write_pos :: nat
  lb_size :: nat

text \<open>\<open>new uint8_t[size]\<close> leaves the bytes indeterminate: \<open>junk\<close> is what they happen to be.\<close>

definition linear_new :: "(nat \<Rightarrow> u8) \<Rightarrow> nat \<Rightarrow> linear_buffer" where
  "linear_new junk sz = \<lparr>lb_buffer = map junk [0..<sz], lb_write_pos = 0, lb_size = sz\<rparr>"

definition linear_reset :: "linear_buffer \<Rightarrow> linear_buffer" where
  "linear_reset b = b\<lparr>lb_write_pos := 0\<rparr>"

definition linear_write :: "linear_buffer write_op" where
  "linear_write b xs =
     (let space_to_max = size_sub (lb_size b) (lb_write_pos b) in
      if length xs > space_to_max then (False, b)
      else (True, b\<lparr>lb_buffer := mem_write (lb_buffer b) (lb_write_pos b) xs,
                    lb_write_pos := lb_write_pos b + length xs\<rparr>))"

text \<open>What a caller of \<open>data()\<close> and \<open>pos()\<close> sees.\<close>

definition linear_data :: "linear_buffer \<Rightarrow> bytes" where
  "linear_data b = take (lb_write_pos b) (lb_buffer b)"

definition linear_ok :: "linear_buffer \<Rightarrow> bool" where
  "linear_ok b \<longleftrightarrow> length (lb_buffer b) = lb_size b \<and> lb_write_pos b \<le> lb_size b"

definition linear_room :: "linear_buffer \<Rightarrow> nat" where
  "linear_room b = lb_size b - lb_write_pos b"

lemma linear_new_ok [simp]: "linear_ok (linear_new junk sz)"
  by (simp add: linear_ok_def linear_new_def)

lemma linear_reset_simps [simp]:
  "linear_ok b \<Longrightarrow> linear_ok (linear_reset b)"
  "linear_data (linear_reset b) = []"
  "linear_room (linear_reset b) = lb_size b"
  "lb_size (linear_reset b) = lb_size b"
  by (simp_all add: linear_ok_def linear_reset_def linear_data_def linear_room_def)

lemma linear_write_size [simp]: "lb_size (snd (linear_write b xs)) = lb_size b"
  by (simp add: linear_write_def Let_def)

lemma linear_data_length [simp]: "linear_ok b \<Longrightarrow> length (linear_data b) = lb_write_pos b"
  by (simp add: linear_ok_def linear_data_def)

interpretation lin: bounded_writable_buffer linear_write linear_data linear_room linear_ok
  by unfold_locales
     (auto simp: linear_write_def linear_data_def linear_room_def linear_ok_def Let_def mem_write_def)

end
