(* ===== verification/Obsr_Circular.thy ===== *)
theory Obsr_Circular
  imports Obsr_Buffers
begin

text \<open>
  \<open>circular_buffer\<close> of \<open>src/io/buffer.cpp\<close>: the two positions into one block, the reads and writes
  that wrap around its end, the search for a byte, and the transfers from a readable and into a
  writable (a socket). The abstraction \<open>circ_content\<close> is the list of unread bytes; equal positions
  mean an empty buffer, so the block never holds more than \<open>size - 1\<close> bytes.
\<close>

section \<open>State and operations\<close>

record circular_buffer =
  cb_buffer :: bytes
  cb_read_pos :: nat
  cb_write_pos :: nat
  cb_size :: nat

definition circ_new :: "(nat \<Rightarrow> u8) \<Rightarrow> nat \<Rightarrow> circular_buffer" where
  "circ_new junk sz =
     \<lparr>cb_buffer = map junk [0..<sz], cb_read_pos = 0, cb_write_pos = 0, cb_size = sz\<rparr>"

definition circ_read_available :: "circular_buffer \<Rightarrow> nat" where
  "circ_read_available b =
     (if cb_write_pos b < cb_read_pos b
      then size_sub (cb_size b) (cb_read_pos b) + cb_write_pos b
      else size_sub (cb_write_pos b) (cb_read_pos b))"

definition circ_write_available :: "circular_buffer \<Rightarrow> nat" where
  "circ_write_available b =
     (if cb_write_pos b \<ge> cb_read_pos b
      then size_sub (cb_size b) (cb_write_pos b) + cb_write_pos b
      else size_sub (cb_read_pos b) (cb_write_pos b))"

definition circ_can_read :: "circular_buffer \<Rightarrow> nat \<Rightarrow> bool" where
  "circ_can_read b sz = (circ_read_available b \<ge> sz)"

definition circ_can_write :: "circular_buffer \<Rightarrow> nat \<Rightarrow> bool" where
  "circ_can_write b sz = (circ_write_available b \<ge> sz)"

definition circ_reset :: "circular_buffer \<Rightarrow> circular_buffer" where
  "circ_reset b = b\<lparr>cb_read_pos := 0, cb_write_pos := 0\<rparr>"

text \<open>\<open>memchr\<close>: the index of the first occurrence in a block.\<close>

fun memchr :: "u8 \<Rightarrow> bytes \<Rightarrow> nat option" where
  "memchr c [] = None"
| "memchr c (x # xs) = (if x = c then Some 0 else map_option Suc (memchr c xs))"

definition circ_find_and_seek_read :: "circular_buffer \<Rightarrow> u8 \<Rightarrow> bool \<times> circular_buffer" where
  "circ_find_and_seek_read b c =
     (if cb_write_pos b < cb_read_pos b then
        let space_to_max = size_sub (cb_size b) (cb_read_pos b) in
        case memchr c (mem_read (cb_buffer b) (cb_read_pos b) space_to_max) of
          Some i \<Rightarrow> (True, b\<lparr>cb_read_pos := cb_read_pos b + i\<rparr>)
        | None \<Rightarrow>
            if cb_write_pos b < 1 then (False, b)
            else (case memchr c (mem_read (cb_buffer b) 0 (cb_write_pos b)) of
                    None \<Rightarrow> (False, b\<lparr>cb_read_pos := cb_write_pos b\<rparr>)
                  | Some i \<Rightarrow> (True, b\<lparr>cb_read_pos := i\<rparr>))
      else
        let space = size_sub (cb_write_pos b) (cb_read_pos b) in
        case memchr c (mem_read (cb_buffer b) (cb_read_pos b) space) of
          None \<Rightarrow> (False, b\<lparr>cb_read_pos := cb_write_pos b\<rparr>)
        | Some i \<Rightarrow> (True, b\<lparr>cb_read_pos := cb_read_pos b + i\<rparr>))"

definition circ_seek_read :: "circular_buffer \<Rightarrow> nat \<Rightarrow> circular_buffer" where
  "circ_seek_read b offset =
     (let offset =
        (if cb_write_pos b < cb_read_pos b then
           let space_to_max = size_sub (cb_size b) (cb_read_pos b) in
           if offset > space_to_max \<and> offset > space_to_max + cb_write_pos b
           then space_to_max + cb_write_pos b else offset
         else
           let space = size_sub (cb_write_pos b) (cb_read_pos b) in
           if offset > space then space else offset)
      in b\<lparr>cb_read_pos := (cb_read_pos b + offset) mod cb_size b\<rparr>)"

definition circ_read :: "circular_buffer read_op" where
  "circ_read b sz =
     (let advance = b\<lparr>cb_read_pos := (cb_read_pos b + sz) mod cb_size b\<rparr> in
      if sz > cb_size b then (None, b)
      else if cb_write_pos b < cb_read_pos b then
        let space_to_max = size_sub (cb_size b) (cb_read_pos b) in
        if sz < space_to_max then (Some (mem_read (cb_buffer b) (cb_read_pos b) sz), advance)
        else if sz > space_to_max + cb_write_pos b then (None, b)
        else (Some (mem_read (cb_buffer b) (cb_read_pos b) space_to_max @
                    mem_read (cb_buffer b) 0 (size_sub sz space_to_max)), advance)
      else
        let space = size_sub (cb_write_pos b) (cb_read_pos b) in
        if sz > space then (None, b)
        else (Some (mem_read (cb_buffer b) (cb_read_pos b) sz), advance))"

definition circ_write :: "circular_buffer write_op" where
  "circ_write b xs =
     (let sz = length xs; new_pos = (cb_write_pos b + sz) mod cb_size b in
      if sz > cb_size b then (False, b)
      else if cb_write_pos b \<ge> cb_read_pos b then
        let space_to_max = size_sub (cb_size b) (cb_write_pos b) in
        if sz < space_to_max
        then (True, b\<lparr>cb_buffer := mem_write (cb_buffer b) (cb_write_pos b) xs, cb_write_pos := new_pos\<rparr>)
        else if sz > space_to_max + cb_read_pos b then (False, b)
        else (True, b\<lparr>cb_buffer :=
                        mem_write (mem_write (cb_buffer b) (cb_write_pos b) (take space_to_max xs))
                          0 (drop space_to_max xs),
                      cb_write_pos := new_pos\<rparr>)
      else
        let space = size_sub (cb_read_pos b) (cb_write_pos b) in
        if sz > space then (False, b)
        else (True, b\<lparr>cb_buffer := mem_write (cb_buffer b) (cb_write_pos b) xs, cb_write_pos := new_pos\<rparr>))"

text \<open>
  The transfers. \<open>os::readable::read\<close> and \<open>os::writable::write\<close> are virtual: they are parameters
  over the state of the socket, they may throw, and they return the bytes delivered or the number of
  bytes taken. The second request of \<open>read_from\<close> is for \<open>m_read_pos - 1\<close> bytes in \<open>size_t\<close>
  arithmetic.
\<close>

type_synonym 'r os_read = "'r \<Rightarrow> nat \<Rightarrow> (exn + bytes) \<times> 'r"
type_synonym 'r os_write = "'r \<Rightarrow> bytes \<Rightarrow> (exn + nat) \<times> 'r"

definition circ_read_from ::
  "'r os_read \<Rightarrow> circular_buffer \<Rightarrow> 'r \<Rightarrow> (exn + bool) \<times> circular_buffer \<times> 'r" where
  "circ_read_from rdf b r =
     (if cb_write_pos b \<ge> cb_read_pos b then
        let space = size_sub (cb_size b) (cb_write_pos b) in
        case rdf r space of
          (Inl e, r) \<Rightarrow> (Inl e, b, r)
        | (Inr xs, r) \<Rightarrow>
            let b = b\<lparr>cb_buffer := mem_write (cb_buffer b) (cb_write_pos b) xs\<rparr> in
            if length xs < space then (Inr True, b\<lparr>cb_write_pos := cb_write_pos b + length xs\<rparr>, r)
            else
              let space = size_sub (cb_read_pos b) 1 in
              if space \<ge> 1 then
                (case rdf r space of
                   (Inl e, r) \<Rightarrow> (Inl e, b, r)
                 | (Inr ys, r) \<Rightarrow>
                     (Inr True, b\<lparr>cb_buffer := mem_write (cb_buffer b) 0 ys, cb_write_pos := length ys\<rparr>, r))
              else (Inr False, b\<lparr>cb_write_pos := space\<rparr>, r)
      else
        let space = size_sub (cb_read_pos b) (cb_write_pos b) in
        if space \<ge> 1 then
          (case rdf r space of
             (Inl e, r) \<Rightarrow> (Inl e, b, r)
           | (Inr xs, r) \<Rightarrow>
               (Inr True, b\<lparr>cb_buffer := mem_write (cb_buffer b) (cb_write_pos b) xs,
                           cb_write_pos := cb_write_pos b + length xs\<rparr>, r))
        else (Inr False, b, r))"

definition circ_write_into ::
  "'w os_write \<Rightarrow> circular_buffer \<Rightarrow> 'w \<Rightarrow> (exn + bool) \<times> circular_buffer \<times> 'w" where
  "circ_write_into wrf b w =
     (if cb_write_pos b = cb_read_pos b then (Inr False, b, w)
      else if cb_write_pos b < cb_read_pos b then
        let space = size_sub (cb_size b) (cb_read_pos b) in
        if space < 1 then (Inr False, b, w)
        else case wrf w (mem_read (cb_buffer b) (cb_read_pos b) space) of
          (Inl e, w) \<Rightarrow> (Inl e, b, w)
        | (Inr n, w) \<Rightarrow>
            if n < space then (Inr True, b\<lparr>cb_read_pos := cb_read_pos b + n\<rparr>, w)
            else (case wrf w (mem_read (cb_buffer b) 0 (cb_write_pos b)) of
                    (Inl e, w) \<Rightarrow> (Inl e, b, w)
                  | (Inr n, w) \<Rightarrow> (Inr True, b\<lparr>cb_read_pos := n\<rparr>, w))
      else
        let space = size_sub (cb_write_pos b) (cb_read_pos b) in
        if space < 1 then (Inr False, b, w)
        else case wrf w (mem_read (cb_buffer b) (cb_read_pos b) space) of
          (Inl e, w) \<Rightarrow> (Inl e, b, w)
        | (Inr n, w) \<Rightarrow> (Inr True, b\<lparr>cb_read_pos := cb_read_pos b + n\<rparr>, w))"

section \<open>Invariant and abstraction\<close>

definition circ_ok :: "circular_buffer \<Rightarrow> bool" where
  "circ_ok b \<longleftrightarrow> length (cb_buffer b) = cb_size b \<and> cb_read_pos b < cb_size b \<and> cb_write_pos b < cb_size b"

definition circ_content :: "circular_buffer \<Rightarrow> bytes" where
  "circ_content b =
     (if cb_write_pos b < cb_read_pos b
      then drop (cb_read_pos b) (cb_buffer b) @ take (cb_write_pos b) (cb_buffer b)
      else take (cb_write_pos b - cb_read_pos b) (drop (cb_read_pos b) (cb_buffer b)))"

text \<open>The bytes that fit while the two positions stay apart.\<close>

definition circ_room :: "circular_buffer \<Rightarrow> nat" where
  "circ_room b = cb_size b - 1 - length (circ_content b)"

lemma circ_new_ok [simp]: "0 < sz \<Longrightarrow> circ_ok (circ_new junk sz)"
  by (simp add: circ_ok_def circ_new_def)

lemma circ_new_content [simp]: "circ_content (circ_new junk sz) = []"
  by (simp add: circ_content_def circ_new_def)

lemma circ_reset_ok [simp]: "circ_ok b \<Longrightarrow> circ_ok (circ_reset b)"
  by (auto simp: circ_ok_def circ_reset_def)

lemma circ_reset_content [simp]: "circ_content (circ_reset b) = []"
  by (simp add: circ_content_def circ_reset_def)

lemma length_circ_content:
  "circ_ok b \<Longrightarrow> length (circ_content b) = circ_read_available b"
  by (auto simp: circ_ok_def circ_content_def circ_read_available_def)

lemma circ_content_bound: "circ_ok b \<Longrightarrow> length (circ_content b) < cb_size b"
  by (auto simp: circ_ok_def circ_content_def)

lemma circ_can_read_iff: "circ_ok b \<Longrightarrow> circ_can_read b n \<longleftrightarrow> n \<le> length (circ_content b)"
  by (simp add: circ_can_read_def length_circ_content)

lemma mod_wrap: "a < m \<Longrightarrow> n \<le> m \<Longrightarrow> (a + n) mod m = (if a + n < m then a + n else a + n - m)" for m :: nat
  by (simp add: mod_if)

lemma memchr_None_iff: "memchr c xs = None \<longleftrightarrow> c \<notin> set xs"
  by (induction xs) auto

lemma memchr_SomeD:
  "memchr c xs = Some i \<Longrightarrow> i < length xs \<and> xs ! i = c \<and> c \<notin> set (take i xs)"
proof (induction xs arbitrary: i)
  case (Cons x xs)
  then show ?case by (cases i) (auto split: if_splits)
qed simp

section \<open>Reading and seeking\<close>

text \<open>The two shapes of a buffer: its content in one piece, or wrapped around the end.\<close>

lemma circ_linear:
  assumes "circ_ok b" and "cb_read_pos b \<le> cb_write_pos b"
  shows "circ_content b = take (cb_write_pos b - cb_read_pos b) (drop (cb_read_pos b) (cb_buffer b))"
    and "length (circ_content b) = cb_write_pos b - cb_read_pos b"
  using assms by (auto simp: circ_content_def circ_ok_def)

lemma circ_wrapped:
  assumes "circ_ok b" and "cb_write_pos b < cb_read_pos b"
  shows "circ_content b = drop (cb_read_pos b) (cb_buffer b) @ take (cb_write_pos b) (cb_buffer b)"
    and "length (circ_content b) = cb_size b - cb_read_pos b + cb_write_pos b"
  using assms by (auto simp: circ_content_def circ_ok_def)

text \<open>Moving the read position forward over \<open>n\<close> unread bytes drops them from the content.\<close>

lemma circ_advance:
  assumes "circ_ok b" and "n \<le> length (circ_content b)"
  shows "circ_content (b\<lparr>cb_read_pos := (cb_read_pos b + n) mod cb_size b\<rparr>) = drop n (circ_content b)"
proof (cases "cb_write_pos b < cb_read_pos b")
  case True
  note w = circ_wrapped [OF assms(1) True]
  have m: "(cb_read_pos b + n) mod cb_size b =
      (if cb_read_pos b + n < cb_size b then cb_read_pos b + n else cb_read_pos b + n - cb_size b)"
    using assms True w(2) by (intro mod_wrap) (auto simp: circ_ok_def)
  show ?thesis
    unfolding m w(1) using assms True w(2)
    by (auto simp: circ_ok_def circ_content_def drop_take add.commute)
next
  case False
  then have le: "cb_read_pos b \<le> cb_write_pos b" by simp
  note l = circ_linear [OF assms(1) le]
  have "cb_read_pos b + n < cb_size b"
    using assms le l(2) by (auto simp: circ_ok_def)
  then have m: "(cb_read_pos b + n) mod cb_size b = cb_read_pos b + n" by simp
  show ?thesis
    unfolding m l(1) using assms le l(2)
    by (auto simp: circ_ok_def circ_content_def drop_take add.commute)
qed

lemma circ_advance_ok: "circ_ok b \<Longrightarrow> circ_ok (b\<lparr>cb_read_pos := n mod cb_size b\<rparr>)"
  by (auto simp: circ_ok_def)

lemma circ_read_eq:
  assumes "circ_ok b"
  shows "circ_read b n =
     (if n \<le> length (circ_content b)
      then (Some (take n (circ_content b)), b\<lparr>cb_read_pos := (cb_read_pos b + n) mod cb_size b\<rparr>)
      else (None, b))"
proof (cases "cb_write_pos b < cb_read_pos b")
  case True
  from circ_wrapped [OF assms True] assms True show ?thesis
    by (auto simp: circ_ok_def circ_read_def Let_def mem_read_def min_def)
next
  case False
  then have "cb_read_pos b \<le> cb_write_pos b" by simp
  from circ_linear [OF assms this] assms this show ?thesis
    by (auto simp: circ_ok_def circ_read_def Let_def mem_read_def min_def)
qed

lemma circ_seek_eq:
  assumes "circ_ok b"
  shows "circ_seek_read b n =
     b\<lparr>cb_read_pos := (cb_read_pos b + min n (length (circ_content b))) mod cb_size b\<rparr>"
proof (cases "cb_write_pos b < cb_read_pos b")
  case True
  from circ_wrapped [OF assms True] assms True show ?thesis
    by (auto simp: circ_ok_def circ_seek_read_def Let_def min_def not_less)
next
  case False
  then have "cb_read_pos b \<le> cb_write_pos b" by simp
  from circ_linear [OF assms this] assms this show ?thesis
    by (auto simp: circ_ok_def circ_seek_read_def Let_def min_def)
qed

lemma circ_seek_content: "circ_ok b \<Longrightarrow> circ_content (circ_seek_read b n) = drop n (circ_content b)"
  by (simp add: circ_seek_eq circ_advance min_def)

lemma circ_seek_ok: "circ_ok b \<Longrightarrow> circ_ok (circ_seek_read b n)"
  by (simp add: circ_seek_eq circ_advance_ok)

text \<open>The search leaves the read position at the first occurrence, or gives up the unread bytes.\<close>

lemma memchr_append:
  "memchr c (xs @ ys) =
     (case memchr c xs of Some i \<Rightarrow> Some i | None \<Rightarrow> map_option (\<lambda>i. length xs + i) (memchr c ys))"
proof (induction xs)
  case Nil
  show ?case by (cases "memchr c ys") auto
next
  case (Cons x xs)
  then show ?case by (cases "memchr c ys") (auto split: option.splits)
qed

lemma drop_memchr: "memchr c xs = Some i \<Longrightarrow> drop i xs = dropWhile (\<lambda>x. x \<noteq> c) xs"
  by (induction xs arbitrary: i) (auto split: if_splits)

lemma circ_find_Some:
  assumes "circ_ok b" and "memchr c (circ_content b) = Some i"
  shows "circ_find_and_seek_read b c =
     (True, b\<lparr>cb_read_pos := (cb_read_pos b + i) mod cb_size b\<rparr>)"
proof -
  have i: "i < length (circ_content b)" using memchr_SomeD [OF assms(2)] by simp
  show ?thesis
  proof (cases "cb_write_pos b < cb_read_pos b")
    case True
    note w = circ_wrapped [OF assms(1) True]
    let ?front = "drop (cb_read_pos b) (cb_buffer b)" and ?rear = "take (cb_write_pos b) (cb_buffer b)"
    from assms(1) have ok: "length (cb_buffer b) = cb_size b" "cb_read_pos b < cb_size b"
      "cb_write_pos b < cb_size b" by (auto simp: circ_ok_def)
    show ?thesis
    proof (cases "memchr c ?front")
      case (Some j)
      then have j: "j = i" using assms(2) by (simp add: w memchr_append)
      have "cb_read_pos b + i < cb_size b" using memchr_SomeD [OF Some] ok j by auto
      with Some j True ok show ?thesis
        by (simp add: circ_find_and_seek_read_def mem_read_def)
    next
      case None
      then obtain j where j: "memchr c ?rear = Some j" and ij: "i = cb_size b - cb_read_pos b + j"
        using assms(2) ok by (auto simp: w memchr_append)
      have "j < cb_write_pos b" using memchr_SomeD [OF j] ok by auto
      then have "0 < cb_write_pos b" "(cb_read_pos b + i) mod cb_size b = j"
        using ok ij by auto
      with None j True ok show ?thesis
        by (simp add: circ_find_and_seek_read_def mem_read_def)
    qed
  next
    case False
    then have le: "cb_read_pos b \<le> cb_write_pos b" by simp
    note l = circ_linear [OF assms(1) le]
    have "cb_read_pos b + i < cb_size b"
      using assms(1) le l(2) i by (auto simp: circ_ok_def)
    then have m: "(cb_read_pos b + i) mod cb_size b = cb_read_pos b + i" by simp
    show ?thesis
      using assms le m by (simp add: l(1) circ_ok_def circ_find_and_seek_read_def mem_read_def)
  qed
qed

lemma circ_find_None:
  assumes "circ_ok b" and "memchr c (circ_content b) = None"
  shows "\<not> fst (circ_find_and_seek_read b c)"
    and "circ_ok (snd (circ_find_and_seek_read b c))"
    and "circ_content (snd (circ_find_and_seek_read b c)) = [] \<or>
         snd (circ_find_and_seek_read b c) = b"
proof -
  have "circ_find_and_seek_read b c = (False, b\<lparr>cb_read_pos := cb_write_pos b\<rparr>) \<or>
        circ_find_and_seek_read b c = (False, b)"
  proof (cases "cb_write_pos b < cb_read_pos b")
    case True
    with assms show ?thesis
      by (auto simp: circ_wrapped [OF assms(1) True] memchr_append circ_ok_def
          circ_find_and_seek_read_def Let_def mem_read_def split: option.splits)
  next
    case False
    then have le: "cb_read_pos b \<le> cb_write_pos b" by simp
    show ?thesis
      using assms le
      by (simp add: circ_linear(1) [OF assms(1) le] circ_ok_def circ_find_and_seek_read_def mem_read_def)
  qed
  then show "\<not> fst (circ_find_and_seek_read b c)"
    and "circ_ok (snd (circ_find_and_seek_read b c))"
    and "circ_content (snd (circ_find_and_seek_read b c)) = [] \<or>
         snd (circ_find_and_seek_read b c) = b"
    using assms(1) by (auto simp: circ_ok_def circ_content_def)
qed

lemma circ_find_spec:
  assumes "circ_ok b"
  shows "\<exists>b'. circ_find_and_seek_read b c = (c \<in> set (circ_content b), b') \<and> circ_ok b' \<and>
     (if c \<in> set (circ_content b) then circ_content b' = dropWhile (\<lambda>x. x \<noteq> c) (circ_content b)
      else circ_content b' = [] \<or> b' = b)"
proof (cases "memchr c (circ_content b)")
  case None
  with circ_find_None [OF assms None] show ?thesis
    by (cases "circ_find_and_seek_read b c") (auto simp: memchr_None_iff)
next
  case (Some i)
  then have "c \<in> set (circ_content b)" using memchr_None_iff [of c "circ_content b"] by auto
  moreover have "i \<le> length (circ_content b)" using memchr_SomeD [OF Some] by simp
  ultimately show ?thesis
    using circ_find_Some [OF assms Some] circ_advance [OF assms, of i] circ_advance_ok [OF assms]
      drop_memchr [OF Some]
    by auto
qed

text \<open>The size of the block never changes.\<close>

lemma circ_size [simp]:
  "cb_size (snd (circ_find_and_seek_read b c)) = cb_size b"
  "cb_size (circ_seek_read b n) = cb_size b"
  "cb_size (snd (circ_read b n)) = cb_size b"
  "cb_size (snd (circ_write b xs)) = cb_size b"
  by (simp_all add: circ_find_and_seek_read_def circ_seek_read_def circ_read_def circ_write_def Let_def
      split: option.split)

section \<open>Writing\<close>

lemma circ_write_too_long:
  assumes "circ_ok b" and "cb_size b < length (circ_content b) + length xs"
  shows "circ_write b xs = (False, b)"
proof (cases "cb_write_pos b < cb_read_pos b")
  case True
  from circ_wrapped(2) [OF assms(1) True] assms True show ?thesis
    by (auto simp: circ_ok_def circ_write_def Let_def)
next
  case False
  then have "cb_read_pos b \<le> cb_write_pos b" by simp
  from circ_linear(2) [OF assms(1) this] assms this show ?thesis
    by (auto simp: circ_ok_def circ_write_def Let_def)
qed

text \<open>What a write that fits does, in each of its three branches.\<close>

lemma circ_write_room:
  assumes ok: "circ_ok b" and fits: "length (circ_content b) + length xs < cb_size b"
  shows "fst (circ_write b xs) \<and> circ_ok (snd (circ_write b xs)) \<and>
     cb_size (snd (circ_write b xs)) = cb_size b \<and>
     circ_content (snd (circ_write b xs)) = circ_content b @ xs"
proof (cases "cb_write_pos b < cb_read_pos b")
  case True
  note w = circ_wrapped [OF ok True]
  from ok have o: "length (cb_buffer b) = cb_size b" "cb_read_pos b < cb_size b" "cb_write_pos b < cb_size b"
    by (auto simp: circ_ok_def)
  have lt: "cb_write_pos b + length xs < cb_read_pos b" using fits w(2) o by linarith
  then have "(cb_write_pos b + length xs) mod cb_size b = cb_write_pos b + length xs" using o by simp
  with lt True o have wr: "circ_write b xs =
      (True, b\<lparr>cb_buffer := mem_write (cb_buffer b) (cb_write_pos b) xs, cb_write_pos := cb_write_pos b + length xs\<rparr>)"
    by (simp add: circ_write_def Let_def)
  show ?thesis
    unfolding wr w(1) using lt o by (simp add: circ_ok_def circ_content_def mem_simps)
next
  case False
  then have le: "cb_read_pos b \<le> cb_write_pos b" by simp
  note l = circ_linear [OF ok le]
  from ok have o: "length (cb_buffer b) = cb_size b" "cb_read_pos b < cb_size b" "cb_write_pos b < cb_size b"
    by (auto simp: circ_ok_def)
  show ?thesis
  proof (cases "cb_write_pos b + length xs < cb_size b")
    case True
    then have "length xs < cb_size b - cb_write_pos b" by linarith
    with True le o have wr: "circ_write b xs =
        (True, b\<lparr>cb_buffer := mem_write (cb_buffer b) (cb_write_pos b) xs, cb_write_pos := cb_write_pos b + length xs\<rparr>)"
      by (simp add: circ_write_def Let_def)
    show ?thesis
      unfolding wr l(1) using True le o
      by (simp add: circ_ok_def circ_content_def mem_simps drop_take)
  next
    case False
    let ?stm = "cb_size b - cb_write_pos b"
    let ?b1 = "mem_write (cb_buffer b) (cb_write_pos b) (take ?stm xs)"
    have n: "?stm \<le> length xs" "length xs - ?stm < cb_read_pos b" using False fits l(2) le o by linarith+
    then have wp: "(cb_write_pos b + length xs) mod cb_size b = length xs - ?stm"
      using o le by (subst mod_wrap) auto
    have len1: "length ?b1 = cb_size b" using o n by (simp add: mem_simps)
    have d1: "drop (cb_read_pos b) ?b1 = drop (cb_read_pos b) (take (cb_write_pos b) (cb_buffer b)) @ take ?stm xs"
      using o le n by (simp add: mem_simps)
    have "\<not> length xs < ?stm" "\<not> ?stm + cb_read_pos b < length xs" "\<not> cb_size b < length xs"
      using n le o by linarith+
    then have w: "circ_write b xs = (True, b\<lparr>cb_buffer := mem_write ?b1 0 (drop ?stm xs), cb_write_pos := length xs - ?stm\<rparr>)"
      using n le o wp by (simp add: circ_write_def Let_def)
    show ?thesis
      unfolding w using n o le len1 d1
      by (simp add: circ_ok_def circ_content_def mem_simps l(1) drop_take)
  qed
qed

text \<open>A write that fills the block to the last byte: the positions meet and the content is lost.\<close>

lemma circ_write_full:
  assumes ok: "circ_ok b" and full: "length (circ_content b) + length xs = cb_size b"
  shows "fst (circ_write b xs) \<and> circ_ok (snd (circ_write b xs)) \<and>
     cb_size (snd (circ_write b xs)) = cb_size b \<and> circ_content (snd (circ_write b xs)) = []"
proof (cases "cb_write_pos b < cb_read_pos b")
  case True
  with circ_wrapped(2) [OF ok True] ok full
  have "cb_write_pos b + length xs = cb_read_pos b" by (auto simp: circ_ok_def)
  with True ok show ?thesis
    by (auto simp: circ_write_def circ_ok_def circ_content_def mem_simps)
next
  case False
  then have le: "cb_read_pos b \<le> cb_write_pos b" by simp
  from circ_linear(2) [OF ok le] ok full le
  have n: "length xs = cb_size b - cb_write_pos b + cb_read_pos b" by (simp add: circ_ok_def)
  have "(cb_write_pos b + length xs) mod cb_size b = cb_read_pos b"
    using n ok le by (subst mod_wrap) (auto simp: circ_ok_def)
  with n ok le show ?thesis
    by (auto simp: circ_write_def circ_ok_def circ_content_def mem_simps Let_def)
qed

lemma circ_write_iff:
  assumes "circ_ok b"
  shows "fst (circ_write b xs) \<longleftrightarrow> length (circ_content b) + length xs \<le> cb_size b"
  using assms circ_write_too_long circ_write_room circ_write_full
  by (metis fst_conv le_neq_implies_less not_le)

lemma circ_write_ok: "circ_ok b \<Longrightarrow> circ_ok (snd (circ_write b xs))"
  by (metis circ_write_full circ_write_room circ_write_too_long linorder_neqE_nat snd_conv)

interpretation circ: fifo_buffer circ_read circ_write circ_content circ_room circ_ok
proof
  fix b and n :: nat and xs :: bytes
  assume ok: "circ_ok b"
  show "fst (circ_read b n) = Some (take n (circ_content b))" if "n \<le> length (circ_content b)"
    using that by (simp add: circ_read_eq [OF ok])
  show "circ_content (snd (circ_read b n)) = drop n (circ_content b)" if "n \<le> length (circ_content b)"
    using that by (simp add: circ_read_eq [OF ok] circ_advance [OF ok])
  show "circ_read b n = (None, b)" if "length (circ_content b) < n"
    using that by (simp add: circ_read_eq [OF ok])
  show "circ_ok (snd (circ_read b n))"
    by (simp add: circ_read_eq [OF ok] circ_advance_ok [OF ok] ok)
  have bound: "length (circ_content b) < cb_size b" by (rule circ_content_bound [OF ok])
  show "fst (circ_write b xs)" if "length xs \<le> circ_room b"
    using that bound circ_write_room [OF ok, of xs] by (simp add: circ_room_def)
  show "circ_content (snd (circ_write b xs)) = circ_content b @ xs" if "length xs \<le> circ_room b"
    using that bound circ_write_room [OF ok, of xs] by (simp add: circ_room_def)
  show "circ_room (snd (circ_write b xs)) = circ_room b - length xs" if "length xs \<le> circ_room b"
    using that bound circ_write_room [OF ok, of xs] by (simp add: circ_room_def)
  show "snd (circ_write b xs) = b" if "\<not> fst (circ_write b xs)"
    using that circ_write_iff [OF ok, of xs] circ_write_too_long [OF ok, of xs] by simp
  show "circ_ok (snd (circ_write b xs))" by (rule circ_write_ok [OF ok])
qed

section \<open>Transfers from and to a socket\<close>

text \<open>
  What the code relies on of the objects behind \<open>readable\<close> and \<open>writable\<close>: a read delivers the
  front of the bytes that are pending, at most as many as asked for; a write takes a front of the
  bytes it is given.
\<close>

definition delivers :: "'r os_read \<Rightarrow> ('r \<Rightarrow> bytes) \<Rightarrow> bool" where
  "delivers rdf pending \<longleftrightarrow>
     (\<forall>r n xs r'. rdf r n = (Inr xs, r') \<longrightarrow> length xs \<le> n \<and> pending r = xs @ pending r')"

definition accepts :: "'w os_write \<Rightarrow> ('w \<Rightarrow> bytes) \<Rightarrow> bool" where
  "accepts wrf taken \<longleftrightarrow>
     (\<forall>w xs n w'. wrf w xs = (Inr n, w') \<longrightarrow> n \<le> length xs \<and> taken w' = taken w @ take n xs)"

lemma deliversD:
  "delivers rdf pending \<Longrightarrow> rdf r n = (Inr xs, r') \<Longrightarrow> length xs \<le> n \<and> pending r = xs @ pending r'"
  by (simp add: delivers_def)

lemma acceptsD:
  "accepts wrf taken \<Longrightarrow> wrf w xs = (Inr n, w') \<Longrightarrow> n \<le> length xs \<and> taken w' = taken w @ take n xs"
  by (simp add: accepts_def)

text \<open>A source that hands out a byte string, and a sink that records what it takes.\<close>

definition stream_read :: "bytes os_read" where
  "stream_read r n = (Inr (take n r), drop n r)"

definition stream_write :: "nat \<Rightarrow> bytes os_write" where
  "stream_write k w xs = (Inr (min k (length xs)), w @ take k xs)"

lemma stream_read_delivers: "delivers stream_read (\<lambda>r. r)"
  by (auto simp: delivers_def stream_read_def)

lemma stream_write_accepts: "accepts (stream_write k) (\<lambda>w. w)"
  by (auto simp: accepts_def stream_write_def min_def)

text \<open>Bytes stored behind the write position, without reaching the read position.\<close>

lemma circ_store:
  assumes ok: "circ_ok b"
    and fits: "if cb_write_pos b < cb_read_pos b then cb_write_pos b + length xs < cb_read_pos b
               else cb_write_pos b + length xs < cb_size b"
  defines "b' \<equiv> b\<lparr>cb_buffer := mem_write (cb_buffer b) (cb_write_pos b) xs,
                   cb_write_pos := cb_write_pos b + length xs\<rparr>"
  shows "circ_ok b' \<and> circ_content b' = circ_content b @ xs"
proof (cases "cb_write_pos b < cb_read_pos b")
  case True
  with fits ok show ?thesis
    by (simp add: b'_def circ_ok_def circ_content_def mem_simps)
next
  case False
  with fits ok show ?thesis
    by (auto simp: b'_def circ_ok_def circ_content_def mem_simps drop_take)
qed

text \<open>A full first part, then a second part that stays behind the read position.\<close>

lemma circ_store_wrap:
  assumes ok: "circ_ok b" and le: "cb_read_pos b \<le> cb_write_pos b"
    and n: "length xs = cb_size b - cb_write_pos b" and m: "length ys < cb_read_pos b"
  defines "b' \<equiv> b\<lparr>cb_buffer := mem_write (mem_write (cb_buffer b) (cb_write_pos b) xs) 0 ys,
                   cb_write_pos := length ys\<rparr>"
  shows "circ_ok b' \<and> circ_content b' = circ_content b @ xs @ ys"
proof -
  from ok have o: "length (cb_buffer b) = cb_size b" "cb_read_pos b < cb_size b" "cb_write_pos b < cb_size b"
    by (auto simp: circ_ok_def)
  have len1: "length (mem_write (cb_buffer b) (cb_write_pos b) xs) = cb_size b"
    using o n by (simp add: mem_simps)
  show ?thesis
    unfolding b'_def using n m o le len1
    by (simp add: circ_ok_def circ_content_def mem_simps circ_linear(1) [OF ok le] drop_take)
qed

lemma circ_read_from_conserves:
  assumes ok: "circ_ok b" and law: "delivers rdf pending"
    and ret: "circ_read_from rdf b r = (Inr res, b', r')"
    and safe: "if cb_write_pos b < cb_read_pos b
               then length (pending r) < cb_read_pos b - cb_write_pos b
               else 0 < cb_read_pos b \<or> length (pending r) < cb_size b - cb_write_pos b"
  shows "circ_ok b' \<and> circ_content b' @ pending r' = circ_content b @ pending r"
proof (cases "cb_write_pos b < cb_read_pos b")
  case True
  then obtain xs where xs: "rdf r (cb_read_pos b - cb_write_pos b) = (Inr xs, r')"
    and b': "b' = b\<lparr>cb_buffer := mem_write (cb_buffer b) (cb_write_pos b) xs,
                  cb_write_pos := cb_write_pos b + length xs\<rparr>"
    using ret by (auto simp: circ_read_from_def Let_def split: prod.splits sum.splits if_splits)
  from deliversD [OF law xs] have p: "pending r = xs @ pending r'" by simp
  with safe True have "cb_write_pos b + length xs < cb_read_pos b" by simp
  with circ_store [OF ok, of xs] True b' p show ?thesis by simp
next
  case False
  then have le: "cb_read_pos b \<le> cb_write_pos b" by simp
  let ?space = "cb_size b - cb_write_pos b"
  have o: "cb_write_pos b < cb_size b" using ok by (simp add: circ_ok_def)
  then have sub: "size_sub (cb_size b) (cb_write_pos b) = ?space" by simp
  obtain a r1 where a: "rdf r ?space = (a, r1)" by (cases "rdf r ?space")
  with ret le obtain xs where "a = Inr xs" by (cases a) (auto simp: circ_read_from_def sub)
  with a have xs: "rdf r ?space = (Inr xs, r1)" by simp
  from deliversD [OF law xs] have p: "pending r = xs @ pending r1" and n: "length xs \<le> ?space"
    by simp_all
  show ?thesis
  proof (cases "length xs < ?space")
    case True
    then have b': "b' = b\<lparr>cb_buffer := mem_write (cb_buffer b) (cb_write_pos b) xs,
        cb_write_pos := cb_write_pos b + length xs\<rparr>" and r': "r' = r1"
      using ret le xs by (auto simp: circ_read_from_def sub)
    with circ_store [OF ok, of xs] True False p show ?thesis by simp
  next
    case short: False
    with n p safe False have full: "length xs = ?space" and rp: "0 < cb_read_pos b" by auto
    then have sub1: "size_sub (cb_read_pos b) 1 = cb_read_pos b - 1" by simp
    show ?thesis
    proof (cases "cb_read_pos b = 1")
      case True
      then have "b' = b\<lparr>cb_buffer := mem_write (mem_write (cb_buffer b) (cb_write_pos b) xs) 0 [],
          cb_write_pos := length ([] :: bytes)\<rparr>" and r': "r' = r1"
        using ret le xs full by (auto simp: circ_read_from_def sub)
      with circ_store_wrap [OF ok le full, of "[]"] rp p show ?thesis by simp
    next
      case False
      with rp obtain ys where ys: "rdf r1 (cb_read_pos b - 1) = (Inr ys, r')"
        and b': "b' = b\<lparr>cb_buffer := mem_write (mem_write (cb_buffer b) (cb_write_pos b) xs) 0 ys,
            cb_write_pos := length ys\<rparr>"
        using ret le xs full sub1
        by (auto simp: circ_read_from_def sub Let_def split: prod.splits sum.splits if_splits)
      from deliversD [OF law ys] rp have "pending r1 = ys @ pending r'" and "length ys < cb_read_pos b"
        by auto
      with circ_store_wrap [OF ok le full, of ys] b' p show ?thesis by simp
    qed
  qed
qed

lemma circ_write_into_conserves:
  assumes ok: "circ_ok b" and law: "accepts wrf taken"
    and ret: "circ_write_into wrf b w = (Inr res, b', w')"
  shows "circ_ok b' \<and> taken w' @ circ_content b' = taken w @ circ_content b"
proof -
  from ok have o: "length (cb_buffer b) = cb_size b" "cb_read_pos b < cb_size b" "cb_write_pos b < cb_size b"
    by (auto simp: circ_ok_def)
  consider (empty) "cb_write_pos b = cb_read_pos b" | (wrap) "cb_write_pos b < cb_read_pos b"
    | (lin) "cb_read_pos b < cb_write_pos b" by linarith
  then show ?thesis
  proof cases
    case empty
    with ret ok show ?thesis by (auto simp: circ_write_into_def)
  next
    case lin
    let ?xs = "mem_read (cb_buffer b) (cb_read_pos b) (cb_write_pos b - cb_read_pos b)"
    from lin ret obtain n where n: "wrf w ?xs = (Inr n, w')" and b': "b' = b\<lparr>cb_read_pos := cb_read_pos b + n\<rparr>"
      by (auto simp: circ_write_into_def Let_def split: prod.splits sum.splits)
    from acceptsD [OF law n] have t: "n \<le> length ?xs" "taken w' = taken w @ take n ?xs" by blast+
    have c: "circ_content b = ?xs" using lin o by (simp add: circ_content_def mem_read_def)
    have "(cb_read_pos b + n) mod cb_size b = cb_read_pos b + n" using t(1) lin o by simp
    then show ?thesis
      using circ_advance [OF ok, of n] circ_advance_ok [OF ok, of "cb_read_pos b + n"] t c b' by simp
  next
    case wrap
    let ?front = "mem_read (cb_buffer b) (cb_read_pos b) (cb_size b - cb_read_pos b)"
    let ?rear = "mem_read (cb_buffer b) 0 (cb_write_pos b)"
    have c: "circ_content b = ?front @ ?rear"
      using wrap o by (simp add: circ_content_def mem_read_def)
    have len: "length ?front = cb_size b - cb_read_pos b" using o by simp
    from wrap o ret obtain n w1 where n: "wrf w ?front = (Inr n, w1)"
      by (auto simp: circ_write_into_def Let_def split: prod.splits sum.splits)
    from acceptsD [OF law n] have t: "n \<le> length ?front" "taken w1 = taken w @ take n ?front" by blast+
    show ?thesis
    proof (cases "n < cb_size b - cb_read_pos b")
      case True
      then have b': "b' = b\<lparr>cb_read_pos := cb_read_pos b + n\<rparr>" "w' = w1"
        using wrap o ret n by (auto simp: circ_write_into_def Let_def)
      have "(cb_read_pos b + n) mod cb_size b = cb_read_pos b + n" using True by simp
      then show ?thesis
        using circ_advance [OF ok, of n] circ_advance_ok [OF ok, of "cb_read_pos b + n"] t c b' True len
        by simp
    next
      case False
      with t(1) len have full: "n = length ?front" by simp
      obtain m where m: "wrf w1 ?rear = (Inr m, w')" and b': "b' = b\<lparr>cb_read_pos := m\<rparr>"
        using wrap o ret n False by (auto simp: circ_write_into_def Let_def split: prod.splits sum.splits)
      from acceptsD [OF law m] have u: "m \<le> length ?rear" "taken w' = taken w1 @ take m ?rear" by blast+
      have mb: "m \<le> cb_write_pos b" using u(1) by simp
      then have "circ_ok b'" and "circ_content b' = drop m ?rear"
        using o b' wrap by (auto simp: circ_ok_def circ_content_def mem_read_def drop_take)
      then show ?thesis using c t u full by simp
    qed
  qed
qed

end
