(* ===== verification/Obsr_Wire.thy ===== *)
theory Obsr_Wire
  imports Obsr_Circular
begin

text \<open>
  Byte order (\<open>src/util/bits.h\<close>) and the serializer and deserializer of integers, strings, arrays
  and values (\<open>src/io/serialize.h\<close>, \<open>src/io/serialize.cpp\<close>). The host is little-endian, the wire
  big-endian. Both classes work on the virtual buffer interfaces, so their operations take the
  buffer's read or write as a parameter; floating point numbers are their bit patterns.
\<close>

section \<open>Byte order\<close>

definition bswap :: "nat \<Rightarrow> 'a::len word \<Rightarrow> 'a word" where
  "bswap n w = of_le (rev (le_bytes n w))"

definition net16 :: "u16 \<Rightarrow> u16" where "net16 v = bswap 2 v"
definition net32 :: "u32 \<Rightarrow> u32" where "net32 v = bswap 4 v"
definition net64 :: "u64 \<Rightarrow> u64" where "net64 v = bswap 8 v"
definition host16 :: "u16 \<Rightarrow> u16" where "host16 v = bswap 2 v"
definition host32 :: "u32 \<Rightarrow> u32" where "host32 v = bswap 4 v"
definition host64 :: "u64 \<Rightarrow> u64" where "host64 v = bswap 8 v"

definition be_bytes :: "nat \<Rightarrow> 'a::len word \<Rightarrow> bytes" where
  "be_bytes n w = rev (le_bytes n w)"

lemma length_be_bytes [simp, wire_simps]: "length (be_bytes n w) = n"
  by (simp add: be_bytes_def)

lemma le_bytes_bswap: "8 * n \<le> LENGTH('a) \<Longrightarrow> le_bytes n (bswap n (w :: 'a::len word)) = be_bytes n w"
  by (simp add: bswap_def be_bytes_def le_bytes_of_le')

lemma bswap_of_be:
  "8 * n = LENGTH('a) \<Longrightarrow> bswap n (of_le (be_bytes n w)) = (w :: 'a::len word)"
  by (simp add: bswap_def be_bytes_def le_bytes_of_le' of_le_le_bytes)

lemma net_bytes [wire_simps]:
  "le_bytes 2 (net16 v) = be_bytes 2 v"
  "le_bytes 4 (net32 x) = be_bytes 4 x"
  "le_bytes 8 (net64 y) = be_bytes 8 y"
  by (simp_all add: net16_def net32_def net64_def le_bytes_bswap)

lemma host_bytes [wire_simps]:
  "host16 (of_le (be_bytes 2 v)) = v"
  "host32 (of_le (be_bytes 4 x)) = x"
  "host64 (of_le (be_bytes 8 y)) = y"
  by (simp_all add: host16_def host32_def host64_def bswap_of_be)

lemma byte_of_le [wire_simps]: "of_le (le_bytes 1 (b :: u8)) = b"
  by (simp add: of_le_le_bytes)

lemma bswap_bswap: "8 * n = LENGTH('a) \<Longrightarrow> bswap n (bswap n w) = (w :: 'a::len word)"
  by (simp add: bswap_def le_bytes_of_le' of_le_le_bytes)

lemma byte_of_le': "of_le [b] = (b :: u8)"
  using byte_of_le [of b] by simp

lemma host_net [simp]: "host16 (net16 v) = v" "host32 (net32 x) = x" "host64 (net64 y) = y"
  by (simp_all add: net16_def net32_def net64_def host16_def host32_def host64_def bswap_bswap)

section \<open>\<open>deserializer\<close>\<close>

text \<open>\<open>ds_data_size\<close> is the size of the scratch block, \<open>None\<close> before the first allocation.\<close>

record 'b deserializer =
  ds_buffer :: 'b
  ds_data_size :: "nat option"

type_synonym ('b, 'x) decoder = "'b deserializer \<Rightarrow> 'x option \<times> 'b deserializer"

definition deserializer_new :: "'b \<Rightarrow> 'b deserializer" where
  "deserializer_new b = \<lparr>ds_buffer = b, ds_data_size = None\<rparr>"

definition expand_buffer :: "nat \<Rightarrow> 'b deserializer \<Rightarrow> 'b deserializer" where
  "expand_buffer sz d =
     (case ds_data_size d of
        Some n \<Rightarrow> (if n \<ge> sz then d else d\<lparr>ds_data_size := Some sz\<rparr>)
      | None \<Rightarrow> d\<lparr>ds_data_size := Some sz\<rparr>)"

definition read_mem :: "'b read_op \<Rightarrow> nat \<Rightarrow> ('b, bytes) decoder" where
  "read_mem rd n d = (case rd (ds_buffer d) n of (r, b) \<Rightarrow> (r, d\<lparr>ds_buffer := b\<rparr>))"

text \<open>The template \<open>read<t_>\<close>: \<open>sizeof(t_)\<close> bytes into the object, in memory order.\<close>

definition read_object :: "'b read_op \<Rightarrow> nat \<Rightarrow> ('b, 'a::len word) decoder" where
  "read_object rd n d = (case read_mem rd n d of (r, d) \<Rightarrow> (map_option of_le r, d))"

definition read8 :: "'b read_op \<Rightarrow> ('b, u8) decoder" where
  "read8 rd d = read_object rd 1 d"

definition read16 :: "'b read_op \<Rightarrow> ('b, u16) decoder" where
  "read16 rd d = (case read_object rd 2 d of (r, d) \<Rightarrow> (map_option host16 r, d))"

definition read32 :: "'b read_op \<Rightarrow> ('b, u32) decoder" where
  "read32 rd d = (case read_object rd 4 d of (r, d) \<Rightarrow> (map_option host32 r, d))"

definition read64 :: "'b read_op \<Rightarrow> ('b, u64) decoder" where
  "read64 rd d = (case read_object rd 8 d of (r, d) \<Rightarrow> (map_option host64 r, d))"

definition readf32 :: "'b read_op \<Rightarrow> ('b, u32) decoder" where
  "readf32 rd d = read32 rd d"

text \<open>
  The union of \<open>readf64\<close> pairs the double with a \<open>uint32_t\<close>: only the low half of the 64 bits read
  is stored, over a zeroed double.
\<close>

definition readf64 :: "'b read_op \<Rightarrow> ('b, u64) decoder" where
  "readf64 rd d = (case read64 rd d of (r, d) \<Rightarrow> (map_option (\<lambda>w. ucast (ucast w :: u32)) r, d))"

definition read_size :: "'b read_op \<Rightarrow> ('b, nat) decoder" where
  "read_size rd d = (case read8 rd d of (r, d) \<Rightarrow> (map_option unat r, d))"

definition read_raw :: "'b read_op \<Rightarrow> ('b, bytes) decoder" where
  "read_raw rd d =
     (case read_size rd d of
        (None, d) \<Rightarrow> (None, d)
      | (Some sz, d) \<Rightarrow> read_mem rd sz (expand_buffer sz d))"

definition read_str :: "'b read_op \<Rightarrow> ('b, string) decoder" where
  "read_str rd d = (case read_raw rd d of (r, d) \<Rightarrow> (map_option string_of_bytes r, d))"

text \<open>The loop of the array readers: \<open>n\<close> elements, giving up at the first that fails.\<close>

fun read_elems :: "('b, 'x) decoder \<Rightarrow> nat \<Rightarrow> ('b, 'x list) decoder" where
  "read_elems p 0 d = (Some [], d)"
| "read_elems p (Suc n) d =
     (case p d of
        (None, d) \<Rightarrow> (None, d)
      | (Some x, d) \<Rightarrow>
          (case read_elems p n d of
             (None, d) \<Rightarrow> (None, d)
           | (Some xs, d) \<Rightarrow> (Some (x # xs), d)))"

definition read_arr_i32 :: "'b read_op \<Rightarrow> ('b, u32 list) decoder" where
  "read_arr_i32 rd d =
     (case read_size rd d of
        (None, d) \<Rightarrow> (None, d)
      | (Some sz, d) \<Rightarrow> read_elems (read32 rd) sz (expand_buffer (sz * 4) d))"

definition read_arr_i64 :: "'b read_op \<Rightarrow> ('b, u64 list) decoder" where
  "read_arr_i64 rd d =
     (case read_size rd d of
        (None, d) \<Rightarrow> (None, d)
      | (Some sz, d) \<Rightarrow> read_elems (read64 rd) sz (expand_buffer (sz * 8) d))"

definition read_arr_f32 :: "'b read_op \<Rightarrow> ('b, u32 list) decoder" where
  "read_arr_f32 rd d =
     (case read_size rd d of
        (None, d) \<Rightarrow> (None, d)
      | (Some sz, d) \<Rightarrow> read_elems (readf32 rd) sz (expand_buffer (sz * 4) d))"

definition read_arr_f64 :: "'b read_op \<Rightarrow> ('b, u64 list) decoder" where
  "read_arr_f64 rd d =
     (case read_size rd d of
        (None, d) \<Rightarrow> (None, d)
      | (Some sz, d) \<Rightarrow> read_elems (readf64 rd) sz (expand_buffer (sz * 8) d))"

text \<open>\<open>read_value\<close>: the factories may throw, which leaves the function.\<close>

definition made_value ::
  "('x \<Rightarrow> exn + obsr_value) \<Rightarrow> 'x option \<times> 'd \<Rightarrow> (exn + obsr_value option) \<times> 'd" where
  "made_value f r =
     (case r of
        (None, d) \<Rightarrow> (Inr None, d)
      | (Some x, d) \<Rightarrow> (map_sum id Some (f x), d))"

definition read_value ::
  "'b read_op \<Rightarrow> value_type \<Rightarrow> 'b deserializer \<Rightarrow> (exn + obsr_value option) \<times> 'b deserializer" where
  "read_value rd t d =
     (case t of
        vt_raw \<Rightarrow> made_value make_raw (read_raw rd d)
      | vt_string \<Rightarrow> made_value make_string (read_str rd d)
      | vt_boolean \<Rightarrow> made_value (\<lambda>b. Inr (make_boolean (b \<noteq> 0))) (read8 rd d)
      | vt_integer32 \<Rightarrow> made_value (\<lambda>x. Inr (make_int32 x)) (read32 rd d)
      | vt_integer64 \<Rightarrow> made_value (\<lambda>x. Inr (make_int64 x)) (read64 rd d)
      | vt_floating_point32 \<Rightarrow> made_value (\<lambda>x. Inr (make_float x)) (readf32 rd d)
      | vt_floating_point64 \<Rightarrow> made_value (\<lambda>x. Inr (make_double x)) (readf64 rd d)
      | vt_integer32_array \<Rightarrow> made_value make_int32_array (read_arr_i32 rd d)
      | vt_integer64_array \<Rightarrow> made_value make_int64_array (read_arr_i64 rd d)
      | vt_floating_point32_array \<Rightarrow> made_value make_float_array (read_arr_f32 rd d)
      | vt_floating_point64_array \<Rightarrow> made_value make_double_array (read_arr_f64 rd d)
      | vt_empty \<Rightarrow> (Inr (Some value_make), d)
      | vt_unnamed _ \<Rightarrow> (Inr None, d))"

section \<open>\<open>serializer\<close>\<close>

type_synonym 'b encoder = "'b \<Rightarrow> bool \<times> 'b"

definition is_within_size_limits :: "nat \<Rightarrow> bool" where
  "is_within_size_limits sz = (if sz \<ge> 255 then False else True)"

text \<open>\<open>if (!p()) return false; return q();\<close>\<close>

definition seq_write :: "'b encoder \<Rightarrow> 'b encoder \<Rightarrow> 'b encoder" where
  "seq_write p q b = (case p b of (False, b) \<Rightarrow> (False, b) | (True, b) \<Rightarrow> q b)"

definition write_object :: "'b write_op \<Rightarrow> nat \<Rightarrow> 'a::len word \<Rightarrow> 'b encoder" where
  "write_object wr n v b = wr b (le_bytes n v)"

definition write8 :: "'b write_op \<Rightarrow> u8 \<Rightarrow> 'b encoder" where
  "write8 wr v = write_object wr 1 v"

definition write16 :: "'b write_op \<Rightarrow> u16 \<Rightarrow> 'b encoder" where
  "write16 wr v = write_object wr 2 (net16 v)"

definition write32 :: "'b write_op \<Rightarrow> u32 \<Rightarrow> 'b encoder" where
  "write32 wr v = write_object wr 4 (net32 v)"

definition write64 :: "'b write_op \<Rightarrow> u64 \<Rightarrow> 'b encoder" where
  "write64 wr v = write_object wr 8 (net64 v)"

definition writef32 :: "'b write_op \<Rightarrow> u32 \<Rightarrow> 'b encoder" where
  "writef32 wr v = write32 wr v"

definition writef64 :: "'b write_op \<Rightarrow> u64 \<Rightarrow> 'b encoder" where
  "writef64 wr v = write64 wr v"

definition write_size :: "'b write_op \<Rightarrow> nat \<Rightarrow> 'b encoder" where
  "write_size wr n b = (if \<not> is_within_size_limits n then (False, b) else write8 wr (of_nat n) b)"

definition write_raw :: "'b write_op \<Rightarrow> bytes \<Rightarrow> 'b encoder" where
  "write_raw wr xs = seq_write (write_size wr (length xs)) (\<lambda>b. wr b xs)"

definition write_str :: "'b write_op \<Rightarrow> string \<Rightarrow> 'b encoder" where
  "write_str wr s = write_raw wr (bytes_of_string s)"

fun write_elems :: "('x \<Rightarrow> 'b encoder) \<Rightarrow> 'x list \<Rightarrow> 'b encoder" where
  "write_elems f [] b = (True, b)"
| "write_elems f (x # xs) b = (case f x b of (False, b) \<Rightarrow> (False, b) | (True, b) \<Rightarrow> write_elems f xs b)"

definition write_arr_i32 :: "'b write_op \<Rightarrow> u32 list \<Rightarrow> 'b encoder" where
  "write_arr_i32 wr xs = seq_write (write_size wr (length xs)) (write_elems (write32 wr) xs)"

definition write_arr_i64 :: "'b write_op \<Rightarrow> u64 list \<Rightarrow> 'b encoder" where
  "write_arr_i64 wr xs = seq_write (write_size wr (length xs)) (write_elems (write64 wr) xs)"

definition write_arr_f32 :: "'b write_op \<Rightarrow> u32 list \<Rightarrow> 'b encoder" where
  "write_arr_f32 wr xs = seq_write (write_size wr (length xs)) (write_elems (writef32 wr) xs)"

definition write_arr_f64 :: "'b write_op \<Rightarrow> u64 list \<Rightarrow> 'b encoder" where
  "write_arr_f64 wr xs = seq_write (write_size wr (length xs)) (write_elems (writef64 wr) xs)"

text \<open>\<open>write_value\<close>: reading the value may fail an assertion or be undefined.\<close>

definition got :: "exn + 'x \<Rightarrow> ('x \<Rightarrow> 'b encoder) \<Rightarrow> 'b \<Rightarrow> (exn + bool) \<times> 'b" where
  "got r f b = (case r of Inl e \<Rightarrow> (Inl e, b) | Inr x \<Rightarrow> (case f x b of (res, b) \<Rightarrow> (Inr res, b)))"

definition write_value :: "'b write_op \<Rightarrow> obsr_value \<Rightarrow> 'b \<Rightarrow> (exn + bool) \<times> 'b" where
  "write_value wr v b =
     (case v_type v of
        vt_raw \<Rightarrow> got (get_raw v) (write_raw wr) b
      | vt_string \<Rightarrow> got (get_string v) (write_str wr) b
      | vt_boolean \<Rightarrow> got (get_boolean v) (\<lambda>x. write8 wr (of_bool x)) b
      | vt_integer32 \<Rightarrow> got (get_int32 v) (write32 wr) b
      | vt_integer64 \<Rightarrow> got (get_int64 v) (write64 wr) b
      | vt_floating_point32 \<Rightarrow> got (get_float v) (writef32 wr) b
      | vt_floating_point64 \<Rightarrow> got (get_double v) (writef64 wr) b
      | vt_integer32_array \<Rightarrow> got (get_int32_array v) (write_arr_i32 wr) b
      | vt_integer64_array \<Rightarrow> got (get_int64_array v) (write_arr_i64 wr) b
      | vt_floating_point32_array \<Rightarrow> got (get_float_array v) (write_arr_f32 wr) b
      | vt_floating_point64_array \<Rightarrow> got (get_double_array v) (write_arr_f64 wr) b
      | vt_empty \<Rightarrow> (Inr True, b)
      | vt_unnamed _ \<Rightarrow> (Inr False, b))"

section \<open>The wire format\<close>

definition wire_array :: "nat \<Rightarrow> 'a::len word list \<Rightarrow> bytes" where
  "wire_array w xs = of_nat (length xs) # concat (map (be_bytes w) xs)"

definition wire_str :: "string \<Rightarrow> bytes" where
  "wire_str s = of_nat (length s) # bytes_of_string s"

fun wire_content :: "content \<Rightarrow> bytes" where
  "wire_content C_empty = []"
| "wire_content (C_raw xs) = of_nat (length xs) # xs"
| "wire_content (C_string s) = wire_str s"
| "wire_content (C_boolean b) = [of_bool b]"
| "wire_content (C_int32 x) = be_bytes 4 x"
| "wire_content (C_int64 x) = be_bytes 8 x"
| "wire_content (C_float x) = be_bytes 4 x"
| "wire_content (C_double x) = be_bytes 8 x"
| "wire_content (C_int32_array xs) = wire_array 4 xs"
| "wire_content (C_int64_array xs) = wire_array 8 xs"
| "wire_content (C_float_array xs) = wire_array 4 xs"
| "wire_content (C_double_array xs) = wire_array 8 xs"

section \<open>Writing produces the wire format\<close>

text \<open>
  \<open>appends\<close> is the contract of an encoder on a buffer: it succeeds exactly when its bytes fit,
  and then has appended them.
\<close>

definition appends ::
  "('b \<Rightarrow> bytes) \<Rightarrow> ('b \<Rightarrow> nat) \<Rightarrow> ('b \<Rightarrow> bool) \<Rightarrow> 'b encoder \<Rightarrow> bytes \<Rightarrow> bool" where
  "appends written room ok p bs \<longleftrightarrow>
     (\<forall>b. ok b \<longrightarrow>
        ok (snd (p b)) \<and> (fst (p b) \<longleftrightarrow> length bs \<le> room b) \<and>
        (length bs \<le> room b \<longrightarrow>
           written (snd (p b)) = written b @ bs \<and> room (snd (p b)) = room b - length bs))"

definition refuses :: "('b \<Rightarrow> bool) \<Rightarrow> 'b encoder \<Rightarrow> bool" where
  "refuses ok p \<longleftrightarrow> (\<forall>b. ok b \<longrightarrow> ok (snd (p b)) \<and> \<not> fst (p b))"

context bounded_writable_buffer begin

lemma appendsI:
  assumes "\<And>b. ok b \<Longrightarrow> length bs \<le> room b \<Longrightarrow>
      \<exists>b'. p b = (True, b') \<and> ok b' \<and> written b' = written b @ bs \<and> room b' = room b - length bs"
    and "\<And>b. ok b \<Longrightarrow> room b < length bs \<Longrightarrow> ok (snd (p b)) \<and> \<not> fst (p b)"
  shows "appends written room ok p bs"
  using assms unfolding appends_def by (metis fst_conv linorder_not_less snd_conv)

lemma appendsD:
  assumes "appends written room ok p bs" and "ok b" and "length bs \<le> room b"
  shows "\<exists>b'. p b = (True, b') \<and> ok b' \<and> written b' = written b @ bs \<and> room b' = room b - length bs"
  using assms unfolding appends_def by (metis (full_types) prod.collapse)

lemma appends_fails:
  assumes "appends written room ok p bs" and "ok b" and "room b < length bs"
  shows "\<exists>b'. p b = (False, b') \<and> ok b'"
  using assms unfolding appends_def by (metis (full_types) linorder_not_less prod.collapse)

lemma appends_wr: "appends written room ok (\<lambda>b. wr b xs) xs"
proof (rule appendsI)
  show "\<exists>b'. wr b xs = (True, b') \<and> ok b' \<and> written b' = written b @ xs \<and> room b' = room b - length xs"
    if "ok b" "length xs \<le> room b" for b using wr_app that by blast
  show "ok (snd (wr b xs)) \<and> \<not> fst (wr b xs)" if "ok b" "room b < length xs" for b
    using wr_full that by simp
qed

lemma appends_seq:
  assumes p: "appends written room ok p bs" and q: "appends written room ok q cs"
  shows "appends written room ok (seq_write p q) (bs @ cs)"
proof (rule appendsI)
  fix b assume b: "ok b"
  show "\<exists>b'. seq_write p q b = (True, b') \<and> ok b' \<and> written b' = written b @ bs @ cs \<and>
      room b' = room b - length (bs @ cs)" if r: "length (bs @ cs) \<le> room b"
  proof -
    from appendsD [OF p b] r obtain b1 where b1: "p b = (True, b1)" "ok b1"
      "written b1 = written b @ bs" "room b1 = room b - length bs" by auto
    from r b1(4) have "length cs \<le> room b1" by simp
    from appendsD [OF q b1(2) this] obtain b2 where "q b1 = (True, b2)" "ok b2"
      "written b2 = written b1 @ cs" "room b2 = room b1 - length cs" by blast
    with b1 show ?thesis by (auto simp: seq_write_def)
  qed
  show "ok (snd (seq_write p q b)) \<and> \<not> fst (seq_write p q b)" if r: "room b < length (bs @ cs)"
  proof (cases "length bs \<le> room b")
    case True
    from appendsD [OF p b True] obtain b1 where b1: "p b = (True, b1)" "ok b1"
      "room b1 = room b - length bs" by auto
    with r True have "room b1 < length cs" by simp
    from appends_fails [OF q b1(2) this] b1 show ?thesis by (auto simp: seq_write_def)
  next
    case False
    with appends_fails [OF p b] show ?thesis by (auto simp: seq_write_def)
  qed
qed

lemma appends_eq: "appends written room ok p bs \<Longrightarrow> bs = cs \<Longrightarrow> appends written room ok p cs"
  by simp

lemma appends_write8 [wire_simps]: "appends written room ok (write8 wr v) [v]"
proof -
  have "le_bytes 1 v = [v]" by simp
  then show ?thesis
    using appends_wr [of "[v]"] by (simp add: write8_def write_object_def [abs_def])
qed

lemma appends_writes [wire_simps]:
  "appends written room ok (write16 wr a) (be_bytes 2 a)"
  "appends written room ok (write32 wr c) (be_bytes 4 c)"
  "appends written room ok (write64 wr d) (be_bytes 8 d)"
  "appends written room ok (writef32 wr c) (be_bytes 4 c)"
  "appends written room ok (writef64 wr d) (be_bytes 8 d)"
  using appends_wr
  by (simp_all add: write16_def write32_def write64_def writef32_def writef64_def
      write_object_def [abs_def] net_bytes)

lemma appends_write_size:
  "n < 255 \<Longrightarrow> appends written room ok (write_size wr n) [of_nat n]"
  using appends_write8 [of "of_nat n"]
  by (simp add: write_size_def [abs_def] is_within_size_limits_def)

lemma appends_write_elems:
  assumes "\<And>x. appends written room ok (f x) (enc x)"
  shows "appends written room ok (write_elems f xs) (concat (map enc xs))"
proof (induction xs)
  case Nil
  show ?case by (simp add: appends_def)
next
  case (Cons x xs)
  have "write_elems f (x # xs) = seq_write (f x) (write_elems f xs)"
    by (rule ext) (simp add: seq_write_def)
  then show ?case using appends_seq [OF assms Cons] by simp
qed

lemma appends_write_raw [wire_simps]:
  "length xs < 255 \<Longrightarrow> appends written room ok (write_raw wr xs) (of_nat (length xs) # xs)"
  using appends_seq [OF appends_write_size appends_wr, of "length xs" xs]
  by (simp add: write_raw_def)

lemma appends_write_str [wire_simps]:
  "length s < 255 \<Longrightarrow> appends written room ok (write_str wr s) (wire_str s)"
  using appends_write_raw [of "bytes_of_string s"] by (simp add: write_str_def wire_str_def)

lemma appends_write_arrays [wire_simps]:
  "length is < 255 \<Longrightarrow> appends written room ok (write_arr_i32 wr is) (wire_array 4 is)"
  "length ls < 255 \<Longrightarrow> appends written room ok (write_arr_i64 wr ls) (wire_array 8 ls)"
  "length is < 255 \<Longrightarrow> appends written room ok (write_arr_f32 wr is) (wire_array 4 is)"
  "length ls < 255 \<Longrightarrow> appends written room ok (write_arr_f64 wr ls) (wire_array 8 ls)"
  using appends_seq [OF appends_write_size [of "length is"] appends_write_elems [of "write32 wr" "be_bytes 4" "is"]]
    appends_seq [OF appends_write_size [of "length ls"] appends_write_elems [of "write64 wr" "be_bytes 8" "ls"]]
    appends_seq [OF appends_write_size [of "length is"] appends_write_elems [of "writef32 wr" "be_bytes 4" "is"]]
    appends_seq [OF appends_write_size [of "length ls"] appends_write_elems [of "writef64 wr" "be_bytes 8" "ls"]]
  by (simp_all add: write_arr_i32_def write_arr_i64_def write_arr_f32_def write_arr_f64_def
      wire_array_def appends_writes)

text \<open>A value whose content can be read is written as the wire format of its content.\<close>

lemma got_appends:
  assumes "appends written room ok (f x) bs" and "ok b"
  shows "\<exists>res b'. got (Inr x) f b = (Inr res, b') \<and> ok b' \<and> (res \<longleftrightarrow> length bs \<le> room b) \<and>
     (res \<longrightarrow> written b' = written b @ bs \<and> room b' = room b - length bs)"
  using assms unfolding appends_def got_def by (cases "f x b") fastforce

lemma write_value_wire:
  assumes c: "content_of v = Some c" and small: "content_count c < 255" and ok: "ok b"
  shows "\<exists>res b'. write_value wr v b = (Inr res, b') \<and> ok b' \<and>
     (res \<longleftrightarrow> length (wire_content c) \<le> room b) \<and>
     (res \<longrightarrow> written b' = written b @ wire_content c \<and> room b' = room b - length (wire_content c))"
proof (cases c)
  case C_empty
  from content_getters(1) [OF c [unfolded this]] this ok
  show ?thesis by (auto simp: write_value_def)
next
  case (C_raw x)
  from content_getters(2) [OF c [unfolded this]] this small got_appends [of "write_raw wr" x, OF appends_write_raw ok]
  show ?thesis by (simp add: write_value_def)
next
  case (C_string x)
  from content_getters(3) [OF c [unfolded this]] this small got_appends [of "write_str wr" x, OF appends_write_str ok]
  show ?thesis by (simp add: write_value_def)
next
  case (C_boolean x)
  from content_getters(4) [OF c [unfolded this]] this got_appends [of "\<lambda>x. write8 wr (of_bool x)" x, OF appends_write8 ok]
  show ?thesis by (simp add: write_value_def)
next
  case (C_int32 x)
  from content_getters(5) [OF c [unfolded this]] this got_appends [of "write32 wr" x, OF appends_writes(2) ok]
  show ?thesis by (simp add: write_value_def)
next
  case (C_int64 x)
  from content_getters(6) [OF c [unfolded this]] this got_appends [of "write64 wr" x, OF appends_writes(3) ok]
  show ?thesis by (simp add: write_value_def)
next
  case (C_float x)
  from content_getters(7) [OF c [unfolded this]] this got_appends [of "writef32 wr" x, OF appends_writes(4) ok]
  show ?thesis by (simp add: write_value_def)
next
  case (C_double x)
  from content_getters(8) [OF c [unfolded this]] this got_appends [of "writef64 wr" x, OF appends_writes(5) ok]
  show ?thesis by (simp add: write_value_def)
next
  case (C_int32_array x)
  from content_getters(9) [OF c [unfolded this]] this small got_appends [of "write_arr_i32 wr" x, OF appends_write_arrays(1) ok]
  show ?thesis by (simp add: write_value_def)
next
  case (C_int64_array x)
  from content_getters(10) [OF c [unfolded this]] this small got_appends [of "write_arr_i64 wr" x, OF appends_write_arrays(2) ok]
  show ?thesis by (simp add: write_value_def)
next
  case (C_float_array x)
  from content_getters(11) [OF c [unfolded this]] this small got_appends [of "write_arr_f32 wr" x, OF appends_write_arrays(3) ok]
  show ?thesis by (simp add: write_value_def)
next
  case (C_double_array x)
  from content_getters(12) [OF c [unfolded this]] this small got_appends [of "write_arr_f64 wr" x, OF appends_write_arrays(4) ok]
  show ?thesis by (simp add: write_value_def)
qed

end

section \<open>Reading takes the wire format back\<close>

text \<open>
  \<open>decodes\<close> is the contract of a decoder: on a buffer whose unread bytes start with \<open>bs\<close> it
  returns \<open>x\<close> and leaves what follows.
\<close>

definition decodes ::
  "('b \<Rightarrow> bytes) \<Rightarrow> ('b \<Rightarrow> bool) \<Rightarrow> ('b, 'x) decoder \<Rightarrow> bytes \<Rightarrow> 'x \<Rightarrow> bool" where
  "decodes unread ok p bs x \<longleftrightarrow>
     (\<forall>d rest. ok (ds_buffer d) \<longrightarrow> unread (ds_buffer d) = bs @ rest \<longrightarrow>
        (\<exists>d'. p d = (Some x, d') \<and> ok (ds_buffer d') \<and> unread (ds_buffer d') = rest))"

lemma decodesD:
  assumes "decodes unread ok p bs x" and "ok (ds_buffer d)" and "unread (ds_buffer d) = bs @ rest"
  shows "\<exists>d'. p d = (Some x, d') \<and> ok (ds_buffer d') \<and> unread (ds_buffer d') = rest"
  using assms by (auto simp: decodes_def)

lemma decodesI:
  assumes "\<And>d rest. ok (ds_buffer d) \<Longrightarrow> unread (ds_buffer d) = bs @ rest \<Longrightarrow>
      \<exists>d'. p d = (Some x, d') \<and> ok (ds_buffer d') \<and> unread (ds_buffer d') = rest"
  shows "decodes unread ok p bs x"
  using assms by (auto simp: decodes_def)

lemma decodes_map:
  "decodes unread ok p bs x \<Longrightarrow>
   decodes unread ok (\<lambda>d. case p d of (r, d) \<Rightarrow> (map_option f r, d)) bs (f x)"
  by (fastforce simp: decodes_def)

lemma ds_buffer_expand [simp]: "ds_buffer (expand_buffer n d) = ds_buffer d"
  by (simp add: expand_buffer_def split: option.split)

lemma decodes_read_elems:
  fixes ok :: "'b \<Rightarrow> bool"
  assumes "\<And>x. x \<in> set xs \<Longrightarrow> decodes unread ok p (enc x) (g x)"
  shows "decodes unread ok (read_elems p (length xs)) (concat (map enc xs)) (map g xs)"
  using assms
proof (induction xs)
  case Nil
  show ?case by (simp add: decodes_def)
next
  case (Cons x xs)
  show ?case
  proof (rule decodesI)
    fix d :: "'b deserializer" and rest
    assume d: "ok (ds_buffer d)" "unread (ds_buffer d) = concat (map enc (x # xs)) @ rest"
    then obtain d1 where d1: "p d = (Some (g x), d1)" "ok (ds_buffer d1)"
      "unread (ds_buffer d1) = concat (map enc xs) @ rest"
      using decodesD [OF Cons.prems [of x], of d "concat (map enc xs) @ rest"] by auto
    have "decodes unread ok (read_elems p (length xs)) (concat (map enc xs)) (map g xs)"
      using Cons by simp
    from decodesD [OF this d1(2,3)] d1(1)
    show "\<exists>d'. read_elems p (length (x # xs)) d = (Some (map g (x # xs)), d') \<and>
        ok (ds_buffer d') \<and> unread (ds_buffer d') = rest"
      by auto
  qed
qed

text \<open>A size, then an expansion of the scratch block, then the elements.\<close>

lemma decodes_sized:
  assumes sz: "decodes unread ok rs cs n" and el: "decodes unread ok (p n) bs x"
  shows "decodes unread ok
     (\<lambda>d. case rs d of (None, d) \<Rightarrow> (None, d) | (Some n, d) \<Rightarrow> p n (expand_buffer (k n) d)) (cs @ bs) x"
proof (rule decodesI)
  fix d :: "'a deserializer" and rest
  assume d: "ok (ds_buffer d)" "unread (ds_buffer d) = (cs @ bs) @ rest"
  then obtain d1 where d1: "rs d = (Some n, d1)" "ok (ds_buffer d1)" "unread (ds_buffer d1) = bs @ rest"
    using decodesD [OF sz, of d "bs @ rest"] by auto
  from decodesD [OF el, of "expand_buffer (k n) d1" rest] d1
  show "\<exists>d'. (case rs d of (None, d) \<Rightarrow> (None, d) | (Some n, d) \<Rightarrow> p n (expand_buffer (k n) d)) =
        (Some x, d') \<and> ok (ds_buffer d') \<and> unread (ds_buffer d') = rest"
    by simp
qed

context readable_buffer begin

lemma decodes_read_mem:
  "n = length bs \<Longrightarrow> decodes unread ok (read_mem rd n) bs bs"
proof (rule decodesI)
  fix d :: "'b deserializer" and rest
  assume "n = length bs" "ok (ds_buffer d)" "unread (ds_buffer d) = bs @ rest"
  with rd_front obtain b' where "rd (ds_buffer d) n = (Some bs, b')" "ok b'" "unread b' = rest"
    by blast
  then show "\<exists>d'. read_mem rd n d = (Some bs, d') \<and> ok (ds_buffer d') \<and> unread (ds_buffer d') = rest"
    by (simp add: read_mem_def)
qed

lemma decodes_read_object: "n = length bs \<Longrightarrow> decodes unread ok (read_object rd n) bs (of_le bs)"
  using decodes_map [OF decodes_read_mem, of n bs of_le] by (simp add: read_object_def [abs_def])

lemma decodes_read8: "decodes unread ok (read8 rd) [b] b"
proof -
  have "decodes unread ok (read_object rd 1) [b] (of_le [b] :: u8)"
    by (rule decodes_read_object) simp
  then show ?thesis unfolding byte_of_le' by (simp add: read8_def [abs_def])
qed

lemma decodes_reads:
  "decodes unread ok (read16 rd) (be_bytes 2 x) x"
  "decodes unread ok (read32 rd) (be_bytes 4 y) y"
  "decodes unread ok (read64 rd) (be_bytes 8 z) z"
  "decodes unread ok (readf32 rd) (be_bytes 4 y) y"
  "decodes unread ok (readf64 rd) (be_bytes 8 z) (ucast (ucast z :: u32))"
proof -
  show 16: "decodes unread ok (read16 rd) (be_bytes 2 x) x"
    using decodes_map [OF decodes_read_object [of 2 "be_bytes 2 x"], of host16]
    by (simp add: read16_def [abs_def] host_bytes)
  show 32: "decodes unread ok (read32 rd) (be_bytes 4 y) y"
    using decodes_map [OF decodes_read_object [of 4 "be_bytes 4 y"], of host32]
    by (simp add: read32_def [abs_def] host_bytes)
  show 64: "decodes unread ok (read64 rd) (be_bytes 8 z) z"
    using decodes_map [OF decodes_read_object [of 8 "be_bytes 8 z"], of host64]
    by (simp add: read64_def [abs_def] host_bytes)
  show "decodes unread ok (readf32 rd) (be_bytes 4 y) y"
    using 32 by (simp add: readf32_def [abs_def])
  show "decodes unread ok (readf64 rd) (be_bytes 8 z) (ucast (ucast z :: u32))"
    using decodes_map [OF 64] by (simp add: readf64_def [abs_def])
qed

lemma decodes_read_size: "n < 256 \<Longrightarrow> decodes unread ok (read_size rd) [of_nat n] n"
  using decodes_map [OF decodes_read8 [of "of_nat n"], of unat]
  by (simp add: read_size_def [abs_def] unsigned_of_nat take_bit_nat_eq_self)

lemma decodes_read_raw: "length xs < 256 \<Longrightarrow> decodes unread ok (read_raw rd) (of_nat (length xs) # xs) xs"
  using decodes_sized [OF decodes_read_size [of "length xs"], of "read_mem rd" xs xs "\<lambda>n. n"]
    decodes_read_mem [of "length xs" xs]
  by (simp add: read_raw_def [abs_def])

lemma decodes_read_str: "length s < 256 \<Longrightarrow> decodes unread ok (read_str rd) (wire_str s) s"
  using decodes_map [OF decodes_read_raw [of "bytes_of_string s"], of string_of_bytes]
  by (simp add: read_str_def [abs_def] wire_str_def)

lemma decodes_arrays:
  "length is < 256 \<Longrightarrow> decodes unread ok (read_arr_i32 rd) (wire_array 4 is) is"
  "length ls < 256 \<Longrightarrow> decodes unread ok (read_arr_i64 rd) (wire_array 8 ls) ls"
  "length is < 256 \<Longrightarrow> decodes unread ok (read_arr_f32 rd) (wire_array 4 is) is"
proof -
  note sized = decodes_sized [where unread = unread and ok = ok, OF decodes_read_size]
  note elems = decodes_read_elems [where unread = unread and ok = ok and g = "\<lambda>x. x"]
  show "decodes unread ok (read_arr_i32 rd) (wire_array 4 is) is" if "length is < 256"
    using sized [OF that, where p = "read_elems (read32 rd)" and k = "\<lambda>n. n * 4"]
      elems [where p = "read32 rd" and enc = "be_bytes 4" and xs = "is"] decodes_reads
    by (simp add: read_arr_i32_def [abs_def] wire_array_def)
  show "decodes unread ok (read_arr_i64 rd) (wire_array 8 ls) ls" if "length ls < 256"
    using sized [OF that, where p = "read_elems (read64 rd)" and k = "\<lambda>n. n * 8"]
      elems [where p = "read64 rd" and enc = "be_bytes 8" and xs = ls] decodes_reads
    by (simp add: read_arr_i64_def [abs_def] wire_array_def)
  show "decodes unread ok (read_arr_f32 rd) (wire_array 4 is) is" if "length is < 256"
    using sized [OF that, where p = "read_elems (readf32 rd)" and k = "\<lambda>n. n * 4"]
      elems [where p = "readf32 rd" and enc = "be_bytes 4" and xs = "is"] decodes_reads
    by (simp add: read_arr_f32_def [abs_def] wire_array_def)
qed

text \<open>What a reader makes of the wire format of a content.\<close>

lemma made_value_decodes:
  assumes "decodes unread ok p bs x" and "ok (ds_buffer d)" and "unread (ds_buffer d) = bs @ rest"
  shows "\<exists>d'. made_value f (p d) = (map_sum id Some (f x), d') \<and> ok (ds_buffer d') \<and>
     unread (ds_buffer d') = rest"
  using decodesD [OF assms] by (auto simp: made_value_def)

lemma read_value_made:
  assumes d: "ok (ds_buffer d)" "unread (ds_buffer d) = wire_content c @ rest"
    and c: "tagged c" "\<not> (\<exists>x. c = C_double x)" "content_count c < 255"
    and v: "make_content c = Inr v"
  shows "\<exists>d'. read_value rd (content_type c) d = (Inr (Some v), d') \<and>
     ok (ds_buffer d') \<and> unread (ds_buffer d') = rest"
proof -
  note m = made_value_decodes [OF _ d(1)]
  show "\<exists>d'. read_value rd (content_type c) d = (Inr (Some v), d') \<and>
     ok (ds_buffer d') \<and> unread (ds_buffer d') = rest"
  proof (cases c)
    case (C_boolean b)
    with m [OF decodes_read8, of "of_bool b" rest "\<lambda>b. Inr (make_boolean (b \<noteq> 0))"] d v
    show ?thesis by (auto simp: read_value_def)
  next
    case C_empty
    with d v show ?thesis by (simp add: read_value_def)
  next
    case (C_raw xs)
    with m [OF decodes_read_raw, of xs rest make_raw] d v c show ?thesis by (auto simp: read_value_def)
  next
    case (C_string s)
    with m [OF decodes_read_str, of s rest make_string] d v c show ?thesis by (auto simp: read_value_def)
  next
    case (C_int32 x)
    with m [OF decodes_reads(2), of x rest "\<lambda>x. Inr (make_int32 x)"] d v show ?thesis
      by (auto simp: read_value_def)
  next
    case (C_int64 x)
    with m [OF decodes_reads(3), of x rest "\<lambda>x. Inr (make_int64 x)"] d v show ?thesis
      by (auto simp: read_value_def)
  next
    case (C_float x)
    with m [OF decodes_reads(4), of x rest "\<lambda>x. Inr (make_float x)"] d v show ?thesis
      by (auto simp: read_value_def)
  next
    case (C_int32_array xs)
    with m [OF decodes_arrays(1), of xs rest make_int32_array] d v c show ?thesis
      by (auto simp: read_value_def)
  next
    case (C_int64_array xs)
    with m [OF decodes_arrays(2), of xs rest make_int64_array] d v c show ?thesis
      by (auto simp: read_value_def)
  qed (use c in auto)
qed

lemma read_value_wire:
  assumes "ok (ds_buffer d)" "unread (ds_buffer d) = wire_content c @ rest"
    and c: "tagged c" "\<not> (\<exists>x. c = C_double x)" "content_count c < 255"
  shows "\<exists>v d'. read_value rd (content_type c) d = (Inr (Some v), d') \<and> content_of v = Some c \<and>
     ok (ds_buffer d') \<and> unread (ds_buffer d') = rest"
  using make_content_content [OF c(1,3)] read_value_made [OF assms] by blast

lemma read_double_wire:
  assumes "ok (ds_buffer d)" and "unread (ds_buffer d) = wire_content (C_double x) @ rest"
  shows "\<exists>v d'. read_value rd vt_floating_point64 d = (Inr (Some v), d') \<and>
     content_of v = Some (C_double (ucast (ucast x :: u32))) \<and>
     ok (ds_buffer d') \<and> unread (ds_buffer d') = rest"
  using made_value_decodes [OF decodes_reads(5) assms(1), of x rest "\<lambda>x. Inr (make_double x)"] assms(2)
  by (auto simp: read_value_def content_of_def)

end

end
