(* ===== verification/Obsr_IO_Props.thy ===== *)
theory Obsr_IO_Props
  imports Obsr_Wire
begin

text \<open>
  Properties of the values, the buffers and the serialization of values: what the factories and
  getters of \<open>value\<close> promise, the circular buffer as a queue of bytes, its transfers from and to a
  socket, and the round trip of a value through the wire format.
\<close>

section \<open>Values\<close>

text \<open>
  A factory either refuses its argument or makes a value from which the getters return exactly
  what was put in. It refuses exactly the arrays, strings and raw blocks of 255 elements or more,
  with \<open>data_exceeds_size_limits\<close>. The floating point arrays are excepted here.
\<close>

theorem factory_then_getter:
  assumes "tagged c"
  shows "if content_count c < 255
         then \<exists>v. make_content c = Inr v \<and> content_of v = Some c \<and> value_get_type v = content_type c
         else make_content c = Inl Data_exceeds_size_limits"
  using make_content_content [OF assms] make_content_too_big [of c] content_type_of
  by (auto simp: value_get_type_def)

theorem factory_then_getter_witness:
  "\<exists>v. make_content (C_string ''abc'') = Inr v \<and> content_of v = Some (C_string ''abc'') \<and>
     value_get_type v = vt_string"
  using factory_then_getter [of "C_string ''abc''"] by simp

text \<open>
  The factories of the floating point arrays tag their value \<open>integer64_array\<close>, so the getter of
  the type asked for fails its assertion. The integer getter that does match the tag returns the bit
  patterns of a double array, and reads past the allocation of every float array that is not empty.
\<close>

theorem float_arrays_are_mistagged:
  assumes "length xs < 255" and "length ys < 255"
  shows "\<exists>v w. make_float_array xs = Inr v \<and> make_double_array ys = Inr w \<and>
     value_get_type v = vt_integer64_array \<and> value_get_type w = vt_integer64_array \<and>
     get_float_array v = Inl Assertion_failed \<and> get_double_array w = Inl Assertion_failed \<and>
     get_int64_array v = (if xs = [] then Inr [] else Inl Undefined_behaviour) \<and>
     get_int64_array w = Inr ys"
  using assms
  by (auto simp: make_array_eqs value_get_type_def get_float_array_def get_double_array_def
      get_int64_array_def checked_def array_view_def array_value_def words_of_mem_of_words)

theorem float_arrays_are_mistagged_witness:
  "\<exists>v w. make_float_array [1, 2] = Inr v \<and> make_double_array [3] = Inr w \<and>
     value_get_type v = vt_integer64_array \<and> value_get_type w = vt_integer64_array \<and>
     get_float_array v = Inl Assertion_failed \<and> get_double_array w = Inl Assertion_failed \<and>
     get_int64_array v = Inl Undefined_behaviour \<and> get_int64_array w = Inr [3]"
  using float_arrays_are_mistagged [of "[1, 2]" "[3]"] by simp

text \<open>
  A setter that refuses its argument has already changed the type: after a failed \<open>set_raw\<close> on
  an integer, the integer's getter fails its assertion and the getter of the new tag reads the
  integer as a pointer.
\<close>

theorem refused_setter_changes_type:
  assumes "255 \<le> length xs"
  shows "\<exists>v. set_raw xs (make_int32 x) = (Inl Data_exceeds_size_limits, v) \<and>
     get_int32 v = Inl Assertion_failed \<and> get_raw v = Inl Undefined_behaviour"
  using assms
  by (simp add: set_raw_def set_array_def create_array_def verify_within_size_limits_def Let_def
      make_int32_def set_int32_def get_int32_def get_raw_def checked_def array_view_def)

theorem refused_setter_changes_type_witness:
  "\<exists>v. set_raw (replicate 255 0) (make_int32 7) = (Inl Data_exceeds_size_limits, v) \<and>
     get_int32 v = Inl Assertion_failed \<and> get_raw v = Inl Undefined_behaviour"
  using refused_setter_changes_type [of "replicate 255 0" 7] by simp

section \<open>The circular buffer\<close>

text \<open>A user of the buffer: a sequence of writes, reads and seeks.\<close>

datatype buffer_use = Put bytes | Get nat | Skip nat

text \<open>
  One call: the bytes that left the buffer on the reader's side, and the buffer. A call is
  \<open>moderate\<close> when a write leaves the last byte of the block free.
\<close>

fun buffer_call :: "buffer_use \<Rightarrow> circular_buffer \<Rightarrow> bytes \<times> circular_buffer" where
  "buffer_call (Put xs) b = ([], snd (circ_write b xs))"
| "buffer_call (Get n) b = (case circ_read b n of (None, b) \<Rightarrow> ([], b) | (Some xs, b) \<Rightarrow> (xs, b))"
| "buffer_call (Skip n) b = (take n (circ_content b), circ_seek_read b n)"

fun moderate :: "buffer_use \<Rightarrow> circular_buffer \<Rightarrow> bool" where
  "moderate (Put xs) b = (length xs \<le> circ_room b)"
| "moderate _ b = True"

fun put_bytes :: "buffer_use \<Rightarrow> bytes" where
  "put_bytes (Put xs) = xs"
| "put_bytes _ = []"

fun buffer_calls :: "buffer_use list \<Rightarrow> circular_buffer \<Rightarrow> bytes \<times> circular_buffer" where
  "buffer_calls [] b = ([], b)"
| "buffer_calls (c # cs) b =
     (case buffer_call c b of (xs, b) \<Rightarrow> (case buffer_calls cs b of (ys, b) \<Rightarrow> (xs @ ys, b)))"

fun all_moderate :: "buffer_use list \<Rightarrow> circular_buffer \<Rightarrow> bool" where
  "all_moderate [] b = True"
| "all_moderate (c # cs) b = (moderate c b \<and> all_moderate cs (snd (buffer_call c b)))"

lemma buffer_call_conserves:
  assumes ok: "circ_ok b" and m: "moderate c b" and c: "buffer_call c b = (xs, b')"
  shows "circ_ok b' \<and> circ_content b @ put_bytes c = xs @ circ_content b'"
proof (cases c)
  case (Put ys)
  with m c circ.wr_app [OF ok, of ys] show ?thesis by auto
next
  case (Get n)
  show ?thesis
  proof (cases "circ_read b n")
    case (Pair r b1)
    with Get c circ.rd_Some [OF ok, of n] circ.rd_short [OF ok, of n] circ.rd_enough [OF ok, of n] ok
    show ?thesis by (cases r; cases "n \<le> length (circ_content b)") auto
  qed
next
  case (Skip n)
  with c ok circ_seek_content [OF ok, of n] circ_seek_ok [OF ok, of n] show ?thesis by auto
qed

text \<open>
  C26 The circular buffer is a queue of bytes across any sequence of writes, reads and seeks: what
  the calls took out, followed by what is still unread, is what was unread before followed by
  everything written, in order, as long as no write fills the last byte of the block.
\<close>

theorem circular_buffer_is_a_queue:
  assumes "circ_ok b" and "all_moderate cs b" and "buffer_calls cs b = (xs, b')"
  shows "circ_ok b' \<and> circ_content b @ concat (map put_bytes cs) = xs @ circ_content b'"
  using assms
proof (induction cs arbitrary: b xs b')
  case Nil
  then show ?case by simp
next
  case (Cons c cs)
  obtain ys b1 where c: "buffer_call c b = (ys, b1)" by fastforce
  obtain zs b2 where cs: "buffer_calls cs b1 = (zs, b2)" by fastforce
  from Cons.prems c cs have 1: "xs = ys @ zs" "b2 = b'" "moderate c b" "all_moderate cs b1" by auto
  from buffer_call_conserves [OF Cons.prems(1) 1(3) c]
  have 2: "circ_ok b1" "circ_content b @ put_bytes c = ys @ circ_content b1" by auto
  from Cons.IH [OF 2(1) 1(4) cs] 1(1,2) 2(2) show ?case
    by simp (metis append.assoc)
qed

theorem circular_buffer_is_a_queue_witness:
  "circ_content (snd (buffer_calls [Put [1, 2, 3], Get 2, Put [4, 5], Skip 1] (circ_new (\<lambda>_. 0) 5))) = [4, 5]"
proof -
  let ?cs = "[Put [1, 2, 3], Get 2, Put [4, 5], Skip 1]" and ?b = "circ_new (\<lambda>_. 0) 5"
  have m: "all_moderate ?cs ?b" by code_simp
  have out: "fst (buffer_calls ?cs ?b) = [1, 2, 3]" by code_simp
  show ?thesis
    using circular_buffer_is_a_queue [of ?b ?cs "fst (buffer_calls ?cs ?b)" "snd (buffer_calls ?cs ?b)"]
      m out by simp
qed

text \<open>
  \<open>find_and_seek_read\<close> reports whether the byte is among the unread ones. If it is, everything
  before its first occurrence is dropped; if not, either everything is dropped or nothing.
\<close>

theorem find_and_seek_finds_first:
  assumes "circ_ok b"
  shows "\<exists>b'. circ_find_and_seek_read b c = (c \<in> set (circ_content b), b') \<and> circ_ok b' \<and>
     (if c \<in> set (circ_content b) then circ_content b' = dropWhile (\<lambda>x. x \<noteq> c) (circ_content b)
      else circ_content b' = [] \<or> b' = b)"
  by (rule circ_find_spec [OF assms])

theorem find_and_seek_finds_first_witness:
  "circ_content (snd (circ_find_and_seek_read (snd (circ_write (circ_new (\<lambda>_. 0) 8) [9, 1, 2])) 1)) = [1, 2]"
proof -
  let ?b = "snd (circ_write (circ_new (\<lambda>_. 0) 8) [9, 1, 2])"
  have "circ_content ?b = [9, 1, 2]" "circ_ok ?b" by code_simp+
  with find_and_seek_finds_first [of ?b 1] show ?thesis by auto
qed

text \<open>
  A write that brings the content to exactly the size of the block succeeds, and the buffer is
  then empty: the two positions meet, and every byte that was unread is lost with the ones just
  written. \<open>can_write\<close> does not prevent it: as long as the write position has not wrapped it answers
  for the whole block, whatever the buffer holds.
\<close>

theorem write_to_the_brim_loses_all:
  assumes "circ_ok b" and "length (circ_content b) + length xs = cb_size b"
  shows "\<exists>b'. circ_write b xs = (True, b') \<and> circ_content b' = [] \<and>
     (cb_read_pos b \<le> cb_write_pos b \<longrightarrow> circ_can_write b (cb_size b))"
proof -
  have "circ_can_write b (cb_size b)" if "cb_read_pos b \<le> cb_write_pos b"
    using that assms(1) by (simp add: circ_can_write_def circ_write_available_def circ_ok_def)
  with circ_write_full [OF assms] show ?thesis by (cases "circ_write b xs") auto
qed

theorem write_to_the_brim_loses_all_witness:
  "circ_content (snd (circ_write (snd (circ_write (circ_new (\<lambda>_. 0) 4) [1, 2])) [3, 4])) = []"
proof -
  let ?b = "snd (circ_write (circ_new (\<lambda>_. 0) 4) [1, 2])"
  have "circ_content ?b = [1, 2]" "circ_ok ?b" "cb_size ?b = 4" by code_simp+
  with write_to_the_brim_loses_all [of ?b "[3, 4]"] show ?thesis by auto
qed



text \<open>
  C40 A transfer from a source that fills the block to its end, while nothing has been read yet,
  asks for \<open>m_read_pos - 1\<close> more bytes; with the read position at 0 this wraps, so the second request
  is for \<open>2\<close> to the power \<open>64\<close> less one bytes at the start of the block, and a source that has them
  overwrites bytes that were never read.
\<close>

theorem read_from_overruns_at_zero:
  assumes "circ_ok b" and "cb_read_pos b = 0"
    and "length xs = cb_size b - cb_write_pos b" and "rdf r (cb_size b - cb_write_pos b) = (Inr xs, r1)"
    and "rdf r1 (2 ^ 64 - 1) = (Inr ys, r2)"
  shows "\<exists>b'. circ_read_from rdf b r = (Inr True, b', r2) \<and>
     take (length ys) (cb_buffer b') = ys \<and> cb_write_pos b' = length ys \<and>
     length (cb_buffer b') = max (cb_size b) (length ys)"
proof -
  have "size_sub 0 1 = 2 ^ 64 - 1" by (simp add: size_sub_def size_limit_def)
  with assms show ?thesis
    by (auto simp: circ_read_from_def circ_ok_def Let_def mem_simps mem_write_def)
qed

theorem read_from_overruns_at_zero_witness:
  "\<exists>b'. circ_read_from stream_read (circ_new (\<lambda>_. 0) 2) [1, 2, 3, 4, 5] = (Inr True, b', []) \<and>
     take 3 (cb_buffer b') = [3, 4, 5] \<and> cb_write_pos b' = 3 \<and> length (cb_buffer b') = 3"
  using read_from_overruns_at_zero [of "circ_new (\<lambda>_. 0) 2" "[1, 2]" stream_read "[1, 2, 3, 4, 5]" "[3, 4, 5]" "[3, 4, 5]" "[]"]
  by (simp add: circ_new_def circ_ok_def stream_read_def numeral_3_eq_3)

section \<open>Values on the wire\<close>

lemma written_value:
  assumes c: "content_of v = Some c" "content_count c < 255" and fits: "length (wire_content c) \<le> sz"
  shows "\<exists>b. write_value linear_write v (linear_new junk sz) = (Inr True, b) \<and>
     linear_data b = wire_content c"
proof -
  have "linear_room (linear_new junk sz) = sz" "linear_data (linear_new junk sz) = []"
    by (simp_all add: linear_room_def linear_data_def linear_new_def)
  with lin.write_value_wire [OF c linear_new_ok, of junk sz] fits show ?thesis by auto
qed



text \<open>
  A double does not survive the wire: all 64 bits are written, but the reader keeps only the
  low 32, so the value read back has its sign, its exponent and the top of its fraction cleared.
\<close>

theorem double_loses_high_half:
  assumes "8 \<le> sz"
  shows "\<exists>b v d. write_value linear_write (make_double x) (linear_new junk sz) = (Inr True, b) \<and>
     linear_data b = be_bytes 8 x \<and>
     read_value ro_view_read vt_floating_point64
       (deserializer_new (ro_view_reset (linear_data b) 8 ro_view_new)) = (Inr (Some v), d) \<and>
     get_double v = Inr (x AND 0xFFFFFFFF)"
proof -
  have "content_of (make_double x) = Some (C_double x)" by (simp add: content_of_def)
  from written_value [OF this, of sz junk] assms
  obtain b where b: "write_value linear_write (make_double x) (linear_new junk sz) = (Inr True, b)"
    "linear_data b = be_bytes 8 x" by auto
  let ?d = "deserializer_new (ro_view_reset (be_bytes 8 x) 8 ro_view_new)"
  have "ro_view_ok (ds_buffer ?d)" "ro_view_unread (ds_buffer ?d) = wire_content (C_double x) @ []"
    by (simp_all add: deserializer_new_def)
  from rov.read_double_wire [OF this] obtain v d where
    v: "read_value ro_view_read vt_floating_point64 ?d = (Inr (Some v), d)"
      "content_of v = Some (C_double (ucast (ucast x :: u32)))" by auto
  have "ucast (ucast x :: u32) = x AND 0xFFFFFFFF"
  proof -
    have m: "(0xFFFFFFFF :: u64) = mask 32" by (simp add: mask_eq_exp_minus_1)
    show ?thesis unfolding m by (rule bit_word_eqI) (auto simp: bit_simps)
  qed
  with b v content_getters(8) [OF v(2)] show ?thesis by auto
qed

theorem double_loses_high_half_witness:
  "\<exists>b v d. write_value linear_write (make_double 0x3FF0000000000001) (linear_new (\<lambda>_. 0) 8) = (Inr True, b) \<and>
     linear_data b = be_bytes 8 (0x3FF0000000000001 :: u64) \<and>
     read_value ro_view_read vt_floating_point64
       (deserializer_new (ro_view_reset (linear_data b) 8 ro_view_new)) = (Inr (Some v), d) \<and>
     get_double v = Inr 1"
  using double_loses_high_half [of 8 "0x3FF0000000000001" "\<lambda>_. 0"] by simp

end
