(* ===== verification/Obsr_State_Machine.thy ===== *)
theory Obsr_State_Machine
  imports Obsr_Wire
begin

text \<open>
  The template \<open>state_machine\<close> of \<open>src/util/state.h\<close>, from which the message parser and the
  socket reader derive. The virtual \<open>process_state\<close> is a parameter; the members of a derived class
  extend the record. \<open>process\<close> runs \<open>while (process_once());\<close>, which need not end for an arbitrary
  \<open>process_state\<close>, so it is a partial function whose value \<open>None\<close> means that it does not return; the
  locale \<open>ranked_machine\<close> is the contract under which it does.
\<close>

datatype overall_state = os_start | os_end | os_error | os_in_state

record ('s, 'd) state_machine =
  sm_state :: overall_state
  sm_user_state :: 's
  sm_error_code :: u8
  sm_data :: 'd

definition is_finished :: "('s, 'd, 'z) state_machine_scheme \<Rightarrow> bool" where
  "is_finished m = (sm_state m = os_end)"

definition is_errored :: "('s, 'd, 'z) state_machine_scheme \<Rightarrow> bool" where
  "is_errored m = (sm_error_code m \<noteq> 0)"

definition sm_reset :: "'s \<Rightarrow> ('s, 'd, 'z) state_machine_scheme \<Rightarrow> ('s, 'd, 'z) state_machine_scheme" where
  "sm_reset first m = m\<lparr>sm_state := os_start, sm_error_code := 0, sm_user_state := first\<rparr>"

text \<open>What \<open>process_state\<close> returns with: \<open>true\<close> asks for another step.\<close>

definition move_to_state ::
  "'s \<Rightarrow> ('s, 'd, 'z) state_machine_scheme \<Rightarrow> bool \<times> ('s, 'd, 'z) state_machine_scheme" where
  "move_to_state s m = (True, m\<lparr>sm_state := os_in_state, sm_user_state := s\<rparr>)"

definition sm_error ::
  "u8 \<Rightarrow> ('s, 'd, 'z) state_machine_scheme \<Rightarrow> bool \<times> ('s, 'd, 'z) state_machine_scheme" where
  "sm_error code m = (False, m\<lparr>sm_state := os_error, sm_error_code := code\<rparr>)"

definition try_later ::
  "('s, 'd, 'z) state_machine_scheme \<Rightarrow> bool \<times> ('s, 'd, 'z) state_machine_scheme" where
  "try_later m = (False, m)"

definition finished ::
  "('s, 'd, 'z) state_machine_scheme \<Rightarrow> bool \<times> ('s, 'd, 'z) state_machine_scheme" where
  "finished m = (False, m\<lparr>sm_state := os_end\<rparr>)"

text \<open>A \<open>process_state\<close> may throw; its object may be of a derived class.\<close>

type_synonym ('s, 'o) processor = "'s \<Rightarrow> 'o \<Rightarrow> (exn + bool) \<times> 'o"

definition process_once ::
  "('s, ('s, 'd, 'z) state_machine_scheme) processor \<Rightarrow>
   ('s, 'd, 'z) state_machine_scheme \<Rightarrow> (exn + bool) \<times> ('s, 'd, 'z) state_machine_scheme" where
  "process_once pr m =
     (case sm_state m of
        os_in_state \<Rightarrow> pr (sm_user_state m) m
      | _ \<Rightarrow> (Inr False, m))"

partial_function (option) process_loop ::
  "('s, ('s, 'd, 'z) state_machine_scheme) processor \<Rightarrow>
   ('s, 'd, 'z) state_machine_scheme \<Rightarrow> ((exn + unit) \<times> ('s, 'd, 'z) state_machine_scheme) option" where
  "process_loop pr m =
     (case process_once pr m of
        (Inl e, m) \<Rightarrow> Some (Inl e, m)
      | (Inr again, m) \<Rightarrow> (if again then process_loop pr m else Some (Inr (), m)))"

definition sm_process ::
  "('s, ('s, 'd, 'z) state_machine_scheme) processor \<Rightarrow> 's \<Rightarrow>
   ('s, 'd, 'z) state_machine_scheme \<Rightarrow> ((exn + unit) \<times> ('s, 'd, 'z) state_machine_scheme) option" where
  "sm_process pr first m =
     (case sm_state m of
        os_start \<Rightarrow>
          process_loop pr (m\<lparr>sm_state := os_in_state, sm_error_code := 0, sm_user_state := first\<rparr>)
      | os_error \<Rightarrow> Some (Inr (), m)
      | os_end \<Rightarrow> Some (Inr (), m)
      | os_in_state \<Rightarrow> process_loop pr m)"

section \<open>Steps of the loop\<close>

lemma process_loop_again:
  "process_once pr m = (Inr True, m') \<Longrightarrow> process_loop pr m = process_loop pr m'"
  by (subst process_loop.simps) simp

lemma process_loop_stop:
  "process_once pr m = (Inr False, m') \<Longrightarrow> process_loop pr m = Some (Inr (), m')"
  by (subst process_loop.simps) simp

lemma process_loop_throw:
  "process_once pr m = (Inl e, m') \<Longrightarrow> process_loop pr m = Some (Inl e, m')"
  by (subst process_loop.simps) simp

lemma process_once_in_state [simp]:
  "sm_state m = os_in_state \<Longrightarrow> process_once pr m = pr (sm_user_state m) m"
  by (simp add: process_once_def)

section \<open>The contract under which \<open>process\<close> returns\<close>

text \<open>
  \<open>good\<close> is an invariant of the object that every step keeps, and every step that asks for another
  one lowers its rank. Then the loop ends, and the object it ends with is good.
\<close>

locale ranked_machine =
  fixes pr :: "('s, ('s, 'd, 'z) state_machine_scheme) processor"
    and rank :: "('s, 'd, 'z) state_machine_scheme \<Rightarrow> nat"
    and good :: "('s, 'd, 'z) state_machine_scheme \<Rightarrow> bool"
    and first :: 's
  assumes pr_rank: "good m \<Longrightarrow> sm_state m = os_in_state \<Longrightarrow> pr (sm_user_state m) m = (Inr True, m') \<Longrightarrow>
      rank m' < rank m"
    and pr_good: "good m \<Longrightarrow> sm_state m = os_in_state \<Longrightarrow> good (snd (pr (sm_user_state m) m))"
    and first_good: "good m \<Longrightarrow>
      good (m\<lparr>sm_state := os_in_state, sm_error_code := 0, sm_user_state := first\<rparr>)"
begin

lemma process_loop_returns:
  "good m \<Longrightarrow> \<exists>r m'. process_loop pr m = Some (r, m') \<and> good m'"
proof (induction "rank m" arbitrary: m rule: less_induct)
  case less
  show ?case
  proof (cases "sm_state m = os_in_state")
    case True
    obtain res m' where step: "pr (sm_user_state m) m = (res, m')" by fastforce
    have good': "good m'" using pr_good [OF less.prems True] step by simp
    consider e where "res = Inl e" | "res = Inr False" | "res = Inr True"
      by (cases res) auto
    then show ?thesis
    proof cases
      case 3
      with step have "pr (sm_user_state m) m = (Inr True, m')" by simp
      from pr_rank [OF less.prems True this] have "rank m' < rank m" .
      from less.hyps [OF this good'] show ?thesis
        using process_loop_again [of pr m m'] step 3 True by simp
    qed (use step True good' process_loop_throw [of pr m] process_loop_stop [of pr m] in auto)
  next
    case False
    then have "process_once pr m = (Inr False, m)"
      by (cases "sm_state m") (auto simp: process_once_def)
    with less.prems show ?thesis using process_loop_stop [of pr m m] by simp
  qed
qed

lemma process_returns:
  assumes "good m"
  shows "\<exists>r m'. sm_process pr first m = Some (r, m') \<and> good m'"
  using process_loop_returns [OF assms] process_loop_returns [OF first_good [OF assms]] assms
  by (auto simp: sm_process_def split: overall_state.split)

end

end
