(* ===== verification/Obsr_Messages.thy ===== *)
theory Obsr_Messages
  imports Obsr_State_Machine
begin

text \<open>
  The messages of the protocol (\<open>src/net/serialize.h\<close>, \<open>src/net/serialize.cpp\<close>): the header, the
  message types, the parser of a message body, the serializer of a message body, and the queue of
  outgoing messages. The parser reads through a \<open>readonly_buffer_view\<close>, the serializer writes into a
  \<open>linear_buffer\<close> of 512 bytes.
\<close>

section \<open>Times on the wire\<close>

text \<open>A time is sent as the 64 bits of its count of milliseconds and read back as a signed number.\<close>

definition u64_of_ms :: "milliseconds \<Rightarrow> u64" where
  "u64_of_ms t = word_of_int t"

definition ms_of_u64 :: "u64 \<Rightarrow> milliseconds" where
  "ms_of_u64 w = sint w"

definition ms_ok :: "milliseconds \<Rightarrow> bool" where
  "ms_ok t \<longleftrightarrow> - (2 ^ 63) \<le> t \<and> t < 2 ^ 63"

lemma ms_of_u64_of_ms [simp, wire_simps]: "ms_ok t \<Longrightarrow> ms_of_u64 (u64_of_ms t) = t"
  by (simp add: ms_ok_def ms_of_u64_def u64_of_ms_def signed_of_int signed_take_bit_int_eq_self)

section \<open>Headers\<close>

record message_header =
  mh_magic :: u8
  mh_version :: u8
  mh_index :: u32
  mh_type :: u8
  mh_size :: u32

definition message_magic :: u8 where "message_magic = 0x29"
definition current_version :: u8 where "current_version = 1"

definition header_convert_net :: "message_header \<Rightarrow> message_header" where
  "header_convert_net h = h\<lparr>mh_index := net32 (mh_index h), mh_size := net32 (mh_size h)\<rparr>"

definition header_convert_host :: "message_header \<Rightarrow> message_header" where
  "header_convert_host h = h\<lparr>mh_index := host32 (mh_index h), mh_size := host32 (mh_size h)\<rparr>"

text \<open>The packed layout of the structure: eleven bytes, the fields in order.\<close>

definition header_bytes :: "message_header \<Rightarrow> bytes" where
  "header_bytes h =
     [mh_magic h, mh_version h] @ le_bytes 4 (mh_index h) @ [mh_type h] @ le_bytes 4 (mh_size h)"

definition header_of_bytes :: "bytes \<Rightarrow> message_header" where
  "header_of_bytes bs =
     \<lparr>mh_magic = bs ! 0, mh_version = bs ! 1, mh_index = of_le (take 4 (drop 2 bs)),
      mh_type = bs ! 6, mh_size = of_le (take 4 (drop 7 bs))\<rparr>"

definition header_size :: nat where
  "header_size = 11"

lemma length_header_bytes [simp]: "length (header_bytes h) = header_size"
  by (simp add: header_bytes_def header_size_def)

lemma header_of_bytes_of_header [simp, wire_simps]: "header_of_bytes (header_bytes h) = h"
proof -
  have "of_le (le_bytes 4 x) = x" for x :: u32
    by (simp add: of_le_le_bytes take_bit_word_eq_self)
  moreover have "length (le_bytes 4 x) = 4" for x :: u32 by simp
  ultimately show ?thesis
    by (simp add: header_of_bytes_def header_bytes_def nth_append del: le_bytes.simps)
qed

lemma header_convert_host_net [simp, wire_simps]: "header_convert_host (header_convert_net h) = h"
  by (simp add: header_convert_host_def header_convert_net_def)

section \<open>Message types\<close>

text \<open>The enumeration is over \<open>int\<close>; \<open>mt_unnamed\<close> are the values that have no enumerator.\<close>

datatype message_type =
    mt_no_type
  | mt_entry_create
  | mt_entry_update
  | mt_entry_delete
  | mt_entry_id_assign
  | mt_handshake_finished
  | mt_handshake_ready
  | mt_time_sync_request
  | mt_time_sync_response
  | mt_unnamed int

fun mt_code :: "message_type \<Rightarrow> int" where
  "mt_code mt_no_type = 0"
| "mt_code mt_entry_create = 1"
| "mt_code mt_entry_update = 2"
| "mt_code mt_entry_delete = 3"
| "mt_code mt_entry_id_assign = 4"
| "mt_code mt_handshake_finished = 5"
| "mt_code mt_handshake_ready = 6"
| "mt_code mt_time_sync_request = 7"
| "mt_code mt_time_sync_response = 8"
| "mt_code (mt_unnamed n) = n"

definition mt_of_code :: "u8 \<Rightarrow> message_type" where
  "mt_of_code b =
     (if b = 0 then mt_no_type else if b = 1 then mt_entry_create
      else if b = 2 then mt_entry_update else if b = 3 then mt_entry_delete
      else if b = 4 then mt_entry_id_assign else if b = 5 then mt_handshake_finished
      else if b = 6 then mt_handshake_ready else if b = 7 then mt_time_sync_request
      else if b = 8 then mt_time_sync_response else mt_unnamed (uint b))"

definition mt_byte :: "message_type \<Rightarrow> u8" where
  "mt_byte t = word_of_int (mt_code t)"

fun mt_named :: "message_type \<Rightarrow> bool" where
  "mt_named (mt_unnamed n) = False"
| "mt_named _ = True"

lemma mt_of_code_byte [simp, wire_simps]: "mt_named t \<Longrightarrow> mt_of_code (mt_byte t) = t"
  by (cases t) (simp_all add: mt_of_code_def mt_byte_def)

section \<open>The parser\<close>

datatype parse_state =
    ps_check_type
  | ps_read_id
  | ps_read_name
  | ps_read_value_type
  | ps_read_value
  | ps_read_send_time
  | ps_read_time_value

definition error_unknown_type :: u8 where "error_unknown_type = 0"
definition error_read_data :: u8 where "error_read_data = 1"
definition error_unknown_state :: u8 where "error_unknown_state = 2"

record parse_data =
  pd_send_time :: milliseconds
  pd_id :: u16
  pd_name :: string
  pd_type :: value_type
  pd_value :: obsr_value
  pd_time_value :: milliseconds

record message_parser = "(parse_state, parse_data) state_machine" +
  mp_type :: message_type
  mp_deserializer :: "ro_view deserializer"

text \<open>
  The constructor leaves the times, the identifier and the type of the parse data indeterminate:
  \<open>junk\<close> is what they happen to be.
\<close>

definition message_parser_new :: "parse_data \<Rightarrow> message_parser" where
  "message_parser_new junk =
     \<lparr>sm_state = os_start, sm_user_state = ps_check_type, sm_error_code = 0,
      sm_data = junk\<lparr>pd_name := [], pd_value := value_make\<rparr>,
      mp_type = mt_unnamed (- 1), mp_deserializer = deserializer_new ro_view_new\<rparr>"

definition set_data :: "message_type \<Rightarrow> bytes \<Rightarrow> nat \<Rightarrow> message_parser \<Rightarrow> message_parser" where
  "set_data t buffer sz m =
     sm_reset ps_check_type
       (m\<lparr>mp_type := t,
          mp_deserializer := (mp_deserializer m)\<lparr>ds_buffer :=
            ro_view_reset buffer sz (ds_buffer (mp_deserializer m))\<rparr>\<rparr>)"

definition select_next_state :: "parse_state \<Rightarrow> message_parser \<Rightarrow> bool \<times> message_parser" where
  "select_next_state s m =
     (case s of
        ps_check_type \<Rightarrow>
          (case mp_type m of
             mt_entry_create \<Rightarrow> move_to_state ps_read_send_time m
           | mt_entry_update \<Rightarrow> move_to_state ps_read_send_time m
           | mt_entry_delete \<Rightarrow> move_to_state ps_read_send_time m
           | mt_time_sync_request \<Rightarrow> move_to_state ps_read_send_time m
           | mt_time_sync_response \<Rightarrow> move_to_state ps_read_send_time m
           | mt_entry_id_assign \<Rightarrow> move_to_state ps_read_id m
           | mt_handshake_ready \<Rightarrow> finished m
           | mt_handshake_finished \<Rightarrow> finished m
           | _ \<Rightarrow> sm_error error_unknown_type m)
      | ps_read_id \<Rightarrow>
          (case mp_type m of
             mt_entry_id_assign \<Rightarrow> move_to_state ps_read_name m
           | mt_entry_update \<Rightarrow> move_to_state ps_read_value_type m
           | mt_entry_delete \<Rightarrow> finished m
           | _ \<Rightarrow> sm_error error_unknown_type m)
      | ps_read_name \<Rightarrow>
          (case mp_type m of
             mt_entry_create \<Rightarrow> move_to_state ps_read_value_type m
           | mt_entry_id_assign \<Rightarrow> finished m
           | _ \<Rightarrow> sm_error error_unknown_type m)
      | ps_read_value_type \<Rightarrow>
          (case mp_type m of
             mt_entry_create \<Rightarrow> move_to_state ps_read_value m
           | mt_entry_update \<Rightarrow> move_to_state ps_read_value m
           | _ \<Rightarrow> sm_error error_unknown_type m)
      | ps_read_value \<Rightarrow>
          (case mp_type m of
             mt_entry_create \<Rightarrow> finished m
           | mt_entry_update \<Rightarrow> finished m
           | _ \<Rightarrow> sm_error error_unknown_type m)
      | ps_read_send_time \<Rightarrow>
          (case mp_type m of
             mt_entry_create \<Rightarrow> move_to_state ps_read_name m
           | mt_entry_update \<Rightarrow> move_to_state ps_read_id m
           | mt_entry_delete \<Rightarrow> move_to_state ps_read_id m
           | mt_time_sync_request \<Rightarrow> finished m
           | mt_time_sync_response \<Rightarrow> move_to_state ps_read_time_value m
           | _ \<Rightarrow> sm_error error_unknown_type m)
      | ps_read_time_value \<Rightarrow>
          (case mp_type m of
             mt_time_sync_response \<Rightarrow> finished m
           | _ \<Rightarrow> sm_error error_unknown_type m))"

text \<open>
  The common shape of the reading states: read through the deserializer, fail with
  \<open>error_read_data\<close> when there is nothing to read, else store the result and select the next state.
\<close>

definition parse_field ::
  "(ro_view deserializer \<Rightarrow> (exn + 'x option) \<times> ro_view deserializer) \<Rightarrow>
   ('x \<Rightarrow> parse_data \<Rightarrow> parse_data) \<Rightarrow> parse_state \<Rightarrow> message_parser \<Rightarrow> (exn + bool) \<times> message_parser" where
  "parse_field rd put s m =
     (case rd (mp_deserializer m) of
        (Inl e, d) \<Rightarrow> (Inl e, m\<lparr>mp_deserializer := d\<rparr>)
      | (Inr None, d) \<Rightarrow>
          (case sm_error error_read_data (m\<lparr>mp_deserializer := d\<rparr>) of (b, m) \<Rightarrow> (Inr b, m))
      | (Inr (Some x), d) \<Rightarrow>
          (case select_next_state s (m\<lparr>mp_deserializer := d, sm_data := put x (sm_data m)\<rparr>) of
             (b, m) \<Rightarrow> (Inr b, m)))"

definition no_throw :: "('d \<Rightarrow> 'x option \<times> 'd) \<Rightarrow> 'd \<Rightarrow> (exn + 'x option) \<times> 'd" where
  "no_throw p d = (case p d of (r, d) \<Rightarrow> (Inr r, d))"

definition parser_step :: "(parse_state, message_parser) processor" where
  "parser_step s m =
     (case s of
        ps_check_type \<Rightarrow> (case select_next_state s m of (b, m) \<Rightarrow> (Inr b, m))
      | ps_read_id \<Rightarrow> parse_field (no_throw (read16 ro_view_read)) (\<lambda>x d. d\<lparr>pd_id := x\<rparr>) s m
      | ps_read_name \<Rightarrow> parse_field (no_throw (read_str ro_view_read)) (\<lambda>x d. d\<lparr>pd_name := x\<rparr>) s m
      | ps_read_value_type \<Rightarrow>
          parse_field (no_throw (read8 ro_view_read)) (\<lambda>x d. d\<lparr>pd_type := vt_of_code x\<rparr>) s m
      | ps_read_value \<Rightarrow>
          parse_field (read_value ro_view_read (pd_type (sm_data m))) (\<lambda>x d. d\<lparr>pd_value := x\<rparr>) s m
      | ps_read_send_time \<Rightarrow>
          parse_field (no_throw (read64 ro_view_read)) (\<lambda>x d. d\<lparr>pd_send_time := ms_of_u64 x\<rparr>) s m
      | ps_read_time_value \<Rightarrow>
          parse_field (no_throw (read64 ro_view_read)) (\<lambda>x d. d\<lparr>pd_time_value := ms_of_u64 x\<rparr>) s m)"

definition parser_process :: "message_parser \<Rightarrow> ((exn + unit) \<times> message_parser) option" where
  "parser_process m = sm_process parser_step ps_check_type m"

section \<open>Parsing always returns\<close>

fun parse_rank :: "parse_state \<Rightarrow> nat" where
  "parse_rank ps_check_type = 6"
| "parse_rank ps_read_send_time = 5"
| "parse_rank ps_read_id = 4"
| "parse_rank ps_read_name = 3"
| "parse_rank ps_read_value_type = 2"
| "parse_rank ps_read_value = 1"
| "parse_rank ps_read_time_value = 0"

lemma select_next_state_rank:
  "select_next_state s m = (True, m') \<Longrightarrow> parse_rank (sm_user_state m') < parse_rank s"
  by (auto simp: select_next_state_def move_to_state_def finished_def sm_error_def
      split: parse_state.splits message_type.splits)

lemma parse_field_rank:
  "parse_field rd put s m = (Inr True, m') \<Longrightarrow> parse_rank (sm_user_state m') < parse_rank s"
  by (auto simp: parse_field_def sm_error_def dest: select_next_state_rank
      split: prod.splits sum.splits option.splits)

lemma parser_step_rank:
  "parser_step s m = (Inr True, m') \<Longrightarrow> parse_rank (sm_user_state m') < parse_rank s"
  by (auto simp: parser_step_def dest: select_next_state_rank parse_field_rank
      split: parse_state.splits prod.splits)

interpretation parser: ranked_machine parser_step "\<lambda>m. parse_rank (sm_user_state m)" "\<lambda>m. True"
    ps_check_type
  by unfold_locales (auto dest: parser_step_rank)

end
