(* ===== verification/Obsr_Queue.thy ===== *)
theory Obsr_Queue
  imports Obsr_Messages
begin

text \<open>
  Outgoing messages (\<open>out_message\<close>), the serializer of message bodies (\<open>message_serializer\<close>) and the
  queue of outgoing messages (\<open>message_queue\<close>), all of \<open>src/net/serialize.h\<close> and
  \<open>src/net/serialize.cpp\<close>, with the wire format of every message as the specification.
\<close>

section \<open>\<open>out_message\<close>\<close>

record out_message =
  om_type :: message_type
  om_id :: u16
  om_name :: string
  om_value :: obsr_value
  om_time :: milliseconds
  om_send_time :: milliseconds

definition out_message_new :: "message_type \<Rightarrow> out_message" where
  "out_message_new t =
     \<lparr>om_type = t, om_id = 0, om_name = [], om_value = value_make, om_time = 0, om_send_time = 0\<rparr>"

text \<open>The accessors assert that the message type has the field.\<close>

definition om_get_id :: "out_message \<Rightarrow> exn + u16" where
  "om_get_id m =
     (if om_type m \<in> {mt_entry_create, mt_entry_update, mt_entry_delete, mt_entry_id_assign}
      then Inr (om_id m) else Inl Assertion_failed)"

definition om_get_name :: "out_message \<Rightarrow> exn + string" where
  "om_get_name m =
     (if om_type m \<in> {mt_entry_create, mt_entry_id_assign}
      then Inr (om_name m) else Inl Assertion_failed)"

definition om_get_value :: "out_message \<Rightarrow> exn + obsr_value" where
  "om_get_value m =
     (if om_type m \<in> {mt_entry_create, mt_entry_update}
      then Inr (om_value m) else Inl Assertion_failed)"

definition om_get_send_time :: "out_message \<Rightarrow> exn + milliseconds" where
  "om_get_send_time m =
     (if om_type m \<in> {mt_entry_create, mt_entry_update, mt_entry_delete, mt_entry_id_assign,
        mt_time_sync_response, mt_time_sync_request}
      then Inr (om_send_time m) else Inl Assertion_failed)"

definition om_get_time_value :: "out_message \<Rightarrow> exn + milliseconds" where
  "om_get_time_value m =
     (if om_type m = mt_time_sync_response then Inr (om_time m) else Inl Assertion_failed)"

definition out_empty :: out_message where
  "out_empty = out_message_new mt_no_type"

definition out_entry_create :: "milliseconds \<Rightarrow> string \<Rightarrow> obsr_value \<Rightarrow> out_message" where
  "out_entry_create t n v =
     (out_message_new mt_entry_create)\<lparr>om_send_time := t, om_name := n, om_value := v\<rparr>"

definition out_entry_update :: "milliseconds \<Rightarrow> u16 \<Rightarrow> obsr_value \<Rightarrow> out_message" where
  "out_entry_update t i v =
     (out_message_new mt_entry_update)\<lparr>om_send_time := t, om_id := i, om_value := v\<rparr>"

definition out_entry_deleted :: "milliseconds \<Rightarrow> u16 \<Rightarrow> out_message" where
  "out_entry_deleted t i = (out_message_new mt_entry_delete)\<lparr>om_send_time := t, om_id := i\<rparr>"

definition out_entry_id_assign :: "u16 \<Rightarrow> string \<Rightarrow> out_message" where
  "out_entry_id_assign i n = (out_message_new mt_entry_id_assign)\<lparr>om_id := i, om_name := n\<rparr>"

definition out_handshake_ready :: out_message where
  "out_handshake_ready = out_message_new mt_handshake_ready"

definition out_handshake_finished :: out_message where
  "out_handshake_finished = out_message_new mt_handshake_finished"

definition out_time_sync_request :: "milliseconds \<Rightarrow> out_message" where
  "out_time_sync_request t = (out_message_new mt_time_sync_request)\<lparr>om_send_time := t\<rparr>"

definition out_time_sync_response :: "milliseconds \<Rightarrow> milliseconds \<Rightarrow> out_message" where
  "out_time_sync_response t v =
     (out_message_new mt_time_sync_response)\<lparr>om_send_time := t, om_time := v\<rparr>"

lemmas out_defs = out_empty_def out_entry_create_def out_entry_update_def out_entry_deleted_def
  out_entry_id_assign_def out_handshake_ready_def out_handshake_finished_def
  out_time_sync_request_def out_time_sync_response_def out_message_new_def

lemmas om_get_defs = om_get_id_def om_get_name_def om_get_value_def om_get_send_time_def
  om_get_time_value_def

section \<open>\<open>message_serializer\<close>\<close>

definition writer_buffer_size :: nat where
  "writer_buffer_size = 512"

text \<open>The serializer writes into its own buffer; writing a value may throw.\<close>

type_synonym message_serializer = linear_buffer
type_synonym body_writer = "message_serializer \<Rightarrow> (exn + bool) \<times> message_serializer"

definition message_serializer_new :: "(nat \<Rightarrow> u8) \<Rightarrow> message_serializer" where
  "message_serializer_new junk = linear_new junk writer_buffer_size"

definition write_then :: "linear_buffer encoder \<Rightarrow> body_writer \<Rightarrow> body_writer" where
  "write_then p q b = (case p b of (False, b) \<Rightarrow> (Inr False, b) | (True, b) \<Rightarrow> q b)"

definition write_last :: "linear_buffer encoder \<Rightarrow> body_writer" where
  "write_last p b = (case p b of (r, b) \<Rightarrow> (Inr r, b))"

definition body_entry_id_assign :: "u16 \<Rightarrow> string \<Rightarrow> body_writer" where
  "body_entry_id_assign i n =
     write_then (write16 linear_write i) (write_last (write_str linear_write n))"

definition body_entry_created :: "milliseconds \<Rightarrow> string \<Rightarrow> obsr_value \<Rightarrow> body_writer" where
  "body_entry_created t n v =
     write_then (write64 linear_write (u64_of_ms t))
       (write_then (write_str linear_write n)
         (write_then (write8 linear_write (vt_code (value_get_type v)))
           (write_value linear_write v)))"

definition body_entry_updated :: "milliseconds \<Rightarrow> u16 \<Rightarrow> obsr_value \<Rightarrow> body_writer" where
  "body_entry_updated t i v =
     write_then (write64 linear_write (u64_of_ms t))
       (write_then (write16 linear_write i)
         (write_then (write8 linear_write (vt_code (value_get_type v)))
           (write_value linear_write v)))"

definition body_entry_deleted :: "milliseconds \<Rightarrow> u16 \<Rightarrow> body_writer" where
  "body_entry_deleted t i =
     write_then (write64 linear_write (u64_of_ms t)) (write_last (write16 linear_write i))"

definition body_time_sync_request :: "milliseconds \<Rightarrow> body_writer" where
  "body_time_sync_request t = write_last (write64 linear_write (u64_of_ms t))"

definition body_time_sync_response :: "milliseconds \<Rightarrow> milliseconds \<Rightarrow> body_writer" where
  "body_time_sync_response t v =
     write_then (write64 linear_write (u64_of_ms t)) (write_last (write64 linear_write (u64_of_ms v)))"

section \<open>\<open>message_queue\<close>\<close>

text \<open>
  The destination the queue is attached to: it takes a type and a body, works on a world \<open>'w\<close> of
  its own, and answers whether it took the message; it may throw.
\<close>

type_synonym 'w destination = "u8 \<Rightarrow> bytes \<Rightarrow> 'w \<Rightarrow> (exn + bool) \<times> 'w"

type_synonym 'w sender = "message_serializer \<Rightarrow> 'w \<Rightarrow> (exn + bool) \<times> message_serializer \<times> 'w"

definition need :: "exn + 'x \<Rightarrow> ('x \<Rightarrow> 'w sender) \<Rightarrow> 'w sender" where
  "need r f s w = (case r of Inl e \<Rightarrow> (Inl e, s, w) | Inr x \<Rightarrow> f x s w)"

text \<open>Reset the serializer, write the body, pass it to the destination.\<close>

definition write_body :: "'w destination \<Rightarrow> message_type \<Rightarrow> body_writer \<Rightarrow> 'w sender" where
  "write_body dest t body s w =
     (case body s of
        (Inl e, s) \<Rightarrow> (Inl e, s, w)
      | (Inr False, s) \<Rightarrow> (Inr False, s, w)
      | (Inr True, s) \<Rightarrow> (case dest (mt_byte t) (linear_data s) w of (r, w) \<Rightarrow> (r, s, w)))"

definition write_entry_created :: "'w destination \<Rightarrow> out_message \<Rightarrow> 'w sender" where
  "write_entry_created dest m s w =
     (let s = linear_reset s in
      need (om_get_send_time m) (\<lambda>t. need (om_get_name m) (\<lambda>n. need (om_get_value m) (\<lambda>v.
        write_body dest mt_entry_create (body_entry_created t n v)))) s w)"

definition write_entry_updated :: "'w destination \<Rightarrow> out_message \<Rightarrow> 'w sender" where
  "write_entry_updated dest m s w =
     (let s = linear_reset s in
      need (om_get_send_time m) (\<lambda>t. need (om_get_id m) (\<lambda>i. need (om_get_value m) (\<lambda>v.
        write_body dest mt_entry_update (body_entry_updated t i v)))) s w)"

definition write_entry_deleted :: "'w destination \<Rightarrow> out_message \<Rightarrow> 'w sender" where
  "write_entry_deleted dest m s w =
     (let s = linear_reset s in
      need (om_get_send_time m) (\<lambda>t. need (om_get_id m) (\<lambda>i.
        write_body dest mt_entry_delete (body_entry_deleted t i))) s w)"

definition write_entry_id_assigned :: "'w destination \<Rightarrow> out_message \<Rightarrow> 'w sender" where
  "write_entry_id_assigned dest m s w =
     (let s = linear_reset s in
      need (om_get_id m) (\<lambda>i. need (om_get_name m) (\<lambda>n.
        write_body dest mt_entry_id_assign (body_entry_id_assign i n))) s w)"

definition write_time_sync_request :: "'w destination \<Rightarrow> out_message \<Rightarrow> 'w sender" where
  "write_time_sync_request dest m s w =
     (let s = linear_reset s in
      need (om_get_send_time m) (\<lambda>t.
        write_body dest mt_time_sync_request (body_time_sync_request t)) s w)"

definition write_time_sync_response :: "'w destination \<Rightarrow> out_message \<Rightarrow> 'w sender" where
  "write_time_sync_response dest m s w =
     (let s = linear_reset s in
      need (om_get_send_time m) (\<lambda>t. need (om_get_time_value m) (\<lambda>v.
        write_body dest mt_time_sync_response (body_time_sync_response t v))) s w)"

definition write_basic :: "'w destination \<Rightarrow> out_message \<Rightarrow> 'w sender" where
  "write_basic dest m s w = (case dest (mt_byte (om_type m)) [] w of (r, w) \<Rightarrow> (r, s, w))"

definition write_message :: "'w destination \<Rightarrow> out_message \<Rightarrow> 'w sender" where
  "write_message dest m s w =
     (case om_type m of
        mt_entry_create \<Rightarrow> write_entry_created dest m s w
      | mt_entry_update \<Rightarrow> write_entry_updated dest m s w
      | mt_entry_delete \<Rightarrow> write_entry_deleted dest m s w
      | mt_entry_id_assign \<Rightarrow> write_entry_id_assigned dest m s w
      | mt_time_sync_request \<Rightarrow> write_time_sync_request dest m s w
      | mt_time_sync_response \<Rightarrow> write_time_sync_response dest m s w
      | mt_handshake_ready \<Rightarrow> write_basic dest m s w
      | mt_handshake_finished \<Rightarrow> write_basic dest m s w
      | mt_no_type \<Rightarrow> (Inr True, s, w)
      | mt_unnamed _ \<Rightarrow> (Inr True, s, w))"

record message_queue =
  mq_serializer :: message_serializer
  mq_outgoing :: "out_message list"

definition message_queue_new :: "(nat \<Rightarrow> u8) \<Rightarrow> message_queue" where
  "message_queue_new junk = \<lparr>mq_serializer = message_serializer_new junk, mq_outgoing = []\<rparr>"

definition flag_immediate :: u8 where
  "flag_immediate = 1"

definition enqueue ::
  "'w destination \<Rightarrow> out_message \<Rightarrow> u8 \<Rightarrow> message_queue \<Rightarrow> 'w \<Rightarrow> (exn + unit) \<times> message_queue \<times> 'w" where
  "enqueue dest m flags q w =
     (if flags AND flag_immediate \<noteq> 0 then
        (case write_message dest m (mq_serializer q) w of
           (Inl e, s, w) \<Rightarrow> (Inl e, q\<lparr>mq_serializer := s\<rparr>, w)
         | (Inr True, s, w) \<Rightarrow> (Inr (), q\<lparr>mq_serializer := s\<rparr>, w)
         | (Inr False, s, w) \<Rightarrow>
             (Inr (), q\<lparr>mq_serializer := s, mq_outgoing := m # mq_outgoing q\<rparr>, w))
      else (Inr (), q\<lparr>mq_outgoing := mq_outgoing q @ [m]\<rparr>, w))"

definition mq_clear :: "message_queue \<Rightarrow> message_queue" where
  "mq_clear q = q\<lparr>mq_outgoing := []\<rparr>"

fun drain ::
  "'w destination \<Rightarrow> out_message list \<Rightarrow> message_serializer \<Rightarrow> 'w \<Rightarrow>
   (exn + unit) \<times> out_message list \<times> message_serializer \<times> 'w" where
  "drain dest [] s w = (Inr (), [], s, w)"
| "drain dest (m # ms) s w =
     (case write_message dest m s w of
        (Inl e, s, w) \<Rightarrow> (Inl e, m # ms, s, w)
      | (Inr True, s, w) \<Rightarrow> drain dest ms s w
      | (Inr False, s, w) \<Rightarrow> (Inr (), m # ms, s, w))"

definition mq_process ::
  "'w destination \<Rightarrow> message_queue \<Rightarrow> 'w \<Rightarrow> (exn + unit) \<times> message_queue \<times> 'w" where
  "mq_process dest q w =
     (case drain dest (mq_outgoing q) (mq_serializer q) w of
        (r, ms, s, w) \<Rightarrow> (r, q\<lparr>mq_outgoing := ms, mq_serializer := s\<rparr>, w))"

section \<open>The wire format of messages\<close>

datatype net_message =
    N_create milliseconds string content
  | N_update milliseconds u16 content
  | N_delete milliseconds u16
  | N_assign u16 string
  | N_ready
  | N_finished
  | N_request milliseconds
  | N_response milliseconds milliseconds

fun net_type :: "net_message \<Rightarrow> message_type" where
  "net_type (N_create _ _ _) = mt_entry_create"
| "net_type (N_update _ _ _) = mt_entry_update"
| "net_type (N_delete _ _) = mt_entry_delete"
| "net_type (N_assign _ _) = mt_entry_id_assign"
| "net_type N_ready = mt_handshake_ready"
| "net_type N_finished = mt_handshake_finished"
| "net_type (N_request _) = mt_time_sync_request"
| "net_type (N_response _ _) = mt_time_sync_response"

fun net_body :: "net_message \<Rightarrow> bytes" where
  "net_body (N_create t n c) =
     be_bytes 8 (u64_of_ms t) @ wire_str n @ [vt_code (content_type c)] @ wire_content c"
| "net_body (N_update t i c) =
     be_bytes 8 (u64_of_ms t) @ be_bytes 2 i @ [vt_code (content_type c)] @ wire_content c"
| "net_body (N_delete t i) = be_bytes 8 (u64_of_ms t) @ be_bytes 2 i"
| "net_body (N_assign i n) = be_bytes 2 i @ wire_str n"
| "net_body N_ready = []"
| "net_body N_finished = []"
| "net_body (N_request t) = be_bytes 8 (u64_of_ms t)"
| "net_body (N_response t v) = be_bytes 8 (u64_of_ms t) @ be_bytes 8 (u64_of_ms v)"

text \<open>The sizes of names and arrays a message may have.\<close>

fun net_small :: "net_message \<Rightarrow> bool" where
  "net_small (N_create t n c) = (length n < 255 \<and> content_count c < 255)"
| "net_small (N_update t i c) = (content_count c < 255)"
| "net_small (N_assign i n) = (length n < 255)"
| "net_small _ = True"

text \<open>An outgoing message stands for a message of the protocol.\<close>

fun stands_for :: "out_message \<Rightarrow> net_message \<Rightarrow> bool" where
  "stands_for m (N_create t n c) =
     (om_type m = mt_entry_create \<and> om_send_time m = t \<and> om_name m = n \<and> content_of (om_value m) = Some c)"
| "stands_for m (N_update t i c) =
     (om_type m = mt_entry_update \<and> om_send_time m = t \<and> om_id m = i \<and> content_of (om_value m) = Some c)"
| "stands_for m (N_delete t i) = (om_type m = mt_entry_delete \<and> om_send_time m = t \<and> om_id m = i)"
| "stands_for m (N_assign i n) = (om_type m = mt_entry_id_assign \<and> om_id m = i \<and> om_name m = n)"
| "stands_for m N_ready = (om_type m = mt_handshake_ready)"
| "stands_for m N_finished = (om_type m = mt_handshake_finished)"
| "stands_for m (N_request t) = (om_type m = mt_time_sync_request \<and> om_send_time m = t)"
| "stands_for m (N_response t v) =
     (om_type m = mt_time_sync_response \<and> om_send_time m = t \<and> om_time m = v)"

section \<open>Writing a message\<close>

text \<open>The serializer's buffer keeps its size, so the contract of its encoders is at that size.\<close>

definition linear_sized :: "nat \<Rightarrow> linear_buffer \<Rightarrow> bool" where
  "linear_sized n b \<longleftrightarrow> linear_ok b \<and> lb_size b = n"

interpretation ser: bounded_writable_buffer linear_write linear_data linear_room "linear_sized n" for n
proof
  fix b xs
  assume b: "linear_sized n b"
  then have ok: "linear_ok b" by (simp add: linear_sized_def)
  show "fst (linear_write b xs)" if "length xs \<le> linear_room b"
    using lin.wr_fits [OF ok that] .
  show "linear_data (snd (linear_write b xs)) = linear_data b @ xs" if "length xs \<le> linear_room b"
    using lin.wr_written [OF ok that] .
  show "linear_room (snd (linear_write b xs)) = linear_room b - length xs"
    if "length xs \<le> linear_room b"
    using lin.wr_room [OF ok that] .
  show "snd (linear_write b xs) = b" if "\<not> fst (linear_write b xs)"
    using lin.wr_fails [OF ok that] .
  show "linear_sized n (snd (linear_write b xs))"
    using lin.wr_ok [OF ok, of xs] b by (simp add: linear_sized_def)
  show "linear_write b xs = (False, b)" if "linear_room b < length xs"
    using lin.wr_full [OF ok that] .
qed

lemma linear_sized_reset [simp]:
  "linear_sized n b \<Longrightarrow> linear_sized n (linear_reset b)"
  "linear_sized n b \<Longrightarrow> linear_room (linear_reset b) = n"
  by (simp_all add: linear_sized_def)

lemma message_serializer_new_sized [simp]: "linear_sized writer_buffer_size (message_serializer_new junk)"
  by (simp add: message_serializer_new_def linear_sized_def linear_new_ok) (simp add: linear_new_def)

text \<open>\<open>body_writes n p bs\<close>: the body writer succeeds exactly when its bytes fit, and has appended them.\<close>

definition body_writes :: "nat \<Rightarrow> body_writer \<Rightarrow> bytes \<Rightarrow> bool" where
  "body_writes n p bs \<longleftrightarrow>
     (\<forall>b. linear_sized n b \<longrightarrow>
        (\<exists>r b'. p b = (Inr r, b') \<and> linear_sized n b' \<and> (r \<longleftrightarrow> length bs \<le> linear_room b) \<and>
           (r \<longrightarrow> linear_data b' = linear_data b @ bs \<and>
                linear_room b' = linear_room b - length bs)))"

lemma body_writes_last:
  assumes "appends linear_data linear_room (linear_sized n) p bs"
  shows "body_writes n (write_last p) bs"
proof -
  have "\<exists>r b'. write_last p b = (Inr r, b') \<and> linear_sized n b' \<and> (r \<longleftrightarrow> length bs \<le> linear_room b) \<and>
      (r \<longrightarrow> linear_data b' = linear_data b @ bs \<and> linear_room b' = linear_room b - length bs)"
    if "linear_sized n b" for b
    using assms that unfolding appends_def write_last_def by (cases "p b") fastforce
  then show ?thesis by (simp add: body_writes_def)
qed

lemma body_writes_then:
  assumes p: "appends linear_data linear_room (linear_sized n) p bs" and q: "body_writes n q cs"
  shows "body_writes n (write_then p q) (bs @ cs)"
  unfolding body_writes_def
proof (intro allI impI)
  fix b assume b: "linear_sized n b"
  show "\<exists>r b'. write_then p q b = (Inr r, b') \<and> linear_sized n b' \<and>
      (r \<longleftrightarrow> length (bs @ cs) \<le> linear_room b) \<and>
      (r \<longrightarrow> linear_data b' = linear_data b @ bs @ cs \<and>
           linear_room b' = linear_room b - length (bs @ cs))"
  proof (cases "length bs \<le> linear_room b")
    case True
    from ser.appendsD [OF p b True] obtain b1 where b1: "p b = (True, b1)" "linear_sized n b1"
      "linear_data b1 = linear_data b @ bs" "linear_room b1 = linear_room b - length bs" by blast
    from q b1(2) obtain r b2 where "q b1 = (Inr r, b2)" "linear_sized n b2"
      "r \<longleftrightarrow> length cs \<le> linear_room b1"
      "r \<longrightarrow> linear_data b2 = linear_data b1 @ cs \<and> linear_room b2 = linear_room b1 - length cs"
      unfolding body_writes_def by blast
    with b1 True show ?thesis by (auto simp: write_then_def)
  next
    case False
    then have "linear_room b < length bs" by simp
    from ser.appends_fails [OF p b this] False show ?thesis by (auto simp: write_then_def)
  qed
qed

lemma body_writes_value:
  assumes "content_of v = Some c" and "content_count c < 255"
  shows "body_writes n (write_value linear_write v) (wire_content c)"
  unfolding body_writes_def using ser.write_value_wire [OF assms, of n] by simp

lemma body_writes_type:
  assumes c: "content_of v = Some c" and "content_count c < 255"
  shows "body_writes n
     (write_then (write8 linear_write (vt_code (value_get_type v))) (write_value linear_write v))
     ([vt_code (content_type c)] @ wire_content c)"
  using body_writes_then [OF ser.appends_write8 body_writes_value [OF assms],
      of n "vt_code (value_get_type v)"] content_type_of [OF c]
  by (simp add: value_get_type_def)

lemma body_writes_bodies:
  "length nm < 255 \<Longrightarrow> body_writes n (body_entry_id_assign i nm) (net_body (N_assign i nm))"
  "length nm < 255 \<Longrightarrow> content_of v = Some c \<Longrightarrow> content_count c < 255 \<Longrightarrow>
     body_writes n (body_entry_created t nm v) (net_body (N_create t nm c))"
  "content_of v = Some c \<Longrightarrow> content_count c < 255 \<Longrightarrow>
     body_writes n (body_entry_updated t i v) (net_body (N_update t i c))"
  "body_writes n (body_entry_deleted t i) (net_body (N_delete t i))"
  "body_writes n (body_time_sync_request t) (net_body (N_request t))"
  "body_writes n (body_time_sync_response t u) (net_body (N_response t u))"
  unfolding body_entry_id_assign_def body_entry_created_def body_entry_updated_def
    body_entry_deleted_def body_time_sync_request_def body_time_sync_response_def net_body.simps
  by (intro body_writes_then body_writes_last body_writes_type ser.appends_writes ser.appends_write_str;
      assumption)+

section \<open>What the queue writes\<close>

text \<open>A message that fits is passed to the destination in its wire format.\<close>

lemma write_body_fits:
  assumes "body_writes n body bs" and "linear_sized n s" and "length bs \<le> n"
  shows "\<exists>s'. linear_sized n s' \<and>
     write_body dest t body (linear_reset s) w =
       (case dest (mt_byte t) bs w of (r, w) \<Rightarrow> (r, s', w))"
proof -
  from assms obtain r b' where "body (linear_reset s) = (Inr r, b')" "linear_sized n b'" "r"
    "linear_data b' = bs"
    unfolding body_writes_def using linear_sized_reset [OF assms(2)] linear_reset_simps(2) [of s]
    by (metis append_Nil)
  then show ?thesis by (auto simp: write_body_def)
qed

lemma write_body_too_long:
  assumes "body_writes n body bs" and "linear_sized n s" and "n < length bs"
  shows "\<exists>s'. linear_sized n s' \<and> write_body dest t body (linear_reset s) w = (Inr False, s', w)"
proof -
  from assms obtain r b' where "body (linear_reset s) = (Inr r, b')" "linear_sized n b'" "\<not> r"
    unfolding body_writes_def using linear_sized_reset [OF assms(2)]
    by (metis linorder_not_less)
  then show ?thesis by (auto simp: write_body_def)
qed

lemma need_Inr [simp]: "need (Inr x) f s w = f x s w"
  by (simp add: need_def)

lemmas write_entry_defs = write_entry_created_def write_entry_updated_def write_entry_deleted_def
  write_entry_id_assigned_def write_time_sync_request_def write_time_sync_response_def

lemma write_message_body:
  assumes "stands_for m k" and "net_small k" and "k \<noteq> N_ready" and "k \<noteq> N_finished"
  shows "\<exists>body. (\<forall>n. body_writes n body (net_body k)) \<and>
     (\<forall>s w. write_message dest m s w = write_body dest (net_type k) body (linear_reset s) w)"
proof (cases k)
  case (N_create t nm c)
  with assms show ?thesis
    by (intro exI [of _ "body_entry_created t nm (om_value m)"])
       (auto simp: write_message_def write_entry_defs om_get_defs body_writes_bodies
         simp del: net_body.simps)
next
  case (N_update t i c)
  with assms show ?thesis
    by (intro exI [of _ "body_entry_updated t i (om_value m)"])
       (auto simp: write_message_def write_entry_defs om_get_defs body_writes_bodies
         simp del: net_body.simps)
next
  case (N_delete t i)
  with assms show ?thesis
    by (intro exI [of _ "body_entry_deleted t i"])
       (auto simp: write_message_def write_entry_defs om_get_defs body_writes_bodies
         simp del: net_body.simps)
next
  case (N_assign i nm)
  with assms show ?thesis
    by (intro exI [of _ "body_entry_id_assign i nm"])
       (auto simp: write_message_def write_entry_defs om_get_defs body_writes_bodies
         simp del: net_body.simps)
next
  case (N_request t)
  with assms show ?thesis
    by (intro exI [of _ "body_time_sync_request t"])
       (auto simp: write_message_def write_entry_defs om_get_defs body_writes_bodies
         simp del: net_body.simps)
next
  case (N_response t u)
  with assms show ?thesis
    by (intro exI [of _ "body_time_sync_response t u"])
       (auto simp: write_message_def write_entry_defs om_get_defs body_writes_bodies
         simp del: net_body.simps)
qed (use assms in auto)

lemma write_message_fits:
  assumes m: "stands_for m k" and k: "net_small k" "length (net_body k) \<le> n" and s: "linear_sized n s"
  shows "\<exists>s'. linear_sized n s' \<and>
     write_message dest m s w =
       (case dest (mt_byte (net_type k)) (net_body k) w of (r, w) \<Rightarrow> (r, s', w))"
proof (cases "k = N_ready \<or> k = N_finished")
  case True
  with m s show ?thesis by (auto simp: write_message_def write_basic_def)
next
  case False
  then obtain body where body: "\<forall>n. body_writes n body (net_body k)"
    and eq: "\<forall>s w. write_message dest m s w = write_body dest (net_type k) body (linear_reset s) w"
    using write_message_body [OF m k(1), of dest] by auto
  show ?thesis
    using write_body_fits [OF spec [OF body] s k(2), of dest "net_type k" w] eq by simp
qed

text \<open>A message longer than the serializer's buffer is never passed on.\<close>

lemma write_message_too_long:
  assumes m: "stands_for m k" and k: "net_small k" "n < length (net_body k)" and s: "linear_sized n s"
  shows "\<exists>s'. linear_sized n s' \<and> write_message dest m s w = (Inr False, s', w)"
proof -
  have "k \<noteq> N_ready" "k \<noteq> N_finished" using k by auto
  then obtain body where body: "\<forall>n. body_writes n body (net_body k)"
    and eq: "\<forall>s w. write_message dest m s w = write_body dest (net_type k) body (linear_reset s) w"
    using write_message_body [OF m k(1), of dest] by auto
  show ?thesis
    using write_body_too_long [OF spec [OF body] s k(2), of dest "net_type k" w] eq by simp
qed

end
