(* ===== verification/Obsr_Protocol.thy ===== *)
theory Obsr_Protocol
  imports Obsr_Queue
begin

text \<open>
  What the parser makes of the wire format of a message, what the queue does with its messages, and
  the limits of both: the properties of \<open>src/net/serialize.cpp\<close> as a protocol.
\<close>

section \<open>One step of the parser\<close>

text \<open>The parser is about to run state \<open>s\<close> on the unread bytes \<open>bs\<close>, with the data \<open>d\<close> so far.\<close>

definition parsing ::
  "message_type \<Rightarrow> parse_state \<Rightarrow> bytes \<Rightarrow> parse_data \<Rightarrow> message_parser \<Rightarrow> bool" where
  "parsing t s bs d m \<longleftrightarrow>
     sm_state m = os_in_state \<and> sm_error_code m = 0 \<and> sm_user_state m = s \<and> mp_type m = t \<and>
     sm_data m = d \<and> ro_view_ok (ds_buffer (mp_deserializer m)) \<and>
     ro_view_unread (ds_buffer (mp_deserializer m)) = bs"

text \<open>The parser has finished with the data \<open>d\<close>.\<close>

definition parse_done :: "parse_data \<Rightarrow> message_parser \<Rightarrow> bool" where
  "parse_done d m \<longleftrightarrow> is_finished m \<and> \<not> is_errored m \<and> sm_data m = d"

definition takes ::
  "(ro_view deserializer \<Rightarrow> (exn + 'x option) \<times> ro_view deserializer) \<Rightarrow> bytes \<Rightarrow> 'x \<Rightarrow> bool" where
  "takes p bs x \<longleftrightarrow>
     (\<forall>d rest. ro_view_ok (ds_buffer d) \<longrightarrow> ro_view_unread (ds_buffer d) = bs @ rest \<longrightarrow>
        (\<exists>d'. p d = (Inr (Some x), d') \<and> ro_view_ok (ds_buffer d') \<and>
              ro_view_unread (ds_buffer d') = rest))"

lemma takes_no_throw: "decodes ro_view_unread ro_view_ok p bs x \<Longrightarrow> takes (no_throw p) bs x"
  unfolding decodes_def takes_def no_throw_def by fastforce

lemma takesD:
  assumes "takes p bs x" and "parsing t s (bs @ rest) d m"
  obtains e where "p (mp_deserializer m) = (Inr (Some x), e)" and "ro_view_ok (ds_buffer e)"
    and "ro_view_unread (ds_buffer e) = rest"
  using assms unfolding takes_def parsing_def by blast

lemma parse_moves:
  assumes m: "parsing t s (bs @ rest) d m" and p: "takes p bs x"
    and step: "parser_step s m = parse_field p put s m"
    and sel: "\<And>m. mp_type m = t \<Longrightarrow> select_next_state s m = move_to_state s' m"
  shows "\<exists>m'. process_loop parser_step m = process_loop parser_step m' \<and> parsing t s' rest (put x d) m'"
proof -
  obtain e where e: "p (mp_deserializer m) = (Inr (Some x), e)" "ro_view_ok (ds_buffer e)"
    "ro_view_unread (ds_buffer e) = rest" by (rule takesD [OF p m])
  let ?m = "m\<lparr>mp_deserializer := e, sm_data := put x (sm_data m), sm_state := os_in_state,
    sm_user_state := s'\<rparr>"
  have "parser_step s m = (Inr True, ?m)"
    unfolding step parse_field_def using e m by (simp add: sel parsing_def move_to_state_def)
  then have "process_loop parser_step m = process_loop parser_step ?m"
    using m by (intro process_loop_again) (simp add: parsing_def)
  moreover have "parsing t s' rest (put x d) ?m" using m e by (simp add: parsing_def)
  ultimately show ?thesis by blast
qed

lemma parse_ends:
  assumes m: "parsing t s (bs @ rest) d m" and p: "takes p bs x"
    and step: "parser_step s m = parse_field p put s m"
    and sel: "\<And>m. mp_type m = t \<Longrightarrow> select_next_state s m = finished m"
  shows "\<exists>m'. process_loop parser_step m = Some (Inr (), m') \<and> parse_done (put x d) m'"
proof -
  obtain e where e: "p (mp_deserializer m) = (Inr (Some x), e)" by (rule takesD [OF p m])
  let ?m = "m\<lparr>mp_deserializer := e, sm_data := put x (sm_data m), sm_state := os_end\<rparr>"
  have "parser_step s m = (Inr False, ?m)"
    unfolding step parse_field_def using e m by (simp add: sel parsing_def finished_def)
  then have "process_loop parser_step m = Some (Inr (), ?m)"
    using m by (intro process_loop_stop) (simp add: parsing_def)
  moreover have "parse_done (put x d) ?m"
    using m by (simp add: parsing_def parse_done_def is_finished_def is_errored_def)
  ultimately show ?thesis by blast
qed

text \<open>Starting on the body of a message: the first state only selects by the type.\<close>

lemma parse_starts:
  assumes sel: "\<And>m. mp_type m = t \<Longrightarrow> select_next_state ps_check_type m = move_to_state s' m"
    and "n \<le> length bs"
  shows "\<exists>m'. parser_process (set_data t bs n m) = process_loop parser_step m' \<and>
     parsing t s' (take n bs) (sm_data m) m'"
proof -
  let ?m = "(set_data t bs n m)\<lparr>sm_state := os_in_state, sm_error_code := 0,
    sm_user_state := ps_check_type\<rparr>"
  have "parser_process (set_data t bs n m) = process_loop parser_step ?m"
    by (simp add: parser_process_def sm_process_def set_data_def sm_reset_def)
  also have "\<dots> = process_loop parser_step (?m\<lparr>sm_state := os_in_state, sm_user_state := s'\<rparr>)"
    by (intro process_loop_again)
       (simp add: parser_step_def sel set_data_def sm_reset_def move_to_state_def)
  finally show ?thesis
    using assms(2) by (intro exI conjI) (auto simp: parsing_def set_data_def sm_reset_def)
qed

section \<open>The fields of a message\<close>

lemma takes_fields:
  "takes (no_throw (read16 ro_view_read)) (be_bytes 2 i) i"
  "takes (no_throw (read64 ro_view_read)) (be_bytes 8 w) w"
  "takes (no_throw (read8 ro_view_read)) [b] b"
  "length n < 256 \<Longrightarrow> takes (no_throw (read_str ro_view_read)) (wire_str n) n"
  by (auto intro!: takes_no_throw rov.decodes_reads rov.decodes_read8 rov.decodes_read_str)

definition faithful :: "content \<Rightarrow> bool" where
  "faithful c \<longleftrightarrow> tagged c \<and> (case c of C_double _ \<Rightarrow> False | _ \<Rightarrow> True) \<and> content_count c < 255"

text \<open>Reading a value yields a value of the content on the wire, the same one wherever it is read.\<close>

lemma takes_value:
  assumes "faithful c"
  shows "\<exists>v. takes (read_value ro_view_read (content_type c)) (wire_content c) v \<and>
     content_of v = Some c"
proof -
  have f: "tagged c" "\<not> (\<exists>x. c = C_double x)" "content_count c < 255"
    using assms by (auto simp: faithful_def)
  obtain v where v: "make_content c = Inr v" "content_of v = Some c"
    using make_content_content [OF f(1,3)] by blast
  have "takes (read_value ro_view_read (content_type c)) (wire_content c) v"
    unfolding takes_def
  proof (intro allI impI)
    fix d :: "ro_view deserializer" and rest
    assume d: "ro_view_ok (ds_buffer d)" "ro_view_unread (ds_buffer d) = wire_content c @ rest"
    show "\<exists>d'. read_value ro_view_read (content_type c) d = (Inr (Some v), d') \<and>
        ro_view_ok (ds_buffer d') \<and> ro_view_unread (ds_buffer d') = rest"
      using rov.read_value_made [OF d f v(1)] by simp
  qed
  with v show ?thesis by blast
qed

section \<open>What the parser makes of a message\<close>

text \<open>The data after parsing a message: its fields are set, the others are what they were.\<close>

fun parsed :: "net_message \<Rightarrow> parse_data \<Rightarrow> parse_data \<Rightarrow> bool" where
  "parsed (N_create t n c) d d' \<longleftrightarrow> content_of (pd_value d') = Some c \<and>
     d' = d\<lparr>pd_send_time := t, pd_name := n, pd_type := content_type c, pd_value := pd_value d'\<rparr>"
| "parsed (N_update t i c) d d' \<longleftrightarrow> content_of (pd_value d') = Some c \<and>
     d' = d\<lparr>pd_send_time := t, pd_id := i, pd_type := content_type c, pd_value := pd_value d'\<rparr>"
| "parsed (N_delete t i) d d' \<longleftrightarrow> d' = d\<lparr>pd_send_time := t, pd_id := i\<rparr>"
| "parsed (N_assign i n) d d' \<longleftrightarrow> d' = d\<lparr>pd_id := i, pd_name := n\<rparr>"
| "parsed N_ready d d' \<longleftrightarrow> d' = d"
| "parsed N_finished d d' \<longleftrightarrow> d' = d"
| "parsed (N_request t) d d' \<longleftrightarrow> d' = d\<lparr>pd_send_time := t\<rparr>"
| "parsed (N_response t u) d d' \<longleftrightarrow> d' = d\<lparr>pd_send_time := t, pd_time_value := u\<rparr>"

fun net_clean :: "net_message \<Rightarrow> bool" where
  "net_clean (N_create t n c) = (ms_ok t \<and> length n < 255 \<and> faithful c)"
| "net_clean (N_update t i c) = (ms_ok t \<and> faithful c)"
| "net_clean (N_delete t i) = ms_ok t"
| "net_clean (N_assign i n) = (length n < 255)"
| "net_clean N_ready = True"
| "net_clean N_finished = True"
| "net_clean (N_request t) = ms_ok t"
| "net_clean (N_response t u) = (ms_ok t \<and> ms_ok u)"

lemma net_clean_small: "net_clean k \<Longrightarrow> net_small k"
  by (cases k) (auto simp: faithful_def)

lemmas parser_moves = select_next_state_def

lemma parse_time:
  assumes "parsing t ps_read_send_time (be_bytes 8 (u64_of_ms x) @ rest) d m" and "ms_ok x"
  shows
    "(\<And>m. mp_type m = t \<Longrightarrow> select_next_state ps_read_send_time m = move_to_state s' m) \<Longrightarrow>
      \<exists>m'. process_loop parser_step m = process_loop parser_step m' \<and>
        parsing t s' rest (d\<lparr>pd_send_time := x\<rparr>) m'"
    "(\<And>m. mp_type m = t \<Longrightarrow> select_next_state ps_read_send_time m = finished m) \<Longrightarrow>
      \<exists>m'. process_loop parser_step m = Some (Inr (), m') \<and> parse_done (d\<lparr>pd_send_time := x\<rparr>) m'"
  using parse_moves [OF assms(1) takes_fields(2), of "\<lambda>x d. d\<lparr>pd_send_time := ms_of_u64 x\<rparr>" s']
    parse_ends [OF assms(1) takes_fields(2), of "\<lambda>x d. d\<lparr>pd_send_time := ms_of_u64 x\<rparr>"] assms(2)
  by (simp_all add: parser_step_def)

lemma parse_id:
  assumes "parsing t ps_read_id (be_bytes 2 i @ rest) d m"
  shows
    "(\<And>m. mp_type m = t \<Longrightarrow> select_next_state ps_read_id m = move_to_state s' m) \<Longrightarrow>
      \<exists>m'. process_loop parser_step m = process_loop parser_step m' \<and>
        parsing t s' rest (d\<lparr>pd_id := i\<rparr>) m'"
    "(\<And>m. mp_type m = t \<Longrightarrow> select_next_state ps_read_id m = finished m) \<Longrightarrow>
      \<exists>m'. process_loop parser_step m = Some (Inr (), m') \<and> parse_done (d\<lparr>pd_id := i\<rparr>) m'"
  using parse_moves [OF assms takes_fields(1), of "\<lambda>x d. d\<lparr>pd_id := x\<rparr>" s']
    parse_ends [OF assms takes_fields(1), of "\<lambda>x d. d\<lparr>pd_id := x\<rparr>"]
  by (simp_all add: parser_step_def)

lemma parse_name:
  assumes "parsing t ps_read_name (wire_str n @ rest) d m" and "length n < 255"
  shows
    "(\<And>m. mp_type m = t \<Longrightarrow> select_next_state ps_read_name m = move_to_state s' m) \<Longrightarrow>
      \<exists>m'. process_loop parser_step m = process_loop parser_step m' \<and>
        parsing t s' rest (d\<lparr>pd_name := n\<rparr>) m'"
    "(\<And>m. mp_type m = t \<Longrightarrow> select_next_state ps_read_name m = finished m) \<Longrightarrow>
      \<exists>m'. process_loop parser_step m = Some (Inr (), m') \<and> parse_done (d\<lparr>pd_name := n\<rparr>) m'"
  using parse_moves [OF assms(1) takes_fields(4), of "\<lambda>x d. d\<lparr>pd_name := x\<rparr>" s']
    parse_ends [OF assms(1) takes_fields(4), of "\<lambda>x d. d\<lparr>pd_name := x\<rparr>"] assms(2)
  by (simp_all add: parser_step_def)

text \<open>The type byte, then the value: the end of both messages that carry one.\<close>

lemma parse_typed_value:
  assumes m: "parsing t ps_read_value_type ([vt_code (content_type c)] @ wire_content c) d m"
    and c: "faithful c" and t: "t = mt_entry_create \<or> t = mt_entry_update"
  shows "\<exists>m' v. process_loop parser_step m = Some (Inr (), m') \<and> content_of v = Some c \<and>
     parse_done (d\<lparr>pd_type := content_type c, pd_value := v\<rparr>) m'"
proof -
  let ?d = "d\<lparr>pd_type := content_type c\<rparr>"
  obtain m1 where m1: "process_loop parser_step m = process_loop parser_step m1"
    "parsing t ps_read_value (wire_content c) ?d m1"
    using parse_moves [OF m takes_fields(3), of "\<lambda>x d. d\<lparr>pd_type := vt_of_code x\<rparr>" ps_read_value] t
    by (auto simp: parser_step_def select_next_state_def)
  obtain v where v: "takes (read_value ro_view_read (content_type c)) (wire_content c) v"
    "content_of v = Some c" using takes_value [OF c] by blast
  have ty: "pd_type (sm_data m1) = content_type c" using m1(2) by (simp add: parsing_def)
  obtain m2 where "process_loop parser_step m1 = Some (Inr (), m2)"
    "parse_done (?d\<lparr>pd_value := v\<rparr>) m2"
    using parse_ends [OF _ v(1), of t ps_read_value "[]" ?d m1 "\<lambda>x d. d\<lparr>pd_value := x\<rparr>"] m1(2) t
    by (auto simp: parser_step_def ty select_next_state_def)
  with m1(1) v(2) show ?thesis by auto
qed

section \<open>Parsing takes the body of a message back\<close>

lemma parse_create:
  assumes "net_clean (N_create t n c)" and "take sz buf = net_body (N_create t n c)" and "sz \<le> length buf"
  shows "\<exists>m'. parser_process (set_data mt_entry_create buf sz m) = Some (Inr (), m') \<and>
     parse_done (sm_data m') m' \<and> parsed (N_create t n c) (sm_data m) (sm_data m')"
proof -
  let ?d = "(sm_data m)\<lparr>pd_send_time := t, pd_name := n\<rparr>"
  obtain m1 where m1: "parser_process (set_data mt_entry_create buf sz m) =
      process_loop parser_step m1"
    "parsing mt_entry_create ps_read_send_time (net_body (N_create t n c)) (sm_data m) m1"
    using parse_starts [of mt_entry_create ps_read_send_time sz buf m] assms(2,3)
    by (auto simp: select_next_state_def)
  obtain m2 where m2: "process_loop parser_step m1 = process_loop parser_step m2"
    "parsing mt_entry_create ps_read_name (wire_str n @ [vt_code (content_type c)] @ wire_content c)
       ((sm_data m)\<lparr>pd_send_time := t\<rparr>) m2"
    using parse_time(1) [OF m1(2) [unfolded net_body.simps], of ps_read_name] assms(1)
    by (auto simp: select_next_state_def)
  obtain m3 where m3: "process_loop parser_step m2 = process_loop parser_step m3"
    "parsing mt_entry_create ps_read_value_type ([vt_code (content_type c)] @ wire_content c) ?d m3"
    using parse_name(1) [OF m2(2), of ps_read_value_type] assms(1)
    by (auto simp: select_next_state_def)
  obtain m4 v where "process_loop parser_step m3 = Some (Inr (), m4)" "content_of v = Some c"
    "parse_done (?d\<lparr>pd_type := content_type c, pd_value := v\<rparr>) m4"
    using parse_typed_value [OF m3(2)] assms(1) by auto
  with m1 m2 m3 show ?thesis by (intro exI [of _ m4]) (auto simp: parse_done_def)
qed

lemma parse_update:
  assumes "net_clean (N_update t i c)" and "take sz buf = net_body (N_update t i c)" and "sz \<le> length buf"
  shows "\<exists>m'. parser_process (set_data mt_entry_update buf sz m) = Some (Inr (), m') \<and>
     parse_done (sm_data m') m' \<and> parsed (N_update t i c) (sm_data m) (sm_data m')"
proof -
  let ?d = "(sm_data m)\<lparr>pd_send_time := t, pd_id := i\<rparr>"
  obtain m1 where m1: "parser_process (set_data mt_entry_update buf sz m) =
      process_loop parser_step m1"
    "parsing mt_entry_update ps_read_send_time (net_body (N_update t i c)) (sm_data m) m1"
    using parse_starts [of mt_entry_update ps_read_send_time sz buf m] assms(2,3)
    by (auto simp: select_next_state_def)
  obtain m2 where m2: "process_loop parser_step m1 = process_loop parser_step m2"
    "parsing mt_entry_update ps_read_id (be_bytes 2 i @ [vt_code (content_type c)] @ wire_content c)
       ((sm_data m)\<lparr>pd_send_time := t\<rparr>) m2"
    using parse_time(1) [OF m1(2) [unfolded net_body.simps], of ps_read_id] assms(1)
    by (auto simp: select_next_state_def)
  obtain m3 where m3: "process_loop parser_step m2 = process_loop parser_step m3"
    "parsing mt_entry_update ps_read_value_type ([vt_code (content_type c)] @ wire_content c) ?d m3"
    using parse_id(1) [OF m2(2), of ps_read_value_type] by (auto simp: select_next_state_def)
  obtain m4 v where "process_loop parser_step m3 = Some (Inr (), m4)" "content_of v = Some c"
    "parse_done (?d\<lparr>pd_type := content_type c, pd_value := v\<rparr>) m4"
    using parse_typed_value [OF m3(2)] assms(1) by auto
  with m1 m2 m3 show ?thesis by (intro exI [of _ m4]) (auto simp: parse_done_def)
qed

lemma parse_basic:
  assumes "t = mt_handshake_ready \<or> t = mt_handshake_finished"
  shows "\<exists>m'. parser_process (set_data t bs n m) = Some (Inr (), m') \<and> parse_done (sm_data m) m'"
proof -
  let ?m = "(set_data t bs n m)\<lparr>sm_state := os_in_state, sm_error_code := 0,
    sm_user_state := ps_check_type\<rparr>"
  have "parser_process (set_data t bs n m) = process_loop parser_step ?m"
    by (simp add: parser_process_def sm_process_def set_data_def sm_reset_def)
  also have "\<dots> = Some (Inr (), ?m\<lparr>sm_state := os_end\<rparr>)"
    using assms
    by (intro process_loop_stop)
       (auto simp: parser_step_def select_next_state_def set_data_def sm_reset_def finished_def)
  finally show ?thesis
    by (intro exI conjI) (auto simp: parse_done_def set_data_def sm_reset_def is_finished_def is_errored_def)
qed

lemma parse_net_message:
  assumes k: "net_clean k" and sz: "take sz buf = net_body k" "sz \<le> length buf"
  shows "\<exists>m'. parser_process (set_data (net_type k) buf sz m) = Some (Inr (), m') \<and>
     parse_done (sm_data m') m' \<and> parsed k (sm_data m) (sm_data m')"
proof -
  note start = parse_starts [of "net_type k" _ sz buf m]
  show ?thesis
  proof (cases k)
    case (N_delete t i)
    obtain m1 where m1: "parser_process (set_data (net_type k) buf sz m) =
        process_loop parser_step m1"
      "parsing (net_type k) ps_read_send_time (net_body k) (sm_data m) m1"
      using start [of ps_read_send_time] sz N_delete by (auto simp: select_next_state_def)
    obtain m2 where m2: "process_loop parser_step m1 = process_loop parser_step m2"
      "parsing mt_entry_delete ps_read_id (be_bytes 2 i) ((sm_data m)\<lparr>pd_send_time := t\<rparr>) m2"
      using parse_time(1) [of _ t "be_bytes 2 i" _ _ ps_read_id] m1(2) N_delete k
      by (fastforce simp: select_next_state_def)
    obtain m3 where "process_loop parser_step m2 = Some (Inr (), m3)"
      "parse_done ((sm_data m)\<lparr>pd_send_time := t, pd_id := i\<rparr>) m3"
      using parse_id(2) [of _ i "[]"] m2(2) by (fastforce simp: select_next_state_def)
    with m1 m2 N_delete show ?thesis by (intro exI [of _ m3]) (auto simp: parse_done_def)
  next
    case (N_assign i n)
    obtain m1 where m1: "parser_process (set_data (net_type k) buf sz m) =
        process_loop parser_step m1"
      "parsing (net_type k) ps_read_id (net_body k) (sm_data m) m1"
      using start [of ps_read_id] sz N_assign by (auto simp: select_next_state_def)
    obtain m2 where m2: "process_loop parser_step m1 = process_loop parser_step m2"
      "parsing mt_entry_id_assign ps_read_name (wire_str n) ((sm_data m)\<lparr>pd_id := i\<rparr>) m2"
      using parse_id(1) [of _ i "wire_str n" _ _ ps_read_name] m1(2) N_assign
      by (fastforce simp: select_next_state_def)
    obtain m3 where "process_loop parser_step m2 = Some (Inr (), m3)"
      "parse_done ((sm_data m)\<lparr>pd_id := i, pd_name := n\<rparr>) m3"
      using parse_name(2) [of _ n "[]"] m2(2) N_assign k by (fastforce simp: select_next_state_def)
    with m1 m2 N_assign show ?thesis by (intro exI [of _ m3]) (auto simp: parse_done_def)
  next
    case (N_request t)
    obtain m1 where m1: "parser_process (set_data (net_type k) buf sz m) =
        process_loop parser_step m1"
      "parsing (net_type k) ps_read_send_time (net_body k) (sm_data m) m1"
      using start [of ps_read_send_time] sz N_request by (auto simp: select_next_state_def)
    obtain m2 where "process_loop parser_step m1 = Some (Inr (), m2)"
      "parse_done ((sm_data m)\<lparr>pd_send_time := t\<rparr>) m2"
      using parse_time(2) [of _ t "[]"] m1(2) N_request k by (fastforce simp: select_next_state_def)
    with m1 N_request show ?thesis by (intro exI [of _ m2]) (auto simp: parse_done_def)
  next
    case (N_response t u)
    obtain m1 where m1: "parser_process (set_data (net_type k) buf sz m) =
        process_loop parser_step m1"
      "parsing (net_type k) ps_read_send_time (net_body k) (sm_data m) m1"
      using start [of ps_read_send_time] sz N_response by (auto simp: select_next_state_def)
    obtain m2 where m2: "process_loop parser_step m1 = process_loop parser_step m2"
      "parsing mt_time_sync_response ps_read_time_value (be_bytes 8 (u64_of_ms u))
         ((sm_data m)\<lparr>pd_send_time := t\<rparr>) m2"
      using parse_time(1) [of _ t "be_bytes 8 (u64_of_ms u)" _ _ ps_read_time_value] m1(2) N_response k
      by (fastforce simp: select_next_state_def)
    obtain m3 where "process_loop parser_step m2 = Some (Inr (), m3)"
      "parse_done ((sm_data m)\<lparr>pd_send_time := t, pd_time_value := u\<rparr>) m3"
      using parse_ends [of _ _ _ "[]", OF _ takes_fields(2),
          of _ ps_read_time_value "u64_of_ms u" _ m2 "\<lambda>x d. d\<lparr>pd_time_value := ms_of_u64 x\<rparr>"]
        m2(2) N_response k
      by (fastforce simp: select_next_state_def parser_step_def)
    with m1 m2 N_response show ?thesis by (intro exI [of _ m3]) (auto simp: parse_done_def)
  next
    case N_ready
    then show ?thesis using parse_basic [of mt_handshake_ready buf sz m] by (auto simp: parse_done_def)
  next
    case N_finished
    then show ?thesis using parse_basic [of mt_handshake_finished buf sz m] by (auto simp: parse_done_def)
  qed (use parse_create parse_update k sz in auto)
qed

section \<open>What the queue delivers\<close>

text \<open>Handing messages of the protocol to a destination, one after the other.\<close>

definition hand_over :: "'w destination \<Rightarrow> net_message \<Rightarrow> 'w \<Rightarrow> (exn + bool) \<times> 'w" where
  "hand_over dest k w = dest (mt_byte (net_type k)) (net_body k) w"

fun hand_over_all :: "'w destination \<Rightarrow> net_message list \<Rightarrow> 'w \<Rightarrow> net_message list \<times> 'w" where
  "hand_over_all dest [] w = ([], w)"
| "hand_over_all dest (k # ks) w =
     (case hand_over dest k w of
        (Inr True, w) \<Rightarrow> hand_over_all dest ks w
      | (_, w) \<Rightarrow> (k # ks, w))"

definition sendable :: "net_message \<Rightarrow> bool" where
  "sendable k \<longleftrightarrow> net_small k \<and> length (net_body k) \<le> writer_buffer_size"

lemma drain_delivers:
  assumes "list_all2 stands_for ms ks" and "\<forall>k\<in>set ks. sendable k"
    and "linear_sized writer_buffer_size s"
  shows "\<exists>r ms' s' ks'. drain dest ms s w = (r, ms', s', snd (hand_over_all dest ks w)) \<and>
     ks' = fst (hand_over_all dest ks w) \<and> list_all2 stands_for ms' ks' \<and>
     linear_sized writer_buffer_size s' \<and> ms' = drop (length ks - length ks') ms"
  using assms
proof (induction ms ks arbitrary: s w rule: list_all2_induct)
  case Nil
  then show ?case by simp
next
  case (Cons m ms k ks)
  have k: "net_small k" "length (net_body k) \<le> writer_buffer_size"
    using Cons.prems by (auto simp: sendable_def)
  obtain s1 where s1: "linear_sized writer_buffer_size s1"
    "write_message dest m s w = (case hand_over dest k w of (r, w) \<Rightarrow> (r, s1, w))"
    using write_message_fits [OF Cons(1) k Cons.prems(2), of dest w] by (auto simp: hand_over_def)
  obtain r w1 where hw: "hand_over dest k w = (r, w1)" by fastforce
  consider e where "r = Inl e" | "r = Inr False" | "r = Inr True" by (cases r) auto
  then show ?case
  proof cases
    case 3
    obtain r' ms' s' where d: "drain dest ms s1 w1 = (r', ms', s', snd (hand_over_all dest ks w1))"
      "list_all2 stands_for ms' (fst (hand_over_all dest ks w1))"
      "linear_sized writer_buffer_size s'"
      "ms' = drop (length ks - length (fst (hand_over_all dest ks w1))) ms"
      using Cons.IH [of s1 w1] Cons.prems s1(1) by auto
    have "length (fst (hand_over_all dest ks w)) \<le> length ks" for w
      by (induction dest ks w rule: hand_over_all.induct)
         (auto split: prod.splits sum.splits bool.splits intro: le_SucI)
    then have "Suc (length ks) - length (fst (hand_over_all dest ks w1)) =
        Suc (length ks - length (fst (hand_over_all dest ks w1)))"
      by (simp add: Suc_diff_le)
    with d hw s1 3 show ?thesis by simp
  qed (use hw s1 Cons in auto)
qed

text \<open>
  Sending the queue out hands the messages to the destination in the order in which they were
  queued: each one as its wire format, none twice, stopping at the first that is refused, and
  exactly the messages not accepted stay queued.
\<close>

theorem queue_delivers_in_order:
  assumes "list_all2 stands_for (mq_outgoing q) ks" and "\<forall>k\<in>set ks. sendable k"
    and "linear_sized writer_buffer_size (mq_serializer q)"
    and "mq_process dest q w = (r, q', w')"
  shows "w' = snd (hand_over_all dest ks w) \<and>
     mq_outgoing q' = drop (length ks - length (fst (hand_over_all dest ks w))) (mq_outgoing q)"
  using drain_delivers [OF assms(1-3), of dest w] assms(4)
  by (auto simp: mq_process_def)

text \<open>A destination that logs what it accepts and refuses when its log is full.\<close>

definition log_dest :: "nat \<Rightarrow> (u8 \<times> bytes) list destination" where
  "log_dest cap t b w = (if length w < cap then (Inr True, w @ [(t, b)]) else (Inr False, w))"

definition sample_queue :: message_queue where
  "sample_queue =
     \<lparr>mq_serializer = message_serializer_new (\<lambda>_. 0),
      mq_outgoing = [out_time_sync_request 5, out_handshake_ready]\<rparr>"

lemma sample_queue_sends:
  "list_all2 stands_for (mq_outgoing sample_queue) [N_request 5, N_ready] \<and>
   (\<forall>k\<in>set [N_request 5, N_ready]. sendable k) \<and>
   linear_sized writer_buffer_size (mq_serializer sample_queue)"
  using message_serializer_new_sized
  by (simp add: sample_queue_def out_defs sendable_def writer_buffer_size_def)

lemma queue_delivers_in_order_witness:
  "snd (snd (mq_process (log_dest 1) sample_queue [])) = [(7, [0, 0, 0, 0, 0, 0, 0, 5])] \<and>
   mq_outgoing (fst (snd (mq_process (log_dest 1) sample_queue []))) = [out_handshake_ready]"
proof -
  obtain r q' w' where p: "mq_process (log_dest 1) sample_queue [] = (r, q', w')"
    by (metis prod_cases3)
  have h: "hand_over_all (log_dest 1) [N_request 5, N_ready] [] =
      ([N_ready], [(7, [0, 0, 0, 0, 0, 0, 0, 5])])"
    by (simp add: hand_over_def log_dest_def mt_byte_def be_bytes_def u64_of_ms_def le_bytes_numeral)
  show ?thesis
    using queue_delivers_in_order [of sample_queue "[N_request 5, N_ready]" "log_dest 1" "[]" r q' w']
      sample_queue_sends p h
    by (simp add: sample_queue_def)
qed

text \<open>
  A message that does not fit into the serializer's 512 bytes is never handed over, whatever the
  destination: it stays at the head of the queue, and nothing queued behind it is sent. Values the
  setters accept (up to 254 elements of 8 bytes) can be that large.
\<close>

theorem oversized_message_blocks_queue:
  assumes "mq_outgoing q = m # ms" and "stands_for m k" and "net_small k"
    and "writer_buffer_size < length (net_body k)"
    and "linear_sized writer_buffer_size (mq_serializer q)"
  shows "\<exists>s. mq_process dest q w = (Inr (), q\<lparr>mq_serializer := s\<rparr>, w)"
proof -
  obtain s' where "write_message dest m (mq_serializer q) w = (Inr False, s', w)"
    using write_message_too_long [OF assms(2-5), of dest w] by blast
  with assms(1) show ?thesis
    by (intro exI [of _ s']) (simp add: mq_process_def)
qed

definition oversized_value :: obsr_value where
  "oversized_value = array_value vt_integer64_array 8 (replicate 64 (0 :: u64))"

definition oversized_queue :: message_queue where
  "oversized_queue =
     \<lparr>mq_serializer = message_serializer_new (\<lambda>_. 0),
      mq_outgoing = [out_entry_create 1 ''/a'' oversized_value, out_handshake_ready]\<rparr>"

lemma oversized_message_blocks_queue_witness:
  "make_int64_array (replicate 64 0) = Inr oversized_value \<and>
   mq_outgoing (fst (snd (mq_process (log_dest 5) oversized_queue []))) = mq_outgoing oversized_queue \<and>
   snd (snd (mq_process (log_dest 5) oversized_queue [])) = []"
proof -
  have c: "content_of oversized_value = Some (C_int64_array (replicate 64 0))"
    by (simp add: content_of_def oversized_value_def)
  then obtain s where "mq_process (log_dest 5) oversized_queue [] =
      (Inr (), oversized_queue\<lparr>mq_serializer := s\<rparr>, [])"
    using oversized_message_blocks_queue [of oversized_queue "out_entry_create 1 ''/a'' oversized_value"
        "[out_handshake_ready]" "N_create 1 ''/a'' (C_int64_array (replicate 64 0))" "log_dest 5" "[]"]
      message_serializer_new_sized
    by (auto simp: oversized_queue_def out_defs writer_buffer_size_def wire_array_def wire_str_def
        length_concat sum_list_replicate)
  then show ?thesis by (simp add: make_int64_array_eq oversized_value_def)
qed

text \<open>
  C13 What one side sends the other side reads: a message of the protocol, written by the queue and
  handed over, is parsed without an error by any parser, whatever it parsed before; the parse data
  get the fields of the message and keep the others. Excluded are doubles and floating point arrays,
  which do not survive.
\<close>

theorem message_roundtrip:
  assumes "stands_for m k" and "net_clean k" and "length (net_body k) \<le> writer_buffer_size"
    and "linear_sized writer_buffer_size s"
  shows "\<exists>s' t b p'. write_message (\<lambda>t b w. (Inr True, w @ [(t, b)])) m s [] = (Inr True, s', [(t, b)]) \<and>
     parser_process (set_data (mt_of_code t) b (length b) p) = Some (Inr (), p') \<and>
     is_finished p' \<and> \<not> is_errored p' \<and> parsed k (sm_data p) (sm_data p')"
proof -
  let ?dest = "\<lambda>t b w. (Inr True, w @ [(t, b)])"
  obtain s' where w: "write_message ?dest m s [] =
      (Inr True, s', [(mt_byte (net_type k), net_body k)])"
    using write_message_fits [OF assms(1) net_clean_small [OF assms(2)] assms(3,4), of ?dest "[]"]
    by auto
  have "mt_named (net_type k)" by (cases k) auto
  then have "mt_of_code (mt_byte (net_type k)) = net_type k" by simp
  with parse_net_message [OF assms(2), of "length (net_body k)" "net_body k" p] w
  show ?thesis by (auto simp: parse_done_def)
qed

definition blank_parse_data :: parse_data where
  "blank_parse_data = \<lparr>pd_send_time = 0, pd_id = 0, pd_name = [], pd_type = vt_empty,
     pd_value = value_make, pd_time_value = 0\<rparr>"

lemma message_roundtrip_witness:
  "\<exists>s' t b p'. write_message (\<lambda>t b w. (Inr True, w @ [(t, b)]))
       (out_entry_update 77 3 (make_int32 9)) (message_serializer_new (\<lambda>_. 0)) [] =
         (Inr True, s', [(t, b)]) \<and>
     parser_process (set_data (mt_of_code t) b (length b) (message_parser_new blank_parse_data)) =
       Some (Inr (), p') \<and>
     is_finished p' \<and> pd_send_time (sm_data p') = 77 \<and> pd_id (sm_data p') = 3 \<and>
     content_of (pd_value (sm_data p')) = Some (C_int32 9)"
proof -
  have "stands_for (out_entry_update 77 3 (make_int32 9)) (N_update 77 3 (C_int32 9))"
    "net_clean (N_update 77 3 (C_int32 9))"
    "length (net_body (N_update 77 3 (C_int32 9))) \<le> writer_buffer_size"
    by (simp_all add: out_defs content_of_def ms_ok_def faithful_def writer_buffer_size_def)
  from message_roundtrip [OF this message_serializer_new_sized, of "\<lambda>_. 0"
      "message_parser_new blank_parse_data"]
  obtain s' t b p' where
    "write_message (\<lambda>t b w. (Inr True, w @ [(t, b)])) (out_entry_update 77 3 (make_int32 9))
       (message_serializer_new (\<lambda>_. 0)) [] = (Inr True, s', [(t, b)])"
    "parser_process (set_data (mt_of_code t) b (length b) (message_parser_new blank_parse_data)) =
       Some (Inr (), p')"
    "is_finished p'"
    "parsed (N_update 77 3 (C_int32 9)) (sm_data (message_parser_new blank_parse_data)) (sm_data p')"
    by blast
  moreover from this(4) have "pd_send_time (sm_data p') = 77" "pd_id (sm_data p') = 3"
    "content_of (pd_value (sm_data p')) = Some (C_int32 9)"
    by (auto simp: message_parser_new_def blank_parse_data_def dest: arg_cong [of _ _ pd_send_time] arg_cong [of _ _ pd_id])
  ultimately show ?thesis by blast
qed

text \<open>
  Whatever bytes arrive, under whatever message type, the parser returns: it finishes, fails, or
  throws, but never loops.
\<close>

theorem parser_always_returns: "\<exists>r p'. parser_process (set_data t b n p) = Some (r, p')"
  using parser.process_returns [of "set_data t b n p"] by (auto simp: parser_process_def)

text \<open>
  A message of a type that the protocol does not have is not parsed, but \<open>is_errored\<close> does not
  report it: the code of \<open>error_unknown_type\<close> is 0, which is how the state machine says "no error".
  A receiver notices only because the parser is not finished either.
\<close>

theorem unknown_type_is_a_silent_error:
  "\<exists>p'. parser_process (set_data (mt_unnamed c) b n p) = Some (Inr (), p') \<and>
     sm_state p' = os_error \<and> \<not> is_errored p' \<and> \<not> is_finished p' \<and> sm_data p' = sm_data p"
proof -
  let ?m = "(set_data (mt_unnamed c) b n p)\<lparr>sm_state := os_in_state, sm_error_code := 0,
    sm_user_state := ps_check_type\<rparr>"
  have "parser_process (set_data (mt_unnamed c) b n p) = process_loop parser_step ?m"
    by (simp add: parser_process_def sm_process_def set_data_def sm_reset_def)
  also have "\<dots> = Some (Inr (), ?m\<lparr>sm_state := os_error, sm_error_code := 0\<rparr>)"
    by (intro process_loop_stop)
       (auto simp: parser_step_def select_next_state_def set_data_def sm_reset_def sm_error_def
         error_unknown_type_def)
  finally show ?thesis
    by (intro exI [of _ "?m\<lparr>sm_state := os_error, sm_error_code := 0\<rparr>"])
       (simp add: set_data_def sm_reset_def is_finished_def is_errored_def)
qed

end
