(* ===== verification/Obsr_Handles.thy ===== *)
theory Obsr_Handles
  imports Obsr_Types
begin

text \<open>
  \<open>handle_table\<close> of \<open>src/util/handles.h\<close>: a fixed number of slots, the handle of an object being the
  index of its slot. The contract of the table is the locale \<open>handle_store\<close>: a finite map from
  handles to objects with an operation that picks a fresh handle.
\<close>

section \<open>The interface\<close>

locale handle_store =
  fixes lookup :: "'t \<Rightarrow> handle \<Rightarrow> 'a option"
    and alloc :: "(handle \<Rightarrow> 'a) \<Rightarrow> 't \<Rightarrow> (exn + handle) \<times> 't"
    and release :: "handle \<Rightarrow> 't \<Rightarrow> (exn + 'a) \<times> 't"
    and ok :: "'t \<Rightarrow> bool"
  assumes alloc_Inr: "ok t \<Longrightarrow> alloc f t = (Inr h, t') \<Longrightarrow>
      lookup t h = None \<and> h \<noteq> empty_handle \<and> lookup t' = (lookup t)(h \<mapsto> f h) \<and> ok t'"
    and alloc_Inl: "ok t \<Longrightarrow> alloc f t = (Inl e, t') \<Longrightarrow> e = No_space \<and> t' = t"
    and release_Some: "ok t \<Longrightarrow> lookup t h = Some x \<Longrightarrow>
      fst (release h t) = Inr x \<and> lookup (snd (release h t)) = (lookup t)(h := None) \<and>
      ok (snd (release h t))"
    and release_None: "ok t \<Longrightarrow> lookup t h = None \<Longrightarrow> release h t = (Inl (No_such_handle h), t)"
begin

lemma alloc_keeps:
  assumes "ok t" and "alloc f t = (Inr h, t')" and "lookup t h' = Some x"
  shows "lookup t' h' = Some x \<and> h' \<noteq> h"
  using alloc_Inr [OF assms(1,2)] assms(3) by auto

lemma alloc_then_release:
  assumes "ok t" and "alloc f t = (Inr h, t')"
  shows "fst (release h t') = Inr (f h) \<and> lookup (snd (release h t')) = lookup t"
proof -
  have t': "lookup t h = None" "lookup t' = (lookup t)(h \<mapsto> f h)" "ok t'"
    using alloc_Inr [OF assms] by auto
  with release_Some [OF t'(3), of h "f h"] show ?thesis by (auto simp: fun_eq_iff)
qed

lemma release_twice:
  assumes "ok t" and "lookup t h = Some x"
  shows "fst (release h (snd (release h t))) = Inl (No_such_handle h)"
  using release_Some [OF assms] release_None by simp

lemma alloc_dom:
  assumes "ok t" and "alloc f t = (Inr h, t')"
  shows "dom (lookup t') = insert h (dom (lookup t)) \<and> h \<notin> dom (lookup t)"
  using alloc_Inr [OF assms] by auto

end

section \<open>The table\<close>

record 'a handle_table =
  ht_data :: "'a option list"
  ht_count :: nat

definition ht_new :: "nat \<Rightarrow> 'a handle_table" where
  "ht_new cap = \<lparr>ht_data = replicate cap None, ht_count = 0\<rparr>"

definition ht_capacity :: "'a handle_table \<Rightarrow> nat" where
  "ht_capacity t = length (ht_data t)"

definition ht_empty :: "'a handle_table \<Rightarrow> bool" where
  "ht_empty t = (ht_count t < 1)"

definition ht_has :: "'a handle_table \<Rightarrow> handle \<Rightarrow> bool" where
  "ht_has t h =
     (if h = empty_handle then False
      else if unat h \<ge> ht_capacity t then False
      else (case ht_data t ! unat h of Some _ \<Rightarrow> True | None \<Rightarrow> False))"

text \<open>\<open>operator[]\<close>: the object of the handle, or the exception.\<close>

definition ht_get :: "'a handle_table \<Rightarrow> handle \<Rightarrow> exn + 'a" where
  "ht_get t h =
     (if \<not> ht_has t h then Inl (No_such_handle h)
      else case ht_data t ! unat h of Some x \<Rightarrow> Inr x | None \<Rightarrow> Inl Undefined_behaviour)"

text \<open>What a caller does through the pointer that \<open>operator[]\<close> returned.\<close>

definition ht_update :: "handle \<Rightarrow> ('a \<Rightarrow> 'a) \<Rightarrow> 'a handle_table \<Rightarrow> 'a handle_table" where
  "ht_update h f t = t\<lparr>ht_data := (ht_data t)[unat h := map_option f (ht_data t ! unat h)]\<rparr>"

fun first_free :: "'a option list \<Rightarrow> nat option" where
  "first_free [] = None"
| "first_free (None # xs) = Some 0"
| "first_free (Some _ # xs) = map_option Suc (first_free xs)"

definition find_next_available_spot :: "'a handle_table \<Rightarrow> nat option" where
  "find_next_available_spot t = first_free (ht_data t)"

definition allocate_new_with_handle ::
  "(handle \<Rightarrow> 'a) \<Rightarrow> 'a handle_table \<Rightarrow> (exn + handle) \<times> 'a handle_table" where
  "allocate_new_with_handle f t =
     (case find_next_available_spot t of
        None \<Rightarrow> (Inl No_space, t)
      | Some i \<Rightarrow>
          (let h = of_nat i in
           (Inr h, t\<lparr>ht_data := (ht_data t)[i := Some (f h)], ht_count := ht_count t + 1\<rparr>)))"

definition allocate_new :: "'a \<Rightarrow> 'a handle_table \<Rightarrow> (exn + handle) \<times> 'a handle_table" where
  "allocate_new x t =
     (case find_next_available_spot t of
        None \<Rightarrow> (Inl No_space, t)
      | Some i \<Rightarrow>
          (Inr (of_nat i), t\<lparr>ht_data := (ht_data t)[i := Some x], ht_count := ht_count t + 1\<rparr>))"

definition ht_release :: "handle \<Rightarrow> 'a handle_table \<Rightarrow> (exn + 'a) \<times> 'a handle_table" where
  "ht_release h t =
     (if \<not> ht_has t h then (Inl (No_such_handle h), t)
      else (case ht_data t ! unat h of
              Some x \<Rightarrow> (Inr x, t\<lparr>ht_data := (ht_data t)[unat h := None],
                                ht_count := size_sub (ht_count t) 1\<rparr>)
            | None \<Rightarrow> (Inl Undefined_behaviour, t)))"

subsection \<open>Iteration\<close>

text \<open>
  The slot an iterator tests before it compares its index with the capacity. At the end that slot
  lies outside the array: \<open>oob\<close> is whether the word found there reads as a non-null pointer.
\<close>

definition slot_taken :: "bool \<Rightarrow> 'a handle_table \<Rightarrow> nat \<Rightarrow> bool" where
  "slot_taken oob t i = (if i < ht_capacity t then ht_data t ! i \<noteq> None else oob)"

text \<open>\<open>do { m_index++; } while (!m_ptr[m_index] && m_index < capacity_);\<close>\<close>

function iterate_to_next_element :: "bool \<Rightarrow> 'a handle_table \<Rightarrow> nat \<Rightarrow> nat" where
  "iterate_to_next_element oob t i =
     (let i = i + 1 in
      if \<not> slot_taken oob t i \<and> i < ht_capacity t then iterate_to_next_element oob t i else i)"
  by auto
termination by (relation "measure (\<lambda>(oob, t, i). ht_capacity t - i)") auto

declare iterate_to_next_element.simps [simp del]

definition ht_begin :: "bool \<Rightarrow> 'a handle_table \<Rightarrow> nat" where
  "ht_begin oob t =
     (if \<not> slot_taken oob t 0 \<and> 0 < ht_capacity t then iterate_to_next_element oob t 0 else 0)"

text \<open>\<open>for (auto [handle, data] : table)\<close>: the handles it visits.\<close>

function iterate_from :: "bool \<Rightarrow> 'a handle_table \<Rightarrow> nat \<Rightarrow> handle list" where
  "iterate_from oob t i =
     (if i < ht_capacity t then of_nat i # iterate_from oob t (iterate_to_next_element oob t i) else [])"
  by auto

lemma iterate_to_next_element_gt: "i < iterate_to_next_element oob t i"
proof (induction oob t i rule: iterate_to_next_element.induct)
  case (1 oob t i)
  show ?case
  proof (cases "\<not> slot_taken oob t (i + 1) \<and> i + 1 < ht_capacity t")
    case True
    from 1 [OF refl this] True show ?thesis
      by (subst iterate_to_next_element.simps) (simp add: Let_def)
  next
    case False
    then show ?thesis by (subst iterate_to_next_element.simps) (auto simp: Let_def)
  qed
qed

termination iterate_from
  by (relation "measure (\<lambda>(oob, t, i). ht_capacity t - i)")
     (auto simp: diff_less_mono2 iterate_to_next_element_gt)

declare iterate_from.simps [simp del]

definition ht_handles :: "'a handle_table \<Rightarrow> handle list" where
  "ht_handles t = iterate_from False t (ht_begin False t)"

section \<open>The table as a map\<close>

definition ht_lookup :: "'a handle_table \<Rightarrow> handle \<Rightarrow> 'a option" where
  "ht_lookup t h = (case ht_get t h of Inl _ \<Rightarrow> None | Inr x \<Rightarrow> Some x)"

definition ht_ok :: "'a handle_table \<Rightarrow> bool" where
  "ht_ok t \<longleftrightarrow> ht_capacity t < 2 ^ 32 \<and> ht_count t = length (filter (\<lambda>x. x \<noteq> None) (ht_data t))"

lemma unat_of_nat_u32: "i < 2 ^ 32 \<Longrightarrow> unat (of_nat i :: u32) = i"
  by (simp add: unsigned_of_nat take_bit_nat_eq_self)

lemma ht_ok_capacity: "ht_ok t \<Longrightarrow> ht_capacity t < 2 ^ 32"
  by (simp add: ht_ok_def)

lemma unat_empty_handle: "unat empty_handle = 2 ^ 32 - 1"
  by (simp add: empty_handle_def unsigned_minus_1_eq_mask mask_eq_exp_minus_1)

lemma ht_lookup_eq:
  "ht_lookup t h =
     (if h \<noteq> empty_handle \<and> unat h < ht_capacity t then ht_data t ! unat h else None)"
  by (auto simp: ht_lookup_def ht_get_def ht_has_def split: option.splits)

lemma ht_has_lookup [table_simps]: "ht_has t h \<longleftrightarrow> ht_lookup t h \<noteq> None"
  by (auto simp: ht_lookup_eq ht_has_def split: option.splits)

lemma ht_get_lookup [table_simps]:
  "ht_get t h = (case ht_lookup t h of Some x \<Rightarrow> Inr x | None \<Rightarrow> Inl (No_such_handle h))"
  by (auto simp: ht_lookup_eq ht_get_def ht_has_def split: option.splits)

lemma ht_update_lookup [table_simps]:
  "ht_lookup (ht_update h f t) = (ht_lookup t)(h := map_option f (ht_lookup t h))"
  by (rule ext) (auto simp: ht_lookup_eq ht_update_def ht_capacity_def nth_list_update)

lemma ht_update_capacity [simp]: "ht_capacity (ht_update h f t) = ht_capacity t"
  by (simp add: ht_update_def ht_capacity_def)

lemma filter_update_same:
  "(xs ! i = None \<longleftrightarrow> y = None) \<Longrightarrow>
   length (filter (\<lambda>x. x \<noteq> None) (xs[i := y])) = length (filter (\<lambda>x. x \<noteq> None) xs)"
  by (induction xs arbitrary: i) (auto split: nat.splits)

lemma ht_update_ok [simp]: "ht_ok t \<Longrightarrow> ht_ok (ht_update h f t)"
  by (simp add: ht_ok_def ht_update_def ht_capacity_def filter_update_same del: not_None_eq)

lemma first_free_Some:
  "first_free xs = Some i \<Longrightarrow> i < length xs \<and> xs ! i = None"
  by (induction xs arbitrary: i rule: first_free.induct) auto

lemma first_free_None: "first_free xs = None \<longleftrightarrow> (\<forall>x\<in>set xs. x \<noteq> None)"
  by (induction xs rule: first_free.induct) auto

lemma filter_update_new:
  "i < length xs \<Longrightarrow> xs ! i = None \<Longrightarrow>
   length (filter (\<lambda>x. x \<noteq> None) (xs[i := Some y])) = Suc (length (filter (\<lambda>x. x \<noteq> None) xs))"
  by (induction xs arbitrary: i) (auto split: nat.splits)

lemma filter_update_gone:
  "i < length xs \<Longrightarrow> xs ! i = Some y \<Longrightarrow>
   Suc (length (filter (\<lambda>x. x \<noteq> None) (xs[i := None]))) = length (filter (\<lambda>x. x \<noteq> None) xs)"
  by (induction xs arbitrary: i) (auto split: nat.splits)

lemma allocate_new_alt: "allocate_new x t = allocate_new_with_handle (\<lambda>_. x) t"
  by (simp add: allocate_new_def allocate_new_with_handle_def Let_def cong: option.case_cong)

lemma ht_new_ok [simp]: "cap < 2 ^ 32 \<Longrightarrow> ht_ok (ht_new cap)"
  by (simp add: ht_ok_def ht_new_def ht_capacity_def)

lemma ht_new_lookup [simp]: "ht_lookup (ht_new cap) h = None"
  by (simp add: ht_lookup_eq ht_new_def ht_capacity_def)

lemma allocate_Inr:
  assumes ok: "ht_ok t" and r: "allocate_new_with_handle f t = (Inr h, t')"
  shows "ht_lookup t h = None \<and> h \<noteq> empty_handle \<and> ht_lookup t' = (ht_lookup t)(h \<mapsto> f h) \<and> ht_ok t' \<and>
     ht_capacity t' = ht_capacity t"
proof -
  obtain i where i: "first_free (ht_data t) = Some i" "h = of_nat i"
    and t': "t' = t\<lparr>ht_data := (ht_data t)[i := Some (f h)], ht_count := ht_count t + 1\<rparr>"
    using r by (auto simp: allocate_new_with_handle_def find_next_available_spot_def Let_def
        split: option.splits)
  have lt: "i < ht_capacity t" "ht_data t ! i = None"
    using first_free_Some [OF i(1)] by (auto simp: ht_capacity_def)
  have cap: "ht_capacity t < 2 ^ 32" using ok by (rule ht_ok_capacity)
  have uh: "unat h = i" using i lt cap by (simp add: unat_of_nat_u32)
  have ne: "h \<noteq> empty_handle" using uh lt cap unat_empty_handle by auto
  have lk: "ht_lookup t' = (ht_lookup t)(h \<mapsto> f h)"
  proof (rule ext)
    fix k
    show "ht_lookup t' k = ((ht_lookup t)(h \<mapsto> f h)) k"
      using lt uh ne by (auto simp: ht_lookup_eq t' ht_capacity_def nth_list_update)
  qed
  have "ht_ok t'"
    using ok lt filter_update_new [of i "ht_data t" "f h"]
    by (simp add: ht_ok_def t' ht_capacity_def)
  with lt uh ne lk show ?thesis by (auto simp: ht_lookup_eq t' ht_capacity_def)
qed

lemma allocate_Inl: "allocate_new_with_handle f t = (Inl e, t') \<Longrightarrow> e = No_space \<and> t' = t"
  by (auto simp: allocate_new_with_handle_def Let_def split: option.splits)

lemma release_Some':
  assumes ok: "ht_ok t" and x: "ht_lookup t h = Some x"
  shows "fst (ht_release h t) = Inr x \<and>
     ht_lookup (snd (ht_release h t)) = (ht_lookup t)(h := None) \<and> ht_ok (snd (ht_release h t))"
proof -
  have h: "h \<noteq> empty_handle" "unat h < ht_capacity t" "ht_data t ! unat h = Some x"
    using x by (auto simp: ht_lookup_eq split: if_splits)
  have has: "ht_has t h" using x by (simp add: ht_has_lookup)
  let ?t = "t\<lparr>ht_data := (ht_data t)[unat h := None], ht_count := size_sub (ht_count t) 1\<rparr>"
  have r: "ht_release h t = (Inr x, ?t)" using has h by (simp add: ht_release_def)
  have count: "Suc (length (filter (\<lambda>x. x \<noteq> None) ((ht_data t)[unat h := None]))) = ht_count t"
    using filter_update_gone [of "unat h" "ht_data t" x] h ok by (simp add: ht_capacity_def ht_ok_def)
  then have "size_sub (ht_count t) 1 = length (filter (\<lambda>x. x \<noteq> None) ((ht_data t)[unat h := None]))"
    by (simp flip: count)
  then have "ht_ok ?t" using ok by (simp add: ht_ok_def ht_capacity_def)
  moreover have "ht_lookup ?t = (ht_lookup t)(h := None)"
    by (rule ext) (auto simp: ht_lookup_eq ht_capacity_def nth_list_update)
  ultimately show ?thesis by (simp add: r)
qed

interpretation tab: handle_store ht_lookup allocate_new_with_handle ht_release ht_ok
proof
  show "ht_lookup t h = None \<and> h \<noteq> empty_handle \<and> ht_lookup t' = (ht_lookup t)(h \<mapsto> f h) \<and> ht_ok t'"
    if "ht_ok t" "allocate_new_with_handle f t = (Inr h, t')"
    for t t' :: "'a handle_table" and f h using allocate_Inr [OF that] by blast
  show "e = No_space \<and> t' = t"
    if "ht_ok t" "allocate_new_with_handle f t = (Inl e, t')" for t t' :: "'a handle_table" and f e
    using allocate_Inl [OF that(2)] .
  show "fst (ht_release h t) = Inr x \<and>
     ht_lookup (snd (ht_release h t)) = (ht_lookup t)(h := None) \<and> ht_ok (snd (ht_release h t))"
    if "ht_ok t" "ht_lookup t h = Some x" for t :: "'a handle_table" and h x
    using release_Some' [OF that] .
  show "ht_release h t = (Inl (No_such_handle h), t)"
    if "ht_ok t" "ht_lookup t h = None" for t :: "'a handle_table" and h
    using that by (simp add: ht_release_def ht_has_lookup)
qed

section \<open>What an iteration visits\<close>

definition taken_from :: "'a handle_table \<Rightarrow> nat \<Rightarrow> nat list" where
  "taken_from t i = filter (\<lambda>j. ht_data t ! j \<noteq> None) [i..<ht_capacity t]"

lemma taken_from_Nil [simp]: "ht_capacity t \<le> i \<Longrightarrow> taken_from t i = []"
  by (simp add: taken_from_def)

lemma taken_from_Cons:
  "i < ht_capacity t \<Longrightarrow>
   taken_from t i = (if ht_data t ! i \<noteq> None then i # taken_from t (Suc i) else taken_from t (Suc i))"
  by (simp add: taken_from_def upt_conv_Cons)

lemma iterate_next_taken:
  "taken_from t (iterate_to_next_element oob t i) = taken_from t (Suc i) \<and>
   (iterate_to_next_element oob t i < ht_capacity t \<longrightarrow>
      ht_data t ! iterate_to_next_element oob t i \<noteq> None)"
proof (induction oob t i rule: iterate_to_next_element.induct)
  case (1 oob t i)
  show ?case
  proof (cases "\<not> slot_taken oob t (i + 1) \<and> i + 1 < ht_capacity t")
    case True
    then have "iterate_to_next_element oob t i = iterate_to_next_element oob t (i + 1)"
      by (subst iterate_to_next_element.simps) (simp add: Let_def)
    moreover have "taken_from t (Suc i) = taken_from t (Suc (Suc i))"
      using True taken_from_Cons [of "Suc i" t] by (auto simp: slot_taken_def)
    ultimately show ?thesis using 1 [OF refl True] by simp
  next
    case False
    then have "iterate_to_next_element oob t i = i + 1"
      by (subst iterate_to_next_element.simps) (auto simp: Let_def)
    then show ?thesis using False by (auto simp: slot_taken_def)
  qed
qed

lemma iterate_from_taken:
  "(i < ht_capacity t \<Longrightarrow> ht_data t ! i \<noteq> None) \<Longrightarrow>
   iterate_from oob t i = map of_nat (taken_from t i)"
proof (induction oob t i rule: iterate_from.induct)
  case (1 oob t i)
  show ?case
  proof (cases "i < ht_capacity t")
    case True
    with 1 iterate_next_taken [of t oob i] show ?thesis
      by (subst iterate_from.simps) (simp add: taken_from_Cons)
  qed (simp add: iterate_from.simps)
qed

lemma iterate_all: "iterate_from oob t (ht_begin oob t) = map of_nat (taken_from t 0)"
proof (cases "\<not> slot_taken oob t 0 \<and> 0 < ht_capacity t")
  case True
  then have "taken_from t 0 = taken_from t (Suc 0)"
    using taken_from_Cons [of 0 t] by (auto simp: slot_taken_def)
  with True iterate_next_taken [of t oob 0] iterate_from_taken [of _ t oob] show ?thesis
    by (simp add: ht_begin_def)
next
  case False
  then have "0 < ht_capacity t \<Longrightarrow> ht_data t ! 0 \<noteq> None" by (auto simp: slot_taken_def)
  with False iterate_from_taken [of 0 t oob] show ?thesis by (auto simp: ht_begin_def)
qed

lemma ht_handles_eq: "ht_handles t = map of_nat (taken_from t 0)"
  by (simp add: ht_handles_def iterate_all)

lemma set_ht_handles:
  assumes "ht_ok t"
  shows "h \<in> set (ht_handles t) \<longleftrightarrow> ht_lookup t h \<noteq> None"
proof
  assume "h \<in> set (ht_handles t)"
  then obtain i where i: "h = of_nat i" "i < ht_capacity t" "ht_data t ! i \<noteq> None"
    by (auto simp: ht_handles_eq taken_from_def)
  have cap: "ht_capacity t < 2 ^ 32" using assms by (rule ht_ok_capacity)
  then have "unat h = i" using i by (simp add: unat_of_nat_u32)
  moreover from this have "h \<noteq> empty_handle" using i cap unat_empty_handle by auto
  ultimately show "ht_lookup t h \<noteq> None" using i by (simp add: ht_lookup_eq)
next
  assume "ht_lookup t h \<noteq> None"
  then have "unat h < ht_capacity t" "ht_data t ! unat h \<noteq> None"
    by (auto simp: ht_lookup_eq split: if_splits)
  then have "unat h \<in> set (taken_from t 0)" by (simp add: taken_from_def)
  then have "of_nat (unat h) \<in> set (ht_handles t)" unfolding ht_handles_eq set_map by (rule imageI)
  then show "h \<in> set (ht_handles t)" by simp
qed

lemma distinct_ht_handles:
  assumes "ht_ok t"
  shows "distinct (ht_handles t)"
proof -
  have "inj_on (of_nat :: nat \<Rightarrow> u32) (set (taken_from t 0))"
  proof (rule inj_onI)
    fix i j
    assume ij: "i \<in> set (taken_from t 0)" "j \<in> set (taken_from t 0)" "(of_nat i :: u32) = of_nat j"
    then have "i < 2 ^ 32" "j < 2 ^ 32"
      using ht_ok_capacity [OF assms] by (auto simp: taken_from_def)
    with ij(3) show "i = j" by (metis unat_of_nat_u32)
  qed
  then show ?thesis by (simp add: ht_handles_eq distinct_map) (simp add: taken_from_def)
qed

text \<open>An update through a pointer does not change what an iteration visits.\<close>

lemma ht_handles_update [simp]: "ht_handles (ht_update h f t) = ht_handles t"
proof -
  have "(ht_data t)[unat h := map_option f (ht_data t ! unat h)] ! j = None \<longleftrightarrow> ht_data t ! j = None"
    if "j < length (ht_data t)" for j
    using that by (cases "unat h = j") (auto simp: nth_list_update)
  then have "taken_from (ht_update h f t) 0 = taken_from t 0"
    unfolding taken_from_def by (intro filter_cong) (auto simp: ht_update_def ht_capacity_def)
  then show ?thesis by (simp add: ht_handles_eq)
qed

text \<open>
  Iterating over a handle table visits every allocated object exactly once, in the order of the
  handles, and does not depend on the word that the iterator reads past the end of the array.
\<close>

theorem iteration_visits_allocated:
  assumes "ht_ok t"
  shows "set (iterate_from oob t (ht_begin oob t)) = {h. ht_has t h} \<and>
     distinct (iterate_from oob t (ht_begin oob t)) \<and>
     sorted (map unat (iterate_from oob t (ht_begin oob t)))"
proof -
  have eq: "iterate_from oob t (ht_begin oob t) = ht_handles t"
    by (simp add: iterate_all ht_handles_eq)
  have "map unat (ht_handles t) = map (\<lambda>i. unat (of_nat i :: u32)) (taken_from t 0)"
    by (simp add: ht_handles_eq)
  also have "\<dots> = map (\<lambda>i. i) (taken_from t 0)"
    using ht_ok_capacity [OF assms]
    by (intro map_cong) (auto simp: taken_from_def unat_of_nat_u32)
  finally have "map unat (ht_handles t) = taken_from t 0" by simp
  moreover have "sorted (taken_from t 0)" by (simp add: taken_from_def sorted_wrt_filter)
  ultimately show ?thesis
    using set_ht_handles [OF assms] distinct_ht_handles [OF assms] eq by (auto simp: ht_has_lookup)
qed

definition sample_table :: "nat handle_table" where
  "sample_table = \<lparr>ht_data = [None, Some 7, None, Some 9], ht_count = 2\<rparr>"

lemma iteration_visits_allocated_witness:
  "set (iterate_from True sample_table (ht_begin True sample_table)) = {h. ht_has sample_table h} \<and>
   ht_has sample_table 1 \<and> ht_has sample_table 3 \<and> \<not> ht_has sample_table 0"
proof -
  have "ht_ok sample_table" by (simp add: ht_ok_def sample_table_def ht_capacity_def)
  with iteration_visits_allocated [of sample_table True] show ?thesis
    by (simp add: sample_table_def ht_has_def ht_capacity_def empty_handle_def)
qed

text \<open>
  C25 An allocation returns a handle that named nothing before, never the reserved one, and leaves
  every other handle as it was; it fails only when every slot is taken. Releasing the handle gives
  the object back and restores the table's contents.
\<close>

theorem allocation_is_fresh:
  assumes "ht_ok t"
  shows "case allocate_new x t of
       (Inl e, t') \<Rightarrow> e = No_space \<and> t' = t \<and> (\<forall>y\<in>set (ht_data t). y \<noteq> None)
     | (Inr h, t') \<Rightarrow> \<not> ht_has t h \<and> h \<noteq> empty_handle \<and> ht_lookup t' = (ht_lookup t)(h \<mapsto> x) \<and>
         ht_ok t' \<and> fst (ht_release h t') = Inr x \<and>
         ht_lookup (snd (ht_release h t')) = ht_lookup t"
proof (cases "allocate_new_with_handle (\<lambda>_. x) t")
  case (Pair r t')
  show ?thesis
  proof (cases r)
    case (Inl e)
    then show ?thesis
      using Pair tab.alloc_Inl [OF assms, of "\<lambda>_. x" e t']
      by (auto simp: allocate_new_alt allocate_new_with_handle_def find_next_available_spot_def
          first_free_None Let_def split: option.splits)
  next
    case (Inr h)
    then show ?thesis
      using Pair tab.alloc_Inr [OF assms, of "\<lambda>_. x" h t'] tab.alloc_then_release [OF assms, of "\<lambda>_. x" h t']
      by (simp add: allocate_new_alt ht_has_lookup)
  qed
qed

lemma allocation_is_fresh_witness:
  "case allocate_new 5 sample_table of
     (Inr h, t') \<Rightarrow> h = 0 \<and> ht_lookup t' = (ht_lookup sample_table)(0 \<mapsto> 5)
   | (Inl e, t') \<Rightarrow> False"
proof -
  have "ht_ok sample_table" by (simp add: ht_ok_def sample_table_def ht_capacity_def)
  from allocation_is_fresh [OF this, of 5] show ?thesis
    by (simp add: sample_table_def allocate_new_def find_next_available_spot_def)
qed

end
