(* ===== verification/Obsr_Time.thy ===== *)
theory Obsr_Time
  imports Obsr_Types
begin

text \<open>
  The clock and the timer of \<open>src/util/time.h\<close> and \<open>src/util/time.cpp\<close>. A clock keeps the offset
  it believes its host to have and half the shortest round trip it has seen. Every reading of the
  system clock is a parameter. Counts of milliseconds are integers: the program stays far from the
  64-bit limits except for the initial \<open>m_rtt2\<close>, which is only compared with.
\<close>

record clock =
  ck_offset :: milliseconds
  ck_rtt2 :: milliseconds

definition int64_max :: int where
  "int64_max = 2 ^ 63 - 1"

definition clock_new :: clock where
  "clock_new = \<lparr>ck_offset = 0, ck_rtt2 = int64_max\<rparr>"

text \<open>Division by two as C++ does it, towards zero.\<close>

definition half :: "int \<Rightarrow> int" where
  "half x = (if x \<ge> 0 then x div 2 else - (- x div 2))"

text \<open>\<open>clock_now c r\<close> is \<open>now()\<close> when the system clock reads \<open>r\<close>.\<close>

definition clock_now :: "clock \<Rightarrow> milliseconds \<Rightarrow> milliseconds" where
  "clock_now c r = r - ck_offset c"

definition adjust_time :: "clock \<Rightarrow> milliseconds \<Rightarrow> milliseconds" where
  "adjust_time c t = t - ck_offset c"

definition clock_sync ::
  "milliseconds \<Rightarrow> milliseconds \<Rightarrow> milliseconds \<Rightarrow> clock \<Rightarrow> bool \<times> clock" where
  "clock_sync r local_time remote_time c =
     (let now = clock_now c r;
          rtt2 = half (now - local_time) in
      if rtt2 \<ge> ck_rtt2 c then (False, c)
      else (let offset = remote_time + rtt2 - now in
            (True, c\<lparr>ck_rtt2 := rtt2, ck_offset := offset\<rparr>)))"

section \<open>Timers\<close>

record timer =
  tr_start :: milliseconds

definition timer_new :: timer where
  "timer_new = \<lparr>tr_start = 0\<rparr>"

definition timer_is_running :: "timer \<Rightarrow> bool" where
  "timer_is_running t = (tr_start t > 0)"

definition timer_has_elapsed :: "milliseconds \<Rightarrow> milliseconds \<Rightarrow> timer \<Rightarrow> exn + bool" where
  "timer_has_elapsed r time t =
     (if tr_start t < 1 then Inl (Illegal_state ''expected time bigger than 0'')
      else Inr (r - tr_start t \<ge> time))"

definition timer_start :: "milliseconds \<Rightarrow> timer \<Rightarrow> timer" where
  "timer_start r t = t\<lparr>tr_start := r\<rparr>"

definition timer_reset :: "milliseconds \<Rightarrow> timer \<Rightarrow> timer" where
  "timer_reset r t = t\<lparr>tr_start := r\<rparr>"

definition timer_stop :: "timer \<Rightarrow> timer" where
  "timer_stop t = t\<lparr>tr_start := 0\<rparr>"

section \<open>What synchronising does\<close>

lemma clock_sync_cases:
  "clock_sync r l m c =
     (let h = half (clock_now c r - l) in
      if h \<ge> ck_rtt2 c then (False, c)
      else (True, \<lparr>ck_offset = m + h - clock_now c r, ck_rtt2 = h\<rparr>))"
  by (cases c) (simp add: clock_sync_def Let_def)

text \<open>A running timer has not elapsed before the time is over, and has from then on.\<close>

text \<open>
  A timer that was started at a positive reading reports exactly whether the time has passed,
  until it is stopped; asking a timer that is not running is an error, so the callers' check of
  \<open>is_running\<close> before it is needed.
\<close>

theorem timer_reports_elapsed:
  "timer_has_elapsed r d (timer_start r0 t) =
     (if timer_is_running (timer_start r0 t) then Inr (r0 + d \<le> r)
      else Inl (Illegal_state ''expected time bigger than 0'')) \<and>
   timer_is_running (timer_start r0 t) = (0 < r0) \<and>
   \<not> timer_is_running (timer_stop t)"
  by (auto simp: timer_has_elapsed_def timer_start_def timer_is_running_def timer_stop_def)

text \<open>
  An accepted synchronisation is the one with the shortest round trip so far; a rejected one
  changes nothing. The round trip times of the accepted ones therefore strictly decrease.
\<close>

theorem sync_keeps_best_round_trip:
  "case clock_sync r l m c of
     (True, c') \<Rightarrow> ck_rtt2 c' = half (clock_now c r - l) \<and> ck_rtt2 c' < ck_rtt2 c
   | (False, c') \<Rightarrow> c' = c \<and> half (clock_now c r - l) \<ge> ck_rtt2 c"
  by (simp add: clock_sync_cases Let_def)

text \<open>
  Synchronising moves the clock the wrong way. The time the server is believed to show at the
  moment of the reading is the remote time plus half the round trip; a fresh clock that is off that
  target by some amount is off by exactly twice that amount once it has accepted the
  synchronisation, because the offset is computed as target minus now and then subtracted.
\<close>

theorem sync_doubles_error:
  assumes "ck_offset c = 0" and "clock_sync r local_time remote_time c = (True, c')"
  shows "clock_now c' r - (remote_time + ck_rtt2 c') =
     2 * (clock_now c r - (remote_time + ck_rtt2 c'))"
  using assms by (auto simp: clock_sync_cases clock_now_def Let_def split: if_splits)

lemma sync_doubles_error_witness:
  "case clock_sync 1100 1000 5000 clock_new of
     (b, c') \<Rightarrow> b \<and> clock_now clock_new 1100 = 5050 - 3950 \<and> clock_now c' 1100 = 5050 - 2 * 3950"
proof -
  have s: "clock_sync 1100 1000 5000 clock_new = (True, \<lparr>ck_offset = 3950, ck_rtt2 = 50\<rparr>)"
    by (simp add: clock_sync_cases clock_new_def clock_now_def half_def int64_max_def)
  with sync_doubles_error [of clock_new 1100 1000 5000] show ?thesis
    by (simp add: clock_new_def clock_now_def)
qed

text \<open>
  A second accepted synchronisation adjusts twice. A stamp taken at some reading after a first
  synchronisation of a fresh clock, and adjusted after a second one, differs from what the clock now
  says of that same reading by the whole first correction: stamps of before and after the second
  synchronisation are not comparable unless the first one corrected nothing.
\<close>

theorem resync_adjusts_twice:
  assumes "clock_sync r1 l1 m1 clock_new = (True, c1)" and "clock_sync r2 l2 m2 c1 = (True, c2)"
  shows "adjust_time c2 (clock_now c1 s) = clock_now c2 s - (m1 + half (r1 - l1) - r1)"
  using assms
  by (auto simp: clock_sync_cases clock_new_def clock_now_def adjust_time_def Let_def split: if_splits)

lemma resync_adjusts_twice_witness:
  "case clock_sync 1100 1000 1060 clock_new of (b1, c1) \<Rightarrow>
     case clock_sync 2020 1990 2500 c1 of (b2, c2) \<Rightarrow>
       b1 \<and> b2 \<and> adjust_time c2 (clock_now c1 1500) = clock_now c2 1500 - 10"
proof -
  have s1: "clock_sync 1100 1000 1060 clock_new = (True, \<lparr>ck_offset = 10, ck_rtt2 = 50\<rparr>)"
    by (simp add: clock_sync_cases clock_new_def clock_now_def half_def int64_max_def)
  have s2: "clock_sync 2020 1990 2500 \<lparr>ck_offset = 10, ck_rtt2 = 50\<rparr> =
      (True, \<lparr>ck_offset = 500, ck_rtt2 = 10\<rparr>)"
    by (simp add: clock_sync_cases clock_now_def half_def)
  from resync_adjusts_twice [OF s1 s2, of 1500] show ?thesis
    by (simp add: s1 s2 half_def)
qed

end
