(* ===== verification/Obsr_Listeners.thy ===== *)
theory Obsr_Listeners
  imports Obsr_Handles Obsr_Time
begin

text \<open>
  Listeners and the thread that delivers events to them (\<open>src/storage/listener_storage.h\<close>,
  \<open>src/storage/listener_storage.cpp\<close>). A callback is a value of an arbitrary type \<open>'c\<close>: what it does is the
  client's business. The clock is shared with the storage and is therefore an argument; \<open>r\<close> is the
  reading of the system clock. The delivery thread gives up its lock around every callback, so it is
  a step function, interleaved with the operations of other threads by a step relation.
\<close>

section \<open>Listeners\<close>

record 'c listener_data =
  ln_callback :: 'c
  ln_prefix :: string
  ln_creation :: milliseconds

definition in_path :: "'c listener_data \<Rightarrow> string \<Rightarrow> bool" where
  "in_path l path = contains (ln_prefix l) path"

text \<open>\<open>invoke\<close>: the callback that runs, if any.\<close>

definition ln_invoke :: "'c listener_data \<Rightarrow> event \<Rightarrow> 'c option" where
  "ln_invoke l e =
     (if ev_timestamp e < ln_creation l then None
      else if \<not> contains (ev_path e) (ln_prefix l) then None
      else Some (ln_callback l))"

record 'c listener_storage =
  ls_listeners :: "'c listener_data handle_table"
  ls_pending :: "event list"
  ls_loop_run :: bool

definition listener_capacity :: nat where
  "listener_capacity = 16"

definition listener_storage_new :: "'c listener_storage" where
  "listener_storage_new =
     \<lparr>ls_listeners = ht_new listener_capacity, ls_pending = [], ls_loop_run = True\<rparr>"

definition adjust_event :: "clock \<Rightarrow> event \<Rightarrow> event" where
  "adjust_event c e = e\<lparr>ev_timestamp := adjust_time c (ev_timestamp e)\<rparr>"

definition adjust_listener :: "clock \<Rightarrow> 'c listener_data \<Rightarrow> 'c listener_data" where
  "adjust_listener c l = l\<lparr>ln_creation := adjust_time c (ln_creation l)\<rparr>"

definition ls_on_clock_resync :: "clock \<Rightarrow> 'c listener_storage \<Rightarrow> 'c listener_storage" where
  "ls_on_clock_resync c ls =
     (let ls = ls\<lparr>ls_pending := map (adjust_event c) (ls_pending ls)\<rparr> in
      ls\<lparr>ls_listeners :=
        fold (\<lambda>h t. ht_update h (adjust_listener c) t) (ht_handles (ls_listeners ls)) (ls_listeners ls)\<rparr>)"

definition create_listener ::
  "clock \<Rightarrow> milliseconds \<Rightarrow> 'c \<Rightarrow> string \<Rightarrow> 'c listener_storage \<Rightarrow>
   (exn + handle) \<times> 'c listener_storage" where
  "create_listener c r cb prefix ls =
     (case allocate_new \<lparr>ln_callback = cb, ln_prefix = prefix, ln_creation = clock_now c r\<rparr>
             (ls_listeners ls) of
        (res, t) \<Rightarrow> (res, ls\<lparr>ls_listeners := t\<rparr>))"

definition destroy_listener ::
  "handle \<Rightarrow> 'c listener_storage \<Rightarrow> (exn + unit) \<times> 'c listener_storage" where
  "destroy_listener h ls =
     (case ht_release h (ls_listeners ls) of
        (Inl e, t) \<Rightarrow> (Inl e, ls\<lparr>ls_listeners := t\<rparr>)
      | (Inr _, t) \<Rightarrow> (Inr (), ls\<lparr>ls_listeners := t\<rparr>))"

fun release_all :: "handle list \<Rightarrow> 'a handle_table \<Rightarrow> (exn + unit) \<times> 'a handle_table" where
  "release_all [] t = (Inr (), t)"
| "release_all (h # hs) t =
     (case ht_release h t of
        (Inl e, t) \<Rightarrow> (Inl e, t)
      | (Inr _, t) \<Rightarrow> release_all hs t)"

definition destroy_listeners ::
  "string \<Rightarrow> 'c listener_storage \<Rightarrow> (exn + unit) \<times> 'c listener_storage" where
  "destroy_listeners path ls =
     (let handles = filter
            (\<lambda>h. case ht_lookup (ls_listeners ls) h of Some l \<Rightarrow> in_path l path | None \<Rightarrow> False)
            (ht_handles (ls_listeners ls)) in
      case release_all handles (ls_listeners ls) of (res, t) \<Rightarrow> (res, ls\<lparr>ls_listeners := t\<rparr>))"

definition notify_event :: "event \<Rightarrow> 'c listener_storage \<Rightarrow> 'c listener_storage" where
  "notify_event e ls = ls\<lparr>ls_pending := ls_pending ls @ [e]\<rparr>"

definition notify ::
  "clock \<Rightarrow> milliseconds \<Rightarrow> event_type \<Rightarrow> string \<Rightarrow> handle \<Rightarrow> 'c listener_storage \<Rightarrow>
   'c listener_storage" where
  "notify c r t path h ls = notify_event (new_event (clock_now c r) t path h) ls"

definition notify_change ::
  "clock \<Rightarrow> milliseconds \<Rightarrow> event_type \<Rightarrow> string \<Rightarrow> handle \<Rightarrow> obsr_value \<Rightarrow> obsr_value \<Rightarrow>
   'c listener_storage \<Rightarrow> 'c listener_storage" where
  "notify_change c r t path h old new ls =
     notify_event (new_change_event (clock_now c r) t path h old new) ls"

section \<open>The delivery thread\<close>

text \<open>What the destructor of the storage does before it waits for the thread.\<close>

definition end_delivery :: "'c listener_storage \<Rightarrow> 'c listener_storage" where
  "end_delivery ls = ls\<lparr>ls_loop_run := False\<rparr>"

text \<open>
  Where the thread is: at the head of its loop, or in the callback of the listener at an index with
  the lock released, holding a reference to the front event and one to that listener; or ended.
\<close>

datatype delivery = D_wait | D_calling nat | D_ended

definition enter_index :: "nat \<Rightarrow> 'c listener_storage \<Rightarrow> 'c listener_storage \<times> delivery" where
  "enter_index i ls =
     (if i < ht_capacity (ls_listeners ls) then (ls, D_calling i)
      else (ls\<lparr>ls_pending := tl (ls_pending ls)\<rparr>, D_wait))"

text \<open>
  One step of the thread, with the lock held: leave the wait, or run \<open>listener.invoke\<close> on the listener
  the iterator refers to and advance. The result names the callback that ran, if one did.
\<close>

definition thread_step ::
  "bool \<Rightarrow> 'c listener_storage \<Rightarrow> delivery \<Rightarrow>
   (exn + ('c \<times> event) option) \<times> 'c listener_storage \<times> delivery" where
  "thread_step oob ls d =
     (case d of
        D_ended \<Rightarrow> (Inr None, ls, D_ended)
      | D_wait \<Rightarrow>
          (if \<not> ls_loop_run ls then (Inr None, ls, D_ended)
           else if ls_pending ls = [] then (Inr None, ls, D_wait)
           else (Inr None, enter_index (ht_begin oob (ls_listeners ls)) ls))
      | D_calling i \<Rightarrow>
          (case (ls_pending ls, ht_lookup (ls_listeners ls) (of_nat i)) of
             (e # _, Some l) \<Rightarrow>
               (Inr (map_option (\<lambda>cb. (cb, e)) (ln_invoke l e)),
                enter_index (iterate_to_next_element oob (ls_listeners ls) i) ls)
           | _ \<Rightarrow> (Inl Undefined_behaviour, ls, d)))"

text \<open>The thread running on its own until it is back at the head of its loop.\<close>

fun thread_run ::
  "nat \<Rightarrow> 'c listener_storage \<Rightarrow> delivery \<Rightarrow>
   (exn + ('c \<times> event) list) \<times> 'c listener_storage \<times> delivery" where
  "thread_run 0 ls d = (Inr [], ls, d)"
| "thread_run (Suc n) ls d =
     (case thread_step False ls d of
        (Inl e, ls, d) \<Rightarrow> (Inl e, ls, d)
      | (Inr call, ls, d) \<Rightarrow>
          (case thread_run n ls d of
             (Inl e, ls, d) \<Rightarrow> (Inl e, ls, d)
           | (Inr calls, ls, d) \<Rightarrow>
               (Inr ((case call of Some x \<Rightarrow> [x] | None \<Rightarrow> []) @ calls), ls, d)))"

text \<open>The interleaving with the other threads: each takes the lock for one whole operation.\<close>

inductive delivery_step ::
  "'c listener_storage \<times> delivery \<Rightarrow> 'c listener_storage \<times> delivery \<Rightarrow> bool" where
  thread: "thread_step oob ls d = (Inr call, ls', d') \<Longrightarrow> delivery_step (ls, d) (ls', d')"
| notified: "delivery_step (ls, d) (notify_event e ls, d)"
| created: "create_listener c r cb prefix ls = (res, ls') \<Longrightarrow> delivery_step (ls, d) (ls', d)"
| destroyed: "destroy_listener h ls = (res, ls') \<Longrightarrow> delivery_step (ls, d) (ls', d)"
| destroyed_under: "destroy_listeners path ls = (res, ls') \<Longrightarrow> delivery_step (ls, d) (ls', d)"
| resynced: "delivery_step (ls, d) (ls_on_clock_resync c ls, d)"
| told_to_end: "delivery_step (ls, d) (end_delivery ls, d)"

inductive delivery_reach :: "'c listener_storage \<times> delivery \<Rightarrow> bool" where
  start: "delivery_reach (listener_storage_new, D_wait)"
| step: "delivery_reach s \<Longrightarrow> delivery_step s s' \<Longrightarrow> delivery_reach s'"

inductive_cases delivery_stepE: "delivery_step (ls, d) s'"

section \<open>The listener table stays well formed\<close>

lemma release_ok [simp]: "ht_ok t \<Longrightarrow> ht_ok (snd (ht_release h t))"
  using tab.release_Some [of t h] tab.release_None [of t h]
  by (cases "ht_lookup t h") auto

lemma ht_capacity_release [simp]: "ht_capacity (snd (ht_release h t)) = ht_capacity t"
  by (simp add: ht_release_def ht_capacity_def split: option.split)

lemma ht_capacity_allocate [simp]: "ht_capacity (snd (allocate_new_with_handle f t)) = ht_capacity t"
  by (simp add: allocate_new_with_handle_def ht_capacity_def Let_def split: option.split)

lemma allocate_ok [simp]: "ht_ok t \<Longrightarrow> ht_ok (snd (allocate_new_with_handle f t))"
  using tab.alloc_Inr [of t f] tab.alloc_Inl [of t f]
  by (cases "allocate_new_with_handle f t"; cases "fst (allocate_new_with_handle f t)") auto

lemma fold_update_ok [simp]: "ht_ok t \<Longrightarrow> ht_ok (fold (\<lambda>h t. ht_update h f t) hs t)"
  by (induction hs arbitrary: t) auto

lemma fold_update_capacity [simp]:
  "ht_capacity (fold (\<lambda>h t. ht_update h f t) hs t) = ht_capacity t"
  by (induction hs arbitrary: t) auto

text \<open>Updating every object of the table once.\<close>

lemma fold_update_lookup:
  "distinct hs \<Longrightarrow>
   ht_lookup (fold (\<lambda>h t. ht_update h f t) hs t) k =
     (if k \<in> set hs then map_option f (ht_lookup t k) else ht_lookup t k)"
  by (induction hs arbitrary: t) (auto simp: ht_update_lookup)

lemma update_all_lookup:
  assumes "ht_ok t"
  shows "ht_lookup (fold (\<lambda>h t. ht_update h f t) (ht_handles t) t) k = map_option f (ht_lookup t k)"
  using fold_update_lookup [OF distinct_ht_handles [OF assms], of f t k] set_ht_handles [OF assms, of k]
  by auto

definition ls_ok :: "'c listener_storage \<Rightarrow> bool" where
  "ls_ok ls \<longleftrightarrow> ht_ok (ls_listeners ls) \<and> ht_capacity (ls_listeners ls) = listener_capacity"

lemma listener_storage_new_ok [simp]: "ls_ok listener_storage_new"
  by (simp add: ls_ok_def listener_storage_new_def listener_capacity_def)
     (simp add: ht_capacity_def ht_new_def)

lemma ls_ok_ops [simp]:
  assumes "ls_ok ls"
  shows "ls_ok (notify_event e ls)"
    and "ls_ok (ls_on_clock_resync c ls)"
    and "ls_ok (snd (create_listener c r cb prefix ls))"
    and "ls_ok (snd (destroy_listener h ls))"
    and "ls_ok (ls\<lparr>ls_pending := es\<rparr>)"
    and "ls_ok (snd (destroy_listeners path ls))"
    and "ls_ok (end_delivery ls)"
proof -
  have rel: "ht_ok (snd (release_all hs t)) \<and> ht_capacity (snd (release_all hs t)) = ht_capacity t"
    if "ht_ok t" for hs and t :: "'a listener_data handle_table"
    using that
  proof (induction hs arbitrary: t)
    case (Cons h hs)
    then show ?case
      using release_ok [of t h] ht_capacity_release [of h t]
      by (cases "ht_release h t"; cases "fst (ht_release h t)") auto
  qed simp
  show "ls_ok (snd (destroy_listeners path ls))"
    using assms rel by (simp add: ls_ok_def destroy_listeners_def Let_def case_prod_beta)
  show "ls_ok (end_delivery ls)" using assms by (simp add: ls_ok_def end_delivery_def)
  show "ls_ok (notify_event e ls)" "ls_ok (ls_on_clock_resync c ls)" "ls_ok (ls\<lparr>ls_pending := es\<rparr>)"
    using assms by (simp_all add: ls_ok_def notify_event_def ls_on_clock_resync_def Let_def)
  show "ls_ok (snd (create_listener c r cb prefix ls))"
    using assms by (simp add: ls_ok_def create_listener_def allocate_new_alt case_prod_beta)
  show "ls_ok (snd (destroy_listener h ls))"
    using assms release_ok [of "ls_listeners ls" h] ht_capacity_release [of h "ls_listeners ls"]
    by (cases "ht_release h (ls_listeners ls)"; cases "fst (ht_release h (ls_listeners ls))")
       (auto simp: ls_ok_def destroy_listener_def)
qed

lemma ls_ok_notify [simp]:
  "ls_ok ls \<Longrightarrow> ls_ok (notify c r t path h ls)"
  "ls_ok ls \<Longrightarrow> ls_ok (notify_change c r t path h old new ls)"
  by (simp_all add: notify_def notify_change_def)

lemma enter_index_ok: "enter_index i ls = (ls', d') \<Longrightarrow> ls_ok ls \<Longrightarrow> ls_ok ls'"
  by (auto simp: enter_index_def split: if_splits)

lemma thread_step_ok:
  assumes "thread_step oob ls d = (res, ls', d')" and "ls_ok ls"
  shows "ls_ok ls'"
  using assms
  by (auto simp: thread_step_def enter_index_ok split: delivery.splits if_splits list.splits option.splits)

section \<open>Delivery of an event\<close>

text \<open>The calls that an event calls for: every listener's, in the order of their handles.\<close>

definition calls_for :: "event \<Rightarrow> 'c listener_data handle_table \<Rightarrow> handle list \<Rightarrow> ('c \<times> event) list" where
  "calls_for e t hs =
     concat (map (\<lambda>h. case ht_lookup t h of
                        Some l \<Rightarrow> (case ln_invoke l e of Some cb \<Rightarrow> [(cb, e)] | None \<Rightarrow> [])
                      | None \<Rightarrow> []) hs)"

lemma thread_run_from:
  assumes "ls_ok ls" and "ls_pending ls = e # es"
    and "i < ht_capacity (ls_listeners ls)" and "ht_data (ls_listeners ls) ! i \<noteq> None"
  shows "\<exists>n. thread_run n ls (D_calling i) =
     (Inr (calls_for e (ls_listeners ls) (map of_nat (taken_from (ls_listeners ls) i))),
      ls\<lparr>ls_pending := es\<rparr>, D_wait)"
  using assms(3,4)
proof (induction "ht_capacity (ls_listeners ls) - i" arbitrary: i rule: less_induct)
  case less
  let ?t = "ls_listeners ls"
  let ?j = "iterate_to_next_element False ?t i"
  have cap: "ht_ok ?t" "ht_capacity ?t < 2 ^ 32" using assms(1) by (auto simp: ls_ok_def ht_ok_def)
  have ui: "unat (of_nat i :: u32) = i" using less.prems cap by (simp add: unat_of_nat_u32)
  have "(of_nat i :: u32) \<noteq> empty_handle"
    using ui less.prems cap unat_empty_handle by auto
  then obtain l where l: "ht_lookup ?t (of_nat i) = Some l"
    using less.prems ui by (auto simp: ht_lookup_eq)
  have tk: "taken_from ?t i = i # taken_from ?t ?j"
    using less.prems taken_from_Cons [of i ?t] iterate_next_taken [of ?t False i] by auto
  let ?call = "map_option (\<lambda>cb. (cb, e)) (ln_invoke l e)"
  have step: "thread_step False ls (D_calling i) = (Inr ?call, enter_index ?j ls)"
    using l assms(2) by (simp add: thread_step_def)
  show ?case
  proof (cases "?j < ht_capacity ?t")
    case True
    then have "ht_data ?t ! ?j \<noteq> None" using iterate_next_taken [of ?t False i] by simp
    moreover have "ht_capacity ?t - ?j < ht_capacity ?t - i"
      using True iterate_to_next_element_gt [of i False ?t] by simp
    ultimately obtain n where "thread_run n ls (D_calling ?j) =
        (Inr (calls_for e ?t (map of_nat (taken_from ?t ?j))), ls\<lparr>ls_pending := es\<rparr>, D_wait)"
      using less.hyps [of ?j] True by blast
    with step True have "thread_run (Suc n) ls (D_calling i) =
        (Inr (calls_for e ?t (map of_nat (taken_from ?t i))), ls\<lparr>ls_pending := es\<rparr>, D_wait)"
      by (simp add: enter_index_def tk calls_for_def l split: option.split)
    then show ?thesis by blast
  next
    case False
    with step have "thread_run (Suc 0) ls (D_calling i) =
        (Inr (calls_for e ?t (map of_nat (taken_from ?t i))), ls\<lparr>ls_pending := es\<rparr>, D_wait)"
      using assms(2) by (simp add: enter_index_def tk calls_for_def l split: option.split)
    then show ?thesis by blast
  qed
qed

text \<open>
  C23 Undisturbed, the delivery thread takes the oldest pending event and calls exactly the listeners
  that were created no later than the event and whose prefix occurs in its path, once each and in
  the order of their handles; then the event is gone and the thread is back at its wait.
\<close>

theorem event_delivered_to_listeners:
  assumes "ls_ok ls" and "ls_loop_run ls" and "ls_pending ls = e # es"
  shows "\<exists>n. thread_run n ls D_wait =
     (Inr (calls_for e (ls_listeners ls) (ht_handles (ls_listeners ls))),
      ls\<lparr>ls_pending := es\<rparr>, D_wait)"
proof -
  let ?t = "ls_listeners ls"
  let ?b = "ht_begin False ?t"
  have tk: "taken_from ?t ?b = taken_from ?t 0 \<and> (?b < ht_capacity ?t \<longrightarrow> ht_data ?t ! ?b \<noteq> None)"
    using iterate_next_taken [of ?t False 0] taken_from_Cons [of 0 ?t]
    by (auto simp: ht_begin_def slot_taken_def)
  have step: "thread_step False ls D_wait = (Inr None, enter_index ?b ls)"
    using assms by (simp add: thread_step_def)
  show ?thesis
  proof (cases "?b < ht_capacity ?t")
    case True
    with tk thread_run_from [OF assms(1,3) True] obtain n where
      "thread_run n ls (D_calling ?b) =
        (Inr (calls_for e ?t (map of_nat (taken_from ?t 0))), ls\<lparr>ls_pending := es\<rparr>, D_wait)" by auto
    with step True have "thread_run (Suc n) ls D_wait =
        (Inr (calls_for e ?t (ht_handles ?t)), ls\<lparr>ls_pending := es\<rparr>, D_wait)"
      by (simp add: enter_index_def ht_handles_eq)
    then show ?thesis by blast
  next
    case False
    then have "taken_from ?t 0 = []" using tk by simp
    with step False assms(3) have "thread_run (Suc 0) ls D_wait =
        (Inr (calls_for e ?t (ht_handles ?t)), ls\<lparr>ls_pending := es\<rparr>, D_wait)"
      by (simp add: enter_index_def ht_handles_eq calls_for_def)
    then show ?thesis by blast
  qed
qed

definition sample_listeners :: "string listener_storage" where
  "sample_listeners =
     snd (create_listener clock_new 50 ''late'' ''/x'' (snd (create_listener clock_new 10 ''second'' ''/a''
       (snd (create_listener clock_new 5 ''first'' ''/x'' listener_storage_new)))))"

definition sample_event :: event where
  "sample_event = new_event 20 ev_created ''/x/a'' 0"

lemma sample_listeners_eq:
  "sample_listeners =
     \<lparr>ls_listeners = \<lparr>ht_data =
        [Some \<lparr>ln_callback = ''first'', ln_prefix = ''/x'', ln_creation = 5\<rparr>,
         Some \<lparr>ln_callback = ''second'', ln_prefix = ''/a'', ln_creation = 10\<rparr>,
         Some \<lparr>ln_callback = ''late'', ln_prefix = ''/x'', ln_creation = 50\<rparr>] @ replicate 13 None,
        ht_count = 3\<rparr>,
      ls_pending = [], ls_loop_run = True\<rparr>"
  by (simp add: sample_listeners_def listener_storage_new_def create_listener_def allocate_new_def
      find_next_available_spot_def ht_new_def listener_capacity_def clock_now_def clock_new_def
      numeral_eq_Suc)

lemma sample_listeners_ok: "ls_ok (sample_listeners\<lparr>ls_pending := es\<rparr>)"
  by (simp add: sample_listeners_def del: One_nat_def)

lemma event_delivered_to_listeners_witness:
  "\<exists>n. thread_run n (sample_listeners\<lparr>ls_pending := [sample_event]\<rparr>) D_wait =
     (Inr [(''first'', sample_event), (''second'', sample_event)], sample_listeners, D_wait)"
proof -
  have "taken_from (ls_listeners sample_listeners) 0 = [0, 1, 2]"
    by (simp add: taken_from_def sample_listeners_eq ht_capacity_def upt_rec numeral_eq_Suc)
  then have h: "ht_handles (ls_listeners sample_listeners) = [0, 1, 2]" by (simp add: ht_handles_eq)
  have c: "contains ''/x/a'' ''/x''" "contains ''/x/a'' ''/a''"
    by (simp_all add: contains_def)
  have calls: "calls_for sample_event (ls_listeners sample_listeners) [0, 1, 2] =
      [(''first'', sample_event), (''second'', sample_event)]"
    by (simp add: calls_for_def sample_listeners_eq ht_lookup_eq ht_capacity_def ln_invoke_def
        sample_event_def new_event_def c empty_handle_def)
  show ?thesis
    using event_delivered_to_listeners [OF sample_listeners_ok, of "[sample_event]" sample_event "[]"]
      h calls by (simp add: sample_listeners_eq)
qed

section \<open>Which paths a listener hears\<close>

text \<open>
  A listener hears an event exactly when the event is not older than the listener and the
  listener's path occurs anywhere in the event's path: the search is not anchored, so a listener on
  \<open>/a\<close> also hears of \<open>/b/a\<close> and of \<open>/ab\<close>, which are not under it.
\<close>

theorem listener_hears_any_occurrence:
  "ln_invoke l e =
     (if ln_creation l \<le> ev_timestamp e \<and> (\<exists>p q. ev_path e = p @ ln_prefix l @ q)
      then Some (ln_callback l) else None) \<and>
   ln_invoke \<lparr>ln_callback = cb, ln_prefix = ''/a'', ln_creation = 0\<rparr>
     (new_event 1 ev_created ''/b/a'' h) = Some cb \<and>
   ln_invoke \<lparr>ln_callback = cb, ln_prefix = ''/a'', ln_creation = 0\<rparr>
     (new_event 1 ev_created ''/ab'' h) = Some cb"
proof -
  have "contains ''/b/a'' ''/a''" "contains ''/ab'' ''/a''" by (simp_all add: contains_def)
  moreover have "ln_invoke l e =
      (if ln_creation l \<le> ev_timestamp e \<and> (\<exists>p q. ev_path e = p @ ln_prefix l @ q)
       then Some (ln_callback l) else None)"
    unfolding ln_invoke_def contains_iff by auto
  ultimately show ?thesis by (simp add: ln_invoke_def new_event_def)
qed

section \<open>Delivery among other threads\<close>

definition delivery_inv :: "'c listener_storage \<times> delivery \<Rightarrow> bool" where
  "delivery_inv s \<longleftrightarrow>
     ls_ok (fst s) \<and>
     (case snd s of
        D_calling i \<Rightarrow> ls_pending (fst s) \<noteq> [] \<and> i < listener_capacity
      | _ \<Rightarrow> True)"

lemma enter_index_inv:
  "enter_index i ls = (ls', d') \<Longrightarrow> ls_ok ls \<Longrightarrow> ls_pending ls \<noteq> [] \<Longrightarrow> delivery_inv (ls', d')"
  by (auto simp: enter_index_def delivery_inv_def ls_ok_def split: if_splits)

lemma delivery_step_inv:
  assumes "delivery_step s s'" and "delivery_inv s"
  shows "delivery_inv s'"
  using assms
proof cases
  case (thread oob ls d call ls' d')
  then have "ls_ok ls" using assms(2) by (simp add: delivery_inv_def)
  moreover have "(ls' = ls \<and> d' \<in> {D_wait, D_ended}) \<or> (ls_pending ls \<noteq> [] \<and> (\<exists>j. enter_index j ls = (ls', d')))"
    using thread(3)
    by (auto simp: thread_step_def split: delivery.splits if_splits list.splits option.splits)
  ultimately show ?thesis
    unfolding thread(2) using enter_index_inv [of _ ls ls' d'] by (auto simp: delivery_inv_def [of "(ls, _)"])
next
  case (created c r cb prefix ls res ls' d)
  then have "ls_ok ls'" "ls_pending ls' = ls_pending ls"
    using assms(2) ls_ok_ops(3) [of ls c r cb prefix]
    by (auto simp: delivery_inv_def create_listener_def split: prod.splits)
  with created assms(2) show ?thesis by (auto simp: delivery_inv_def split: delivery.splits)
next
  case (destroyed h ls res ls' d)
  then have "ls_ok ls'" "ls_pending ls' = ls_pending ls"
    using assms(2) ls_ok_ops(4) [of ls h]
    by (auto simp: delivery_inv_def destroy_listener_def split: prod.splits sum.splits)
  with destroyed assms(2) show ?thesis by (auto simp: delivery_inv_def split: delivery.splits)
next
  case (destroyed_under path ls res ls' d)
  then have "ls_ok ls'" "ls_pending ls' = ls_pending ls"
    using assms(2) ls_ok_ops(6) [of ls path]
    by (auto simp: delivery_inv_def destroy_listeners_def Let_def split: prod.splits)
  with destroyed_under assms(2) show ?thesis by (auto simp: delivery_inv_def split: delivery.splits)
qed (use assms(2) in \<open>auto simp: delivery_inv_def notify_event_def end_delivery_def ls_on_clock_resync_def Let_def
      split: delivery.splits\<close>, (simp add: ls_ok_def notify_event_def end_delivery_def)+)

lemma delivery_reach_inv: "delivery_reach s \<Longrightarrow> delivery_inv s"
  by (induction rule: delivery_reach.induct)
     (auto simp: delivery_inv_def [of "(listener_storage_new, D_wait)"] dest: delivery_step_inv)


text \<open>A run: a listener, an event, the thread starts on it, the listener is destroyed meanwhile.\<close>

definition one_listener :: "string listener_storage" where
  "one_listener = snd (create_listener clock_new 0 ''cb'' ''/'' listener_storage_new)"

definition one_event :: "string listener_storage" where
  "one_event = notify_event (new_event 1 ev_created ''/e'' 0) one_listener"

definition listener_gone :: "string listener_storage" where
  "listener_gone = snd (destroy_listener 0 one_event)"

lemma one_event_eq:
  "one_event = \<lparr>ls_listeners = \<lparr>ht_data =
      Some \<lparr>ln_callback = ''cb'', ln_prefix = ''/'', ln_creation = 0\<rparr> # replicate 15 None, ht_count = 1\<rparr>,
     ls_pending = [new_event 1 ev_created ''/e'' 0], ls_loop_run = True\<rparr>"
  by (simp add: one_event_def one_listener_def listener_storage_new_def create_listener_def
      allocate_new_def find_next_available_spot_def ht_new_def listener_capacity_def clock_now_def
      clock_new_def notify_event_def numeral_eq_Suc)

lemma listener_gone_eq:
  "listener_gone = one_event\<lparr>ls_listeners := \<lparr>ht_data = replicate 16 None, ht_count = 0\<rparr>\<rparr>"
  by (simp add: listener_gone_def one_event_eq destroy_listener_def ht_release_def ht_has_def
      ht_capacity_def empty_handle_def numeral_eq_Suc)

lemma one_event_calls: "delivery_reach (one_event, D_calling 0)"
proof -
  have c: "create_listener clock_new 0 ''cb'' ''/'' listener_storage_new =
      (fst (create_listener clock_new 0 ''cb'' ''/'' listener_storage_new), one_listener)"
    by (simp add: one_listener_def)
  have "delivery_reach (one_listener, D_wait)"
    by (rule delivery_reach.step [OF delivery_reach.start delivery_step.created [OF c]])
  then have "delivery_reach (one_event, D_wait)"
    unfolding one_event_def by (rule delivery_reach.step) (rule delivery_step.notified)
  moreover have "thread_step False one_event D_wait = (Inr None, one_event, D_calling 0)"
    by (simp add: thread_step_def one_event_eq enter_index_def ht_begin_def slot_taken_def ht_capacity_def)
  ultimately show ?thesis using delivery_reach.step delivery_step.thread by blast
qed


text \<open>
  The listener is not protected in the same way: while a callback runs the lock is released, and
  destroying that listener frees the object whose \<open>invoke\<close> is still executing. Such a state is
  reachable, and the thread's next access to the listener is undefined.
\<close>

theorem destroyed_listener_dangles:
  "delivery_reach (listener_gone, D_calling 0) \<and>
   ht_lookup (ls_listeners listener_gone) 0 = None \<and>
   fst (thread_step oob listener_gone (D_calling 0)) = Inl Undefined_behaviour"
proof -
  have d: "destroy_listener 0 one_event = (fst (destroy_listener 0 one_event), listener_gone)"
    by (simp add: listener_gone_def)
  have "delivery_reach (listener_gone, D_calling 0)"
    by (rule delivery_reach.step [OF one_event_calls delivery_step.destroyed [OF d]])
  then show ?thesis
    by (simp add: listener_gone_eq one_event_eq thread_step_def ht_lookup_eq ht_capacity_def)
qed

end
