(* ===== verification/Obsr_Storage.thy ===== *)
theory Obsr_Storage
  imports Obsr_Listeners
begin

text \<open>
  The entry storage (\<open>src/storage/storage.h\<close>, \<open>src/storage/storage.cpp\<close>): entries with their flags,
  time stamps and network identifiers, in a handle table that is indexed by path and by network
  identifier. Every operation takes the storage and returns its result, or the exception it throws,
  with the storage as it is then: a statement that ran before the exception keeps its effect. \<open>tm\<close>
  are the readings of the system clock, one for each call of \<open>now()\<close> in program order.
\<close>

section \<open>Entries\<close>

definition flag_internal_mask :: u16 where "flag_internal_mask = 0xFF00"
definition flag_internal_dirty :: u16 where "flag_internal_dirty = 0x100"
definition flag_internal_deleted :: u16 where "flag_internal_deleted = 0x200"
definition flag_internal_created :: u16 where "flag_internal_created = 0x400"

definition id_not_assigned :: u16 where
  "id_not_assigned = - 1"

record storage_entry =
  se_handle :: handle
  se_path :: string
  se_value :: obsr_value
  se_last_update :: milliseconds
  se_net_id :: u16
  se_flags :: u16

definition storage_entry_new :: "handle \<Rightarrow> string \<Rightarrow> storage_entry" where
  "storage_entry_new h path =
     \<lparr>se_handle = h, se_path = path, se_value = value_make, se_last_update = 0,
      se_net_id = id_not_assigned, se_flags = 0\<rparr>"

definition is_in :: "storage_entry \<Rightarrow> string \<Rightarrow> bool" where
  "is_in d path = contains (se_path d) path"

definition has_flags :: "u16 \<Rightarrow> storage_entry \<Rightarrow> bool" where
  "has_flags f d = ((se_flags d AND f) = f)"

definition add_flags :: "u16 \<Rightarrow> storage_entry \<Rightarrow> storage_entry" where
  "add_flags f d = d\<lparr>se_flags := se_flags d OR f\<rparr>"

definition remove_flags :: "u16 \<Rightarrow> storage_entry \<Rightarrow> storage_entry" where
  "remove_flags f d = d\<lparr>se_flags := se_flags d AND NOT f\<rparr>"

definition is_dirty :: "storage_entry \<Rightarrow> bool" where
  "is_dirty d = has_flags flag_internal_dirty d"

definition mark_dirty :: "storage_entry \<Rightarrow> storage_entry" where
  "mark_dirty d = add_flags flag_internal_dirty d"

definition clear_dirty :: "storage_entry \<Rightarrow> storage_entry" where
  "clear_dirty d = remove_flags flag_internal_dirty d"

definition set_net_id :: "u16 \<Rightarrow> storage_entry \<Rightarrow> storage_entry" where
  "set_net_id i d = d\<lparr>se_net_id := i\<rparr>"

definition clear_net_id :: "storage_entry \<Rightarrow> storage_entry" where
  "clear_net_id d = d\<lparr>se_net_id := id_not_assigned\<rparr>"

definition set_last_update :: "milliseconds \<Rightarrow> storage_entry \<Rightarrow> storage_entry" where
  "set_last_update t d = d\<lparr>se_last_update := t\<rparr>"

definition entry_set_value :: "obsr_value \<Rightarrow> storage_entry \<Rightarrow> (exn + obsr_value) \<times> storage_entry" where
  "entry_set_value v d =
     (let old_type = value_get_type (se_value d); new_type = value_get_type v in
      if old_type \<noteq> vt_empty \<and> old_type \<noteq> new_type
      then (Inl (Entry_type_mismatch (se_handle d) old_type new_type), d)
      else (Inr (se_value d), d\<lparr>se_value := v\<rparr>))"

definition entry_clear :: "storage_entry \<Rightarrow> obsr_value \<times> storage_entry" where
  "entry_clear d = (se_value d, d\<lparr>se_value := value_make\<rparr>)"

definition does_entry_have_value :: "storage_entry \<Rightarrow> bool" where
  "does_entry_have_value d \<longleftrightarrow>
     \<not> has_flags flag_internal_created d \<and> \<not> has_flags flag_internal_deleted d"

section \<open>The storage\<close>

record 'c storage =
  st_listeners :: "'c listener_storage"
  st_clock :: clock
  st_entries :: "storage_entry handle_table"
  st_paths :: "string \<Rightarrow> handle option"
  st_ids :: "u16 \<Rightarrow> handle option"

type_synonym ('c, 'x) storage_op = "'c storage \<Rightarrow> (exn + 'x) \<times> 'c storage"

definition entry_capacity :: nat where
  "entry_capacity = 256"

definition storage_new :: "clock \<Rightarrow> 'c storage" where
  "storage_new c =
     \<lparr>st_listeners = listener_storage_new, st_clock = c, st_entries = ht_new entry_capacity,
      st_paths = Map.empty, st_ids = Map.empty\<rparr>"

text \<open>Writing through the pointer to an entry, and the two notifications.\<close>

definition put_entry :: "handle \<Rightarrow> storage_entry \<Rightarrow> 'c storage \<Rightarrow> 'c storage" where
  "put_entry h d s = s\<lparr>st_entries := ht_update h (\<lambda>_. d) (st_entries s)\<rparr>"

definition notify_entry ::
  "milliseconds \<Rightarrow> event_type \<Rightarrow> string \<Rightarrow> handle \<Rightarrow> 'c storage \<Rightarrow> 'c storage" where
  "notify_entry r t path h s =
     s\<lparr>st_listeners := notify (st_clock s) r t path h (st_listeners s)\<rparr>"

definition notify_value ::
  "milliseconds \<Rightarrow> string \<Rightarrow> handle \<Rightarrow> obsr_value \<Rightarrow> obsr_value \<Rightarrow> 'c storage \<Rightarrow> 'c storage" where
  "notify_value r path h old new s =
     s\<lparr>st_listeners := notify_change (st_clock s) r ev_value_changed path h old new (st_listeners s)\<rparr>"

definition create_new_entry :: "string \<Rightarrow> ('c, handle) storage_op" where
  "create_new_entry path s =
     (case allocate_new_with_handle (\<lambda>h. storage_entry_new h path) (st_entries s) of
        (Inl e, t) \<Rightarrow> (Inl e, s\<lparr>st_entries := t\<rparr>)
      | (Inr h, t) \<Rightarrow>
          (let s = s\<lparr>st_entries := t, st_paths := map_emplace path h (st_paths s)\<rparr> in
           (Inr h, s\<lparr>st_entries := ht_update h
              (\<lambda>d. set_last_update 0 (add_flags flag_internal_created d)) (st_entries s)\<rparr>)))"

definition get_or_create_entry :: "string \<Rightarrow> ('c, handle) storage_op" where
  "get_or_create_entry path s =
     (case st_paths s path of
        None \<Rightarrow> create_new_entry path s
      | Some h \<Rightarrow>
          (if ht_has (st_entries s) h then (Inr h, s) else (Inl (No_such_handle h), s)))"

text \<open>\<open>set_entry_internal\<close>: readings 0 and 2 are the notifications', reading 1 the time stamp's.\<close>

definition set_entry_internal ::
  "readings \<Rightarrow> handle \<Rightarrow> obsr_value \<Rightarrow> bool \<Rightarrow> u16 \<Rightarrow> bool \<Rightarrow> milliseconds \<Rightarrow> ('c, unit) storage_op" where
  "set_entry_internal tm entry v clear i dirty timestamp s =
     (case ht_get (st_entries s) entry of
        Inl e \<Rightarrow> (Inl e, s)
      | Inr data \<Rightarrow>
          (if timestamp \<noteq> 0 \<and> se_last_update data > timestamp then (Inr (), s)
           else
             (let just_created = has_flags flag_internal_created data;
                  data = (if has_flags flag_internal_created data
                          then remove_flags flag_internal_created data else data);
                  just_created = (has_flags flag_internal_deleted data \<or> just_created);
                  data = (if has_flags flag_internal_deleted data
                          then remove_flags flag_internal_deleted data else data);
                  s = put_entry entry data s;
                  s = (if just_created then notify_entry (tm 0) ev_created (se_path data) entry s else s);
                  data = (if i \<noteq> id_not_assigned then set_net_id i data else data);
                  s = put_entry entry data s
              in
              case (if clear then (case entry_clear data of (old, data) \<Rightarrow> (Inr old, data))
                    else entry_set_value v data) of
                (Inl e, data) \<Rightarrow> (Inl e, put_entry entry data s)
              | (Inr old_value, data) \<Rightarrow>
                  (let data = (if dirty then mark_dirty data else clear_dirty data);
                       timestamp = (if timestamp = 0 then clock_now (st_clock s) (tm 1) else timestamp);
                       data = set_last_update timestamp data;
                       s = put_entry entry data s
                   in (Inr (), notify_value (tm 2) (se_path data) entry old_value v s)))))"

text \<open>\<open>delete_entry_internal\<close>: reading 0 is the time stamp's, reading 1 the notification's.\<close>

definition delete_entry_internal ::
  "readings \<Rightarrow> handle \<Rightarrow> bool \<Rightarrow> milliseconds \<Rightarrow> ('c, unit) storage_op" where
  "delete_entry_internal tm entry dirty timestamp s =
     (case ht_get (st_entries s) entry of
        Inl e \<Rightarrow> (Inl e, s)
      | Inr data \<Rightarrow>
          (if timestamp \<noteq> 0 \<and> se_last_update data > timestamp then (Inr (), s)
           else if has_flags flag_internal_created data \<or> has_flags flag_internal_deleted data
           then (Inr (), s)
           else
             (let data = snd (entry_clear data);
                  data = add_flags flag_internal_deleted data;
                  data = (if dirty then mark_dirty data else clear_dirty data);
                  timestamp = (if timestamp = 0 then clock_now (st_clock s) (tm 0) else timestamp);
                  data = set_last_update timestamp data;
                  s = put_entry entry data s
              in (Inr (), notify_entry (tm 1) ev_deleted (se_path data) entry s))))"

subsection \<open>The operations of clients\<close>

definition delete_entry :: "readings \<Rightarrow> handle \<Rightarrow> ('c, unit) storage_op" where
  "delete_entry tm entry s = delete_entry_internal tm entry True 0 s"

text \<open>
  The loops over the entries visit the handles the table holds when the loop starts: nothing they do
  allocates or releases an entry. The readings of the deletion of entry \<open>h\<close> start at twice \<open>h\<close>.
\<close>

fun delete_in :: "readings \<Rightarrow> string \<Rightarrow> handle list \<Rightarrow> ('c, unit) storage_op" where
  "delete_in tm path [] s = (Inr (), s)"
| "delete_in tm path (h # hs) s =
     (case ht_get (st_entries s) h of
        Inl e \<Rightarrow> (Inl e, s)
      | Inr data \<Rightarrow>
          (if is_in data path then
             (case delete_entry_internal (\<lambda>j. tm (2 * unat h + j)) h True 0 s of
                (Inl e, s) \<Rightarrow> (Inl e, s)
              | (Inr _, s) \<Rightarrow> delete_in tm path hs s)
           else delete_in tm path hs s))"

definition delete_entries :: "readings \<Rightarrow> string \<Rightarrow> ('c, unit) storage_op" where
  "delete_entries tm path s = delete_in tm path (ht_handles (st_entries s)) s"

definition probe :: "handle \<Rightarrow> 'c storage \<Rightarrow> u32" where
  "probe entry s =
     (case ht_get (st_entries s) entry of
        Inl _ \<Rightarrow> entry_not_exists
      | Inr data \<Rightarrow> ucast (se_flags data AND NOT flag_internal_mask))"

definition get_entry_path :: "handle \<Rightarrow> 'c storage \<Rightarrow> exn + string" where
  "get_entry_path entry s = map_sum id se_path (ht_get (st_entries s) entry)"

definition get_entry_value :: "handle \<Rightarrow> 'c storage \<Rightarrow> obsr_value option" where
  "get_entry_value entry s =
     (case ht_get (st_entries s) entry of
        Inl _ \<Rightarrow> None
      | Inr data \<Rightarrow> (if \<not> does_entry_have_value data then None else Some (se_value data)))"

definition set_entry_value :: "readings \<Rightarrow> handle \<Rightarrow> obsr_value \<Rightarrow> ('c, unit) storage_op" where
  "set_entry_value tm entry v s = set_entry_internal tm entry v False id_not_assigned True 0 s"

definition clear_entry :: "readings \<Rightarrow> handle \<Rightarrow> ('c, unit) storage_op" where
  "clear_entry tm entry s = set_entry_internal tm entry value_make True id_not_assigned True 0 s"

definition listen_entry :: "milliseconds \<Rightarrow> handle \<Rightarrow> 'c \<Rightarrow> ('c, handle) storage_op" where
  "listen_entry r entry cb s =
     (case ht_get (st_entries s) entry of
        Inl e \<Rightarrow> (Inl e, s)
      | Inr data \<Rightarrow>
          (case create_listener (st_clock s) r cb (se_path data) (st_listeners s) of
             (res, ls) \<Rightarrow> (res, s\<lparr>st_listeners := ls\<rparr>)))"

definition listen_prefix :: "milliseconds \<Rightarrow> string \<Rightarrow> 'c \<Rightarrow> ('c, handle) storage_op" where
  "listen_prefix r prefix cb s =
     (case create_listener (st_clock s) r cb prefix (st_listeners s) of
        (res, ls) \<Rightarrow> (res, s\<lparr>st_listeners := ls\<rparr>))"

definition remove_listener :: "handle \<Rightarrow> ('c, unit) storage_op" where
  "remove_listener h s =
     (case destroy_listener h (st_listeners s) of (res, ls) \<Rightarrow> (res, s\<lparr>st_listeners := ls\<rparr>))"

subsection \<open>The operations of the network\<close>

text \<open>
  The action on dirty entries may work on the storage itself (the mutex is recursive; the server
  assigns identifiers from inside) and on a world \<open>'w\<close> of its own; it sees the entry as it is.
\<close>

type_synonym ('c, 'w) entry_action =
  "storage_entry \<Rightarrow> 'c storage \<times> 'w \<Rightarrow> (exn + bool) \<times> 'c storage \<times> 'w"

fun act_on :: "('c, 'w) entry_action \<Rightarrow> handle list \<Rightarrow> 'c storage \<times> 'w \<Rightarrow>
    (exn + unit) \<times> 'c storage \<times> 'w" where
  "act_on action [] sw = (Inr (), sw)"
| "act_on action (h # hs) (s, w) =
     (case ht_get (st_entries s) h of
        Inl e \<Rightarrow> (Inl e, s, w)
      | Inr data \<Rightarrow>
          (if \<not> has_flags flag_internal_dirty data then act_on action hs (s, w)
           else
             (case action data (s, w) of
                (Inl e, sw) \<Rightarrow> (Inl e, sw)
              | (Inr True, s, w) \<Rightarrow>
                  act_on action hs (s\<lparr>st_entries := ht_update h clear_dirty (st_entries s)\<rparr>, w)
              | (Inr False, sw) \<Rightarrow> (Inr (), sw))))"

definition act_on_dirty_entries ::
  "('c, 'w) entry_action \<Rightarrow> 'c storage \<times> 'w \<Rightarrow> (exn + unit) \<times> 'c storage \<times> 'w" where
  "act_on_dirty_entries action sw = act_on action (ht_handles (st_entries (fst sw))) sw"

definition clear_net_ids :: "'c storage \<Rightarrow> 'c storage" where
  "clear_net_ids s =
     s\<lparr>st_entries := fold (\<lambda>h t. ht_update h clear_net_id t) (ht_handles (st_entries s)) (st_entries s),
       st_ids := Map.empty\<rparr>"

definition get_entry_value_from_id :: "u16 \<Rightarrow> 'c storage \<Rightarrow> obsr_value option" where
  "get_entry_value_from_id i s =
     (case st_ids s i of
        None \<Rightarrow> None
      | Some h \<Rightarrow>
          (case ht_get (st_entries s) h of
             Inl _ \<Rightarrow> None
           | Inr data \<Rightarrow> (if does_entry_have_value data then Some (se_value data) else None)))"

definition adjust_entry :: "clock \<Rightarrow> storage_entry \<Rightarrow> storage_entry" where
  "adjust_entry c d =
     (if se_last_update d = 0 then d else set_last_update (adjust_time c (se_last_update d)) d)"

definition on_clock_resync :: "'c storage \<Rightarrow> 'c storage" where
  "on_clock_resync s =
     (let s = s\<lparr>st_entries := fold (\<lambda>h t. ht_update h (adjust_entry (st_clock s)) t)
           (ht_handles (st_entries s)) (st_entries s)\<rparr> in
      s\<lparr>st_listeners := ls_on_clock_resync (st_clock s) (st_listeners s)\<rparr>)"

definition find_or_create :: "string \<Rightarrow> ('c, handle) storage_op" where
  "find_or_create path s =
     (case st_paths s path of Some h \<Rightarrow> (Inr h, s) | None \<Rightarrow> create_new_entry path s)"

definition on_entry_created ::
  "readings \<Rightarrow> u16 \<Rightarrow> string \<Rightarrow> obsr_value \<Rightarrow> milliseconds \<Rightarrow> ('c, unit) storage_op" where
  "on_entry_created tm i path v timestamp s =
     (case find_or_create path s of
        (Inl e, s) \<Rightarrow> (Inl e, s)
      | (Inr h, s) \<Rightarrow>
          set_entry_internal tm h v False i False timestamp (s\<lparr>st_ids := map_emplace i h (st_ids s)\<rparr>))"

definition on_entry_updated :: "readings \<Rightarrow> u16 \<Rightarrow> obsr_value \<Rightarrow> milliseconds \<Rightarrow> ('c, unit) storage_op" where
  "on_entry_updated tm i v timestamp s =
     (case st_ids s i of
        None \<Rightarrow> (Inr (), s)
      | Some h \<Rightarrow> set_entry_internal tm h v False i False timestamp s)"

definition on_entry_deleted :: "readings \<Rightarrow> u16 \<Rightarrow> milliseconds \<Rightarrow> ('c, unit) storage_op" where
  "on_entry_deleted tm i timestamp s =
     (case st_ids s i of
        None \<Rightarrow> (Inr (), s)
      | Some h \<Rightarrow> delete_entry_internal tm h False timestamp s)"

definition on_entry_id_assigned :: "u16 \<Rightarrow> string \<Rightarrow> ('c, unit) storage_op" where
  "on_entry_id_assigned i path s =
     (case find_or_create path s of
        (Inl e, s) \<Rightarrow> (Inl e, s)
      | (Inr h, s) \<Rightarrow>
          (case ht_get (st_entries s) h of
             Inl e \<Rightarrow> (Inl e, s)
           | Inr data \<Rightarrow>
               (Inr (), (put_entry h (set_net_id i data) s)\<lparr>st_ids := map_emplace i h (st_ids s)\<rparr>)))"

end
