(* ===== verification/Obsr_Storage_Lemmas.thy ===== *)
theory Obsr_Storage_Lemmas
  imports Obsr_Storage
begin

text \<open>
  The library of the storage: the algebra of the entry flags, what the two internal operations do to
  the entry they work on, and the well-formedness invariant with its preservation by every operation.
\<close>

section \<open>Flags\<close>

lemma flag_bits [store_simps]:
  "bit flag_internal_dirty n \<longleftrightarrow> n = 8"
  "bit flag_internal_deleted n \<longleftrightarrow> n = 9"
  "bit flag_internal_created n \<longleftrightarrow> n = 10"
proof -
  have "flag_internal_dirty = push_bit 8 1" "flag_internal_deleted = push_bit 9 1"
    "flag_internal_created = push_bit 10 1"
    by (simp_all add: flag_internal_dirty_def flag_internal_deleted_def flag_internal_created_def)
  note flags = this
  have one: "bit (push_bit k (1 :: u16)) n \<longleftrightarrow> n = k" if "k < 16" for k
    using that by (auto simp: bit_simps simp del: push_bit_of_1)
  show "bit flag_internal_dirty n \<longleftrightarrow> n = 8" "bit flag_internal_deleted n \<longleftrightarrow> n = 9"
    "bit flag_internal_created n \<longleftrightarrow> n = 10"
    unfolding flags by (rule one; simp)+
qed

lemma has_flags_iff: "has_flags f d \<longleftrightarrow> (\<forall>n. bit f n \<longrightarrow> bit (se_flags d) n)"
proof -
  have "n < 16" if "bit f n" for n using bit_imp_le_length [OF that] by simp
  then show ?thesis unfolding has_flags_def bit_eq_iff by (auto simp: bit_simps)
qed

lemma has_one_flag [store_simps]:
  "has_flags flag_internal_dirty d \<longleftrightarrow> bit (se_flags d) 8"
  "has_flags flag_internal_deleted d \<longleftrightarrow> bit (se_flags d) 9"
  "has_flags flag_internal_created d \<longleftrightarrow> bit (se_flags d) 10"
  by (simp_all add: has_flags_iff flag_bits)

lemma bit_change_flags [store_simps]:
  "bit (x OR f) n \<longleftrightarrow> bit x n \<or> bit f n"
  "bit (x AND NOT f) n \<longleftrightarrow> bit x n \<and> \<not> bit (f :: u16) n"
  by (auto simp: bit_simps dest: bit_imp_le_length [of x n])

lemmas entry_defs = add_flags_def remove_flags_def is_dirty_def mark_dirty_def clear_dirty_def
  set_net_id_def clear_net_id_def set_last_update_def entry_clear_def

text \<open>Every field change, on every field.\<close>

lemma entry_fields [simp]:
  "se_handle (add_flags f d) = se_handle d" "se_path (add_flags f d) = se_path d"
  "se_value (add_flags f d) = se_value d" "se_last_update (add_flags f d) = se_last_update d"
  "se_net_id (add_flags f d) = se_net_id d" "se_flags (add_flags f d) = se_flags d OR f"
  "se_handle (remove_flags f d) = se_handle d" "se_path (remove_flags f d) = se_path d"
  "se_value (remove_flags f d) = se_value d" "se_last_update (remove_flags f d) = se_last_update d"
  "se_net_id (remove_flags f d) = se_net_id d" "se_flags (remove_flags f d) = se_flags d AND NOT f"
  "se_handle (set_net_id i d) = se_handle d" "se_path (set_net_id i d) = se_path d"
  "se_value (set_net_id i d) = se_value d" "se_last_update (set_net_id i d) = se_last_update d"
  "se_net_id (set_net_id i d) = i" "se_flags (set_net_id i d) = se_flags d"
  "se_handle (clear_net_id d) = se_handle d" "se_path (clear_net_id d) = se_path d"
  "se_value (clear_net_id d) = se_value d" "se_last_update (clear_net_id d) = se_last_update d"
  "se_flags (clear_net_id d) = se_flags d"
  "se_handle (set_last_update t d) = se_handle d" "se_path (set_last_update t d) = se_path d"
  "se_value (set_last_update t d) = se_value d" "se_last_update (set_last_update t d) = t"
  "se_net_id (set_last_update t d) = se_net_id d" "se_flags (set_last_update t d) = se_flags d"
  by (simp_all add: entry_defs)

lemma dirty_fields [simp]:
  "se_handle (mark_dirty d) = se_handle d" "se_path (mark_dirty d) = se_path d"
  "se_value (mark_dirty d) = se_value d" "se_last_update (mark_dirty d) = se_last_update d"
  "se_net_id (mark_dirty d) = se_net_id d"
  "se_flags (mark_dirty d) = se_flags d OR flag_internal_dirty"
  "se_handle (clear_dirty d) = se_handle d" "se_path (clear_dirty d) = se_path d"
  "se_value (clear_dirty d) = se_value d" "se_last_update (clear_dirty d) = se_last_update d"
  "se_net_id (clear_dirty d) = se_net_id d"
  "se_flags (clear_dirty d) = se_flags d AND NOT flag_internal_dirty"
  by (simp_all add: mark_dirty_def clear_dirty_def)

lemma has_value_bits [store_simps]:
  "does_entry_have_value d \<longleftrightarrow> \<not> bit (se_flags d) 10 \<and> \<not> bit (se_flags d) 9"
  by (simp add: does_entry_have_value_def has_one_flag)

section \<open>Writing to one entry\<close>

lemma ht_update_twice [simp]:
  "ht_update h f (ht_update h g t) = ht_update h (\<lambda>x. f (g x)) t"
  by (cases "unat h < length (ht_data t)")
     (simp_all add: ht_update_def option.map_comp comp_def list_update_beyond)

lemma put_entry_twice [simp]: "put_entry h d (put_entry h d' s) = put_entry h d s"
  by (simp add: put_entry_def)

lemma put_entry_lookup [simp]:
  "ht_lookup (st_entries (put_entry h d s)) =
     (ht_lookup (st_entries s))(h := map_option (\<lambda>_. d) (ht_lookup (st_entries s) h))"
  by (simp add: put_entry_def ht_update_lookup)

text \<open>Appending events to the pending ones.\<close>

definition add_events :: "event list \<Rightarrow> 'c storage \<Rightarrow> 'c storage" where
  "add_events es s =
     s\<lparr>st_listeners := (st_listeners s)\<lparr>ls_pending := ls_pending (st_listeners s) @ es\<rparr>\<rparr>"

lemma notify_add_events:
  "notify_entry r t path h s = add_events [new_event (clock_now (st_clock s) r) t path h] s"
  "notify_value r path h old new s =
     add_events [new_change_event (clock_now (st_clock s) r) ev_value_changed path h old new] s"
  by (simp_all add: notify_entry_def notify_value_def notify_def notify_change_def notify_event_def
      add_events_def)

lemma add_events_simps [simp]:
  "st_entries (add_events es s) = st_entries s"
  "st_paths (add_events es s) = st_paths s"
  "st_ids (add_events es s) = st_ids s"
  "st_clock (add_events es s) = st_clock s"
  "ls_pending (st_listeners (add_events es s)) = ls_pending (st_listeners s) @ es"
  "ls_listeners (st_listeners (add_events es s)) = ls_listeners (st_listeners s)"
  "add_events fs (add_events es s) = add_events (es @ fs) s"
  "put_entry h d (add_events es s) = add_events es (put_entry h d s)"
  "add_events [] s = s"
  by (simp_all add: add_events_def put_entry_def)

lemma put_entry_simps [simp]:
  "st_paths (put_entry h d s) = st_paths s"
  "st_ids (put_entry h d s) = st_ids s"
  "st_clock (put_entry h d s) = st_clock s"
  "st_listeners (put_entry h d s) = st_listeners s"
  by (simp_all add: put_entry_def)

section \<open>What setting an entry does\<close>

definition stale :: "milliseconds \<Rightarrow> storage_entry \<Rightarrow> bool" where
  "stale timestamp d \<longleftrightarrow> timestamp \<noteq> 0 \<and> se_last_update d > timestamp"

text \<open>The entry once it counts as created and carries the network identifier, before the value.\<close>

definition revived :: "u16 \<Rightarrow> storage_entry \<Rightarrow> storage_entry" where
  "revived i d =
     d\<lparr>se_flags := (se_flags d AND NOT flag_internal_created) AND NOT flag_internal_deleted,
       se_net_id := (if i \<noteq> id_not_assigned then i else se_net_id d)\<rparr>"

definition with_dirty :: "bool \<Rightarrow> storage_entry \<Rightarrow> storage_entry" where
  "with_dirty dirty d = (if dirty then mark_dirty d else clear_dirty d)"

definition written :: "obsr_value \<Rightarrow> u16 \<Rightarrow> bool \<Rightarrow> milliseconds \<Rightarrow> storage_entry \<Rightarrow> storage_entry" where
  "written v i dirty t d =
     set_last_update t (with_dirty dirty ((revived i d)\<lparr>se_value := v\<rparr>))"

definition stamp :: "clock \<Rightarrow> milliseconds \<Rightarrow> milliseconds \<Rightarrow> milliseconds" where
  "stamp c r timestamp = (if timestamp = 0 then clock_now c r else timestamp)"

definition type_fits :: "obsr_value \<Rightarrow> storage_entry \<Rightarrow> bool" where
  "type_fits v d \<longleftrightarrow> v_type (se_value d) = vt_empty \<or> v_type (se_value d) = v_type v"

definition created_events :: "clock \<Rightarrow> milliseconds \<Rightarrow> storage_entry \<Rightarrow> handle \<Rightarrow> event list" where
  "created_events c r d h =
     (if does_entry_have_value d then [] else [new_event (clock_now c r) ev_created (se_path d) h])"

lemma remove_absent [simp]:
  "(if has_flags flag_internal_created d then remove_flags flag_internal_created d else d) =
     remove_flags flag_internal_created d"
  "(if has_flags flag_internal_deleted d then remove_flags flag_internal_deleted d else d) =
     remove_flags flag_internal_deleted d"
proof -
  have "se_flags d AND NOT f = se_flags d" if "\<And>n. bit f n \<Longrightarrow> \<not> bit (se_flags d) n" for f
    by (rule bit_eqI) (use that in \<open>auto simp: bit_simps\<close>)
  from this [of flag_internal_created] this [of flag_internal_deleted] show
    "(if has_flags flag_internal_created d then remove_flags flag_internal_created d else d) =
       remove_flags flag_internal_created d"
    "(if has_flags flag_internal_deleted d then remove_flags flag_internal_deleted d else d) =
       remove_flags flag_internal_deleted d"
    by (auto simp: has_one_flag flag_bits remove_flags_def)
qed

lemma revived_steps:
  "(if i \<noteq> id_not_assigned
    then set_net_id i (remove_flags flag_internal_deleted (remove_flags flag_internal_created d))
    else remove_flags flag_internal_deleted (remove_flags flag_internal_created d)) = revived i d"
  by (simp add: revived_def remove_flags_def set_net_id_def)

lemma created_flag_after [simp]:
  "has_flags flag_internal_deleted (remove_flags flag_internal_created d) \<longleftrightarrow>
   has_flags flag_internal_deleted d"
  by (simp add: has_one_flag bit_change_flags flag_bits)

lemma revived_fields [simp]:
  "se_handle (revived i d) = se_handle d" "se_path (revived i d) = se_path d"
  "se_value (revived i d) = se_value d" "se_last_update (revived i d) = se_last_update d"
  by (simp_all add: revived_def)

text \<open>Up to the value, a set that is not stale always does the same.\<close>

lemma set_entry_revives:
  assumes "ht_lookup (st_entries s) h = Some d" and "\<not> stale t d"
  shows "set_entry_internal tm h v clear i dirty t s =
     (let s = add_events (created_events (st_clock s) (tm 0) d h) (put_entry h (revived i d) s) in
      case (if clear then (case entry_clear (revived i d) of (old, data) \<Rightarrow> (Inr old, data))
            else entry_set_value v (revived i d)) of
        (Inl e, data) \<Rightarrow> (Inl e, put_entry h data s)
      | (Inr old, data) \<Rightarrow>
          (Inr (), notify_value (tm 2) (se_path data) h old v
             (put_entry h (set_last_update (stamp (st_clock s) (tm 1) t) (with_dirty dirty data)) s)))"
proof -
  have nst: "\<not> (t \<noteq> 0 \<and> se_last_update d > t)" using assms(2) by (simp add: stale_def)
  show ?thesis
    unfolding set_entry_internal_def ht_get_lookup assms(1) option.case sum.case if_not_P [OF nst]
      Let_def remove_absent created_flag_after revived_steps
    by (cases "has_flags flag_internal_created d"; cases "has_flags flag_internal_deleted d")
       (simp_all add: created_events_def does_entry_have_value_def notify_add_events with_dirty_def stamp_def
         split: prod.split sum.split)
qed

lemma set_entry_missing:
  "ht_lookup (st_entries s) h = None \<Longrightarrow>
   set_entry_internal tm h v clear i dirty t s = (Inl (No_such_handle h), s)"
  by (simp add: set_entry_internal_def ht_get_lookup)

lemma set_entry_stale:
  "ht_lookup (st_entries s) h = Some d \<Longrightarrow> stale t d \<Longrightarrow>
   set_entry_internal tm h v clear i dirty t s = (Inr (), s)"
  by (simp add: set_entry_internal_def ht_get_lookup stale_def)

lemma set_entry_written:
  assumes "ht_lookup (st_entries s) h = Some d" and "\<not> stale t d" and "clear \<or> type_fits v d"
  shows "set_entry_internal tm h v clear i dirty t s =
     (Inr (), add_events (created_events (st_clock s) (tm 0) d h @
         [new_change_event (clock_now (st_clock s) (tm 2)) ev_value_changed (se_path d) h (se_value d) v])
       (put_entry h (written (if clear then value_make else v) i dirty (stamp (st_clock s) (tm 1) t) d) s))"
proof (cases clear)
  case True
  then show ?thesis
    unfolding set_entry_revives [OF assms(1,2)]
    by (simp add: entry_clear_def written_def with_dirty_def Let_def notify_add_events)
next
  case False
  with assms(3) have "\<not> (v_type (se_value d) \<noteq> vt_empty \<and> v_type (se_value d) \<noteq> v_type v)"
    by (auto simp: type_fits_def)
  with False show ?thesis
    unfolding set_entry_revives [OF assms(1,2)]
    by (simp add: entry_set_value_def value_get_type_def written_def with_dirty_def Let_def
        notify_add_events)
qed

lemma set_entry_mismatch:
  assumes "ht_lookup (st_entries s) h = Some d" and "\<not> stale t d" and "\<not> type_fits v d"
  shows "set_entry_internal tm h v False i dirty t s =
     (Inl (Entry_type_mismatch (se_handle d) (v_type (se_value d)) (v_type v)),
      add_events (created_events (st_clock s) (tm 0) d h) (put_entry h (revived i d) s))"
  using assms(3) unfolding set_entry_revives [OF assms(1,2)]
  by (simp add: entry_set_value_def value_get_type_def type_fits_def Let_def)

section \<open>What deleting an entry does\<close>

definition removed :: "bool \<Rightarrow> milliseconds \<Rightarrow> storage_entry \<Rightarrow> storage_entry" where
  "removed dirty t d =
     set_last_update t (with_dirty dirty (add_flags flag_internal_deleted (d\<lparr>se_value := value_make\<rparr>)))"

lemma delete_entry_missing:
  "ht_lookup (st_entries s) h = None \<Longrightarrow>
   delete_entry_internal tm h dirty t s = (Inl (No_such_handle h), s)"
  by (simp add: delete_entry_internal_def ht_get_lookup)

lemma delete_entry_skipped:
  "ht_lookup (st_entries s) h = Some d \<Longrightarrow> stale t d \<or> \<not> does_entry_have_value d \<Longrightarrow>
   delete_entry_internal tm h dirty t s = (Inr (), s)"
  by (auto simp: delete_entry_internal_def ht_get_lookup stale_def does_entry_have_value_def)

lemma delete_entry_removed:
  "ht_lookup (st_entries s) h = Some d \<Longrightarrow> \<not> stale t d \<Longrightarrow> does_entry_have_value d \<Longrightarrow>
   delete_entry_internal tm h dirty t s =
     (Inr (), add_events [new_event (clock_now (st_clock s) (tm 1)) ev_deleted (se_path d) h]
       (put_entry h (removed dirty (stamp (st_clock s) (tm 0) t) d) s))"
  by (auto simp: delete_entry_internal_def ht_get_lookup stale_def does_entry_have_value_def
      removed_def with_dirty_def entry_clear_def stamp_def Let_def notify_add_events)

section \<open>The invariant\<close>

text \<open>
  An entry knows its handle, is not both new and deleted, and holds no value while it is either;
  no flags are set but the three internal ones.
\<close>

definition known_flags :: "u16 \<Rightarrow> bool" where
  "known_flags x \<longleftrightarrow>
     x AND NOT (flag_internal_dirty OR flag_internal_deleted OR flag_internal_created) = 0"

definition entry_ok :: "handle \<Rightarrow> storage_entry \<Rightarrow> bool" where
  "entry_ok h d \<longleftrightarrow>
     se_handle d = h \<and>
     \<not> (has_flags flag_internal_created d \<and> has_flags flag_internal_deleted d) \<and>
     (\<not> does_entry_have_value d \<longrightarrow> se_value d = value_make) \<and>
     (has_flags flag_internal_created d \<longrightarrow> se_last_update d = 0) \<and>
     known_flags (se_flags d)"

definition storage_ok :: "'c storage \<Rightarrow> bool" where
  "storage_ok s \<longleftrightarrow>
     ht_ok (st_entries s) \<and> ht_capacity (st_entries s) = entry_capacity \<and> ls_ok (st_listeners s) \<and>
     (\<forall>h d. ht_lookup (st_entries s) h = Some d \<longrightarrow> entry_ok h d \<and> st_paths s (se_path d) = Some h) \<and>
     (\<forall>p h. st_paths s p = Some h \<longrightarrow> (\<exists>d. ht_lookup (st_entries s) h = Some d \<and> se_path d = p)) \<and>
     (\<forall>i h. st_ids s i = Some h \<longrightarrow> ht_lookup (st_entries s) h \<noteq> None)"

lemma storage_okD:
  assumes "storage_ok s"
  shows "ht_ok (st_entries s)" and "ls_ok (st_listeners s)"
    and "ht_lookup (st_entries s) h = Some d \<Longrightarrow> entry_ok h d"
    and "ht_lookup (st_entries s) h = Some d \<Longrightarrow> st_paths s (se_path d) = Some h"
    and "st_paths s p = Some h \<Longrightarrow> \<exists>d. ht_lookup (st_entries s) h = Some d \<and> se_path d = p"
    and "st_ids s i = Some h \<Longrightarrow> \<exists>d. ht_lookup (st_entries s) h = Some d"
  using assms unfolding storage_ok_def by blast+

lemma storage_new_ok [simp]: "storage_ok (storage_new c)"
  by (simp add: storage_ok_def storage_new_def entry_capacity_def)
     (simp add: ht_capacity_def ht_new_def)

lemma put_entry_ok:
  assumes "storage_ok s" and "ht_lookup (st_entries s) h = Some d"
    and "entry_ok h d'" and "se_path d' = se_path d"
  shows "storage_ok (put_entry h d' s)"
proof -
  have "ht_ok (st_entries (put_entry h d' s)) \<and> ht_capacity (st_entries (put_entry h d' s)) = entry_capacity"
    using assms(1) by (simp add: storage_ok_def put_entry_def)
  moreover have "\<exists>e. ht_lookup (st_entries (put_entry h d' s)) k = Some e \<and> se_path e = p"
    if "st_paths s p = Some k" for p k
    using storage_okD(5) [OF assms(1) that] assms(2,4) by auto
  ultimately show ?thesis
    using assms unfolding storage_ok_def by (auto split: if_splits)
qed

lemma add_events_ok: "storage_ok s \<Longrightarrow> storage_ok (add_events es s)"
  unfolding storage_ok_def by (simp add: ls_ok_def)

lemma ids_ok:
  "storage_ok s \<Longrightarrow> ht_lookup (st_entries s) h \<noteq> None \<Longrightarrow>
   storage_ok (s\<lparr>st_ids := map_emplace i h (st_ids s)\<rparr>)"
  by (auto simp: storage_ok_def dest!: map_emplace_SomeD)

lemma listeners_ok: "storage_ok s \<Longrightarrow> ls_ok ls \<Longrightarrow> storage_ok (s\<lparr>st_listeners := ls\<rparr>)"
  by (simp add: storage_ok_def)

lemma known_flags_iff:
  "known_flags x \<longleftrightarrow> (\<forall>n. bit x n \<longrightarrow> n = 8 \<or> n = 9 \<or> n = 10)"
proof -
  have "n < 16" if "bit x n" for n using bit_imp_le_length [OF that] by simp
  then show ?thesis by (auto simp: known_flags_def bit_eq_iff bit_simps flag_bits)
qed

lemmas entry_ok_bits = entry_ok_def has_one_flag has_value_bits known_flags_iff

lemma revived_flags [simp]:
  "se_flags (revived i d) = (se_flags d AND NOT flag_internal_created) AND NOT flag_internal_deleted"
  "se_flags (written v i dirty t d) =
     (if dirty then se_flags (revived i d) OR flag_internal_dirty
      else se_flags (revived i d) AND NOT flag_internal_dirty)"
  "se_flags (removed dirty t d) =
     (if dirty then (se_flags d OR flag_internal_deleted) OR flag_internal_dirty
      else (se_flags d OR flag_internal_deleted) AND NOT flag_internal_dirty)"
  by (simp_all add: revived_def written_def removed_def with_dirty_def)

lemma written_fields [simp]:
  "se_handle (written v i dirty t d) = se_handle d" "se_path (written v i dirty t d) = se_path d"
  "se_value (written v i dirty t d) = v" "se_last_update (written v i dirty t d) = t"
  "se_handle (removed dirty t d) = se_handle d" "se_path (removed dirty t d) = se_path d"
  "se_value (removed dirty t d) = value_make" "se_last_update (removed dirty t d) = t"
  "se_net_id (removed dirty t d) = se_net_id d"
  "se_net_id (written v i dirty t d) = (if i \<noteq> id_not_assigned then i else se_net_id d)"
  by (simp_all add: written_def removed_def with_dirty_def revived_def)

lemma written_has_value [simp]:
  "does_entry_have_value (written v i dirty t d)" "does_entry_have_value (revived i d)"
  "\<not> does_entry_have_value (removed dirty t d)"
  by (simp_all add: has_value_bits bit_change_flags flag_bits)

lemma entry_ok_changes:
  assumes "entry_ok h d"
  shows "entry_ok h (revived i d)" and "entry_ok h (written v i dirty t d)"
    and "does_entry_have_value d \<Longrightarrow> entry_ok h (removed dirty t d)"
    and "entry_ok h (set_net_id i d)" and "entry_ok h (clear_net_id d)"
    and "entry_ok h (clear_dirty d)" and "entry_ok h (adjust_entry c d)"
  using assms
  by (auto simp: entry_ok_bits bit_change_flags flag_bits adjust_entry_def)

lemma set_entry_internal_ok:
  assumes "storage_ok s"
  shows "storage_ok (snd (set_entry_internal tm h v clear i dirty t s))"
proof (cases "ht_lookup (st_entries s) h")
  case None
  with assms show ?thesis by (simp add: set_entry_missing)
next
  case (Some d)
  note ok = entry_ok_changes [OF storage_okD(3) [OF assms Some]]
  show ?thesis
  proof (cases "stale t d")
    case True
    with Some assms show ?thesis by (simp add: set_entry_stale)
  next
    case False
    show ?thesis
    proof (cases "clear \<or> type_fits v d")
      case True
      then show ?thesis
        by (simp add: set_entry_written [OF Some False True] add_events_ok put_entry_ok [OF assms Some] ok)
    next
      case F: False
      then have "\<not> clear" "\<not> type_fits v d" by auto
      then show ?thesis
        using set_entry_mismatch [OF Some False, of v tm i dirty]
        by (simp add: add_events_ok put_entry_ok [OF assms Some] ok)
    qed
  qed
qed

lemma delete_entry_internal_ok:
  assumes "storage_ok s"
  shows "storage_ok (snd (delete_entry_internal tm h dirty t s))"
proof (cases "ht_lookup (st_entries s) h")
  case None
  with assms show ?thesis by (simp add: delete_entry_missing)
next
  case (Some d)
  note ok = entry_ok_changes(3) [OF storage_okD(3) [OF assms Some]]
  show ?thesis
    using assms Some delete_entry_skipped [OF Some] delete_entry_removed [OF Some]
    by (cases "stale t d \<or> \<not> does_entry_have_value d")
       (auto simp: add_events_ok put_entry_ok [OF assms Some] ok)
qed

text \<open>A new entry: fresh handle, marked as created, without a value.\<close>

definition created_entry :: "handle \<Rightarrow> string \<Rightarrow> storage_entry" where
  "created_entry h path = set_last_update 0 (add_flags flag_internal_created (storage_entry_new h path))"

lemma created_entry_simps [simp]:
  "se_handle (created_entry h path) = h" "se_path (created_entry h path) = path"
  "se_value (created_entry h path) = value_make" "se_last_update (created_entry h path) = 0"
  "se_net_id (created_entry h path) = id_not_assigned"
  "se_flags (created_entry h path) = flag_internal_created" "entry_ok h (created_entry h path)"
  "\<not> does_entry_have_value (created_entry h path)"
  by (auto simp: created_entry_def storage_entry_new_def entry_ok_bits bit_change_flags flag_bits)

lemma create_new_entry_cases:
  assumes "ht_ok (st_entries s)" and "create_new_entry path s = (r, s')"
  shows "(r = Inl No_space \<and> s' = s) \<or>
     (\<exists>h t. r = Inr h \<and> ht_lookup (st_entries s) h = None \<and>
        s' = s\<lparr>st_paths := map_emplace path h (st_paths s), st_entries := t\<rparr> \<and>
        ht_lookup t = (ht_lookup (st_entries s))(h \<mapsto> created_entry h path) \<and> ht_ok t \<and>
        ht_capacity t = ht_capacity (st_entries s))"
proof (cases "allocate_new_with_handle (\<lambda>h. storage_entry_new h path) (st_entries s)")
  case (Pair res t)
  show ?thesis
  proof (cases res)
    case (Inl e)
    with Pair tab.alloc_Inl [OF assms(1)] assms(2) show ?thesis by (auto simp: create_new_entry_def)
  next
    case (Inr h)
    let ?t = "ht_update h (\<lambda>d. set_last_update 0 (add_flags flag_internal_created d)) t"
    have t: "ht_lookup (st_entries s) h = None" "ht_ok t"
      "ht_lookup t = (ht_lookup (st_entries s))(h \<mapsto> storage_entry_new h path)"
      "ht_capacity t = ht_capacity (st_entries s)"
      using tab.alloc_Inr [OF assms(1), of "\<lambda>h. storage_entry_new h path" h t] Pair Inr
        ht_capacity_allocate [of "\<lambda>h. storage_entry_new h path" "st_entries s"] by auto
    have "ht_lookup ?t = (ht_lookup (st_entries s))(h \<mapsto> created_entry h path)"
      by (simp add: ht_update_lookup t created_entry_def)
    moreover have "r = Inr h" "s' = s\<lparr>st_paths := map_emplace path h (st_paths s), st_entries := ?t\<rparr>"
      using Pair Inr assms(2) by (simp_all add: create_new_entry_def Let_def)
    ultimately show ?thesis using t by (intro disjI2 exI [of _ h] exI [of _ ?t]) simp
  qed
qed

lemma create_new_entry_ok:
  assumes ok: "storage_ok s" and fresh: "st_paths s path = None"
    and r: "create_new_entry path s = (r, s')"
  shows "storage_ok s'"
  using create_new_entry_cases [OF storage_okD(1) [OF ok] r]
proof (elim disjE exE conjE)
  assume "s' = s"
  with ok show ?thesis by simp
next
  fix h t
  assume h: "ht_lookup (st_entries s) h = None"
    and s': "s' = s\<lparr>st_paths := map_emplace path h (st_paths s), st_entries := t\<rparr>"
    and t: "ht_lookup t = (ht_lookup (st_entries s))(h \<mapsto> created_entry h path)" "ht_ok t"
      "ht_capacity t = ht_capacity (st_entries s)"
  have paths: "map_emplace path h (st_paths s) = (st_paths s)(path \<mapsto> h)"
    using fresh by (simp add: map_emplace_def)
  have other: "k \<noteq> h \<and> p \<noteq> path" if "st_paths s p = Some k" for p k
    using storage_okD(5) [OF ok that] h fresh that by auto
  have "st_paths s (se_path d) = Some k" if "ht_lookup (st_entries s) k = Some d" for k d
    using storage_okD(4) [OF ok that] .
  then show ?thesis
    using ok t(2,3) h fresh other unfolding storage_ok_def s' paths
    by (auto simp: t(1) split: if_splits)
qed

lemma find_or_create_ok:
  assumes "storage_ok s" and "find_or_create path s = (r, s')"
  shows "storage_ok s'" and "r = Inr h \<Longrightarrow> \<exists>d. ht_lookup (st_entries s') h = Some d \<and> se_path d = path"
proof -
  show "storage_ok s'"
    using assms create_new_entry_ok by (auto simp: find_or_create_def split: option.splits)
  show "\<exists>d. ht_lookup (st_entries s') h = Some d \<and> se_path d = path" if "r = Inr h"
  proof (cases "st_paths s path")
    case None
    with assms(2) that have "create_new_entry path s = (Inr h, s')" by (simp add: find_or_create_def)
    from create_new_entry_cases [OF storage_okD(1) [OF assms(1)] this] show ?thesis by auto
  next
    case (Some k)
    with assms that storage_okD(5) [OF assms(1) Some] show ?thesis by (auto simp: find_or_create_def)
  qed
qed

lemma update_all_ok:
  assumes "storage_ok s" and "\<And>h d. entry_ok h d \<Longrightarrow> entry_ok h (f d)" and "\<And>d. se_path (f d) = se_path d"
  shows "storage_ok (s\<lparr>st_entries := fold (\<lambda>h t. ht_update h f t) (ht_handles (st_entries s)) (st_entries s)\<rparr>)"
proof -
  have lk: "ht_lookup (fold (\<lambda>h t. ht_update h f t) (ht_handles (st_entries s)) (st_entries s)) k =
      map_option f (ht_lookup (st_entries s) k)" for k
    using update_all_lookup [OF storage_okD(1) [OF assms(1)]] .
  let ?s = "s\<lparr>st_entries := fold (\<lambda>h t. ht_update h f t) (ht_handles (st_entries s)) (st_entries s)\<rparr>"
  have "\<exists>d. ht_lookup (st_entries ?s) h = Some d \<and> se_path d = p" if "st_paths s p = Some h" for p h
    using storage_okD(5) [OF assms(1) that] assms(3) by (auto simp: lk)
  moreover have "entry_ok h d \<and> st_paths s (se_path d) = Some h"
    if "ht_lookup (st_entries ?s) h = Some d" for h d
    using that storage_okD(3,4) [OF assms(1)] assms(2,3) by (auto simp: lk)
  moreover have "ht_lookup (st_entries ?s) h \<noteq> None" if "st_ids s i = Some h" for i h
    using storage_okD(6) [OF assms(1) that] by (auto simp: lk)
  ultimately show ?thesis
    using assms(1) unfolding storage_ok_def by simp
qed

end
