(* ===== verification/Obsr_Storage_Props.thy ===== *)
theory Obsr_Storage_Props
  imports Obsr_Storage_Lemmas "HOL-Library.Multiset"
begin

text \<open>
  The properties of the storage: its invariant, what each operation does on every branch, the
  last-writer-wins register that the time-stamped updates of the network implement, and where the
  implementation departs from it.
\<close>

section \<open>The invariant is kept\<close>

lemma delete_in_ok: "storage_ok s \<Longrightarrow> storage_ok (snd (delete_in tm path hs s))"
proof (induction tm path hs s rule: delete_in.induct)
  case (2 tm path h hs s)
  note step = delete_entry_internal_ok [OF 2(3), of "\<lambda>j. tm (2 * unat h + j)" h True 0]
  show ?case
  proof (cases "ht_get (st_entries s) h")
    case (Inl e)
    with 2 show ?thesis by simp
  next
    case (Inr d)
    with 2 step show ?thesis
      by (cases "delete_entry_internal (\<lambda>j. tm (2 * unat h + j)) h True 0 s")
         (auto split: sum.split)
  qed
qed simp

lemma clear_dirty_ok:
  assumes s: "storage_ok s"
  shows "storage_ok (s\<lparr>st_entries := ht_update h clear_dirty (st_entries s)\<rparr>)"
proof (cases "ht_lookup (st_entries s) h")
  case None
  then have "ht_lookup (ht_update h clear_dirty (st_entries s)) = ht_lookup (st_entries s)"
    by (auto simp: ht_update_lookup fun_eq_iff)
  with s show ?thesis by (simp add: storage_ok_def)
next
  case (Some e)
  then have eq: "ht_update h clear_dirty (st_entries s) = ht_update h (\<lambda>_. clear_dirty e) (st_entries s)"
    by (auto simp: ht_update_def ht_lookup_eq split: if_splits)
  show ?thesis
    using put_entry_ok [OF s Some, of "clear_dirty e"] entry_ok_changes(6) [OF storage_okD(3) [OF s Some]]
    by (simp add: put_entry_def eq)
qed

text \<open>What the action and the clearing of a flag keep, the loop over the dirty entries keeps.\<close>

lemma act_on_keeps:
  assumes "\<And>d sw. J sw \<Longrightarrow> J (snd (action d sw))"
    and "\<And>h s w. J (s, w) \<Longrightarrow> J (s\<lparr>st_entries := ht_update h clear_dirty (st_entries s)\<rparr>, w)"
  shows "J sw \<Longrightarrow> J (snd (act_on action hs sw))"
proof (induction hs arbitrary: sw)
  case (Cons h hs)
  obtain s w where sw: "sw = (s, w)" by (cases sw)
  show ?case
  proof (cases "ht_get (st_entries s) h")
    case (Inr d)
    obtain r s' w' where a: "action d (s, w) = (r, s', w')" by (metis prod_cases3)
    have "J (s', w')" using assms(1) [of "(s, w)" d] Cons.prems sw a by simp
    from this assms(2) [OF this] show ?thesis
      using Cons sw Inr a by (cases r) (auto split: bool.split)
  qed (use Cons sw in simp)
qed simp

lemma act_on_ok:
  assumes "\<And>d s w. storage_ok s \<Longrightarrow> storage_ok (fst (snd (action d (s, w))))" and "storage_ok (fst sw)"
  shows "storage_ok (fst (snd (act_on action hs sw)))"
  by (rule act_on_keeps [where J = "\<lambda>sw. storage_ok (fst sw)"]) (use assms clear_dirty_ok in auto)

lemma on_entry_created_ok:
  assumes "storage_ok s"
  shows "storage_ok (snd (on_entry_created tm i path v t s))"
proof -
  obtain r s1 where f: "find_or_create path s = (r, s1)" by fastforce
  note ok = find_or_create_ok [OF assms f]
  show ?thesis
  proof (cases r)
    case (Inl e)
    with f ok show ?thesis by (simp add: on_entry_created_def)
  next
    case (Inr h)
    then have "ht_lookup (st_entries s1) h \<noteq> None" using ok(2) by blast
    from set_entry_internal_ok [OF ids_ok [OF ok(1) this]] f Inr show ?thesis
      by (simp add: on_entry_created_def)
  qed
qed

lemma on_entry_id_assigned_ok:
  assumes "storage_ok s"
  shows "storage_ok (snd (on_entry_id_assigned i path s))"
proof -
  obtain r s1 where f: "find_or_create path s = (r, s1)" by fastforce
  note ok = find_or_create_ok [OF assms f]
  show ?thesis
  proof (cases r)
    case (Inl e)
    with f ok show ?thesis by (simp add: on_entry_id_assigned_def)
  next
    case (Inr h)
    then obtain d where d: "ht_lookup (st_entries s1) h = Some d" using ok(2) by blast
    have "storage_ok (put_entry h (set_net_id i d) s1)"
      using put_entry_ok [OF ok(1) d] entry_ok_changes(4) [OF storage_okD(3) [OF ok(1) d]] by simp
    from ids_ok [OF this, of h i] d f Inr show ?thesis
      by (simp add: on_entry_id_assigned_def ht_get_lookup put_entry_def ht_update_lookup)
  qed
qed

text \<open>Each operation keeps the invariant, whatever its result.\<close>

lemma storage_op_ok:
  assumes "storage_ok s"
  shows "storage_ok (snd (get_or_create_entry path s))"
    and "storage_ok (snd (delete_entry tm h s))"
    and "storage_ok (snd (delete_entries tm path s))"
    and "storage_ok (snd (set_entry_value tm h v s))"
    and "storage_ok (snd (clear_entry tm h s))"
    and "storage_ok (snd (listen_entry r h cb s))"
    and "storage_ok (snd (listen_prefix r path cb s))"
    and "storage_ok (snd (remove_listener l s))"
    and "storage_ok (clear_net_ids s)"
    and "storage_ok (on_clock_resync s)"
    and "storage_ok (snd (on_entry_created tm i path v t s))"
    and "storage_ok (snd (on_entry_updated tm i v t s))"
    and "storage_ok (snd (on_entry_deleted tm i t s))"
    and "storage_ok (snd (on_entry_id_assigned i path s))"
proof -
  show "storage_ok (snd (get_or_create_entry path s))"
    using assms create_new_entry_ok [OF assms, of path]
    by (cases "create_new_entry path s") (auto simp: get_or_create_entry_def split: option.split)
  show "storage_ok (snd (delete_entry tm h s))"
    using delete_entry_internal_ok [OF assms] by (simp add: delete_entry_def)
  show "storage_ok (snd (delete_entries tm path s))"
    using delete_in_ok [OF assms] by (simp add: delete_entries_def)
  show "storage_ok (snd (set_entry_value tm h v s))" "storage_ok (snd (clear_entry tm h s))"
    using set_entry_internal_ok [OF assms] by (simp_all add: set_entry_value_def clear_entry_def)
  show "storage_ok (snd (listen_entry r h cb s))" "storage_ok (snd (listen_prefix r path cb s))"
    "storage_ok (snd (remove_listener l s))"
    using assms listeners_ok [OF assms ls_ok_ops(3) [OF storage_okD(2) [OF assms]]]
      listeners_ok [OF assms ls_ok_ops(4) [OF storage_okD(2) [OF assms]]]
    by (auto simp: listen_entry_def listen_prefix_def remove_listener_def case_prod_beta split: sum.split)
  show "storage_ok (clear_net_ids s)"
    using update_all_ok [OF assms, of clear_net_id] entry_ok_changes(5)
    by (auto simp: clear_net_ids_def storage_ok_def)
  show "storage_ok (on_clock_resync s)"
    using update_all_ok [OF assms, of "adjust_entry (st_clock s)"] entry_ok_changes(7)
      ls_ok_ops(2) [OF storage_okD(2) [OF assms]]
    by (auto simp: on_clock_resync_def Let_def adjust_entry_def intro!: listeners_ok)
  show "storage_ok (snd (on_entry_created tm i path v t s))" using on_entry_created_ok [OF assms] .
  show "storage_ok (snd (on_entry_updated tm i v t s))" "storage_ok (snd (on_entry_deleted tm i t s))"
    using assms set_entry_internal_ok [OF assms] delete_entry_internal_ok [OF assms]
    by (auto simp: on_entry_updated_def on_entry_deleted_def split: option.split)
  show "storage_ok (snd (on_entry_id_assigned i path s))" using on_entry_id_assigned_ok [OF assms] .
qed

text \<open>
  C8 The storage stays well formed: paths and handles index each other, every network identifier
  names an existing entry, an entry is never both new and deleted and has no value while it is
  either. Every operation, of clients and of the network, whether it succeeds or throws, keeps this;
  a new storage has it.
\<close>

theorem storage_operations_keep_invariant:
  fixes s :: "'c storage"
  assumes "storage_ok s"
  shows "storage_ok (storage_new c :: 'c storage) \<and>
     storage_ok (snd (get_or_create_entry path s)) \<and>
     storage_ok (snd (delete_entry tm h s)) \<and>
     storage_ok (snd (delete_entries tm path s)) \<and>
     storage_ok (snd (set_entry_value tm h v s)) \<and>
     storage_ok (snd (clear_entry tm h s)) \<and>
     storage_ok (snd (listen_entry r h cb s)) \<and>
     storage_ok (snd (listen_prefix r path cb s)) \<and>
     storage_ok (snd (remove_listener l s)) \<and>
     storage_ok (clear_net_ids s) \<and>
     storage_ok (on_clock_resync s) \<and>
     storage_ok (snd (on_entry_created tm i path v t s)) \<and>
     storage_ok (snd (on_entry_updated tm i v t s)) \<and>
     storage_ok (snd (on_entry_deleted tm i t s)) \<and>
     storage_ok (snd (on_entry_id_assigned i path s)) \<and>
     storage_ok (fst (snd (act_on_dirty_entries (\<lambda>d (s, w). case f d w of (b, w) \<Rightarrow> (b, s, w)) (s, w))))"
proof (intro conjI)
  show "storage_ok (fst (snd (act_on_dirty_entries (\<lambda>d (s, w). case f d w of (b, w) \<Rightarrow> (b, s, w)) (s, w))))"
    unfolding act_on_dirty_entries_def
    by (rule act_on_ok) (use assms in \<open>auto split: prod.split\<close>)
qed (simp_all add: storage_op_ok [OF assms])

lemma get_or_create_new:
  assumes "storage_ok s" and "get_or_create_entry path s = (Inr h, s')"
  shows "\<exists>d. ht_lookup (st_entries s') h = Some d \<and> se_path d = path"
proof -
  have "find_or_create path s = (Inr h, s')"
    using assms(2) by (auto simp: get_or_create_entry_def find_or_create_def split: option.splits if_splits)
  from find_or_create_ok(2) [OF assms(1) this refl] show ?thesis .
qed

text \<open>A storage with one entry, for the examples.\<close>

definition no_entries :: "string storage" where
  "no_entries = storage_new clock_new"

definition one_entry_storage :: "string storage" where
  "one_entry_storage = snd (get_or_create_entry ''/a/x'' no_entries)"

definition one_entry_table :: "storage_entry handle_table" where
  "one_entry_table = \<lparr>ht_data = Some (created_entry 0 ''/a/x'') # replicate 255 None, ht_count = 1\<rparr>"

lemma no_entries_ok [simp]: "storage_ok no_entries"
  by (simp add: no_entries_def)

lemma one_entry_created:
  "get_or_create_entry ''/a/x'' no_entries =
     (Inr 0, no_entries\<lparr>st_entries := one_entry_table, st_paths := [''/a/x'' \<mapsto> 0]\<rparr>)"
proof -
  have r: "replicate entry_capacity None = None # replicate 255 (None :: storage_entry option)"
    by (simp add: entry_capacity_def numeral_eq_Suc)
  show ?thesis
    by (simp add: get_or_create_entry_def no_entries_def storage_new_def create_new_entry_def r ht_new_def
        allocate_new_with_handle_def find_next_available_spot_def Let_def ht_update_def
        one_entry_table_def created_entry_def map_emplace_def)
qed

lemma one_entry_storage_eq:
  "get_or_create_entry ''/a/x'' no_entries = (Inr 0, one_entry_storage)"
  "st_entries one_entry_storage = one_entry_table"
  "st_paths one_entry_storage = [''/a/x'' \<mapsto> 0]"
  "st_ids one_entry_storage = Map.empty"
  "st_clock one_entry_storage = clock_new"
  by (simp_all add: one_entry_storage_def one_entry_created) (simp_all add: no_entries_def storage_new_def)

lemma one_entry_lookup [simp]:
  "ht_lookup one_entry_table 0 = Some (created_entry 0 ''/a/x'')"
  by (simp add: ht_lookup_eq one_entry_table_def ht_capacity_def empty_handle_def)

lemma one_entry_ok: "storage_ok one_entry_storage"
proof -
  have "create_new_entry ''/a/x'' no_entries = (Inr 0, one_entry_storage)"
    using one_entry_storage_eq(1)
    by (simp add: get_or_create_entry_def no_entries_def storage_new_def)
  from create_new_entry_ok [OF no_entries_ok _ this] show ?thesis
    by (simp add: no_entries_def storage_new_def)
qed

lemma storage_operations_keep_invariant_witness:
  "storage_ok one_entry_storage \<and>
   storage_ok (snd (set_entry_value (\<lambda>_. 5) 0 (make_int32 9) one_entry_storage))"
  using storage_operations_keep_invariant [OF one_entry_ok, where tm = "\<lambda>_. 5" and h = 0
      and v = "make_int32 9" and path = "[]" and r = 0 and cb = "[]" and l = 0 and i = 0 and t = 0
      and f = "\<lambda>_ _. (Inr True, ())" and w = "()" and c = clock_new]
    one_entry_ok by simp

text \<open>
  Asking for a path gives an entry with that path, and the same entry whenever it is asked again;
  the entry has no value until one is set.
\<close>

theorem get_or_create_is_stable:
  assumes "storage_ok s" and "get_or_create_entry path s = (Inr h, s')"
  shows "get_entry_path h s' = Inr path \<and> get_or_create_entry path s' = (Inr h, s') \<and>
     (st_paths s path = None \<longrightarrow> get_entry_value h s' = None \<and> get_entry_value h s = None)"
proof -
  obtain d where d: "ht_lookup (st_entries s') h = Some d" "se_path d = path"
    using get_or_create_new [OF assms] by blast
  have ok: "storage_ok s'"
    using assms create_new_entry_ok [OF assms(1), of path]
    by (auto simp: get_or_create_entry_def split: option.splits if_splits)
  have "get_entry_value h s' = None \<and> get_entry_value h s = None" if "st_paths s path = None"
  proof -
    have "create_new_entry path s = (Inr h, s')"
      using that assms(2) by (simp add: get_or_create_entry_def)
    from create_new_entry_cases [OF storage_okD(1) [OF assms(1)] this]
    show ?thesis by (auto simp: get_entry_value_def ht_get_lookup)
  qed
  with d storage_okD(4) [OF ok d(1)] show ?thesis
    by (simp add: get_entry_path_def ht_get_lookup get_or_create_entry_def ht_has_lookup)
qed

lemma get_or_create_is_stable_witness:
  "get_entry_path 0 one_entry_storage = Inr ''/a/x'' \<and> get_entry_value 0 one_entry_storage = None"
  using get_or_create_is_stable [OF no_entries_ok one_entry_storage_eq(1)]
  by (simp add: no_entries_def storage_new_def)

section \<open>Setting a value\<close>

lemma put_entry_same:
  assumes "ht_lookup (st_entries s) h = Some d"
  shows "put_entry h d s = s"
proof -
  have d: "ht_data (st_entries s) ! unat h = Some d"
    using assms by (simp add: ht_lookup_eq split: if_splits)
  then have "(ht_data (st_entries s))[unat h := Some d] = ht_data (st_entries s)"
    by (metis list_update_id)
  with d show ?thesis by (simp add: put_entry_def ht_update_def)
qed

lemma revived_same:
  assumes "does_entry_have_value d"
  shows "revived id_not_assigned d = d"
proof -
  have "se_flags (revived id_not_assigned d) = se_flags d"
    using assms by (intro bit_eqI) (auto simp: has_value_bits bit_change_flags flag_bits)
  then show ?thesis by (cases d) (simp add: revived_def)
qed

text \<open>A local write leaves exactly the dirty flag.\<close>

lemma written_local:
  assumes "entry_ok h d"
  shows "written v id_not_assigned True t d =
     d\<lparr>se_value := v, se_last_update := t, se_flags := flag_internal_dirty\<rparr>"
proof -
  have "se_flags (written v id_not_assigned True t d) = flag_internal_dirty"
  proof (rule bit_eqI)
    fix n
    have "bit (se_flags d) n \<Longrightarrow> n = 8 \<or> n = 9 \<or> n = 10"
      using assms by (simp add: entry_ok_bits)
    then show "bit (se_flags (written v id_not_assigned True t d)) n \<longleftrightarrow> bit flag_internal_dirty n"
      by (auto simp: bit_change_flags flag_bits)
  qed
  then show ?thesis
    by (cases d) (simp add: written_def revived_def with_dirty_def set_last_update_def mark_dirty_def
        add_flags_def)
qed

text \<open>
  C22 Setting a value, on every branch. A handle that names no entry is refused, and so is a value of
  another type than the present non-empty one, and then nothing at all has changed. Otherwise the
  entry holds the value, is dirty and stamped with the clock, no other entry is touched, and the
  listeners are told, first of the creation if the entry was new or deleted, then of the change.
\<close>

theorem set_entry_value_outcomes:
  assumes "storage_ok s"
  shows "set_entry_value tm h v s =
     (case ht_lookup (st_entries s) h of
        None \<Rightarrow> (Inl (No_such_handle h), s)
      | Some d \<Rightarrow>
          (if v_type (se_value d) \<noteq> vt_empty \<and> v_type (se_value d) \<noteq> v_type v
           then (Inl (Entry_type_mismatch h (v_type (se_value d)) (v_type v)), s)
           else (Inr (),
             add_events
               ((if does_entry_have_value d then []
                 else [new_event (clock_now (st_clock s) (tm 0)) ev_created (se_path d) h]) @
                [new_change_event (clock_now (st_clock s) (tm 2)) ev_value_changed (se_path d) h (se_value d) v])
               (put_entry h
                 (d\<lparr>se_value := v, se_last_update := clock_now (st_clock s) (tm 1),
                    se_flags := flag_internal_dirty\<rparr>) s))))"
proof (cases "ht_lookup (st_entries s) h")
  case None
  then show ?thesis by (simp add: set_entry_value_def set_entry_missing)
next
  case (Some d)
  have ok: "entry_ok h d" using storage_okD(3) [OF assms Some] .
  have ns: "\<not> stale 0 d" by (simp add: stale_def)
  show ?thesis
  proof (cases "v_type (se_value d) \<noteq> vt_empty \<and> v_type (se_value d) \<noteq> v_type v")
    case True
    then have "se_value d \<noteq> value_make" by auto
    then have v: "does_entry_have_value d" using ok by (auto simp: entry_ok_def)
    show ?thesis
      using set_entry_mismatch [OF Some ns, of v tm id_not_assigned True] True v ok Some
        revived_same [OF v] put_entry_same [OF Some]
      by (simp add: set_entry_value_def type_fits_def created_events_def entry_ok_def)
  next
    case False
    then have fits: "False \<or> type_fits v d" by (auto simp: type_fits_def)
    from set_entry_written [OF Some ns this, of tm id_not_assigned True] Some False written_local [OF ok]
    show ?thesis
      by (auto simp: set_entry_value_def created_events_def stamp_def)
  qed
qed

lemma set_entry_value_outcomes_witness:
  "fst (set_entry_value (\<lambda>_. 5) 0 (make_int32 9) one_entry_storage) = Inr () \<and>
   get_entry_value 0 (snd (set_entry_value (\<lambda>_. 5) 0 (make_int32 9) one_entry_storage)) =
     Some (make_int32 9) \<and>
   map ev_type (ls_pending (st_listeners (snd (set_entry_value (\<lambda>_. 5) 0 (make_int32 9) one_entry_storage)))) =
     map ev_type (ls_pending (st_listeners one_entry_storage)) @ [ev_created, ev_value_changed]"
  using set_entry_value_outcomes [OF one_entry_ok, of "\<lambda>_. 5" 0 "make_int32 9"]
  by (simp add: one_entry_storage_eq get_entry_value_def ht_get_lookup has_value_bits flag_bits
      new_event_def new_change_event_def)

section \<open>Deleting entries\<close>

lemma delete_entry_lookup:
  assumes "ht_lookup (st_entries s) h = Some d"
  shows "\<exists>s' e. delete_entry_internal tm h dirty 0 s = (Inr (), s') \<and>
     ht_lookup (st_entries s') = (ht_lookup (st_entries s))(h \<mapsto> e) \<and> se_path e = se_path d \<and>
     \<not> does_entry_have_value e \<and> ht_handles (st_entries s') = ht_handles (st_entries s)"
proof (cases "does_entry_have_value d")
  case True
  have "\<not> stale 0 d" by (simp add: stale_def)
  from delete_entry_removed [OF assms this True, of tm dirty] assms show ?thesis
    by (intro exI [of _ "snd (delete_entry_internal tm h dirty 0 s)"]
        exI [of _ "removed dirty (stamp (st_clock s) (tm 0) 0) d"])
       (auto simp: put_entry_def ht_update_lookup)
next
  case False
  with delete_entry_skipped [OF assms, of 0 tm dirty] assms show ?thesis
    by (intro exI [of _ s] exI [of _ d]) (auto simp: fun_eq_iff)
qed

lemma delete_in_lookup:
  assumes "\<forall>h\<in>set hs. ht_lookup (st_entries s) h \<noteq> None" and "distinct hs"
  shows "\<exists>s'. delete_in tm path hs s = (Inr (), s') \<and>
     (\<forall>k. get_entry_path k s' = get_entry_path k s) \<and>
     (\<forall>k. get_entry_value k s' =
        (if k \<in> set hs \<and> (\<exists>d. ht_lookup (st_entries s) k = Some d \<and> is_in d path) then None
         else get_entry_value k s))"
  using assms
proof (induction hs arbitrary: s)
  case Nil
  then show ?case by simp
next
  case (Cons h hs)
  then obtain d where d: "ht_lookup (st_entries s) h = Some d" by auto
  show ?case
  proof (cases "is_in d path")
    case False
    from Cons.IH [of s] Cons.prems obtain s' where s': "delete_in tm path hs s = (Inr (), s')"
      "\<forall>k. get_entry_path k s' = get_entry_path k s"
      "\<forall>k. get_entry_value k s' =
        (if k \<in> set hs \<and> (\<exists>d. ht_lookup (st_entries s) k = Some d \<and> is_in d path) then None
         else get_entry_value k s)" by auto
    with d False show ?thesis by (intro exI [of _ s']) (auto simp: ht_get_lookup)
  next
    case True
    obtain s1 e where s1: "delete_entry_internal (\<lambda>j. tm (2 * unat h + j)) h True 0 s = (Inr (), s1)"
      "ht_lookup (st_entries s1) = (ht_lookup (st_entries s))(h \<mapsto> e)" "se_path e = se_path d"
      "\<not> does_entry_have_value e"
      using delete_entry_lookup [OF d] by blast
    have "\<forall>h\<in>set hs. ht_lookup (st_entries s1) h \<noteq> None" using Cons.prems s1(2) by auto
    with Cons.IH [of s1] Cons.prems obtain s' where s': "delete_in tm path hs s1 = (Inr (), s')"
      "\<forall>k. get_entry_path k s' = get_entry_path k s1"
      "\<forall>k. get_entry_value k s' =
        (if k \<in> set hs \<and> (\<exists>d. ht_lookup (st_entries s1) k = Some d \<and> is_in d path) then None
         else get_entry_value k s1)" by auto
    have "get_entry_path k s1 = get_entry_path k s" for k
      using s1(2,3) d by (simp add: get_entry_path_def ht_get_lookup)
    moreover have "get_entry_value k s1 = (if k = h then None else get_entry_value k s)" for k
      using s1(2,4) d by (simp add: get_entry_value_def ht_get_lookup)
    ultimately show ?thesis
      using s' d True s1 Cons.prems(2) by (intro exI [of _ s']) (auto simp: ht_get_lookup)
  qed
qed

lemma delete_entries_succeeds:
  assumes "storage_ok s"
  shows "\<exists>s'. delete_entries tm path s = (Inr (), s')"
proof -
  have "\<forall>h\<in>set (ht_handles (st_entries s)). ht_lookup (st_entries s) h \<noteq> None"
    using set_ht_handles [OF storage_okD(1) [OF assms]] by blast
  from delete_in_lookup [OF this distinct_ht_handles [OF storage_okD(1) [OF assms]], of tm path]
  show ?thesis by (auto simp: delete_entries_def)
qed

text \<open>
  C31 Deleting the entries of a path always succeeds and removes the value of exactly those entries
  whose path has the given path anywhere in it: as the search is not anchored, deleting \<open>/a\<close> also
  deletes \<open>/b/a/x\<close> and \<open>/ab\<close>, which do not belong to it. Handles and paths stay.
\<close>

theorem delete_entries_deletes_occurrences:
  assumes "storage_ok s"
  shows "fst (delete_entries tm path s) = Inr () \<and>
     get_entry_path k (snd (delete_entries tm path s)) = get_entry_path k s \<and>
     get_entry_value k (snd (delete_entries tm path s)) =
       (case get_entry_path k s of
          Inr p \<Rightarrow> (if \<exists>a b. p = a @ path @ b then None else get_entry_value k s)
        | Inl _ \<Rightarrow> None)"
proof -
  have hs: "\<forall>h\<in>set (ht_handles (st_entries s)). ht_lookup (st_entries s) h \<noteq> None"
    "distinct (ht_handles (st_entries s))"
    using set_ht_handles [OF storage_okD(1) [OF assms]] distinct_ht_handles [OF storage_okD(1) [OF assms]]
    by blast+
  obtain s' where "delete_in tm path (ht_handles (st_entries s)) s = (Inr (), s')"
    "get_entry_path k s' = get_entry_path k s"
    "get_entry_value k s' =
      (if k \<in> set (ht_handles (st_entries s)) \<and>
          (\<exists>d. ht_lookup (st_entries s) k = Some d \<and> is_in d path) then None
       else get_entry_value k s)"
    using delete_in_lookup [OF hs, of tm path] by blast
  then show ?thesis
    using set_ht_handles [OF storage_okD(1) [OF assms], of k]
    by (cases "ht_lookup (st_entries s) k")
       (auto simp: delete_entries_def get_entry_path_def get_entry_value_def ht_get_lookup is_in_def
         contains_iff)
qed

definition valued_storage :: "string storage" where
  "valued_storage = snd (set_entry_value (\<lambda>_. 5) 0 (make_int32 9) one_entry_storage)"

lemma valued_ok: "storage_ok valued_storage"
  using set_entry_internal_ok [OF one_entry_ok] by (simp add: valued_storage_def set_entry_value_def)

lemma valued_lookup:
  "ht_lookup (st_entries valued_storage) 0 =
     Some ((created_entry 0 ''/a/x'')\<lparr>se_value := make_int32 9, se_last_update := 5,
       se_flags := flag_internal_dirty\<rparr>)"
proof -
  have ns: "\<not> stale 0 (created_entry 0 ''/a/x'')" by (simp add: stale_def)
  have fits: "False \<or> type_fits (make_int32 9) (created_entry 0 ''/a/x'')" by (simp add: type_fits_def)
  have lk: "ht_lookup (st_entries one_entry_storage) 0 = Some (created_entry 0 ''/a/x'')"
    by (simp add: one_entry_storage_eq)
  from set_entry_written [OF lk ns fits, of "\<lambda>_. 5" id_not_assigned True] show ?thesis
    using lk written_local [of 0 "created_entry 0 ''/a/x''" "make_int32 9" 5]
    by (simp add: valued_storage_def set_entry_value_def stamp_def one_entry_storage_eq clock_now_def
        clock_new_def)
qed

lemma delete_entries_deletes_occurrences_witness:
  "get_entry_value 0 valued_storage = Some (make_int32 9) \<and>
   get_entry_value 0 (snd (delete_entries (\<lambda>_. 6) ''/x'' valued_storage)) = None"
proof -
  have p: "get_entry_path 0 valued_storage = Inr ''/a/x''"
    by (simp add: get_entry_path_def ht_get_lookup valued_lookup)
  have "\<exists>a b. ''/a/x'' = a @ ''/x'' @ b" by (rule exI [of _ "''/a''"], rule exI [of _ "[]"]) simp
  with delete_entries_deletes_occurrences [OF valued_ok, of "\<lambda>_. 6" "''/x''" 0] p show ?thesis
    by (simp add: get_entry_value_def ht_get_lookup valued_lookup has_value_bits flag_bits)
qed

section \<open>The storage as a last-writer-wins register\<close>

text \<open>
  The specification: per entry a time stamp and, unless the entry is new or deleted, a value. A write
  that is older than the register is ignored.
\<close>

type_synonym register = "milliseconds \<times> obsr_value option"

definition entry_register :: "storage_entry \<Rightarrow> register" where
  "entry_register d =
     (se_last_update d, if does_entry_have_value d then Some (se_value d) else None)"

definition view :: "handle \<Rightarrow> 'c storage \<Rightarrow> register option" where
  "view h s = map_option entry_register (ht_lookup (st_entries s) h)"

definition lww_write :: "milliseconds \<times> obsr_value \<Rightarrow> register \<Rightarrow> register" where
  "lww_write u r = (if fst r > fst u then r else (fst u, Some (snd u)))"

text \<open>Whether a value has the type that the register accepts.\<close>

definition accepts_type :: "value_type \<Rightarrow> register \<Rightarrow> bool" where
  "accepts_type t r = (case snd r of None \<Rightarrow> True | Some v \<Rightarrow> v_type v = vt_empty \<or> v_type v = t)"

lemma accepts_type_fits:
  assumes "entry_ok h d" and "accepts_type (v_type v) (entry_register d)"
  shows "type_fits v d"
  using assms
  by (cases "does_entry_have_value d")
     (auto simp: accepts_type_def entry_register_def type_fits_def entry_ok_def)

lemma set_entry_view:
  assumes ok: "storage_ok s" and v: "view h s = Some r" and t: "t \<noteq> 0"
    and ty: "accepts_type (v_type v) r"
  shows "\<exists>s'. set_entry_internal tm h v False i dirty t s = (Inr (), s') \<and>
     view h s' = Some (lww_write (t, v) r) \<and> (\<forall>k. k \<noteq> h \<longrightarrow> view k s' = view k s) \<and>
     st_ids s' = st_ids s \<and> storage_ok s'"
proof -
  obtain d where d: "ht_lookup (st_entries s) h = Some d" "r = entry_register d"
    using v by (auto simp: view_def)
  have fits: "False \<or> type_fits v d"
    using accepts_type_fits [OF storage_okD(3) [OF ok d(1)]] ty d(2) by simp
  have ok': "storage_ok (snd (set_entry_internal tm h v False i dirty t s))"
    using set_entry_internal_ok [OF ok] .
  show ?thesis
  proof (cases "stale t d")
    case True
    with set_entry_stale [OF d(1) True, of tm v False i dirty] v t d ok show ?thesis
      by (auto simp: stale_def lww_write_def entry_register_def)
  next
    case False
    with set_entry_written [OF d(1) False fits, of tm i dirty] d t ok' show ?thesis
      by (auto simp: view_def stale_def lww_write_def entry_register_def stamp_def)
  qed
qed

text \<open>
  C12 The storage implements a last-writer-wins register per entry: an update that the network
  delivers with a non-zero time stamp and a fitting type acts on the entry's time stamp and visible
  value exactly as the register's write, never fails, and touches no other entry.
\<close>

theorem update_refines_register:
  assumes "storage_ok s" and "st_ids s i = Some h" and "view h s = Some r"
    and "t \<noteq> 0" and "accepts_type (v_type v) r"
    and "on_entry_updated tm i v t s = (res, s')"
  shows "res = Inr () \<and> view h s' = Some (lww_write (t, v) r) \<and>
     (\<forall>k. k \<noteq> h \<longrightarrow> view k s' = view k s)"
  using set_entry_view [OF assms(1,3,4,5), of tm i False] assms(2,6)
  by (auto simp: on_entry_updated_def)

definition networked_storage :: "string storage" where
  "networked_storage = snd (on_entry_id_assigned 3 ''/a/x'' one_entry_storage)"

lemma networked_ok: "storage_ok networked_storage"
  using on_entry_id_assigned_ok [OF one_entry_ok] by (simp add: networked_storage_def)

lemma networked_simps:
  "st_ids networked_storage 3 = Some 0"
  "ht_lookup (st_entries networked_storage) 0 = Some (set_net_id 3 (created_entry 0 ''/a/x''))"
  "view 0 networked_storage = Some (0, None)"
proof -
  have n: "networked_storage =
      (put_entry 0 (set_net_id 3 (created_entry 0 ''/a/x'')) one_entry_storage)\<lparr>st_ids := [3 \<mapsto> 0]\<rparr>"
    by (simp add: networked_storage_def on_entry_id_assigned_def find_or_create_def ht_get_lookup
        one_entry_storage_eq map_emplace_def)
  show "st_ids networked_storage 3 = Some 0"
    and lk: "ht_lookup (st_entries networked_storage) 0 = Some (set_net_id 3 (created_entry 0 ''/a/x''))"
    by (simp_all add: n put_entry_def ht_update_lookup one_entry_storage_eq)
  then show "view 0 networked_storage = Some (0, None)"
    by (simp add: view_def entry_register_def has_value_bits flag_bits)
qed

lemma update_refines_register_witness:
  "view 0 (snd (on_entry_updated (\<lambda>_. 0) 3 (make_int32 9) 50 networked_storage)) =
     Some (50, Some (make_int32 9))"
proof -
  have a: "accepts_type (v_type (make_int32 9)) (0, None)" by (simp add: accepts_type_def)
  obtain res s' where u: "on_entry_updated (\<lambda>_. 0) 3 (make_int32 9) 50 networked_storage = (res, s')"
    by fastforce
  with update_refines_register [OF networked_ok networked_simps(1,3) _ a, of 50 "\<lambda>_. 0" res s']
  show ?thesis by (simp add: lww_write_def)
qed

text \<open>A sequence of updates, each at its own readings of the clock.\<close>

fun apply_updates :: "(nat \<Rightarrow> readings) \<Rightarrow> u16 \<Rightarrow> (milliseconds \<times> obsr_value) list \<Rightarrow> 'c storage \<Rightarrow> 'c storage" where
  "apply_updates tms i [] s = s"
| "apply_updates tms i ((t, v) # us) s =
     apply_updates (\<lambda>n. tms (Suc n)) i us (snd (on_entry_updated (tms 0) i v t s))"

lemma lww_write_commute:
  "fst u \<noteq> fst w \<Longrightarrow> lww_write u \<circ> lww_write w = lww_write w \<circ> lww_write u"
  by (auto simp: lww_write_def fun_eq_iff)

lemma accepts_type_write: "accepts_type (v_type v) r \<Longrightarrow> accepts_type (v_type v) (lww_write (t, v) r)"
  by (simp add: accepts_type_def lww_write_def)

lemma apply_updates_view:
  assumes "storage_ok s" and "st_ids s i = Some h" and "view h s = Some r" and "accepts_type ty r"
    and "\<forall>(t, v)\<in>set us. t \<noteq> 0 \<and> v_type v = ty"
  shows "view h (apply_updates tms i us s) = Some (fold lww_write us r)"
  using assms
proof (induction us arbitrary: s r tms)
  case (Cons u us)
  obtain t v where u: "u = (t, v)" by fastforce
  with Cons.prems have t: "t \<noteq> 0" "v_type v = ty" by auto
  with Cons.prems(4) have ty: "accepts_type (v_type v) r" by simp
  obtain s' where s': "set_entry_internal (tms 0) h v False i False t s = (Inr (), s')"
    "view h s' = Some (lww_write (t, v) r)" "st_ids s' = st_ids s" "storage_ok s'"
    using set_entry_view [OF Cons.prems(1,3) t(1) ty, of "tms 0" i False] by blast
  have "accepts_type ty (lww_write (t, v) r)" using accepts_type_write [OF ty] t(2) by simp
  with Cons.IH [OF s'(4) _ s'(2), of "\<lambda>n. tms (Suc n)"] Cons.prems s'
  show ?case by (auto simp: u on_entry_updated_def)
qed simp

text \<open>
  Convergence: two storages that receive the same updates of an entry in any two orders show the
  same value and time stamp, provided the time stamps differ and the types fit.
\<close>

theorem updates_converge:
  assumes "storage_ok s" and "st_ids s i = Some h" and "view h s = Some r" and "accepts_type ty r"
    and "\<forall>(t, v)\<in>set us. t \<noteq> 0 \<and> v_type v = ty" and "distinct (map fst us)"
    and "mset us = mset ws"
  shows "view h (apply_updates tms i us s) = view h (apply_updates tms' i ws s)"
proof -
  have ws: "\<forall>(t, v)\<in>set ws. t \<noteq> 0 \<and> v_type v = ty"
    using assms(5) mset_eq_setD [OF assms(7)] by simp
  have comm: "lww_write u \<circ> lww_write w = lww_write w \<circ> lww_write u"
    if "u \<in> set us" "w \<in> set us" for u w
  proof (cases "fst u = fst w")
    case True
    with that assms(6) have "u = w" by (metis eq_key_imp_eq_value prod.collapse)
    then show ?thesis by simp
  qed (rule lww_write_commute)
  have "fold lww_write us = fold lww_write ws"
    by (rule fold_multiset_equiv [OF comm assms(7)])
  then show ?thesis
    using apply_updates_view [OF assms(1-5)] apply_updates_view [OF assms(1-4) ws] by simp
qed

lemma updates_converge_witness:
  "view 0 (apply_updates (\<lambda>_ _. 0) 3 [(7, make_int32 1), (4, make_int32 2)] networked_storage) =
   view 0 (apply_updates (\<lambda>_ _. 0) 3 [(4, make_int32 2), (7, make_int32 1)] networked_storage)"
proof -
  have a: "accepts_type vt_integer32 (0, None)" by (simp add: accepts_type_def)
  show ?thesis
    by (rule updates_converge [OF networked_ok networked_simps(1,3) a]) auto
qed

section \<open>Where the register is not implemented\<close>

text \<open>
  Deletions do not converge. A deletion of an entry that is already deleted is skipped without
  recording its time stamp, so an older update that arrives after it revives the entry; arriving in
  the order of their time stamps, the same two messages leave it deleted.
\<close>

theorem stale_update_revives_deleted_entry:
  assumes "storage_ok s" and "st_ids s i = Some h" and "view h s = Some (t0, None)"
    and "t0 \<le> t1" and "t1 < t2" and "t1 \<noteq> 0" and "t2 \<noteq> 0"
  shows "view h (snd (on_entry_updated tm i v t1 (snd (on_entry_deleted tm i t2 s)))) = Some (t1, Some v) \<and>
     view h (snd (on_entry_deleted tm i t2 (snd (on_entry_updated tm i v t1 s)))) = Some (t2, None)"
proof -
  obtain d where d: "ht_lookup (st_entries s) h = Some d" "se_last_update d = t0"
    "\<not> does_entry_have_value d"
    using assms(3) by (auto simp: view_def entry_register_def split: if_splits)
  have "on_entry_deleted tm i t2 s = (Inr (), s)"
    using delete_entry_skipped [OF d(1)] d(3) assms(2) by (simp add: on_entry_deleted_def)
  moreover obtain s1 where s1: "set_entry_internal tm h v False i False t1 s = (Inr (), s1)"
    "view h s1 = Some (t1, Some v)" "st_ids s1 = st_ids s"
    using set_entry_view [OF assms(1,3,6), of v tm i False] assms(4)
    by (auto simp: accepts_type_def lww_write_def)
  moreover obtain d1 where d1: "ht_lookup (st_entries s1) h = Some d1" "se_last_update d1 = t1"
    "does_entry_have_value d1"
    using s1(2) by (auto simp: view_def entry_register_def split: if_splits)
  moreover have "\<not> stale t2 d1" using d1(2) assms(5) by (simp add: stale_def)
  ultimately show ?thesis
    using delete_entry_removed [OF d1(1) _ d1(3), of t2 tm False] assms(2,7)
    by (simp add: on_entry_updated_def on_entry_deleted_def view_def entry_register_def stamp_def)
qed

lemma stale_update_revives_deleted_entry_witness:
  "view 0 (snd (on_entry_updated (\<lambda>_. 0) 3 (make_int32 1) 4
     (snd (on_entry_deleted (\<lambda>_. 0) 3 9 networked_storage)))) = Some (4, Some (make_int32 1))"
  using stale_update_revives_deleted_entry [OF networked_ok networked_simps(1,3), of 4 9 "\<lambda>_. 0" "make_int32 1"]
  by simp

text \<open>
  Clearing a value does not reach the other side. A cleared entry is announced as an update with
  an empty value; the receiver refuses it as a type mismatch whenever it has a non-empty value, and
  keeps that value and its time stamp.
\<close>

theorem cleared_value_is_refused:
  assumes "storage_ok s" and "st_ids s i = Some h" and "view h s = Some (t0, Some v0)"
    and "v_type v0 \<noteq> vt_empty" and "t0 \<le> t"
  shows "fst (on_entry_updated tm i value_make t s) =
       Inl (Entry_type_mismatch h (v_type v0) vt_empty) \<and>
     view h (snd (on_entry_updated tm i value_make t s)) = Some (t0, Some v0)"
proof -
  obtain d where d: "ht_lookup (st_entries s) h = Some d" "se_last_update d = t0"
    "does_entry_have_value d" "se_value d = v0"
    using assms(3) by (auto simp: view_def entry_register_def split: if_splits)
  have "\<not> stale t d" "\<not> type_fits value_make d"
    using d assms(4,5) by (auto simp: stale_def type_fits_def)
  from set_entry_mismatch [OF d(1) this, of tm i False] d storage_okD(3) [OF assms(1) d(1)] assms(2)
  show ?thesis
    by (simp add: on_entry_updated_def view_def entry_register_def entry_ok_def)
qed

lemma cleared_value_is_refused_witness:
  "fst (on_entry_updated (\<lambda>_. 0) 3 value_make 60
      (snd (on_entry_updated (\<lambda>_. 0) 3 (make_int32 9) 50 networked_storage))) =
     Inl (Entry_type_mismatch 0 vt_integer32 vt_empty)"
proof -
  have a: "accepts_type (v_type (make_int32 9)) (0, None)" by (simp add: accepts_type_def)
  obtain s' where s': "set_entry_internal (\<lambda>_. 0) 0 (make_int32 9) False 3 False 50 networked_storage = (Inr (), s')"
    "view 0 s' = Some (50, Some (make_int32 9))" "st_ids s' = st_ids networked_storage" "storage_ok s'"
    using set_entry_view [OF networked_ok networked_simps(3) _ a, of 50 "\<lambda>_. 0" 3 False]
    by (auto simp: lww_write_def)
  then have u: "on_entry_updated (\<lambda>_. 0) 3 (make_int32 9) 50 networked_storage = (Inr (), s')"
    by (simp add: on_entry_updated_def networked_simps)
  from cleared_value_is_refused [OF s'(4) _ s'(2), of 3 60 "\<lambda>_. 0"] show ?thesis
    by (simp add: u s'(3) networked_simps)
qed

text \<open>
  A network identifier is never moved. If an identifier already names an entry and is then assigned
  to the path of another one, that other entry takes it as its own identifier and will be announced
  under it, but updates that arrive under the identifier still go to the first entry.
\<close>

theorem reassigned_id_keeps_first_entry:
  assumes "storage_ok s" and "st_ids s i = Some h" and "st_paths s p = Some h'" and "h' \<noteq> h"
    and "on_entry_id_assigned i p s = (r, s')"
  shows "r = Inr () \<and> st_ids s' i = Some h \<and>
     map_option se_net_id (ht_lookup (st_entries s') h') = Some i \<and>
     ht_lookup (st_entries (snd (on_entry_updated tm i v t s'))) h' = ht_lookup (st_entries s') h'"
proof -
  obtain d' where d': "ht_lookup (st_entries s) h' = Some d'"
    using storage_okD(5) [OF assms(1,3)] by blast
  have s': "r = Inr ()" "s' = (put_entry h' (set_net_id i d') s)\<lparr>st_ids := map_emplace i h' (st_ids s)\<rparr>"
    using assms(3,5) d' by (auto simp: on_entry_id_assigned_def find_or_create_def ht_get_lookup)
  have ids: "st_ids s' i = Some h" using s'(2) assms(2) by (simp add: map_emplace_def)
  have other: "ht_lookup (st_entries (snd (set_entry_internal tm h v c j dirty t s'))) h' =
      ht_lookup (st_entries s') h'" for c j dirty
  proof (cases "ht_lookup (st_entries s') h")
    case None
    then show ?thesis by (simp add: set_entry_missing)
  next
    case (Some d)
    show ?thesis
    proof (cases "stale t d")
      case True
      with set_entry_stale [OF Some True, of tm v c j dirty] show ?thesis by simp
    next
      case False
      then show ?thesis
        using set_entry_revives [OF Some False, of tm v c j dirty] assms(4)
        by (simp add: Let_def notify_add_events split: prod.split sum.split)
    qed
  qed
  then show ?thesis
    using s' ids d' by (simp add: on_entry_updated_def put_entry_def ht_update_lookup)
qed

definition two_entry_storage :: "string storage" where
  "two_entry_storage = snd (create_new_entry ''/b'' networked_storage)"

lemma reassigned_id_keeps_first_entry_witness:
  "\<exists>h'. st_ids two_entry_storage 3 = Some 0 \<and> st_paths two_entry_storage ''/b'' = Some h' \<and>
     map_option se_net_id (ht_lookup (st_entries (snd (on_entry_id_assigned 3 ''/b'' two_entry_storage))) h') = Some 3 \<and>
     st_ids (snd (on_entry_id_assigned 3 ''/b'' two_entry_storage)) 3 = Some 0"
proof -
  have np: "st_paths networked_storage = [''/a/x'' \<mapsto> 0]"
    by (simp add: networked_storage_def on_entry_id_assigned_def find_or_create_def ht_get_lookup
        one_entry_storage_eq)
  obtain r where c: "create_new_entry ''/b'' networked_storage = (r, two_entry_storage)"
    by (metis two_entry_storage_def prod.collapse)
  have ok: "storage_ok two_entry_storage"
    using create_new_entry_ok [OF networked_ok _ c] np by simp
  have e: "st_entries networked_storage = ht_update 0 (\<lambda>_. set_net_id 3 (created_entry 0 ''/a/x'')) one_entry_table"
    by (simp add: networked_storage_def on_entry_id_assigned_def find_or_create_def ht_get_lookup
        one_entry_storage_eq put_entry_def)
  have "first_free (Some x # replicate 255 None) = Some 1" for x :: storage_entry
    by (simp add: numeral_eq_Suc)
  then have free: "find_next_available_spot (st_entries networked_storage) = Some 1"
    by (simp add: e ht_update_def one_entry_table_def find_next_available_spot_def)
  then have "\<exists>h. r = Inr h"
    using c by (auto simp: create_new_entry_def allocate_new_with_handle_def Let_def)
  with create_new_entry_cases [OF storage_okD(1) [OF networked_ok] c]
  obtain h t where ht: "ht_lookup (st_entries networked_storage) h = None"
    "two_entry_storage = networked_storage\<lparr>st_paths := map_emplace ''/b'' h (st_paths networked_storage),
       st_entries := t\<rparr>" by auto
  have h: "ht_lookup (st_entries networked_storage) h = None"
    "st_paths two_entry_storage = map_emplace ''/b'' h (st_paths networked_storage)"
    "st_ids two_entry_storage = st_ids networked_storage"
    unfolding ht(2) by (rule ht(1), simp_all)
  have p: "st_paths two_entry_storage ''/b'' = Some h" using h(2) np by (simp add: map_emplace_def)
  have i: "st_ids two_entry_storage 3 = Some 0" using h(3) networked_simps(1) by simp
  have ne: "h \<noteq> 0" using h(1) networked_simps(2) by auto
  obtain r' s' where a: "on_entry_id_assigned 3 ''/b'' two_entry_storage = (r', s')" by fastforce
  from reassigned_id_keeps_first_entry [OF ok i p ne a] p i a show ?thesis by auto
qed

lemma valued_handles: "ht_handles (st_entries valued_storage) = [0]"
proof -
  have "ht_handles (st_entries valued_storage) = ht_handles (st_entries one_entry_storage)"
  proof -
    have lk: "ht_lookup (st_entries one_entry_storage) 0 = Some (created_entry 0 ''/a/x'')"
      by (simp add: one_entry_storage_eq)
    have "\<not> stale 0 (created_entry 0 ''/a/x'')" by (simp add: stale_def)
    from set_entry_written [OF lk this, of False "make_int32 9" "\<lambda>_. 5" id_not_assigned True]
    show ?thesis
      by (simp add: valued_storage_def set_entry_value_def type_fits_def put_entry_def)
  qed
  also have "\<dots> = [0]"
  proof -
    have cap: "0 < ht_capacity one_entry_table" by (simp add: one_entry_table_def ht_capacity_def)
    have "taken_from one_entry_table 1 = []"
      by (auto simp: taken_from_def one_entry_table_def ht_capacity_def filter_empty_conv nth_Cons')
    then have "taken_from one_entry_table 0 = [0]"
      using taken_from_Cons [OF cap] by (simp add: one_entry_table_def)
    then show ?thesis by (simp add: ht_handles_eq one_entry_storage_eq)
  qed
  finally show ?thesis .
qed

section \<open>Acting on the dirty entries\<close>

definition dirty_entries :: "handle list \<Rightarrow> 'c storage \<Rightarrow> storage_entry list" where
  "dirty_entries hs s =
     filter (has_flags flag_internal_dirty) (map (\<lambda>h. the (ht_lookup (st_entries s) h)) hs)"

lemma act_on_collects:
  assumes "\<forall>h\<in>set hs. ht_lookup (st_entries s) h \<noteq> None" and "distinct hs"
  shows "\<exists>s'. act_on (\<lambda>d (s, w). (Inr True, s, f d w)) hs (s, w) =
       (Inr (), s', fold f (dirty_entries hs s) w) \<and>
     (\<forall>k. ht_lookup (st_entries s') k =
        (if k \<in> set hs \<and> (\<exists>d. ht_lookup (st_entries s) k = Some d \<and> has_flags flag_internal_dirty d)
         then map_option clear_dirty (ht_lookup (st_entries s) k) else ht_lookup (st_entries s) k))"
  using assms
proof (induction hs arbitrary: s w)
  case Nil
  then show ?case by (simp add: dirty_entries_def)
next
  case (Cons h hs)
  then obtain d where d: "ht_lookup (st_entries s) h = Some d" by auto
  show ?case
  proof (cases "has_flags flag_internal_dirty d")
    case False
    from Cons.IH [of s w] Cons.prems d False show ?thesis
      by (auto simp: ht_get_lookup dirty_entries_def)
  next
    case True
    let ?s = "s\<lparr>st_entries := ht_update h clear_dirty (st_entries s)\<rparr>"
    have same: "ht_lookup (st_entries ?s) k = ht_lookup (st_entries s) k" if "k \<in> set hs" for k
      using that Cons.prems(2) by (auto simp: ht_update_lookup)
    then have eq: "dirty_entries hs ?s = dirty_entries hs s"
      unfolding dirty_entries_def by (intro arg_cong [of _ _ "filter _"] map_cong) auto
    have "\<forall>h\<in>set hs. ht_lookup (st_entries ?s) h \<noteq> None"
      using Cons.prems same by (metis list.set_intros(2))
    with Cons.IH [of ?s "f d w"] Cons.prems obtain s' where
      s': "act_on (\<lambda>d (s, w). (Inr True, s, f d w)) hs (?s, f d w) =
        (Inr (), s', fold f (dirty_entries hs ?s) (f d w))"
      "\<forall>k. ht_lookup (st_entries s') k =
        (if k \<in> set hs \<and> (\<exists>d. ht_lookup (st_entries ?s) k = Some d \<and> has_flags flag_internal_dirty d)
         then map_option clear_dirty (ht_lookup (st_entries ?s) k) else ht_lookup (st_entries ?s) k)"
      by auto
    have lk: "ht_lookup (st_entries s') k =
        (if k \<in> set (h # hs) \<and> (\<exists>d. ht_lookup (st_entries s) k = Some d \<and> has_flags flag_internal_dirty d)
         then map_option clear_dirty (ht_lookup (st_entries s) k) else ht_lookup (st_entries s) k)" for k
      using s'(2) same [of k] d True Cons.prems(2) by (cases "k = h") (auto simp: ht_update_lookup)
    have "act_on (\<lambda>d (s, w). (Inr True, s, f d w)) (h # hs) (s, w) =
        (Inr (), s', fold f (dirty_entries (h # hs) s) w)"
      using s'(1) d True by (simp add: ht_get_lookup eq) (simp add: dirty_entries_def d True)
    with lk show ?thesis by blast
  qed
qed

text \<open>
  Acting on the dirty entries hands every dirty entry to the action exactly once, in the order of
  the handles, and leaves none dirty; values, time stamps and identifiers are as before.
\<close>

theorem dirty_entries_acted_on_once:
  assumes "storage_ok s"
    and "act_on_dirty_entries (\<lambda>d (s, w). (Inr True, s, f d w)) (s, w) = (r, s', w')"
  shows "r = Inr () \<and> w' = fold f (dirty_entries (ht_handles (st_entries s)) s) w \<and>
     dirty_entries (ht_handles (st_entries s)) s' = [] \<and>
     view h s' = view h s \<and>
     map_option se_net_id (ht_lookup (st_entries s') h) = map_option se_net_id (ht_lookup (st_entries s) h)"
proof -
  let ?hs = "ht_handles (st_entries s)"
  have hs: "\<forall>h\<in>set ?hs. ht_lookup (st_entries s) h \<noteq> None" "distinct ?hs"
    using set_ht_handles [OF storage_okD(1) [OF assms(1)]] distinct_ht_handles [OF storage_okD(1) [OF assms(1)]]
    by blast+
  have r: "r = Inr ()" "w' = fold f (dirty_entries ?hs s) w"
    and lk: "\<And>k. ht_lookup (st_entries s') k =
        (if k \<in> set ?hs \<and> (\<exists>d. ht_lookup (st_entries s) k = Some d \<and> has_flags flag_internal_dirty d)
         then map_option clear_dirty (ht_lookup (st_entries s) k) else ht_lookup (st_entries s) k)"
    using act_on_collects [OF hs, of f w] assms(2) by (auto simp: act_on_dirty_entries_def)
  have clean: "\<not> has_flags flag_internal_dirty (the (ht_lookup (st_entries s') k))" if "k \<in> set ?hs" for k
    using that hs(1) lk [of k] by (auto simp: has_one_flag bit_change_flags flag_bits)
  then have "dirty_entries ?hs s' = []" by (auto simp: dirty_entries_def filter_empty_conv)
  moreover have "view h s' = view h s"
    using lk [of h] by (auto simp: view_def entry_register_def has_value_bits bit_change_flags flag_bits)
  moreover have "map_option se_net_id (ht_lookup (st_entries s') h) =
      map_option se_net_id (ht_lookup (st_entries s) h)"
    using lk [of h] by (auto simp: clear_dirty_def remove_flags_def)
  ultimately show ?thesis using r by blast
qed

lemma dirty_entries_acted_on_once_witness:
  "snd (snd (act_on_dirty_entries (\<lambda>d (s, w). (Inr True, s, w @ [se_path d])) (valued_storage, []))) =
     [''/a/x'']"
proof -
  obtain r s' w' where a: "act_on_dirty_entries (\<lambda>d (s, w). (Inr True, s, w @ [se_path d])) (valued_storage, []) =
      (r, s', w')" by (metis prod_cases3)
  from dirty_entries_acted_on_once [OF valued_ok this] show ?thesis
    by (simp add: a valued_handles dirty_entries_def valued_lookup has_one_flag flag_bits)
qed

end
