(* ===== verification/Obsr_Instance.thy ===== *)
theory Obsr_Instance
  imports Obsr_Storage_Props
begin

text \<open>
  The instance (\<open>src/instance.h\<close>, \<open>src/instance.cpp\<close>): the objects, which exist only as paths, and
  the client operations on objects and entries, which lock the instance and delegate to the storage.
  The network interface of the instance is modelled with the network.
\<close>

section \<open>Strings\<close>

text \<open>\<open>rfind\<close>, \<open>find\<close> from a position, and \<open>substr\<close>, which throws past the end of the string.\<close>

fun rfind :: "'a \<Rightarrow> 'a list \<Rightarrow> nat option" where
  "rfind c [] = None"
| "rfind c (x # xs) =
     (case rfind c xs of
        Some i \<Rightarrow> Some (Suc i)
      | None \<Rightarrow> (if x = c then Some 0 else None))"

fun find_char :: "'a \<Rightarrow> 'a list \<Rightarrow> nat option" where
  "find_char c [] = None"
| "find_char c (x # xs) = (if x = c then Some 0 else map_option Suc (find_char c xs))"

definition find_from :: "'a \<Rightarrow> 'a list \<Rightarrow> nat \<Rightarrow> nat option" where
  "find_from c s pos = map_option (\<lambda>i. pos + i) (find_char c (drop pos s))"

definition substr :: "'a list \<Rightarrow> nat \<Rightarrow> nat \<Rightarrow> exn + 'a list" where
  "substr s pos n = (if pos > length s then Inl Out_of_range else Inr (take n (drop pos s)))"

definition substr_from :: "'a list \<Rightarrow> nat \<Rightarrow> exn + 'a list" where
  "substr_from s pos = (if pos > length s then Inl Out_of_range else Inr (drop pos s))"

definition slash :: char where
  "slash = CHR ''/''"

definition get_parent_path :: "string \<Rightarrow> string option" where
  "get_parent_path path =
     (case rfind slash path of None \<Rightarrow> None | Some i \<Rightarrow> Some (take i path))"

definition get_path_name :: "string \<Rightarrow> string" where
  "get_path_name path =
     (case rfind slash path of None \<Rightarrow> [] | Some i \<Rightarrow> drop (i + 1) path)"

definition verify_valid_name :: "string \<Rightarrow> exn + unit" where
  "verify_valid_name name =
     (if name = [] then Inl (Invalid_name name)
      else if find_char slash name \<noteq> None then Inl (Invalid_name name)
      else Inr ())"

text \<open>\<open>fmt::format("{}/{}", path, name)\<close>\<close>

definition join_path :: "string \<Rightarrow> string \<Rightarrow> string" where
  "join_path path name = path @ slash # name"

section \<open>The instance\<close>

record object_data =
  od_name :: string
  od_path :: string

record 'c instance_state =
  in_storage :: "'c storage"
  in_objects :: "object_data handle_table"
  in_object_paths :: "string \<Rightarrow> handle option"
  in_root :: handle

type_synonym ('c, 'x) instance_op = "'c instance_state \<Rightarrow> (exn + 'x) \<times> 'c instance_state"

definition object_capacity :: nat where
  "object_capacity = 256"

text \<open>The constructor: the root object is the first the table allocates.\<close>

definition instance_new :: "'c instance_state" where
  "instance_new =
     (case allocate_new \<lparr>od_name = [], od_path = []\<rparr> (ht_new object_capacity) of
        (res, t) \<Rightarrow>
          \<lparr>in_storage = storage_new clock_new, in_objects = t, in_object_paths = Map.empty,
           in_root = (case res of Inr h \<Rightarrow> h | Inl _ \<Rightarrow> empty_handle)\<rparr>)"

definition instance_time :: "milliseconds \<Rightarrow> 'c instance_state \<Rightarrow> milliseconds" where
  "instance_time r n = clock_now (st_clock (in_storage n)) r"

definition get_root :: "'c instance_state \<Rightarrow> handle" where
  "get_root n = in_root n"

text \<open>Running an operation of the storage.\<close>

definition on_storage :: "('c, 'x) storage_op \<Rightarrow> ('c, 'x) instance_op" where
  "on_storage op n = (case op (in_storage n) of (r, s) \<Rightarrow> (r, n\<lparr>in_storage := s\<rparr>))"

definition get_or_create_child :: "handle \<Rightarrow> string \<Rightarrow> ('c, handle) instance_op" where
  "get_or_create_child parent name n =
     (case ht_get (in_objects n) parent of
        Inl e \<Rightarrow> (Inl e, n)
      | Inr data \<Rightarrow>
          (let path = join_path (od_path data) name in
           case in_object_paths n path of
             Some h \<Rightarrow> (Inr h, n)
           | None \<Rightarrow>
               (case allocate_new \<lparr>od_name = name, od_path = path\<rparr> (in_objects n) of
                  (Inl e, t) \<Rightarrow> (Inl e, n\<lparr>in_objects := t\<rparr>)
                | (Inr h, t) \<Rightarrow>
                    (Inr h, n\<lparr>in_objects := t,
                              in_object_paths := map_emplace path h (in_object_paths n)\<rparr>))))"

text \<open>
  The loop of \<open>get_or_create_object\<close>: from position \<open>pos\<close> with the object reached so far. As the
  search starts behind the position, the position grows with every turn.
\<close>

function create_objects :: "string \<Rightarrow> nat \<Rightarrow> handle \<Rightarrow> ('c, handle) instance_op" where
  "create_objects path pos current n =
     (case find_from slash path (pos + 1) of
        Some index \<Rightarrow>
          (case substr path (pos + 1) (index - pos - 1) of
             Inl e \<Rightarrow> (Inl e, n)
           | Inr name \<Rightarrow>
               (case get_or_create_child current name n of
                  (Inl e, n) \<Rightarrow> (Inl e, n)
                | (Inr current, n) \<Rightarrow> create_objects path index current n))
      | None \<Rightarrow>
          (case substr_from path (pos + 1) of
             Inl e \<Rightarrow> (Inl e, n)
           | Inr name \<Rightarrow>
               (if name = [] then
                  (if current = in_root n then (Inr (in_root n), n) else (Inl (Invalid_path path), n))
                else get_or_create_child current name n)))"
  by auto

lemma find_char_lt: "find_char c xs = Some i \<Longrightarrow> i < length xs"
  by (induction xs arbitrary: i) (auto split: if_splits)

lemma find_from_bounds: "find_from c s pos = Some i \<Longrightarrow> pos \<le> i \<and> i < length s"
  by (auto simp: find_from_def dest: find_char_lt)

termination create_objects
  by (relation "measure (\<lambda>(path, pos, current, n). length path - pos)")
     (auto dest!: find_from_bounds)

declare create_objects.simps [simp del]

definition get_or_create_object :: "string \<Rightarrow> ('c, handle) instance_op" where
  "get_or_create_object path n = create_objects path 0 (in_root n) n"

subsection \<open>Objects\<close>

definition get_object :: "string \<Rightarrow> ('c, handle) instance_op" where
  "get_object path n = (if path = [] then (Inr (in_root n), n) else get_or_create_object path n)"

definition get_child :: "handle \<Rightarrow> string \<Rightarrow> ('c, handle) instance_op" where
  "get_child obj name n =
     (case verify_valid_name name of
        Inl e \<Rightarrow> (Inl e, n)
      | Inr _ \<Rightarrow> get_or_create_child obj name n)"

definition get_parent_for_object :: "handle \<Rightarrow> 'c instance_state \<Rightarrow> exn + handle" where
  "get_parent_for_object obj n =
     (case ht_get (in_objects n) obj of
        Inl e \<Rightarrow> Inl e
      | Inr data \<Rightarrow>
          (case get_parent_path (od_path data) of
             None \<Rightarrow> Inl No_parent
           | Some path \<Rightarrow>
               (if path = [] then Inr (in_root n)
                else case in_object_paths n path of
                       Some h \<Rightarrow> Inr h | None \<Rightarrow> Inl Assertion_failed)))"

definition get_path_for_object :: "handle \<Rightarrow> 'c instance_state \<Rightarrow> exn + string" where
  "get_path_for_object obj n = map_sum id od_path (ht_get (in_objects n) obj)"

definition get_name_for_object :: "handle \<Rightarrow> 'c instance_state \<Rightarrow> exn + string" where
  "get_name_for_object obj n = map_sum id od_name (ht_get (in_objects n) obj)"

definition delete_object :: "readings \<Rightarrow> handle \<Rightarrow> ('c, unit) instance_op" where
  "delete_object tm obj n =
     (if obj = in_root n then (Inl Cannot_delete_root, n)
      else case ht_get (in_objects n) obj of
             Inl e \<Rightarrow> (Inl e, n)
           | Inr data \<Rightarrow>
               (case on_storage (delete_entries tm (od_path data)) n of
                  (Inl e, n) \<Rightarrow> (Inl e, n)
                | (Inr _, n) \<Rightarrow>
                    (case ht_release obj (in_objects n) of
                       (Inl e, t) \<Rightarrow> (Inl e, n\<lparr>in_objects := t\<rparr>)
                     | (Inr _, t) \<Rightarrow> (Inr (), n\<lparr>in_objects := t\<rparr>))))"

definition listen_object :: "milliseconds \<Rightarrow> handle \<Rightarrow> 'c \<Rightarrow> ('c, handle) instance_op" where
  "listen_object r obj cb n =
     (case ht_get (in_objects n) obj of
        Inl e \<Rightarrow> (Inl e, n)
      | Inr data \<Rightarrow> on_storage (listen_prefix r (od_path data) cb) n)"

subsection \<open>Entries\<close>

definition get_entry :: "string \<Rightarrow> ('c, handle) instance_op" where
  "get_entry path n =
     (case get_parent_path path of
        None \<Rightarrow> (Inl (Invalid_path path), n)
      | Some ppath \<Rightarrow>
          (case get_or_create_object ppath n of
             (Inl e, n) \<Rightarrow> (Inl e, n)
           | (Inr _, n) \<Rightarrow> on_storage (get_or_create_entry path) n))"

definition get_entry_in :: "handle \<Rightarrow> string \<Rightarrow> ('c, handle) instance_op" where
  "get_entry_in obj name n =
     (case verify_valid_name name of
        Inl e \<Rightarrow> (Inl e, n)
      | Inr _ \<Rightarrow>
          (case ht_get (in_objects n) obj of
             Inl e \<Rightarrow> (Inl e, n)
           | Inr data \<Rightarrow> on_storage (get_or_create_entry (join_path (od_path data) name)) n))"

definition get_parent_for_entry :: "handle \<Rightarrow> 'c instance_state \<Rightarrow> exn + handle" where
  "get_parent_for_entry entry n =
     (case get_entry_path entry (in_storage n) of
        Inl e \<Rightarrow> Inl e
      | Inr entry_path \<Rightarrow>
          (case get_parent_path entry_path of
             None \<Rightarrow> Inl Assertion_failed
           | Some path \<Rightarrow>
               (if path = [] then Inr (in_root n)
                else case in_object_paths n path of
                       Some h \<Rightarrow> Inr h | None \<Rightarrow> Inl Assertion_failed)))"

definition get_path_for_entry :: "handle \<Rightarrow> 'c instance_state \<Rightarrow> exn + string" where
  "get_path_for_entry entry n = get_entry_path entry (in_storage n)"

definition get_name_for_entry :: "handle \<Rightarrow> 'c instance_state \<Rightarrow> exn + string" where
  "get_name_for_entry entry n = map_sum id get_path_name (get_entry_path entry (in_storage n))"

definition instance_delete_entry :: "readings \<Rightarrow> handle \<Rightarrow> ('c, unit) instance_op" where
  "instance_delete_entry tm entry n = on_storage (delete_entry tm entry) n"

definition instance_probe :: "handle \<Rightarrow> 'c instance_state \<Rightarrow> u32" where
  "instance_probe entry n = probe entry (in_storage n)"

definition get_value :: "handle \<Rightarrow> 'c instance_state \<Rightarrow> exn + obsr_value" where
  "get_value entry n =
     (case get_entry_value entry (in_storage n) of
        None \<Rightarrow> Inl (Entry_does_not_exist entry)
      | Some v \<Rightarrow> Inr v)"

definition set_value :: "readings \<Rightarrow> handle \<Rightarrow> obsr_value \<Rightarrow> ('c, unit) instance_op" where
  "set_value tm entry v n = on_storage (set_entry_value tm entry v) n"

definition clear_value :: "readings \<Rightarrow> handle \<Rightarrow> ('c, unit) instance_op" where
  "clear_value tm entry n = on_storage (clear_entry tm entry) n"

definition instance_listen_entry :: "milliseconds \<Rightarrow> handle \<Rightarrow> 'c \<Rightarrow> ('c, handle) instance_op" where
  "instance_listen_entry r entry cb n = on_storage (listen_entry r entry cb) n"

definition delete_listener :: "handle \<Rightarrow> ('c, unit) instance_op" where
  "delete_listener l n = on_storage (remove_listener l) n"

section \<open>Lemmas on paths\<close>

lemma rfind_None: "rfind c xs = None \<longleftrightarrow> c \<notin> set xs"
  by (induction xs) (auto split: option.split)

lemma find_char_None: "find_char c xs = None \<longleftrightarrow> c \<notin> set xs"
  by (induction xs) auto

lemma rfind_join: "c \<notin> set ys \<Longrightarrow> rfind c (xs @ c # ys) = Some (length xs)"
  by (induction xs) (auto simp: rfind_None [THEN iffD2])

lemma find_char_join: "c \<notin> set xs \<Longrightarrow> find_char c (xs @ c # ys) = Some (length xs)"
  by (induction xs) auto

lemma valid_name_iff: "verify_valid_name name = Inr () \<longleftrightarrow> name \<noteq> [] \<and> slash \<notin> set name"
  by (auto simp: verify_valid_name_def find_char_None)

lemma join_path_parts:
  assumes "slash \<notin> set name"
  shows "get_parent_path (join_path p name) = Some p" and "get_path_name (join_path p name) = name"
  using rfind_join [OF assms, of p]
  by (simp_all add: get_parent_path_def get_path_name_def join_path_def)

end
