(* ===== verification/Obsr_Instance_Props.thy ===== *)
theory Obsr_Instance_Props
  imports Obsr_Instance
begin

text \<open>
  The properties of the instance: objects and entries are where their paths say, names and paths fit
  together, and what goes wrong with short paths and with deleted objects.
\<close>

section \<open>Objects linked by their paths\<close>

text \<open>
  Paths and objects index each other, the root has the empty path, and a name is the last part of
  its path. This holds until an object is deleted.
\<close>

definition objects_linked :: "'c instance_state \<Rightarrow> bool" where
  "objects_linked n \<longleftrightarrow>
     ht_ok (in_objects n) \<and>
     ht_lookup (in_objects n) (in_root n) = Some \<lparr>od_name = [], od_path = []\<rparr> \<and>
     (\<forall>p h. in_object_paths n p = Some h \<longrightarrow>
        (\<exists>d. ht_lookup (in_objects n) h = Some d \<and> od_path d = p)) \<and>
     (\<forall>h d. ht_lookup (in_objects n) h = Some d \<longrightarrow>
        od_name d = get_path_name (od_path d) \<and> (h = in_root n \<or> in_object_paths n (od_path d) = Some h))"

lemma objects_linkedD:
  assumes "objects_linked n"
  shows "ht_ok (in_objects n)"
    and "ht_lookup (in_objects n) (in_root n) = Some \<lparr>od_name = [], od_path = []\<rparr>"
    and "in_object_paths n p = Some h \<Longrightarrow> \<exists>d. ht_lookup (in_objects n) h = Some d \<and> od_path d = p"
    and "ht_lookup (in_objects n) h = Some d \<Longrightarrow> od_name d = get_path_name (od_path d)"
  using assms unfolding objects_linked_def by blast+

lemma child_cases:
  assumes n: "objects_linked n" and name: "slash \<notin> set name"
    and p: "ht_lookup (in_objects n) parent = Some pd"
    and r: "get_or_create_child parent name n = (r, n')"
  shows "objects_linked n' \<and> in_root n' = in_root n \<and> in_storage n' = in_storage n \<and>
     (r = Inl No_space \<or>
      (\<exists>h d. r = Inr h \<and> ht_lookup (in_objects n') h = Some d \<and>
         od_path d = join_path (od_path pd) name))"
proof -
  let ?path = "join_path (od_path pd) name"
  show ?thesis
  proof (cases "in_object_paths n ?path")
    case (Some h)
    with r p have "r = Inr h" "n' = n" by (auto simp: get_or_create_child_def ht_get_lookup Let_def)
    with n objects_linkedD(3) [OF n Some] show ?thesis by auto
  next
    case None
    let ?d = "\<lparr>od_name = name, od_path = ?path\<rparr>"
    obtain res t where a: "allocate_new_with_handle (\<lambda>_. ?d) (in_objects n) = (res, t)" by fastforce
    show ?thesis
    proof (cases res)
      case (Inl e)
      with a tab.alloc_Inl [OF objects_linkedD(1) [OF n], of "\<lambda>_. ?d" e t] r p None n show ?thesis
        by (auto simp: get_or_create_child_def ht_get_lookup Let_def allocate_new_alt)
    next
      case (Inr h)
      with a tab.alloc_Inr [OF objects_linkedD(1) [OF n], of "\<lambda>_. ?d" h t]
      have t: "ht_lookup (in_objects n) h = None" "ht_ok t"
        "ht_lookup t = (ht_lookup (in_objects n))(h \<mapsto> ?d)" by auto
      have res: "r = Inr h" "n' = n\<lparr>in_objects := t, in_object_paths := map_emplace ?path h (in_object_paths n)\<rparr>"
        using r p None a Inr by (auto simp: get_or_create_child_def ht_get_lookup Let_def allocate_new_alt)
      have paths: "map_emplace ?path h (in_object_paths n) = (in_object_paths n)(?path \<mapsto> h)"
        using None by (simp add: map_emplace_def)
      have other: "k \<noteq> h" if "in_object_paths n q = Some k" for q k
        using objects_linkedD(3) [OF n that] t(1) by auto
      have nop: "k = in_root n" if "ht_lookup (in_objects n) k = Some d" "od_path d = ?path" for k d
        using that n None by (metis objects_linked_def option.distinct(1))
      have "in_root n \<noteq> h" using objects_linkedD(2) [OF n] t(1) by auto
      then have "objects_linked n'"
        using n t join_path_parts(2) [OF name, of "od_path pd"] other None nop
        unfolding objects_linked_def res(2) paths by (auto split: if_splits)
      with res t show ?thesis by auto
    qed
  qed
qed

section \<open>Paths of names\<close>

fun path_of :: "string list \<Rightarrow> string" where
  "path_of [] = []"
| "path_of (nm # nms) = slash # nm @ path_of nms"

definition valid_names :: "string list \<Rightarrow> bool" where
  "valid_names nms \<longleftrightarrow> nms \<noteq> [] \<and> (\<forall>nm\<in>set nms. nm \<noteq> [] \<and> slash \<notin> set nm)"

lemma find_from_name:
  assumes "slash \<notin> set nm"
  shows "find_from slash (pre @ slash # nm @ path_of nms) (length pre + 1) =
     (if nms = [] then None else Some (length pre + 1 + length nm))"
proof (cases nms)
  case Nil
  with assms show ?thesis by (simp add: find_from_def find_char_None [THEN iffD2])
next
  case (Cons a list)
  with find_char_join [OF assms, of "a @ path_of list"] show ?thesis by (simp add: find_from_def)
qed

lemma create_objects_path:
  assumes "valid_names nms" and "objects_linked n"
    and "ht_lookup (in_objects n) cur = Some d" and "od_path d = pre"
    and "create_objects (pre @ path_of nms) (length pre) cur n = (r, n')"
  shows "objects_linked n' \<and> in_root n' = in_root n \<and> in_storage n' = in_storage n \<and>
     (r = Inl No_space \<or>
      (\<exists>h d. r = Inr h \<and> ht_lookup (in_objects n') h = Some d \<and> od_path d = pre @ path_of nms))"
  using assms
proof (induction nms arbitrary: pre cur d n)
  case (Cons nm nms)
  have nm: "nm \<noteq> []" "slash \<notin> set nm" using Cons.prems(1) by (auto simp: valid_names_def)
  note find = find_from_name [OF nm(2), of pre nms]
  obtain r1 n1 where c: "get_or_create_child cur nm n = (r1, n1)" by fastforce
  note child = child_cases [OF Cons.prems(2) nm(2) Cons.prems(3) c]
  show ?case
  proof (cases "nms = []")
    case True
    with Cons.prems(5) find nm c have "(r, n') = (r1, n1)"
      by (subst (asm) create_objects.simps) (auto simp: substr_from_def)
    with child True Cons.prems(4) show ?thesis by (auto simp: join_path_def)
  next
    case False
    then have step: "create_objects (pre @ path_of (nm # nms)) (length pre) cur n =
        (case r1 of Inl e \<Rightarrow> (Inl e, n1)
         | Inr cur \<Rightarrow> create_objects (pre @ path_of (nm # nms)) (length (pre @ slash # nm)) cur n1)"
      using find nm c by (subst create_objects.simps) (simp add: substr_def split: sum.split)
    show ?thesis
    proof (cases r1)
      case (Inl e)
      with step Cons.prems(5) child show ?thesis by auto
    next
      case (Inr h)
      with child obtain d1 where d1: "ht_lookup (in_objects n1) h = Some d1"
        "od_path d1 = pre @ slash # nm" "objects_linked n1"
        using Cons.prems(4) by (auto simp: join_path_def)
      have "valid_names nms" using Cons.prems(1) False by (auto simp: valid_names_def)
      from Cons.IH [OF this d1(3,1,2)] step Inr Cons.prems(5) child show ?thesis by auto
    qed
  qed
qed (simp add: valid_names_def)

lemma path_of_last: "nms \<noteq> [] \<Longrightarrow> path_of nms = join_path (path_of (butlast nms)) (last nms)"
  by (induction nms) (auto simp: join_path_def)

text \<open>
  Asking for the object of a well-formed path (names without slashes, each after a slash) fails
  only for lack of space; otherwise the object returned has that path and the last name, and its
  siblings, ancestors and the storage are left as they were, so that objects and paths still index
  each other.
\<close>

theorem get_object_finds_path:
  assumes "objects_linked n" and "valid_names nms"
    and "get_object (path_of nms) n = (r, n')"
  shows "objects_linked n' \<and> in_storage n' = in_storage n \<and>
     (case r of
        Inl e \<Rightarrow> e = No_space
      | Inr h \<Rightarrow> get_path_for_object h n' = Inr (path_of nms) \<and>
          get_name_for_object h n' = Inr (last nms))"
proof -
  have ne: "path_of nms \<noteq> []" using assms(2) by (cases nms) (auto simp: valid_names_def)
  have "create_objects ([] @ path_of nms) (length []) (in_root n) n = (r, n')"
    using assms(3) ne by (simp add: get_object_def get_or_create_object_def)
  note res = create_objects_path [OF assms(2,1) objects_linkedD(2) [OF assms(1)] _ this]
  have "get_path_name (path_of nms) = last nms"
  proof -
    have "nms \<noteq> []" "slash \<notin> set (last nms)"
      using assms(2) last_in_set [of nms] by (auto simp: valid_names_def)
    with join_path_parts(2) [of "last nms"] path_of_last show ?thesis by simp
  qed
  with res objects_linkedD(4) [of n'] show ?thesis
    by (auto simp: get_path_for_object_def get_name_for_object_def ht_get_lookup)
qed

definition fresh_instance :: "string instance_state" where
  "fresh_instance = instance_new"

definition root_table :: "object_data handle_table" where
  "root_table = \<lparr>ht_data = Some \<lparr>od_name = [], od_path = []\<rparr> # replicate 255 None, ht_count = 1\<rparr>"

lemma fresh_instance_eq:
  "fresh_instance = \<lparr>in_storage = no_entries, in_objects = root_table, in_object_paths = Map.empty,
     in_root = 0\<rparr>"
proof -
  have r: "replicate object_capacity None = None # replicate 255 (None :: object_data option)"
    by (simp add: object_capacity_def numeral_eq_Suc)
  show ?thesis
    by (simp add: fresh_instance_def instance_new_def allocate_new_def ht_new_def r
        find_next_available_spot_def root_table_def no_entries_def)
qed

lemma root_table_lookup:
  "ht_lookup root_table h = (if h = 0 then Some \<lparr>od_name = [], od_path = []\<rparr> else None)"
proof -
  have "unat h = 0 \<longleftrightarrow> h = 0" by (metis unat_eq_unat unat_0)
  then show ?thesis
    by (auto simp: ht_lookup_eq root_table_def ht_capacity_def empty_handle_def nth_Cons')
qed

lemma fresh_instance_linked: "objects_linked fresh_instance"
proof -
  have "ht_ok root_table" by (simp add: ht_ok_def root_table_def ht_capacity_def)
  then show ?thesis
    by (simp add: objects_linked_def fresh_instance_eq root_table_lookup get_path_name_def)
qed

lemma get_object_finds_path_witness:
  "case get_object ''/a/b'' fresh_instance of
     (Inr h, n') \<Rightarrow> get_path_for_object h n' = Inr ''/a/b'' \<and> get_name_for_object h n' = Inr ''b''
   | (Inl e, n') \<Rightarrow> e = No_space"
proof -
  have v: "valid_names [''a'', ''b'']" "path_of [''a'', ''b''] = ''/a/b''"
    by (simp_all add: valid_names_def slash_def)
  obtain r n' where g: "get_object ''/a/b'' fresh_instance = (r, n')" by fastforce
  then show ?thesis
    using get_object_finds_path [OF fresh_instance_linked v(1), of r n'] v(2) by (auto split: sum.splits)
qed

section \<open>Entries and their objects\<close>

text \<open>
  The entry of an object under a valid name has the path of the object with the name behind a
  slash; asked for its name and for its parent's path, it gives the name and the object's path back,
  and asking again gives the same entry.
\<close>

theorem entry_in_object_roundtrip:
  assumes "storage_ok (in_storage n)" and "get_path_for_object obj n = Inr p"
    and "get_entry_in obj name n = (Inr h, n')"
  shows "get_path_for_entry h n' = Inr (join_path p name) \<and>
     get_name_for_entry h n' = Inr name \<and>
     get_parent_path (join_path p name) = Some p \<and>
     get_entry_in obj name n' = (Inr h, n')"
proof -
  obtain d where d: "ht_lookup (in_objects n) obj = Some d" "od_path d = p"
    using assms(2) by (auto simp: get_path_for_object_def ht_get_lookup split: option.splits)
  have v: "verify_valid_name name = Inr ()"
    using assms(3) by (cases "verify_valid_name name") (auto simp: get_entry_in_def)
  then have sl: "slash \<notin> set name" by (simp add: valid_name_iff)
  obtain s' where s': "get_or_create_entry (join_path p name) (in_storage n) = (Inr h, s')"
    "n' = n\<lparr>in_storage := s'\<rparr>"
    using assms(3) v d by (auto simp: get_entry_in_def ht_get_lookup on_storage_def split: prod.splits)
  note stable = get_or_create_new [OF assms(1) s'(1)]
  then obtain e where e: "ht_lookup (st_entries s') h = Some e" "se_path e = join_path p name" by blast
  have ok: "storage_ok s'"
    using s'(1) assms(1) create_new_entry_ok [OF assms(1), of "join_path p name"]
    by (auto simp: get_or_create_entry_def split: option.splits if_splits)
  have "get_or_create_entry (join_path p name) s' = (Inr h, s')"
    using storage_okD(4) [OF ok e(1)] e by (simp add: get_or_create_entry_def ht_has_lookup)
  with s' e d v join_path_parts [OF sl, of p] show ?thesis
    by (simp add: get_path_for_entry_def get_name_for_entry_def get_entry_path_def ht_get_lookup
        get_entry_in_def on_storage_def)
qed

definition entry_instance :: "string instance_state" where
  "entry_instance = snd (get_entry_in 0 ''x'' fresh_instance)"

lemma entry_in_object_roundtrip_witness:
  "case get_entry_in 0 ''x'' fresh_instance of
     (Inr h, n') \<Rightarrow> get_path_for_entry h n' = Inr ''/x'' \<and> get_name_for_entry h n' = Inr ''x''
   | (Inl e, n') \<Rightarrow> False"
proof -
  have r: "replicate entry_capacity None = None # replicate 255 (None :: storage_entry option)"
    by (simp add: entry_capacity_def numeral_eq_Suc)
  have "\<exists>h n'. get_entry_in 0 ''x'' fresh_instance = (Inr h, n')"
    by (simp add: get_entry_in_def verify_valid_name_def slash_def fresh_instance_eq ht_get_lookup
        root_table_lookup on_storage_def get_or_create_entry_def no_entries_def storage_new_def
        create_new_entry_def allocate_new_with_handle_def find_next_available_spot_def ht_new_def r Let_def)
  then obtain h n' where g: "get_entry_in 0 ''x'' fresh_instance = (Inr h, n')" by blast
  have "storage_ok (in_storage fresh_instance)" by (simp add: fresh_instance_eq)
  moreover have "get_path_for_object 0 fresh_instance = Inr []"
    by (simp add: get_path_for_object_def fresh_instance_eq ht_get_lookup root_table_lookup)
  ultimately show ?thesis
    using entry_in_object_roundtrip [of fresh_instance 0 "[]" "''x''" h n'] g
    by (simp add: join_path_def slash_def)
qed

section \<open>Short paths\<close>

text \<open>
  An entry directly below the root cannot be reached by its path. For \<open>/x\<close> the parent path is
  empty, and the loop over the parent path takes the substring behind its first character, which
  throws \<open>std::out_of_range\<close>. Through the root object and the name the same entry is reachable.
\<close>

theorem entry_below_root_out_of_range:
  assumes "slash \<notin> set name"
  shows "get_entry (slash # name) n = (Inl Out_of_range, n)"
proof -
  have "get_parent_path (slash # name) = Some []"
    using join_path_parts(1) [OF assms, of "[]"] by (simp add: join_path_def)
  moreover have "create_objects [] 0 (in_root n) n = (Inl Out_of_range, n)"
    by (subst create_objects.simps) (simp add: find_from_def substr_from_def)
  ultimately show ?thesis by (simp add: get_entry_def get_or_create_object_def)
qed

lemma entry_below_root_out_of_range_witness:
  "get_entry ''/x'' fresh_instance = (Inl Out_of_range, fresh_instance)"
  using entry_below_root_out_of_range [of "''x''" fresh_instance] by (simp add: slash_def)

text \<open>
  A path that does not start with a slash loses its first character, whatever it is: asking for
  the object \<open>abc\<close> is asking for the object \<open>/bc\<close>, and asking for \<open>a\<close> returns the root.
\<close>

theorem path_without_slash_drops_first_character:
  assumes "slash \<notin> set path"
  shows "get_object (c # path) n = get_object (slash # path) n \<and>
     (path = [] \<longrightarrow> get_object (c # path) n = (Inr (in_root n), n))"
proof -
  have "get_object (x # path) n =
      (if path = [] then (Inr (in_root n), n) else get_or_create_child (in_root n) path n)" for x
    using assms unfolding get_object_def get_or_create_object_def
    by (subst create_objects.simps)
       (simp add: find_from_def find_char_None [THEN iffD2] substr_from_def)
  from this [of c] this [of slash] show ?thesis by auto
qed

lemma path_without_slash_drops_first_character_witness:
  "get_object ''abc'' fresh_instance = get_object ''/bc'' fresh_instance"
  using path_without_slash_drops_first_character [of "''bc''" "CHR ''a''" fresh_instance]
  by (simp add: slash_def)

section \<open>Deleted objects\<close>

lemma delete_object_effect:
  assumes "objects_linked n" and "storage_ok (in_storage n)" and "obj \<noteq> in_root n"
    and "ht_lookup (in_objects n) obj = Some d"
  shows "\<exists>n'. delete_object tm obj n = (Inr (), n') \<and>
     ht_lookup (in_objects n') = (ht_lookup (in_objects n))(obj := None) \<and> ht_ok (in_objects n') \<and>
     in_object_paths n' = in_object_paths n \<and> in_root n' = in_root n \<and>
     in_objects n' = snd (ht_release obj (in_objects n))"
proof -
  obtain s' where "delete_entries tm (od_path d) (in_storage n) = (Inr (), s')"
    using delete_entries_succeeds [OF assms(2)] by blast
  moreover note tab.release_Some [OF objects_linkedD(1) [OF assms(1)] assms(4)]
  ultimately show ?thesis
    using assms(3,4)
    by (cases "ht_release obj (in_objects n)"; cases "fst (ht_release obj (in_objects n))")
       (auto simp: delete_object_def ht_get_lookup on_storage_def)
qed

text \<open>
  A deleted object leaves its path behind. Asking its parent for the child of that name returns
  the handle of the deleted object, which no longer names anything; once the handle has been given to
  another object, the old name leads to that other object, so that two children of one parent are the
  same object under two names.
\<close>

theorem deleted_object_path_dangles:
  assumes "objects_linked n" and "storage_ok (in_storage n)"
    and "ht_lookup (in_objects n) parent = Some pd" and "parent \<noteq> obj" and "obj \<noteq> in_root n"
    and "get_path_for_object obj n = Inr (join_path (od_path pd) name)"
    and "verify_valid_name name = Inr ()"
    and "delete_object tm obj n = (r, n')"
  shows "r = Inr () \<and> get_child parent name n' = (Inr obj, n') \<and>
     get_path_for_object obj n' = Inl (No_such_handle obj) \<and>
     (\<forall>other n''. get_child parent other n' = (Inr obj, n'') \<and> join_path (od_path pd) other \<noteq> join_path (od_path pd) name \<longrightarrow>
        get_child parent name n'' = (Inr obj, n''))"
proof -
  obtain d where d: "ht_lookup (in_objects n) obj = Some d" "od_path d = join_path (od_path pd) name"
    using assms(6) by (auto simp: get_path_for_object_def ht_get_lookup split: option.splits)
  from delete_object_effect [OF assms(1,2,5) d(1), of tm] assms(8)
  have n': "r = Inr ()" "ht_lookup (in_objects n') = (ht_lookup (in_objects n))(obj := None)"
    "in_object_paths n' = in_object_paths n" "ht_ok (in_objects n')" by auto
  have path: "in_object_paths n' (join_path (od_path pd) name) = Some obj"
    using assms(1,5) d n'(3) unfolding objects_linked_def by metis
  have pd: "ht_lookup (in_objects n') parent = Some pd" using assms(3,4) n'(2) by simp
  have child: "get_child parent name n'' = (Inr obj, n'')"
    if "in_object_paths n'' (join_path (od_path pd) name) = Some obj"
      "ht_lookup (in_objects n'') parent = Some pd" for n'' :: "'a instance_state"
    using that assms(7) by (simp add: get_child_def get_or_create_child_def ht_get_lookup Let_def)
  have "get_child parent name n'' = (Inr obj, n'')"
    if c: "get_child parent other n' = (Inr obj, n'')" for other n''
  proof (rule child)
    from c have g: "get_or_create_child parent other n' = (Inr obj, n'')"
      by (auto simp: get_child_def split: sum.splits)
    show "in_object_paths n'' (join_path (od_path pd) name) = Some obj"
      using g path pd
      by (auto simp: get_or_create_child_def ht_get_lookup Let_def map_emplace_def
          split: option.splits prod.splits sum.splits)
    show "ht_lookup (in_objects n'') parent = Some pd"
    proof (cases "in_object_paths n' (join_path (od_path pd) other)")
      case None
      then obtain t where a: "allocate_new_with_handle (\<lambda>_. \<lparr>od_name = other, od_path = join_path (od_path pd) other\<rparr>)
          (in_objects n') = (Inr obj, t)" "in_objects n'' = t"
        using g pd
        by (auto simp: get_or_create_child_def ht_get_lookup Let_def allocate_new_alt
            split: prod.splits sum.splits)
      from tab.alloc_keeps [OF n'(4) a(1) pd] a(2) show ?thesis by simp
    next
      case (Some k)
      with g pd show ?thesis by (auto simp: get_or_create_child_def ht_get_lookup Let_def)
    qed
  qed
  moreover have "get_path_for_object obj n' = Inl (No_such_handle obj)"
    using n'(2) by (simp add: get_path_for_object_def ht_get_lookup)
  ultimately show ?thesis using n'(1) child [OF path pd] by blast
qed

text \<open>The run of the example: create \<open>/a\<close>, delete it, create \<open>/b\<close>, ask for \<open>/a\<close>.\<close>

definition with_a :: "string instance_state" where
  "with_a = snd (get_child 0 ''a'' fresh_instance)"

definition without_a :: "string instance_state" where
  "without_a = snd (delete_object (\<lambda>_. 0) 1 with_a)"

definition with_b :: "string instance_state" where
  "with_b = snd (get_child 0 ''b'' without_a)"

definition a_table :: "object_data handle_table" where
  "a_table = \<lparr>ht_data = [Some \<lparr>od_name = [], od_path = []\<rparr>, Some \<lparr>od_name = ''a'', od_path = ''/a''\<rparr>] @
     replicate 254 None, ht_count = 2\<rparr>"

lemma with_a_eq:
  "get_child 0 ''a'' fresh_instance = (Inr 1, with_a)"
  "with_a = fresh_instance\<lparr>in_objects := a_table, in_object_paths := [''/a'' \<mapsto> 1]\<rparr>"
proof -
  have r: "replicate 255 None = None # replicate 254 (None :: object_data option)"
    by (simp add: numeral_eq_Suc)
  have v: "verify_valid_name ''a'' = Inr ()" by (simp add: verify_valid_name_def slash_def)
  have j: "join_path [] ''a'' = ''/a''" by (simp add: join_path_def slash_def)
  have "get_child 0 ''a'' fresh_instance =
      (Inr 1, fresh_instance\<lparr>in_objects := a_table, in_object_paths := [''/a'' \<mapsto> 1]\<rparr>)"
    by (simp add: get_child_def v get_or_create_child_def fresh_instance_eq ht_get_lookup
        root_table_lookup Let_def j allocate_new_def find_next_available_spot_def)
       (simp add: root_table_def r a_table_def map_emplace_def)
  then show "get_child 0 ''a'' fresh_instance = (Inr 1, with_a)"
    "with_a = fresh_instance\<lparr>in_objects := a_table, in_object_paths := [''/a'' \<mapsto> 1]\<rparr>"
    by (simp_all add: with_a_def)
qed

lemma with_a_linked:
  "objects_linked with_a" "storage_ok (in_storage with_a)"
  "ht_lookup (in_objects with_a) 0 = Some \<lparr>od_name = [], od_path = []\<rparr>"
  "ht_lookup (in_objects with_a) 1 = Some \<lparr>od_name = ''a'', od_path = ''/a''\<rparr>"
  "in_root with_a = 0"
proof -
  have v: "verify_valid_name ''a'' = Inr ()" "slash \<notin> set ''a''"
    by (simp_all add: verify_valid_name_def slash_def)
  have g: "get_or_create_child 0 ''a'' fresh_instance = (Inr 1, with_a)"
    using with_a_eq(1) v(1) by (simp add: get_child_def)
  have p: "ht_lookup (in_objects fresh_instance) 0 = Some \<lparr>od_name = [], od_path = []\<rparr>"
    by (simp add: fresh_instance_eq root_table_lookup)
  from child_cases [OF fresh_instance_linked v(2) p g]
  show l: "objects_linked with_a" and "storage_ok (in_storage with_a)" "in_root with_a = 0"
    by (auto simp: fresh_instance_eq)
  then show "ht_lookup (in_objects with_a) 0 = Some \<lparr>od_name = [], od_path = []\<rparr>"
    using objects_linkedD(2) [OF l] by simp
  show "ht_lookup (in_objects with_a) 1 = Some \<lparr>od_name = ''a'', od_path = ''/a''\<rparr>"
    by (simp add: with_a_eq(2) ht_lookup_eq a_table_def ht_capacity_def empty_handle_def)
qed

lemma deleted_object_path_dangles_witness:
  "get_child 0 ''a'' without_a = (Inr 1, without_a) \<and>
   get_path_for_object 1 without_a = Inl (No_such_handle 1) \<and>
   get_child 0 ''b'' without_a = (Inr 1, with_b) \<and>
   get_child 0 ''a'' with_b = (Inr 1, with_b)"
proof -
  have v: "verify_valid_name ''a'' = Inr ()" by (simp add: verify_valid_name_def slash_def)
  have j: "join_path [] ''a'' = ''/a''" "join_path [] ''b'' = ''/b''" by (simp_all add: join_path_def slash_def)
  have p: "get_path_for_object 1 with_a = Inr (join_path (od_path \<lparr>od_name = [], od_path = []\<rparr>) ''a'')"
    by (simp add: get_path_for_object_def ht_get_lookup with_a_linked j)
  obtain r where d: "delete_object (\<lambda>_. 0) 1 with_a = (r, without_a)"
    by (metis without_a_def prod.collapse)
  have root: "1 \<noteq> in_root with_a" by (simp add: with_a_linked)
  note dangles = deleted_object_path_dangles
    [OF with_a_linked(1,2,3) _ root p v d]
  have b: "get_child 0 ''b'' without_a = (Inr 1, with_b)"
  proof -
    have paths: "in_object_paths without_a = [''/a'' \<mapsto> 1]"
      "in_objects without_a = snd (ht_release 1 a_table)"
      using delete_object_effect [OF with_a_linked(1,2) root with_a_linked(4), of "\<lambda>_. 0"]
      by (auto simp: without_a_def with_a_eq(2))
    have tbl: "snd (ht_release 1 a_table) = root_table"
      by (simp add: ht_release_def ht_has_def a_table_def ht_capacity_def empty_handle_def root_table_def
          numeral_eq_Suc)
    have "\<exists>n'. get_child 0 ''b'' without_a = (Inr 1, n')"
      by (simp add: get_child_def verify_valid_name_def slash_def get_or_create_child_def ht_get_lookup
          paths tbl root_table_lookup Let_def j allocate_new_def find_next_available_spot_def)
         (simp add: root_table_def numeral_eq_Suc)
    then show ?thesis by (auto simp: with_b_def)
  qed
  have cond: "get_child 0 ''b'' without_a = (Inr 1, with_b) \<and> join_path [] ''b'' \<noteq> ''/a''"
    using b by (simp add: j)
  have imp: "\<forall>other n''. get_child 0 other without_a = (Inr 1, n'') \<and> join_path [] other \<noteq> ''/a'' \<longrightarrow>
      get_child 0 ''a'' n'' = (Inr 1, n'')"
    using dangles by (simp add: j)
  have "get_child 0 ''a'' with_b = (Inr 1, with_b)"
    by (rule imp [THEN spec, THEN spec, THEN mp, OF cond])
  with dangles b show ?thesis by (simp add: j)
qed

end
