(* ===== verification/Obsr_Reader.thy ===== *)
theory Obsr_Reader
  imports Obsr_Messages
begin

text \<open>
  The reader of a connection (\<open>reader\<close> in \<open>src/net/io.h\<close> and \<open>src/net/io.cpp\<close>): a state machine over
  a circular buffer of received bytes that looks for the next header, then waits for the message
  behind it. The lemmas show that it takes exactly the frames out of the stream, however the stream
  is cut into pieces.
\<close>

section \<open>State and operations\<close>

definition message_buffer_size :: nat where
  "message_buffer_size = 1024"

record read_data =
  rd_header :: message_header
  rd_message :: bytes

datatype read_state = rs_header | rs_message

definition read_unsupported_size :: u8 where "read_unsupported_size = 1"
definition read_unknown_state :: u8 where "read_unknown_state = 2"
definition read_failed :: u8 where "read_failed = 3"

record reader = "(read_state, read_data) state_machine" +
  rr_buffer :: circular_buffer

text \<open>The constructor leaves the read data and the block indeterminate.\<close>

definition reader_new :: "read_data \<Rightarrow> (nat \<Rightarrow> u8) \<Rightarrow> nat \<Rightarrow> reader" where
  "reader_new junk block sz =
     \<lparr>sm_state = os_start, sm_user_state = rs_header, sm_error_code = 0, sm_data = junk,
      rr_buffer = circ_new block sz\<rparr>"

definition reader_update :: "'r os_read \<Rightarrow> reader \<Rightarrow> 'r \<Rightarrow> (exn + bool) \<times> reader \<times> 'r" where
  "reader_update rdf m r =
     (case circ_read_from rdf (rr_buffer m) r of (res, b, r) \<Rightarrow> (res, m\<lparr>rr_buffer := b\<rparr>, r))"

text \<open>
  The loop of the header state: seek to the next magic byte and read a header there, until one has the
  right version. \<open>None\<close> stands for a loop that does not end.
\<close>

partial_function (option) find_header ::
  "message_header \<Rightarrow> circular_buffer \<Rightarrow> (bool \<times> message_header \<times> circular_buffer) option" where
  "find_header h b =
     (case circ_find_and_seek_read b message_magic of
        (found, b) \<Rightarrow>
          if \<not> found then Some (False, h, b)
          else
            (case circ_read b header_size of
               (r, b) \<Rightarrow>
                 (case r of
                    None \<Rightarrow> Some (False, h, b)
                  | Some bs \<Rightarrow>
                      (let h = header_convert_host (header_of_bytes bs) in
                       if mh_magic h \<noteq> message_magic \<or> mh_version h \<noteq> current_version
                       then find_header h b else Some (True, h, b)))))"

definition no_exn :: "bool \<times> 'o \<Rightarrow> (exn + bool) \<times> 'o" where
  "no_exn r = (case r of (b, m) \<Rightarrow> (Inr b, m))"

text \<open>A loop without effects that does not end is undefined in C++.\<close>

definition reader_step :: "(read_state, reader) processor" where
  "reader_step s m =
     (case s of
        rs_header \<Rightarrow>
          (case find_header (rd_header (sm_data m)) (rr_buffer m) of
             None \<Rightarrow> (Inl Undefined_behaviour, m)
           | Some (found, h, b) \<Rightarrow>
               (let m = m\<lparr>sm_data := (sm_data m)\<lparr>rd_header := h\<rparr>, rr_buffer := b\<rparr> in
                no_exn (if found then move_to_state rs_message m else try_later m)))
      | rs_message \<Rightarrow>
          (let sz = unat (mh_size (rd_header (sm_data m))) in
           if sz > message_buffer_size then
             no_exn (sm_error read_unsupported_size (m\<lparr>rr_buffer := circ_seek_read (rr_buffer m) sz\<rparr>))
           else if \<not> circ_can_read (rr_buffer m) sz then no_exn (try_later m)
           else
             (case circ_read (rr_buffer m) sz of
                (None, b) \<Rightarrow> no_exn (sm_error read_failed (m\<lparr>rr_buffer := b\<rparr>))
              | (Some bs, b) \<Rightarrow>
                  no_exn (finished (m\<lparr>sm_data := (sm_data m)\<lparr>rd_message := mem_write (rd_message (sm_data m)) 0 bs\<rparr>,
                                     rr_buffer := b\<rparr>)))))"

definition reader_process :: "reader \<Rightarrow> ((exn + unit) \<times> reader) option" where
  "reader_process m = sm_process reader_step rs_header m"

definition reader_reset :: "reader \<Rightarrow> reader" where
  "reader_reset m = sm_reset rs_header m"

section \<open>Frames\<close>

definition good_header :: "message_header \<Rightarrow> bool" where
  "good_header h \<longleftrightarrow> mh_magic h = message_magic \<and> mh_version h = current_version"

definition frame_bytes :: "message_header \<Rightarrow> bytes \<Rightarrow> bytes" where
  "frame_bytes h payload = header_bytes (header_convert_net h) @ payload"

definition good_frame :: "message_header \<times> bytes \<Rightarrow> bool" where
  "good_frame f \<longleftrightarrow> good_header (fst f) \<and> unat (mh_size (fst f)) = length (snd f) \<and> length (snd f) < 1024"

lemma header_net_Cons:
  "good_header h \<Longrightarrow> \<exists>xs. header_bytes (header_convert_net h) = message_magic # xs \<and> length xs = 10"
  by (simp add: header_bytes_def header_convert_net_def good_header_def)

section \<open>The header loop\<close>

lemma find_header_absent:
  assumes "circ_ok b" and "message_magic \<notin> set (circ_content b)"
  shows "\<exists>b'. find_header h b = Some (False, h, b') \<and> circ_ok b' \<and> cb_size b' = cb_size b \<and>
     (circ_content b' = [] \<or> b' = b)"
proof -
  from circ_find_spec [OF assms(1), of message_magic] assms(2) obtain b' where b':
    "circ_find_and_seek_read b message_magic = (False, b')" "circ_ok b'"
    "circ_content b' = [] \<or> b' = b" by auto
  with circ_size(1) [of b message_magic] show ?thesis by (subst find_header.simps) auto
qed

lemma find_header_short:
  assumes ok: "circ_ok b" and c: "circ_content b = junk @ message_magic # rest"
    and junk: "message_magic \<notin> set junk" and short: "length rest < 10"
  shows "\<exists>b'. find_header h b = Some (False, h, b') \<and> circ_ok b' \<and> cb_size b' = cb_size b \<and>
     circ_content b' = message_magic # rest"
proof -
  have "dropWhile (\<lambda>x. x \<noteq> message_magic) (junk @ message_magic # rest) = message_magic # rest"
    using junk by (auto simp: dropWhile_append)
  with circ_find_spec [OF ok, of message_magic] c obtain b' where b':
    "circ_find_and_seek_read b message_magic = (True, b')" "circ_ok b'"
    "circ_content b' = message_magic # rest" by auto
  from circ.rd_short [OF b'(2), of header_size] b'(3) short
  have "circ_read b' header_size = (None, b')" by (simp add: header_size_def)
  with b' circ_size(1) [of b message_magic] show ?thesis by (subst find_header.simps) auto
qed

lemma find_header_step:
  assumes ok: "circ_ok b" and c: "circ_content b = junk @ hb @ rest"
    and junk: "message_magic \<notin> set junk" and hb: "length hb = header_size" "hd hb = message_magic"
  shows "\<exists>b'. circ_ok b' \<and> cb_size b' = cb_size b \<and> circ_content b' = rest \<and>
     find_header h b =
       (let h = header_convert_host (header_of_bytes hb) in
        if mh_magic h \<noteq> message_magic \<or> mh_version h \<noteq> current_version
        then find_header h b' else Some (True, h, b'))"
proof -
  obtain xs where xs: "hb = message_magic # xs"
    using hb by (cases hb) (auto simp: header_size_def)
  have "dropWhile (\<lambda>x. x \<noteq> message_magic) (junk @ hb @ rest) = hb @ rest"
    using junk xs by (auto simp: dropWhile_append)
  with circ_find_spec [OF ok, of message_magic] c xs obtain b1 where b1:
    "circ_find_and_seek_read b message_magic = (True, b1)" "circ_ok b1"
    "circ_content b1 = hb @ rest" by auto
  from circ.rd_front [OF b1(2,3)] hb obtain b2 where b2:
    "circ_read b1 header_size = (Some hb, b2)" "circ_ok b2" "circ_content b2 = rest" by auto
  have "cb_size b2 = cb_size b"
    using circ_size(1) [of b message_magic] circ_size(3) [of b1 header_size] b1 b2 by simp
  with b1 b2 show ?thesis by (subst find_header.simps) (auto simp: Let_def)
qed

lemma find_header_good:
  assumes ok: "circ_ok b" and c: "circ_content b = junk @ header_bytes (header_convert_net g) @ rest"
    and junk: "message_magic \<notin> set junk" and g: "good_header g"
  shows "\<exists>b'. find_header h b = Some (True, g, b') \<and> circ_ok b' \<and> cb_size b' = cb_size b \<and>
     circ_content b' = rest"
proof -
  have "hd (header_bytes (header_convert_net g)) = message_magic" using header_net_Cons [OF g] by auto
  from find_header_step [OF ok c junk _ this, of h] g show ?thesis
    by (auto simp: good_header_def Let_def)
qed

text \<open>The loop always ends: every round takes a header off the unread bytes.\<close>

lemma find_header_returns:
  assumes "circ_ok b"
  shows "\<exists>found h' b'. find_header h b = Some (found, h', b') \<and> circ_ok b' \<and> cb_size b' = cb_size b"
  using assms
proof (induction "length (circ_content b)" arbitrary: b h rule: less_induct)
  case less
  show ?case
  proof (cases "message_magic \<in> set (circ_content b)")
    case False
    from find_header_absent [OF less.prems False] show ?thesis by blast
  next
    case True
    then obtain junk rest where c: "circ_content b = junk @ message_magic # rest"
      and junk: "message_magic \<notin> set junk" by (meson split_list_first)
    show ?thesis
    proof (cases "length rest < 10")
      case True
      from find_header_short [OF less.prems c junk True] show ?thesis by blast
    next
      case False
      let ?hb = "message_magic # take 10 rest"
      have "circ_content b = junk @ ?hb @ drop 10 rest" using c by simp
      moreover have "length ?hb = header_size" using False by (simp add: header_size_def)
      ultimately obtain b' where b': "circ_ok b'" "cb_size b' = cb_size b" "circ_content b' = drop 10 rest"
        "find_header h b = (let h = header_convert_host (header_of_bytes ?hb) in
          if mh_magic h \<noteq> message_magic \<or> mh_version h \<noteq> current_version
          then find_header h b' else Some (True, h, b'))"
        using find_header_step [OF less.prems _ junk, of ?hb "drop 10 rest" h] by auto
      have "length (circ_content b') < length (circ_content b)" using b'(3) c by simp
      from less.hyps [OF this b'(1)] b' show ?thesis by (auto simp: Let_def)
    qed
  qed
qed

section \<open>Processing always returns\<close>

definition reader_ok :: "reader \<Rightarrow> bool" where
  "reader_ok m \<longleftrightarrow> circ_ok (rr_buffer m) \<and> cb_size (rr_buffer m) = 1024 \<and>
     length (rd_message (sm_data m)) = message_buffer_size"

lemma reader_step_ok:
  assumes "reader_ok m"
  shows "reader_ok (snd (reader_step s m)) \<and> (\<exists>b. fst (reader_step s m) = Inr b) \<and>
     (fst (reader_step s m) = Inr True \<longrightarrow> s = rs_header \<and> sm_user_state (snd (reader_step s m)) = rs_message)"
proof (cases s)
  case rs_header
  have ok: "circ_ok (rr_buffer m)" using assms by (simp add: reader_ok_def)
  obtain found h b where "find_header (rd_header (sm_data m)) (rr_buffer m) = Some (found, h, b)"
    "circ_ok b" "cb_size b = cb_size (rr_buffer m)"
    using find_header_returns [OF ok] by blast
  with rs_header assms show ?thesis
    by (auto simp: reader_step_def Let_def no_exn_def move_to_state_def try_later_def reader_ok_def)
next
  case rs_message
  let ?sz = "unat (mh_size (rd_header (sm_data m)))"
  have ok: "circ_ok (rr_buffer m)" using assms by (simp add: reader_ok_def)
  have r: "circ_ok (snd (circ_read (rr_buffer m) ?sz))" using circ.rd_ok [OF ok] .
  have n: "length bs = ?sz" if "circ_read (rr_buffer m) ?sz = (Some bs, b)" for bs b
    using circ.rd_Some [OF ok that] by simp
  show ?thesis
    using rs_message assms circ_seek_ok [OF ok, of ?sz] r circ_size(3) [of "rr_buffer m" ?sz] n
    by (cases "circ_read (rr_buffer m) ?sz"; cases "fst (circ_read (rr_buffer m) ?sz)")
       (auto simp: reader_step_def Let_def no_exn_def sm_error_def try_later_def finished_def
          reader_ok_def length_mem_write)
qed

fun read_rank :: "read_state \<Rightarrow> nat" where
  "read_rank rs_header = 1"
| "read_rank rs_message = 0"

interpretation reading: ranked_machine reader_step "\<lambda>m. read_rank (sm_user_state m)" reader_ok rs_header
proof
  show "read_rank (sm_user_state m') < read_rank (sm_user_state m)"
    if "reader_ok m" "reader_step (sm_user_state m) m = (Inr True, m')" for m m'
    using reader_step_ok [OF that(1), of "sm_user_state m"] that(2) by simp
  show "reader_ok (snd (reader_step (sm_user_state m) m))" if "reader_ok m" for m
    using reader_step_ok [OF that] by blast
  show "reader_ok (m\<lparr>sm_state := os_in_state, sm_error_code := 0, sm_user_state := rs_header\<rparr>)"
    if "reader_ok m" for m using that by (simp add: reader_ok_def)
qed

section \<open>What the reader has still to deliver\<close>

text \<open>
  The bytes received and not yet delivered: the unread ones, behind the header of the message the
  reader waits for, if it does.
\<close>

definition waits_for_message :: "reader \<Rightarrow> bool" where
  "waits_for_message m \<longleftrightarrow> sm_state m = os_in_state \<and> sm_user_state m = rs_message"

definition undelivered :: "reader \<Rightarrow> bytes" where
  "undelivered m =
     (if waits_for_message m
      then header_bytes (header_convert_net (rd_header (sm_data m))) @ circ_content (rr_buffer m)
      else circ_content (rr_buffer m))"

definition reading :: "reader \<Rightarrow> bool" where
  "reading m \<longleftrightarrow> reader_ok m \<and> (sm_state m = os_start \<or> sm_state m = os_in_state) \<and> sm_error_code m = 0 \<and>
     (waits_for_message m \<longrightarrow>
        good_header (rd_header (sm_data m)) \<and> unat (mh_size (rd_header (sm_data m))) < 1024)"

lemma header_bytes_net_inj:
  "header_bytes (header_convert_net g) = header_bytes (header_convert_net h) \<Longrightarrow> g = h"
  by (metis header_convert_host_net header_of_bytes_of_header)

lemma reader_reset_reading:
  "reader_ok m \<Longrightarrow> reading (reader_reset m) \<and> undelivered (reader_reset m) = circ_content (rr_buffer m)"
  by (simp add: reading_def undelivered_def waits_for_message_def reader_reset_def sm_reset_def reader_ok_def)

lemma process_in_message:
  assumes "waits_for_message m"
  shows "reader_process m = process_loop reader_step m"
  using assms by (simp add: reader_process_def sm_process_def waits_for_message_def)

text \<open>The header state, entered or still in it.\<close>

definition in_header :: "reader \<Rightarrow> reader" where
  "in_header m = m\<lparr>sm_state := os_in_state, sm_error_code := 0, sm_user_state := rs_header\<rparr>"

lemma process_in_header:
  assumes "reading m" and "\<not> waits_for_message m"
  shows "reader_process m = process_loop reader_step (in_header m)"
proof -
  consider "sm_state m = os_start" | "sm_state m = os_in_state" "sm_user_state m = rs_header"
    using assms by (cases "sm_user_state m") (auto simp: reading_def waits_for_message_def)
  then show ?thesis
  proof cases
    case 2
    then have "in_header m = m" using assms by (simp add: in_header_def reading_def)
    with 2 show ?thesis by (simp add: reader_process_def sm_process_def)
  qed (simp add: reader_process_def sm_process_def in_header_def)
qed

text \<open>The message state, with all of the message there or not.\<close>

lemma message_complete:
  assumes "waits_for_message m" and "reader_ok m" and c: "circ_content (rr_buffer m) = p @ rest"
    and sz: "unat (mh_size (rd_header (sm_data m))) = length p" "length p < 1024"
  shows "\<exists>m'. process_loop reader_step m = Some (Inr (), m') \<and> is_finished m' \<and>
     sm_error_code m' = sm_error_code m \<and> rd_header (sm_data m') = rd_header (sm_data m) \<and>
     take (length p) (rd_message (sm_data m')) = p \<and> circ_content (rr_buffer m') = rest \<and> reader_ok m'"
proof -
  have ok: "circ_ok (rr_buffer m)" using assms by (simp add: reader_ok_def)
  from circ.rd_front [OF ok c refl] obtain b where
    b: "circ_read (rr_buffer m) (length p) = (Some p, b)" "circ_ok b" "circ_content b = rest" by auto
  let ?m = "m\<lparr>sm_state := os_end, sm_data := (sm_data m)\<lparr>rd_message := mem_write (rd_message (sm_data m)) 0 p\<rparr>,
      rr_buffer := b\<rparr>"
  have "circ_can_read (rr_buffer m) (length p)" using circ_can_read_iff [OF ok] c by simp
  then have "process_once reader_step m = (Inr False, ?m)"
    using assms(1) b sz
    by (simp add: waits_for_message_def reader_step_def Let_def no_exn_def finished_def message_buffer_size_def)
  then have loop: "process_loop reader_step m = Some (Inr (), ?m)" by (rule process_loop_stop)
  have "reader_ok ?m"
    using assms(2) b sz circ_size(3) [of "rr_buffer m" "length p"]
    by (simp add: reader_ok_def message_buffer_size_def)
  then show ?thesis
    using b by (intro exI [of _ ?m]) (simp add: loop is_finished_def mem_write_def)
qed

lemma message_incomplete:
  assumes "waits_for_message m" and "reader_ok m"
    and "length (circ_content (rr_buffer m)) < unat (mh_size (rd_header (sm_data m)))"
    and "unat (mh_size (rd_header (sm_data m))) \<le> 1024"
  shows "process_loop reader_step m = Some (Inr (), m)"
proof -
  have ok: "circ_ok (rr_buffer m)" using assms by (simp add: reader_ok_def)
  from assms have "process_once reader_step m = (Inr False, m)"
    using circ_can_read_iff [OF ok]
    by (simp add: waits_for_message_def reader_step_def Let_def no_exn_def try_later_def message_buffer_size_def)
  then show ?thesis by (rule process_loop_stop)
qed

text \<open>A complete header moves the reader into the message state; an incomplete one leaves it.\<close>

lemma header_complete:
  assumes "reader_ok m" and c: "circ_content (rr_buffer m) = junk @ header_bytes (header_convert_net h) @ rest"
    and junk: "message_magic \<notin> set junk" and h: "good_header h"
  shows "\<exists>m'. process_loop reader_step (in_header m) = process_loop reader_step m' \<and> waits_for_message m' \<and>
     reader_ok m' \<and> sm_error_code m' = 0 \<and> rd_header (sm_data m') = h \<and> circ_content (rr_buffer m') = rest"
proof -
  have ok: "circ_ok (rr_buffer m)" using assms(1) by (simp add: reader_ok_def)
  from find_header_good [OF ok c junk h] obtain b where b:
    "find_header (rd_header (sm_data m)) (rr_buffer m) = Some (True, h, b)" "circ_ok b"
    "cb_size b = cb_size (rr_buffer m)" "circ_content b = rest" by blast
  let ?m = "(in_header m)\<lparr>sm_data := (sm_data m)\<lparr>rd_header := h\<rparr>, rr_buffer := b, sm_state := os_in_state,
      sm_user_state := rs_message\<rparr>"
  have "process_once reader_step (in_header m) = (Inr True, ?m)"
    using b by (simp add: in_header_def reader_step_def Let_def no_exn_def move_to_state_def)
  from process_loop_again [OF this] b assms(1) show ?thesis
    by (intro exI [of _ ?m]) (simp add: waits_for_message_def reader_ok_def in_header_def)
qed

lemma header_incomplete:
  assumes "reader_ok m" and c: "circ_content (rr_buffer m) @ tail = header_bytes (header_convert_net h)"
    and h: "good_header h" and tail: "tail \<noteq> []"
  shows "\<exists>m'. process_loop reader_step (in_header m) = Some (Inr (), m') \<and> \<not> waits_for_message m' \<and>
     sm_state m' = os_in_state \<and> reader_ok m' \<and> sm_error_code m' = 0 \<and>
     circ_content (rr_buffer m') = circ_content (rr_buffer m)"
proof -
  have ok: "circ_ok (rr_buffer m)" using assms(1) by (simp add: reader_ok_def)
  obtain b where b: "find_header (rd_header (sm_data m)) (rr_buffer m) = Some (False, rd_header (sm_data m), b)"
    "circ_ok b" "cb_size b = cb_size (rr_buffer m)" "circ_content b = circ_content (rr_buffer m)"
  proof (cases "circ_content (rr_buffer m)")
    case Nil
    with find_header_absent [OF ok, of "rd_header (sm_data m)"] that show ?thesis by auto
  next
    case (Cons x xs)
    obtain ys where "header_bytes (header_convert_net h) = message_magic # ys" "length ys = 10"
      using header_net_Cons [OF h] by blast
    with Cons c tail have "x = message_magic" "length xs < 10"
      by (auto simp flip: length_greater_0_conv)
    with find_header_short [OF ok, of "[]" xs "rd_header (sm_data m)"] Cons that show ?thesis by auto
  qed
  let ?m = "(in_header m)\<lparr>rr_buffer := b\<rparr>"
  have "process_once reader_step (in_header m) = (Inr False, ?m)"
    using b by (simp add: in_header_def reader_step_def Let_def no_exn_def try_later_def)
  from process_loop_stop [OF this] b assms(1) show ?thesis
    by (intro exI [of _ ?m]) (simp add: waits_for_message_def reader_ok_def in_header_def)
qed

section \<open>The reader takes the frames out of the stream\<close>

lemma reader_whole_frame:
  assumes r: "reading m" and u: "undelivered m = frame_bytes h p @ rest" and f: "good_frame (h, p)"
  shows "\<exists>m'. reader_process m = Some (Inr (), m') \<and> is_finished m' \<and> \<not> is_errored m' \<and>
     rd_header (sm_data m') = h \<and> take (length p) (rd_message (sm_data m')) = p \<and>
     circ_content (rr_buffer m') = rest \<and> reader_ok m'"
proof -
  have ok: "reader_ok m" and e: "sm_error_code m = 0" using r by (auto simp: reading_def)
  have h: "good_header h" "unat (mh_size h) = length p" "length p < 1024" using f by (auto simp: good_frame_def)
  show ?thesis
  proof (cases "waits_for_message m")
    case True
    with u have "rd_header (sm_data m) = h" "circ_content (rr_buffer m) = p @ rest"
      by (auto simp: undelivered_def frame_bytes_def dest!: header_bytes_net_inj)
    with message_complete [OF True ok _ _ h(3)] process_in_message [OF True] h e
    show ?thesis by (auto simp: is_errored_def)
  next
    case False
    with u have "circ_content (rr_buffer m) = [] @ header_bytes (header_convert_net h) @ p @ rest"
      by (simp add: undelivered_def frame_bytes_def)
    from header_complete [OF ok this _ h(1)] obtain m1 where m1:
      "process_loop reader_step (in_header m) = process_loop reader_step m1" "waits_for_message m1"
      "reader_ok m1" "sm_error_code m1 = 0" "rd_header (sm_data m1) = h"
      "circ_content (rr_buffer m1) = p @ rest" by auto
    from message_complete [OF m1(2,3,6) _ h(3)] m1 h process_in_header [OF r False]
    show ?thesis by (auto simp: is_errored_def)
  qed
qed

lemma reader_part_of_frame:
  assumes r: "reading m" and u: "undelivered m @ tail = frame_bytes h p" and tail: "tail \<noteq> []"
    and f: "good_frame (h, p)"
  shows "\<exists>m'. reader_process m = Some (Inr (), m') \<and> \<not> is_finished m' \<and> \<not> is_errored m' \<and>
     reading m' \<and> undelivered m' = undelivered m"
proof -
  have ok: "reader_ok m" and e: "sm_error_code m = 0" using r by (auto simp: reading_def)
  have h: "good_header h" "unat (mh_size h) = length p" "length p < 1024" using f by (auto simp: good_frame_def)
  show ?thesis
  proof (cases "waits_for_message m")
    case True
    with u have hd: "rd_header (sm_data m) = h" and p: "circ_content (rr_buffer m) @ tail = p"
      by (auto simp: undelivered_def frame_bytes_def dest!: header_bytes_net_inj)
    have "length (circ_content (rr_buffer m)) < length p" using tail by (simp flip: p)
    with message_incomplete [OF True ok] hd h process_in_message [OF True] True r e
    show ?thesis by (auto simp: is_finished_def is_errored_def waits_for_message_def)
  next
    case False
    with u have c: "circ_content (rr_buffer m) @ tail = header_bytes (header_convert_net h) @ p"
      by (simp add: undelivered_def frame_bytes_def)
    consider (part) tail' where "tail' \<noteq> []"
        "circ_content (rr_buffer m) @ tail' = header_bytes (header_convert_net h)"
      | (whole) q where "circ_content (rr_buffer m) = header_bytes (header_convert_net h) @ q" "q @ tail = p"
      using c by (auto simp: append_eq_append_conv2) (metis append_Nil2)
    then show ?thesis
    proof cases
      case part
      from header_incomplete [OF ok part(2) h(1) part(1)] obtain m' where m':
        "process_loop reader_step (in_header m) = Some (Inr (), m')" "\<not> waits_for_message m'"
        "sm_state m' = os_in_state" "reader_ok m'" "sm_error_code m' = 0"
        "circ_content (rr_buffer m') = circ_content (rr_buffer m)" by blast
      then show ?thesis
        using process_in_header [OF r False] False
        by (auto simp: is_finished_def is_errored_def reading_def undelivered_def)
    next
      case whole
      from header_complete [OF ok _ _ h(1), of "[]" q] whole obtain m1 where m1:
        "process_loop reader_step (in_header m) = process_loop reader_step m1" "waits_for_message m1"
        "reader_ok m1" "sm_error_code m1 = 0" "rd_header (sm_data m1) = h"
        "circ_content (rr_buffer m1) = q" by auto
      have "length q < length p" using tail by (simp flip: whole(2))
      with message_incomplete [OF m1(2,3)] m1 h process_in_header [OF r False] False whole(1)
      show ?thesis
        by (auto simp: is_finished_def is_errored_def reading_def undelivered_def waits_for_message_def)
    qed
  qed
qed

end
