(* ===== verification/Obsr_Looper.thy ===== *)
theory Obsr_Looper
  imports Obsr_Handles Obsr_Time
begin

text \<open>
  The event loop (\<open>looper\<close> in \<open>src/events/events.h\<close> and \<open>src/events/events.cpp\<close>) and its poller
  (\<open>src/os/poller.cpp\<close>): resources and their event masks, the queue of updates of the masks, timers,
  and requests to execute. The poller is a virtual class, the callbacks are \<open>std::function\<close>s, the system
  calls belong to the operating system: they are parameters. A callback runs with the lock released, so
  it may call the looper; it is a function of the looper and of the rest of the world.
\<close>

section \<open>Events and the poller\<close>

type_synonym event_types = u32

definition event_in :: event_types where "event_in = 1"
definition event_out :: event_types where "event_out = 2"
definition event_error :: event_types where "event_error = 4"
definition event_hung :: event_types where "event_hung = 8"

text \<open>The bits of \<open>sys/epoll.h\<close>.\<close>

definition epollin :: u32 where "epollin = 0x001"
definition epollout :: u32 where "epollout = 0x004"
definition epollerr :: u32 where "epollerr = 0x008"
definition epollhup :: u32 where "epollhup = 0x010"

definition bit_if :: "u32 \<Rightarrow> u32 \<Rightarrow> u32 \<Rightarrow> u32" where
  "bit_if events test result = (if events AND test \<noteq> 0 then result else 0)"

definition events_to_native :: "event_types \<Rightarrow> u32" where
  "events_to_native events =
     bit_if events event_in epollin OR bit_if events event_out epollout OR
     bit_if events event_error epollerr OR bit_if events event_hung epollhup"

definition native_to_events :: "u32 \<Rightarrow> event_types" where
  "native_to_events events =
     bit_if events epollin event_in OR bit_if events epollout event_out OR
     bit_if events epollerr event_error OR bit_if events epollhup event_hung"

type_synonym descriptor = int

text \<open>The interface \<open>poller\<close>, over resources \<open>'r\<close> and a state \<open>'p\<close>.\<close>

record ('r, 'p) poller =
  pl_add :: "'r \<Rightarrow> event_types \<Rightarrow> 'p \<Rightarrow> (exn + unit) \<times> 'p"
  pl_set :: "'r \<Rightarrow> event_types \<Rightarrow> 'p \<Rightarrow> (exn + unit) \<times> 'p"
  pl_remove :: "'r \<Rightarrow> 'p \<Rightarrow> (exn + unit) \<times> 'p"
  pl_poll :: "nat \<Rightarrow> milliseconds \<Rightarrow> 'p \<Rightarrow> (exn + (descriptor \<times> event_types) list) \<times> 'p"

text \<open>
  \<open>resource_poller\<close>, over the system calls \<open>epoll_ctl\<close> and \<open>epoll_wait\<close>: they return an error number or
  what they did.
\<close>

datatype ctl_op = Ctl_add | Ctl_mod | Ctl_del

record 'k epoll_calls =
  epoll_ctl :: "ctl_op \<Rightarrow> descriptor \<Rightarrow> u32 \<Rightarrow> 'k \<Rightarrow> int option \<times> 'k"
  epoll_wait :: "nat \<Rightarrow> milliseconds \<Rightarrow> 'k \<Rightarrow> (int + (descriptor \<times> u32) list) \<times> 'k"

definition eintr :: int where "eintr = 4"

definition events_buffer_size :: nat where "events_buffer_size = 20"

definition rp_control ::
  "'k epoll_calls \<Rightarrow> ctl_op \<Rightarrow> descriptor \<Rightarrow> u32 \<Rightarrow> 'k \<Rightarrow> (exn + unit) \<times> 'k" where
  "rp_control calls op fd events k =
     (case epoll_ctl calls op fd events k of
        (None, k) \<Rightarrow> (Inr (), k)
      | (Some errno, k) \<Rightarrow> (Inl (Io_exception errno), k))"

definition rp_add ::
  "'k epoll_calls \<Rightarrow> ('r \<Rightarrow> descriptor) \<Rightarrow> 'r \<Rightarrow> event_types \<Rightarrow> 'k \<Rightarrow> (exn + unit) \<times> 'k" where
  "rp_add calls fd r events = rp_control calls Ctl_add (fd r) (events_to_native events)"

definition rp_set ::
  "'k epoll_calls \<Rightarrow> ('r \<Rightarrow> descriptor) \<Rightarrow> 'r \<Rightarrow> event_types \<Rightarrow> 'k \<Rightarrow> (exn + unit) \<times> 'k" where
  "rp_set calls fd r events = rp_control calls Ctl_mod (fd r) (events_to_native events)"

definition rp_remove ::
  "'k epoll_calls \<Rightarrow> ('r \<Rightarrow> descriptor) \<Rightarrow> 'r \<Rightarrow> 'k \<Rightarrow> (exn + unit) \<times> 'k" where
  "rp_remove calls fd r = rp_control calls Ctl_del (fd r) 0"

definition rp_poll ::
  "'k epoll_calls \<Rightarrow> nat \<Rightarrow> milliseconds \<Rightarrow> 'k \<Rightarrow> (exn + (descriptor \<times> event_types) list) \<times> 'k" where
  "rp_poll calls max_events timeout k =
     (if max_events > events_buffer_size
      then (Inl (Illegal_argument ''max events requested exceed support size''), k)
      else
        (case epoll_wait calls max_events timeout k of
           (Inl errno, k) \<Rightarrow> (if errno = eintr then (Inr [], k) else (Inl (Io_exception errno), k))
         | (Inr events, k) \<Rightarrow> (Inr (map (\<lambda>(fd, native). (fd, native_to_events native)) events), k)))"

definition resource_poller :: "'k epoll_calls \<Rightarrow> ('r \<Rightarrow> descriptor) \<Rightarrow> ('r, 'k) poller" where
  "resource_poller calls fd =
     \<lparr>pl_add = rp_add calls fd, pl_set = rp_set calls fd, pl_remove = rp_remove calls fd,
      pl_poll = rp_poll calls\<rparr>"

section \<open>The looper\<close>

record ('r, 'c) resource_data =
  rs_handle :: handle
  rs_resource :: 'r
  rs_events :: event_types
  rs_callback :: 'c

record 'c timer_data =
  td_timeout :: milliseconds
  td_callback :: 'c
  td_next :: milliseconds

datatype update_type = ut_add | ut_new_events | ut_new_events_add | ut_new_events_remove

datatype events_update_type = eu_override | eu_append | eu_remove

record update =
  up_handle :: handle
  up_type :: update_type
  up_events :: event_types

text \<open>
  \<open>lp_fd_map\<close> holds pointers to the objects of \<open>lp_handles\<close>; a pointer is the handle of its object.
  \<open>lp_signalled\<close> is whether the run signal is set.
\<close>

record ('r, 'c, 'p) looper =
  lp_poller :: 'p
  lp_handles :: "('r, 'c) resource_data handle_table"
  lp_fd_map :: "descriptor \<rightharpoonup> handle"
  lp_updates :: "update list"
  lp_requests :: "'c list"
  lp_signalled :: bool
  lp_timers :: "'c timer_data handle_table"
  lp_timeout :: milliseconds

type_synonym ('r, 'c, 'p, 'x) looper_op = "('r, 'c, 'p) looper \<Rightarrow> (exn + 'x) \<times> ('r, 'c, 'p) looper"

definition initial_poll_timeout :: milliseconds where "initial_poll_timeout = 1000"
definition min_poll_timeout :: milliseconds where "min_poll_timeout = 100"
definition max_events_for_process :: nat where "max_events_for_process = 20"
definition resource_capacity :: nat where "resource_capacity = 256"
definition timer_capacity :: nat where "timer_capacity = 16"

definition signal_run :: "('r, 'c, 'p) looper \<Rightarrow> ('r, 'c, 'p) looper" where
  "signal_run lp = lp\<lparr>lp_signalled := True\<rparr>"

definition looper_add ::
  "('r \<Rightarrow> descriptor) \<Rightarrow> 'r \<Rightarrow> event_types \<Rightarrow> 'c \<Rightarrow> ('r, 'c, 'p, handle) looper_op" where
  "looper_add fd resource events callback lp =
     (if lp_fd_map lp (fd resource) \<noteq> None then (Inl (Illegal_argument ''resource already added''), lp)
      else
        (case allocate_new_with_handle
                (\<lambda>h. \<lparr>rs_handle = h, rs_resource = resource, rs_events = 0, rs_callback = callback\<rparr>)
                (lp_handles lp) of
           (Inl e, t) \<Rightarrow> (Inl e, lp\<lparr>lp_handles := t\<rparr>)
         | (Inr h, t) \<Rightarrow>
             (Inr h, signal_run (lp\<lparr>lp_handles := t, lp_fd_map := (lp_fd_map lp)(fd resource \<mapsto> h),
                lp_updates := lp_updates lp @ [\<lparr>up_handle = h, up_type = ut_add, up_events = events\<rparr>]\<rparr>))))"

text \<open>The poller may throw; then the signal is not set, but the resource is released already.\<close>

definition looper_remove ::
  "('r, 'p) poller \<Rightarrow> ('r \<Rightarrow> descriptor) \<Rightarrow> handle \<Rightarrow> ('r, 'c, 'p, unit) looper_op" where
  "looper_remove pl fd h lp =
     (if \<not> ht_has (lp_handles lp) h then (Inl (No_such_handle h), lp)
      else
        (case ht_release h (lp_handles lp) of
           (Inl e, t) \<Rightarrow> (Inl e, lp\<lparr>lp_handles := t\<rparr>)
         | (Inr data, t) \<Rightarrow>
             (case pl_remove pl (rs_resource data) (lp_poller lp) of
                (res, p) \<Rightarrow>
                  (let lp = lp\<lparr>lp_poller := p, lp_handles := t,
                               lp_fd_map := (lp_fd_map lp)(fd (rs_resource data) := None)\<rparr>
                   in case res of Inl e \<Rightarrow> (Inl e, lp) | Inr _ \<Rightarrow> (Inr (), signal_run lp)))))"

fun update_type_of :: "events_update_type \<Rightarrow> update_type" where
  "update_type_of eu_override = ut_new_events"
| "update_type_of eu_append = ut_new_events_add"
| "update_type_of eu_remove = ut_new_events_remove"

definition request_updates ::
  "handle \<Rightarrow> event_types \<Rightarrow> events_update_type \<Rightarrow> ('r, 'c, 'p, unit) looper_op" where
  "request_updates h events t lp =
     (if \<not> ht_has (lp_handles lp) h then (Inl (No_such_handle h), lp)
      else (Inr (), signal_run (lp\<lparr>lp_updates := lp_updates lp @
              [\<lparr>up_handle = h, up_type = update_type_of t, up_events = events\<rparr>]\<rparr>)))"

definition create_timer ::
  "milliseconds \<Rightarrow> milliseconds \<Rightarrow> 'c \<Rightarrow> ('r, 'c, 'p, handle) looper_op" where
  "create_timer now timeout callback lp =
     (if timeout < min_poll_timeout then (Inl (Illegal_argument ''timeout too small''), lp)
      else
        (case allocate_new \<lparr>td_timeout = timeout, td_callback = callback, td_next = now + timeout\<rparr>
                (lp_timers lp) of
           (Inl e, t) \<Rightarrow> (Inl e, lp\<lparr>lp_timers := t\<rparr>)
         | (Inr h, t) \<Rightarrow>
             (Inr h, signal_run (lp\<lparr>lp_timers := t,
                lp_timeout := (if lp_timeout lp > timeout then timeout else lp_timeout lp)\<rparr>))))"

text \<open>The check is made on the table of the resources, the access on that of the timers.\<close>

definition stop_timer :: "handle \<Rightarrow> ('r, 'c, 'p, unit) looper_op" where
  "stop_timer h lp =
     (if \<not> ht_has (lp_handles lp) h then (Inl (No_such_handle h), lp)
      else
        (case ht_get (lp_timers lp) h of
           Inl e \<Rightarrow> (Inl e, lp)
         | Inr _ \<Rightarrow> (Inr (), lp\<lparr>lp_timers := ht_update h (\<lambda>d. d\<lparr>td_timeout := 0\<rparr>) (lp_timers lp)\<rparr>)))"

text \<open>
  \<open>request_execute\<close>, up to the wait of \<open>execute_type::sync\<close>, which ends when the loop has emptied the
  queue.
\<close>

definition request_execute :: "'c \<Rightarrow> ('r, 'c, 'p) looper \<Rightarrow> ('r, 'c, 'p) looper" where
  "request_execute callback lp = signal_run (lp\<lparr>lp_requests := lp_requests lp @ [callback]\<rparr>)"

text \<open>The constructor registers the run signal.\<close>

definition looper_new ::
  "('r \<Rightarrow> descriptor) \<Rightarrow> 'r \<Rightarrow> 'c \<Rightarrow> 'p \<Rightarrow> (exn + handle) \<times> ('r, 'c, 'p) looper" where
  "looper_new fd run_signal clear p =
     looper_add fd run_signal event_in clear
       \<lparr>lp_poller = p, lp_handles = ht_new resource_capacity, lp_fd_map = Map.empty, lp_updates = [],
        lp_requests = [], lp_signalled = False, lp_timers = ht_new timer_capacity,
        lp_timeout = initial_poll_timeout\<rparr>"

subsection \<open>One round of the loop\<close>

definition apply_update :: "update \<Rightarrow> event_types \<Rightarrow> event_types" where
  "apply_update u events =
     (case up_type u of
        ut_add \<Rightarrow> up_events u
      | ut_new_events \<Rightarrow> up_events u
      | ut_new_events_add \<Rightarrow> events OR up_events u
      | ut_new_events_remove \<Rightarrow> events AND NOT (up_events u))"

definition process_update :: "('r, 'p) poller \<Rightarrow> update \<Rightarrow> ('r, 'c, 'p, unit) looper_op" where
  "process_update pl u lp =
     (if \<not> ht_has (lp_handles lp) (up_handle u) then (Inr (), lp)
      else
        (case ht_get (lp_handles lp) (up_handle u) of
           Inl e \<Rightarrow> (Inl e, lp)
         | Inr data \<Rightarrow>
             (let events = apply_update u (rs_events data);
                  t = ht_update (up_handle u) (\<lambda>d. d\<lparr>rs_events := events\<rparr>) (lp_handles lp) in
              case (if up_type u = ut_add then pl_add pl else pl_set pl)
                     (rs_resource data) events (lp_poller lp) of
                (res, p) \<Rightarrow> (res, lp\<lparr>lp_poller := p, lp_handles := t\<rparr>))))"

text \<open>\<open>process_updates\<close>: an update is popped once it has been processed; an exception leaves it.\<close>

fun process_list ::
  "('r, 'p) poller \<Rightarrow> update list \<Rightarrow> ('r, 'c, 'p) looper \<Rightarrow> (exn + unit) \<times> update list \<times> ('r, 'c, 'p) looper"
where
  "process_list pl [] lp = (Inr (), [], lp)"
| "process_list pl (u # us) lp =
     (case process_update pl u lp of
        (Inl e, lp) \<Rightarrow> (Inl e, u # us, lp)
      | (Inr _, lp) \<Rightarrow> process_list pl us lp)"

definition process_updates :: "('r, 'p) poller \<Rightarrow> ('r, 'c, 'p, unit) looper_op" where
  "process_updates pl lp =
     (case process_list pl (lp_updates lp) lp of (res, us, lp) \<Rightarrow> (res, lp\<lparr>lp_updates := us\<rparr>))"

text \<open>
  A callback gets the looper and the rest of the world. What it throws is caught by \<open>catch (...)\<close>,
  except what is no exception: a failed assertion, undefined behaviour, a deadlock.
\<close>

definition catchable :: "exn \<Rightarrow> bool" where
  "catchable e \<longleftrightarrow> e \<noteq> Assertion_failed \<and> e \<noteq> Undefined_behaviour \<and> e \<noteq> Deadlock"

definition caught :: "(exn + unit) \<times> 's \<Rightarrow> (exn + unit) \<times> 's" where
  "caught r = (case r of (Inl e, s) \<Rightarrow> (if catchable e then Inr () else Inl e, s) | (Inr u, s) \<Rightarrow> (Inr u, s))"

record ('c, 'l, 'w) callbacks =
  run_io :: "'c \<Rightarrow> handle \<Rightarrow> event_types \<Rightarrow> 'l \<times> 'w \<Rightarrow> (exn + unit) \<times> 'l \<times> 'w"
  run_timer :: "'c \<Rightarrow> handle \<Rightarrow> 'l \<times> 'w \<Rightarrow> (exn + unit) \<times> 'l \<times> 'w"
  run_request :: "'c \<Rightarrow> 'l \<times> 'w \<Rightarrow> (exn + unit) \<times> 'l \<times> 'w"

fun process_events ::
  "('c, ('r, 'c, 'p) looper, 'w) callbacks \<Rightarrow> (descriptor \<times> event_types) list \<Rightarrow>
   ('r, 'c, 'p) looper \<times> 'w \<Rightarrow> (exn + unit) \<times> ('r, 'c, 'p) looper \<times> 'w" where
  "process_events cbs [] s = (Inr (), s)"
| "process_events cbs ((fd, revents) # events) s =
     (case lp_fd_map (fst s) fd of
        None \<Rightarrow> process_events cbs events s
      | Some h \<Rightarrow>
          (case ht_lookup (lp_handles (fst s)) h of
             None \<Rightarrow> (Inl Undefined_behaviour, s)
           | Some data \<Rightarrow>
               (let adjusted = rs_events data AND revents in
                if adjusted = 0 then process_events cbs events s
                else
                  (case caught (run_io cbs (rs_callback data) (rs_handle data) adjusted s) of
                     (Inl e, s) \<Rightarrow> (Inl e, s)
                   | (Inr _, s) \<Rightarrow> process_events cbs events s))))"

text \<open>
  The loop over the timers from an index on, with the handles to be removed; the iterator works on the
  table as the callbacks leave it.
\<close>

function timers_from ::
  "('c, ('r, 'c, 'p) looper, 'w) callbacks \<Rightarrow> milliseconds \<Rightarrow> nat \<Rightarrow> ('r, 'c, 'p) looper \<times> 'w \<Rightarrow>
   (exn + handle list) \<times> ('r, 'c, 'p) looper \<times> 'w" where
  "timers_from cbs now i s =
     (if i \<ge> timer_capacity then (Inr [], s)
      else
        (let h = of_nat i in
         case ht_lookup (lp_timers (fst s)) h of
           None \<Rightarrow> (Inl Undefined_behaviour, s)
         | Some data \<Rightarrow>
             (if td_timeout data = 0 then
                (case timers_from cbs now (iterate_to_next_element False (lp_timers (fst s)) i) s of
                   (Inl e, s) \<Rightarrow> (Inl e, s)
                 | (Inr hs, s) \<Rightarrow> (Inr (h # hs), s))
              else if td_next data > now then
                timers_from cbs now (iterate_to_next_element False (lp_timers (fst s)) i) s
              else
                (case caught (run_timer cbs (td_callback data) h s) of
                   (Inl e, s) \<Rightarrow> (Inl e, s)
                 | (Inr _, (lp, w)) \<Rightarrow>
                     (let t = ht_update h (\<lambda>d. d\<lparr>td_next := now + td_timeout d\<rparr>) (lp_timers lp) in
                      timers_from cbs now (iterate_to_next_element False t i) (lp\<lparr>lp_timers := t\<rparr>, w))))))"
  by pat_completeness auto
termination
  by (relation "measure (\<lambda>(cbs, now, i, s). timer_capacity - i)")
     (auto intro!: diff_less_mono2 iterate_to_next_element_gt)

declare timers_from.simps [simp del]

fun release_timers :: "handle list \<Rightarrow> 'c timer_data handle_table \<Rightarrow> (exn + unit) \<times> 'c timer_data handle_table" where
  "release_timers [] t = (Inr (), t)"
| "release_timers (h # hs) t =
     (case ht_release h t of (Inl e, t) \<Rightarrow> (Inl e, t) | (Inr _, t) \<Rightarrow> release_timers hs t)"

definition process_timers ::
  "('c, ('r, 'c, 'p) looper, 'w) callbacks \<Rightarrow> milliseconds \<Rightarrow> ('r, 'c, 'p) looper \<times> 'w \<Rightarrow>
   (exn + unit) \<times> ('r, 'c, 'p) looper \<times> 'w" where
  "process_timers cbs now s =
     (case timers_from cbs now (ht_begin False (lp_timers (fst s))) s of
        (Inl e, s) \<Rightarrow> (Inl e, s)
      | (Inr hs, (lp, w)) \<Rightarrow>
          (case release_timers hs (lp_timers lp) of (res, t) \<Rightarrow> (res, (lp\<lparr>lp_timers := t\<rparr>, w))))"

text \<open>
  The requests: the front one stays in the queue while it runs and is popped afterwards. A request may
  queue further ones without end, so the loop need not return.
\<close>

partial_function (option) execute_requests ::
  "('c, ('r, 'c, 'p) looper, 'w) callbacks \<Rightarrow> ('r, 'c, 'p) looper \<times> 'w \<Rightarrow>
   ((exn + unit) \<times> ('r, 'c, 'p) looper \<times> 'w) option" where
  "execute_requests cbs s =
     (case lp_requests (fst s) of
        [] \<Rightarrow> Some (Inr (), s)
      | c # cs \<Rightarrow>
          (case caught (run_request cbs c s) of
             (res, s) \<Rightarrow>
               (case res of
                  Inl e \<Rightarrow> Some (Inl e, s)
                | Inr _ \<Rightarrow>
                    execute_requests cbs ((fst s)\<lparr>lp_requests := tl (lp_requests (fst s))\<rparr>, snd s))))"

definition looper_loop ::
  "('r, 'p) poller \<Rightarrow> ('c, ('r, 'c, 'p) looper, 'w) callbacks \<Rightarrow> milliseconds \<Rightarrow>
   ('r, 'c, 'p) looper \<times> 'w \<Rightarrow> ((exn + unit) \<times> ('r, 'c, 'p) looper \<times> 'w) option" where
  "looper_loop pl cbs now s =
     (case process_updates pl (fst s) of
        (Inl e, lp) \<Rightarrow> Some (Inl e, (lp, snd s))
      | (Inr _, lp) \<Rightarrow>
          (case pl_poll pl max_events_for_process (lp_timeout lp) (lp_poller lp) of
             (Inl e, p) \<Rightarrow> Some (Inl e, (lp\<lparr>lp_poller := p\<rparr>, snd s))
           | (Inr events, p) \<Rightarrow>
               (case process_events cbs events (lp\<lparr>lp_poller := p\<rparr>, snd s) of
                  (Inl e, s) \<Rightarrow> Some (Inl e, s)
                | (Inr _, s) \<Rightarrow>
                    (case process_timers cbs now s of
                       (Inl e, s) \<Rightarrow> Some (Inl e, s)
                     | (Inr _, s) \<Rightarrow> execute_requests cbs s))))"

subsection \<open>The thread, and those who wait for it\<close>

text \<open>
  What a synchronous \<open>request_execute\<close> waits for, woken at the end of every round. Any other thread may
  have put a request of its own into the queue in between.
\<close>

definition requests_finished :: "('r, 'c, 'p) looper \<Rightarrow> bool" where
  "requests_finished lp \<longleftrightarrow> lp_requests lp = []"

text \<open>
  The thread repeats the rounds while its flag, a part of the world, is set. What a round throws ends the
  process.
\<close>

partial_function (option) thread_main ::
  "('w \<Rightarrow> bool) \<Rightarrow> ('w \<Rightarrow> (('r, 'c, 'p) looper \<times> 'w \<Rightarrow> ((exn + unit) \<times> ('r, 'c, 'p) looper \<times> 'w) option)) \<Rightarrow>
   ('r, 'c, 'p) looper \<times> 'w \<Rightarrow> ((exn + unit) \<times> ('r, 'c, 'p) looper \<times> 'w) option" where
  "thread_main loop_run round s =
     (if \<not> loop_run (snd s) then Some (Inr (), s)
      else
        (case round (snd s) s of
           None \<Rightarrow> None
         | Some p \<Rightarrow> (case p of (res, s) \<Rightarrow> (case res of Inl e \<Rightarrow> Some (Inl e, s) | Inr _ \<Rightarrow> thread_main loop_run round s))))"

definition end_thread :: "('w \<Rightarrow> 'w) \<Rightarrow> ('r, 'c, 'p) looper \<times> 'w \<Rightarrow> ('r, 'c, 'p) looper \<times> 'w" where
  "end_thread stop_run s = (signal_run (fst s), stop_run (snd s))"

text \<open>After a round nobody has to wait.\<close>

lemma execute_requests_finishes:
  assumes "execute_requests cbs s = Some (Inr u, s')"
  shows "requests_finished (fst s')"
proof -
  have "r = Inr u \<Longrightarrow> requests_finished (fst s')" if "execute_requests c s = Some (r, s')" for c s r s'
    using that
  proof (induction c s "(r, s')" arbitrary: r s' rule: execute_requests.raw_induct [rotated 1, consumes 1, case_names step])
    case (step rec c s)
    then show ?case
      by (auto simp: requests_finished_def split: list.splits prod.splits sum.splits)
  qed
  then show ?thesis using assms by blast
qed

lemma round_releases_waiters:
  assumes "looper_loop pl cbs now s = Some (Inr u, s')"
  shows "requests_finished (fst s')"
  using assms by (auto simp: looper_loop_def split: prod.splits sum.splits dest: execute_requests_finishes)

end
