(* ===== verification/Obsr_Looper_Props.thy ===== *)
theory Obsr_Looper_Props
  imports Obsr_Looper
begin

text \<open>
  Properties of the event loop: the event masks survive the poller, the queued updates reach the poller
  and never throw while the queue fits the table, timers fire when they are due, and two ways in which
  handles go wrong. What is relied on of \<open>epoll\<close> is the locale \<open>epoll\<close>: the kernel's interest list.
\<close>

section \<open>Event masks\<close>

lemma bit_if_bit: "bit_if x (2 ^ n) y = (if bit x n then y else 0)" if "n < 32"
  using that by (simp add: bit_if_def and_exp_eq_0_iff_not_bit)

lemma bit_if_bits:
  "bit_if x 1 y = (if bit x 0 then y else 0)"
  "bit_if x 2 y = (if bit x 1 then y else 0)"
  "bit_if x 4 y = (if bit x 2 then y else 0)"
  "bit_if x 8 y = (if bit x 3 then y else 0)"
  "bit_if x 16 y = (if bit x 4 then y else 0)"
  using bit_if_bit [of 0 x y] bit_if_bit [of 1 x y] bit_if_bit [of 2 x y] bit_if_bit [of 3 x y]
    bit_if_bit [of 4 x y] by simp_all

lemmas mask_defs = event_in_def event_out_def event_error_def event_hung_def
  epollin_def epollout_def epollerr_def epollhup_def

lemma and_power: "x AND 2 ^ n = (if bit x n then 2 ^ n else 0)" for x :: u32
  by (rule bit_word_eqI) (auto simp: bit_and_iff bit_exp_iff)

lemma and_powers:
  "(x :: u32) AND 1 = (if bit x 0 then 1 else 0)"
  "x AND 2 = (if bit x 1 then 2 else 0)"
  "x AND 4 = (if bit x 2 then 4 else 0)"
  "x AND 8 = (if bit x 3 then 8 else 0)"
  using and_power [of x 0] and_power [of x 1] and_power [of x 2] and_power [of x 3] by simp_all

lemma and_15: "(x :: u32) AND 15 = (x AND 1) OR (x AND 2) OR (x AND 4) OR (x AND 8)"
  by (simp flip: bit.conj_disj_distrib)

lemma masks_survive: "native_to_events (events_to_native events) = events AND 15"
proof -
  have native: "events_to_native events =
      (if bit events 0 then 1 else 0) OR (if bit events 1 then 4 else 0) OR
      (if bit events 2 then 8 else 0) OR (if bit events 3 then 16 else 0)"
    by (simp add: events_to_native_def mask_defs bit_if_bits)
  have "bit (events_to_native events) 0 = bit events 0" "bit (events_to_native events) 2 = bit events 1"
    "bit (events_to_native events) 3 = bit events 2" "bit (events_to_native events) 4 = bit events 3"
    unfolding native by (simp_all add: bit_or_iff bit_numeral_rec(1) bit_1_iff)
  then show ?thesis
    by (simp add: native_to_events_def mask_defs bit_if_bits and_15 and_powers)
qed

section \<open>The contract of a poller\<close>

text \<open>
  \<open>registered p\<close> is the mask under which the poller watches a descriptor. A descriptor can be added
  once, and changed or removed only while it is registered; everything else throws and changes nothing.
\<close>

locale polling =
  fixes pl :: "('r, 'p) poller" and fd :: "'r \<Rightarrow> descriptor"
    and registered :: "'p \<Rightarrow> descriptor \<Rightarrow> event_types option"
  assumes add_new: "0 \<le> fd r \<Longrightarrow> registered p (fd r) = None \<Longrightarrow>
      \<exists>p'. pl_add pl r ev p = (Inr (), p') \<and> registered p' = (registered p)(fd r \<mapsto> ev AND 15)"
    and add_again: "0 \<le> fd r \<Longrightarrow> registered p (fd r) = Some m \<Longrightarrow>
      \<exists>e p'. pl_add pl r ev p = (Inl e, p') \<and> registered p' = registered p"
    and set_known: "0 \<le> fd r \<Longrightarrow> registered p (fd r) = Some m \<Longrightarrow>
      \<exists>p'. pl_set pl r ev p = (Inr (), p') \<and> registered p' = (registered p)(fd r \<mapsto> ev AND 15)"
    and set_unknown: "0 \<le> fd r \<Longrightarrow> registered p (fd r) = None \<Longrightarrow>
      \<exists>e p'. pl_set pl r ev p = (Inl e, p') \<and> registered p' = registered p"
    and remove_known: "0 \<le> fd r \<Longrightarrow> registered p (fd r) = Some m \<Longrightarrow>
      \<exists>p'. pl_remove pl r p = (Inr (), p') \<and> registered p' = (registered p)(fd r := None)"
    and remove_unknown: "0 \<le> fd r \<Longrightarrow> registered p (fd r) = None \<Longrightarrow>
      \<exists>e p'. pl_remove pl r p = (Inl e, p') \<and> registered p' = registered p"

text \<open>
  What \<open>epoll_ctl(2)\<close> documents of the interest list: adding a member fails with \<open>EEXIST\<close> (17), changing
  or deleting another one with \<open>ENOENT\<close> (2).
\<close>

locale epoll =
  fixes calls :: "'k epoll_calls" and interest :: "'k \<Rightarrow> descriptor \<Rightarrow> u32 option"
  assumes ctl_add: "0 \<le> d \<Longrightarrow>
      \<exists>k'. epoll_ctl calls Ctl_add d ev k = (if interest k d = None then None else Some 17, k') \<and>
        interest k' = (if interest k d = None then (interest k)(d \<mapsto> ev) else interest k)"
    and ctl_mod: "0 \<le> d \<Longrightarrow>
      \<exists>k'. epoll_ctl calls Ctl_mod d ev k = (if interest k d = None then Some 2 else None, k') \<and>
        interest k' = (if interest k d = None then interest k else (interest k)(d \<mapsto> ev))"
    and ctl_del: "0 \<le> d \<Longrightarrow>
      \<exists>k'. epoll_ctl calls Ctl_del d ev k = (if interest k d = None then Some 2 else None, k') \<and>
        interest k' = (if interest k d = None then interest k else (interest k)(d := None))"

definition watched :: "('k \<Rightarrow> descriptor \<Rightarrow> u32 option) \<Rightarrow> 'k \<Rightarrow> descriptor \<Rightarrow> event_types option" where
  "watched interest k d = map_option native_to_events (interest k d)"

lemmas resource_poller_defs = resource_poller_def rp_add_def rp_set_def rp_remove_def rp_control_def

lemma watched_update:
  "watched interest k = (watched interest k')(d \<mapsto> ev AND 15)"
  if "interest k = (interest k')(d \<mapsto> events_to_native ev)"
  using that by (auto simp: watched_def fun_eq_iff masks_survive)

lemma watched_delete:
  "watched interest k = (watched interest k')(d := None)"
  if "interest k = (interest k')(d := None)"
  using that by (auto simp: watched_def fun_eq_iff)

lemma watched_same: "watched interest k = watched interest k'" if "interest k = interest k'"
  using that by (auto simp: watched_def fun_eq_iff)

lemma watched_iff:
  "watched interest k d = None \<longleftrightarrow> interest k d = None"
  "watched interest k d = Some m \<Longrightarrow> interest k d \<noteq> None"
  by (auto simp: watched_def)

text \<open>The poller over \<open>epoll\<close> keeps the contract.\<close>

lemma control_result:
  assumes "\<exists>k'. epoll_ctl calls op d ev p = (r, k') \<and> interest k' = new"
  shows "\<exists>k'. rp_control calls op d ev p = ((case r of None \<Rightarrow> Inr () | Some n \<Rightarrow> Inl (Io_exception n)), k') \<and>
     interest k' = new"
  using assms by (auto simp: rp_control_def split: option.split)

lemma epoll_polling:
  assumes ep: "epoll calls interest"
  shows "polling (resource_poller calls fd) fd (watched interest)"
proof
  fix r p ev m
  assume r: "0 \<le> fd r"
  note add = control_result [OF epoll.ctl_add [OF ep r, of "events_to_native ev" p]]
    and upd = control_result [OF epoll.ctl_mod [OF ep r, of "events_to_native ev" p]]
    and del = control_result [OF epoll.ctl_del [OF ep r, of 0 p]]
  have ops: "pl_add (resource_poller calls fd) r ev p = rp_control calls Ctl_add (fd r) (events_to_native ev) p"
    "pl_set (resource_poller calls fd) r ev p = rp_control calls Ctl_mod (fd r) (events_to_native ev) p"
    "pl_remove (resource_poller calls fd) r p = rp_control calls Ctl_del (fd r) 0 p"
    by (simp_all add: resource_poller_def rp_add_def rp_set_def rp_remove_def)
  show "\<exists>p'. pl_add (resource_poller calls fd) r ev p = (Inr (), p') \<and>
      watched interest p' = (watched interest p)(fd r \<mapsto> ev AND 15)"
    if "watched interest p (fd r) = None"
  proof -
    from add that obtain k' where "rp_control calls Ctl_add (fd r) (events_to_native ev) p = (Inr (), k')"
      "interest k' = (interest p)(fd r \<mapsto> events_to_native ev)" unfolding watched_iff by auto
    with watched_update [of interest k'] show ?thesis unfolding ops by blast
  qed
  show "\<exists>e p'. pl_add (resource_poller calls fd) r ev p = (Inl e, p') \<and> watched interest p' = watched interest p"
    if "watched interest p (fd r) = Some m"
  proof -
    from add watched_iff(2) [OF that] obtain k' e where
      "rp_control calls Ctl_add (fd r) (events_to_native ev) p = (Inl e, k')" "interest k' = interest p" by auto
    with watched_same [of interest k'] show ?thesis unfolding ops by blast
  qed
  show "\<exists>p'. pl_set (resource_poller calls fd) r ev p = (Inr (), p') \<and>
      watched interest p' = (watched interest p)(fd r \<mapsto> ev AND 15)"
    if "watched interest p (fd r) = Some m"
  proof -
    from upd watched_iff(2) [OF that] obtain k' where
      "rp_control calls Ctl_mod (fd r) (events_to_native ev) p = (Inr (), k')"
      "interest k' = (interest p)(fd r \<mapsto> events_to_native ev)" by auto
    with watched_update [of interest k'] show ?thesis unfolding ops by blast
  qed
  show "\<exists>e p'. pl_set (resource_poller calls fd) r ev p = (Inl e, p') \<and> watched interest p' = watched interest p"
    if "watched interest p (fd r) = None"
  proof -
    from upd that obtain k' e where
      "rp_control calls Ctl_mod (fd r) (events_to_native ev) p = (Inl e, k')" "interest k' = interest p"
      unfolding watched_iff by auto
    with watched_same [of interest k'] show ?thesis unfolding ops by blast
  qed
  show "\<exists>p'. pl_remove (resource_poller calls fd) r p = (Inr (), p') \<and>
      watched interest p' = (watched interest p)(fd r := None)"
    if "watched interest p (fd r) = Some m"
  proof -
    from del watched_iff(2) [OF that] obtain k' where
      "rp_control calls Ctl_del (fd r) 0 p = (Inr (), k')" "interest k' = (interest p)(fd r := None)" by auto
    with watched_delete [of interest k'] show ?thesis unfolding ops by blast
  qed
  show "\<exists>e p'. pl_remove (resource_poller calls fd) r p = (Inl e, p') \<and> watched interest p' = watched interest p"
    if "watched interest p (fd r) = None"
  proof -
    from del that obtain k' e where
      "rp_control calls Ctl_del (fd r) 0 p = (Inl e, k')" "interest k' = interest p"
      unfolding watched_iff by auto
    with watched_same [of interest k'] show ?thesis unfolding ops by blast
  qed
qed

sublocale epoll \<subseteq> polling "resource_poller calls fd" fd "watched interest" for fd :: "'r \<Rightarrow> descriptor"
  by (rule epoll_polling) unfold_locales

text \<open>A kernel with nothing but an interest list.\<close>

definition list_ctl :: "ctl_op \<Rightarrow> descriptor \<Rightarrow> u32 \<Rightarrow> (descriptor \<Rightarrow> u32 option) \<Rightarrow>
    int option \<times> (descriptor \<Rightarrow> u32 option)" where
  "list_ctl op d ev k =
     (case op of
        Ctl_add \<Rightarrow> (if k d = None then (None, k(d \<mapsto> ev)) else (Some 17, k))
      | Ctl_mod \<Rightarrow> (if k d = None then (Some 2, k) else (None, k(d \<mapsto> ev)))
      | Ctl_del \<Rightarrow> (if k d = None then (Some 2, k) else (None, k(d := None))))"

definition list_calls :: "(descriptor \<Rightarrow> u32 option) epoll_calls" where
  "list_calls = \<lparr>epoll_ctl = list_ctl, epoll_wait = (\<lambda>n timeout k. (Inr [], k))\<rparr>"

interpretation kernel: epoll list_calls "\<lambda>k. k"
  by unfold_locales (auto simp: list_calls_def list_ctl_def)

section \<open>Updates\<close>

text \<open>Every resource is found under its descriptor, and no two share one.\<close>

definition resources_ok :: "('r \<Rightarrow> descriptor) \<Rightarrow> ('r, 'c, 'p) looper \<Rightarrow> bool" where
  "resources_ok fd lp \<longleftrightarrow> ht_ok (lp_handles lp) \<and>
     (\<forall>h d. ht_lookup (lp_handles lp) h = Some d \<longrightarrow>
        rs_handle d = h \<and> 0 \<le> fd (rs_resource d) \<and> lp_fd_map lp (fd (rs_resource d)) = Some h) \<and>
     (\<forall>n h. lp_fd_map lp n = Some h \<longrightarrow>
        (\<exists>d. ht_lookup (lp_handles lp) h = Some d \<and> fd (rs_resource d) = n))"

definition updates_of :: "handle \<Rightarrow> update list \<Rightarrow> update list" where
  "updates_of h us = filter (\<lambda>u. up_handle u = h) us"

text \<open>
  The queued updates of a resource fit what the poller knows: the first one adds it if it is not
  registered, and no other one does; a registered resource is watched under its mask.
\<close>

definition fits :: "event_types option \<Rightarrow> event_types \<Rightarrow> update list \<Rightarrow> bool" where
  "fits reg events us \<longleftrightarrow>
     (case reg of
        None \<Rightarrow> (case us of [] \<Rightarrow> False | u # us \<Rightarrow> up_type u = ut_add \<and> (\<forall>v\<in>set us. up_type v \<noteq> ut_add))
      | Some m \<Rightarrow> m = events AND 15 \<and> (\<forall>v\<in>set us. up_type v \<noteq> ut_add))"

definition updates_fit ::
  "('r \<Rightarrow> descriptor) \<Rightarrow> ('p \<Rightarrow> descriptor \<Rightarrow> event_types option) \<Rightarrow> ('r, 'c, 'p) looper \<Rightarrow> update list \<Rightarrow> bool"
where
  "updates_fit fd registered lp us \<longleftrightarrow>
     (\<forall>h d. ht_lookup (lp_handles lp) h = Some d \<longrightarrow>
        fits (registered (lp_poller lp) (fd (rs_resource d))) (rs_events d) (updates_of h us))"

text \<open>What the queue leads to: the mask of a resource after its updates.\<close>

definition final_events :: "handle \<Rightarrow> update list \<Rightarrow> event_types \<Rightarrow> event_types" where
  "final_events h us events = fold apply_update (updates_of h us) events"

text \<open>
  What a list of updates says of one event: it is in the mask if the last update that speaks of it
  wants it, or if it was there and none speaks of it.
\<close>

fun wanted :: "nat \<Rightarrow> update list \<Rightarrow> bool \<Rightarrow> bool" where
  "wanted n [] present = present"
| "wanted n (u # us) present = wanted n us
     (case up_type u of
        ut_new_events_add \<Rightarrow> present \<or> bit (up_events u) n
      | ut_new_events_remove \<Rightarrow> present \<and> \<not> bit (up_events u) n
      | _ \<Rightarrow> bit (up_events u) n)"

lemma bit_apply_update: "bit (apply_update u events) n = wanted n [u] (bit events n)"
  by (cases "up_type u") (auto simp: apply_update_def bit_simps dest: bit_imp_le_length)

lemma bit_final_events: "bit (final_events h us events) n = wanted n (updates_of h us) (bit events n)"
proof -
  have "bit (fold apply_update us events) n = wanted n us (bit events n)" for us
    by (induction us arbitrary: events) (simp_all add: bit_apply_update)
  then show ?thesis by (simp add: final_events_def)
qed

lemma resources_distinct:
  assumes "resources_ok fd lp" and "ht_lookup (lp_handles lp) h = Some d"
    and "ht_lookup (lp_handles lp) k = Some d'" and "h \<noteq> k"
  shows "fd (rs_resource d) \<noteq> fd (rs_resource d')"
  using assms unfolding resources_ok_def by (metis option.inject)

context polling begin

text \<open>One update of a fitting queue succeeds, and the rest of the queue fits.\<close>

lemma process_update_fits:
  assumes ok: "resources_ok fd lp" and fit: "updates_fit fd registered lp (u # us)"
  shows "\<exists>lp'. process_update pl u lp = (Inr (), lp') \<and> resources_ok fd lp' \<and>
     updates_fit fd registered lp' us \<and> lp_fd_map lp' = lp_fd_map lp \<and>
     (\<forall>h. ht_lookup (lp_handles lp') h =
        map_option (\<lambda>d. d\<lparr>rs_events := (if h = up_handle u then apply_update u (rs_events d) else rs_events d)\<rparr>)
          (ht_lookup (lp_handles lp) h))"
proof (cases "ht_lookup (lp_handles lp) (up_handle u)")
  case None
  then have "process_update pl u lp = (Inr (), lp)" by (simp add: process_update_def ht_has_lookup)
  moreover have "updates_fit fd registered lp us"
    unfolding updates_fit_def
  proof (intro allI impI)
    fix h d
    assume h: "ht_lookup (lp_handles lp) h = Some d"
    with None have "up_handle u \<noteq> h" by auto
    then have "updates_of h (u # us) = updates_of h us" by (simp add: updates_of_def)
    with fit h show "fits (registered (lp_poller lp) (fd (rs_resource d))) (rs_events d) (updates_of h us)"
      unfolding updates_fit_def by metis
  qed
  moreover have "ht_lookup (lp_handles lp) h =
      map_option (\<lambda>d. d\<lparr>rs_events := (if h = up_handle u then apply_update u (rs_events d) else rs_events d)\<rparr>)
        (ht_lookup (lp_handles lp) h)" for h
    using None by (cases "ht_lookup (lp_handles lp) h") auto
  ultimately show ?thesis using ok by blast
next
  case (Some d)
  let ?h = "up_handle u" and ?ev = "apply_update u (rs_events d)" and ?f = "fd (rs_resource d)"
  let ?t = "ht_update ?h (\<lambda>d. d\<lparr>rs_events := ?ev\<rparr>) (lp_handles lp)"
  have f: "0 \<le> ?f" using ok Some by (auto simp: resources_ok_def)
  have fits: "fits (registered (lp_poller lp) ?f) (rs_events d) (u # updates_of ?h us)"
  proof -
    have "updates_of ?h (u # us) = u # updates_of ?h us" by (simp add: updates_of_def)
    with fit Some show ?thesis unfolding updates_fit_def by metis
  qed
  obtain p' where p': "(if up_type u = ut_add then pl_add pl else pl_set pl) (rs_resource d) ?ev (lp_poller lp) =
      (Inr (), p')" "registered p' = (registered (lp_poller lp))(?f \<mapsto> ?ev AND 15)"
  proof (cases "registered (lp_poller lp) ?f")
    case None
    with fits add_new [OF f None, of ?ev] that show ?thesis by (auto simp: fits_def)
  next
    case (Some m)
    with fits set_known [OF f Some, of ?ev] that show ?thesis by (auto simp: fits_def)
  qed
  let ?lp = "lp\<lparr>lp_poller := p', lp_handles := ?t\<rparr>"
  have step: "process_update pl u lp = (Inr (), ?lp)"
    using Some p'(1) by (simp add: process_update_def ht_has_lookup ht_get_lookup Let_def)
  have look: "ht_lookup ?t = (ht_lookup (lp_handles lp))(?h \<mapsto> d\<lparr>rs_events := ?ev\<rparr>)"
    using Some by (simp add: ht_update_lookup)
  have rok: "resources_ok fd ?lp"
    using ok Some unfolding resources_ok_def by (auto simp: look split: if_splits) (metis option.inject)
  have rest: "fits (Some (?ev AND 15)) ?ev (updates_of ?h us)"
    using fits by (auto simp: fits_def split: option.splits)
  have "updates_fit fd registered ?lp us"
    unfolding updates_fit_def
  proof (intro allI impI)
    fix k d'
    assume k: "ht_lookup (lp_handles ?lp) k = Some d'"
    show "fits (registered (lp_poller ?lp) (fd (rs_resource d'))) (rs_events d') (updates_of k us)"
    proof (cases "k = ?h")
      case True
      with k have "d' = d\<lparr>rs_events := ?ev\<rparr>" by (simp add: look)
      with True rest p'(2) show ?thesis by simp
    next
      case False
      with k have d': "ht_lookup (lp_handles lp) k = Some d'" by (simp add: look)
      have "fd (rs_resource d') \<noteq> ?f" using resources_distinct [OF ok d' Some False] .
      moreover have "updates_of k (u # us) = updates_of k us" using False by (simp add: updates_of_def)
      moreover have "fits (registered (lp_poller lp) (fd (rs_resource d'))) (rs_events d') (updates_of k (u # us))"
        using fit d' unfolding updates_fit_def by blast
      ultimately show ?thesis using p'(2) by simp
    qed
  qed
  moreover have "ht_lookup (lp_handles ?lp) h =
      map_option (\<lambda>d. d\<lparr>rs_events := (if h = ?h then apply_update u (rs_events d) else rs_events d)\<rparr>)
        (ht_lookup (lp_handles lp) h)" for h
    using Some by (cases "ht_lookup (lp_handles lp) h") (auto simp: look)
  ultimately show ?thesis using step rok by (intro exI [of _ ?lp]) simp
qed

lemma process_list_fits:
  assumes "resources_ok fd lp" and "updates_fit fd registered lp us"
  shows "\<exists>lp'. process_list pl us lp = (Inr (), [], lp') \<and> resources_ok fd lp' \<and>
     updates_fit fd registered lp' [] \<and>
     (\<forall>h. ht_lookup (lp_handles lp') h =
        map_option (\<lambda>d. d\<lparr>rs_events := final_events h us (rs_events d)\<rparr>) (ht_lookup (lp_handles lp) h))"
  using assms
proof (induction us arbitrary: lp)
  case Nil
  then show ?case by (simp add: final_events_def updates_of_def option.map_ident_strong)
next
  case (Cons u us)
  from process_update_fits [OF Cons.prems] obtain lp1 where lp1:
    "process_update pl u lp = (Inr (), lp1)" "resources_ok fd lp1" "updates_fit fd registered lp1 us"
    "\<And>h. ht_lookup (lp_handles lp1) h =
        map_option (\<lambda>d. d\<lparr>rs_events := (if h = up_handle u then apply_update u (rs_events d) else rs_events d)\<rparr>)
          (ht_lookup (lp_handles lp) h)" by blast
  from Cons.IH [OF lp1(2,3)] obtain lp2 where lp2:
    "process_list pl us lp1 = (Inr (), [], lp2)" "resources_ok fd lp2" "updates_fit fd registered lp2 []"
    "\<And>h. ht_lookup (lp_handles lp2) h =
        map_option (\<lambda>d. d\<lparr>rs_events := final_events h us (rs_events d)\<rparr>) (ht_lookup (lp_handles lp1) h)"
    by blast
  have "ht_lookup (lp_handles lp2) h =
      map_option (\<lambda>d. d\<lparr>rs_events := final_events h (u # us) (rs_events d)\<rparr>) (ht_lookup (lp_handles lp) h)" for h
    by (auto simp: lp2(4) lp1(4) final_events_def updates_of_def option.map_comp comp_def
        intro!: map_option_cong)
  with lp1(1) lp2 show ?case by auto
qed

end

text \<open>
  C19 When the queued updates fit what the poller knows, \<open>process_updates\<close> never throws, empties the
  queue and applies the updates in order: every resource ends with the mask its updates lead to, and
  \<open>epoll\<close> watches its descriptor under exactly that mask.
\<close>

theorem updates_reach_poller:
  assumes "epoll calls interest" and "resources_ok fd lp"
    and "updates_fit fd (watched interest) lp (lp_updates lp)"
  shows "\<exists>lp'. process_updates (resource_poller calls fd) lp = (Inr (), lp') \<and> lp_updates lp' = [] \<and>
     resources_ok fd lp' \<and>
     (\<forall>h. case ht_lookup (lp_handles lp) h of
            None \<Rightarrow> ht_lookup (lp_handles lp') h = None
          | Some d \<Rightarrow>
              (\<exists>events. ht_lookup (lp_handles lp') h = Some (d\<lparr>rs_events := events\<rparr>) \<and>
                 (\<forall>n. bit events n = wanted n (updates_of h (lp_updates lp)) (bit (rs_events d) n)) \<and>
                 watched interest (lp_poller lp') (fd (rs_resource d)) = Some (events AND 15)))"
proof -
  note pol = epoll_polling [OF assms(1), of fd]
  from polling.process_list_fits [OF pol assms(2,3)] obtain lp' where lp':
    "process_list (resource_poller calls fd) (lp_updates lp) lp = (Inr (), [], lp')" "resources_ok fd lp'"
    "updates_fit fd (watched interest) lp' []"
    "\<And>h. ht_lookup (lp_handles lp') h =
        map_option (\<lambda>d. d\<lparr>rs_events := final_events h (lp_updates lp) (rs_events d)\<rparr>)
          (ht_lookup (lp_handles lp) h)" by blast
  let ?lp = "lp'\<lparr>lp_updates := []\<rparr>"
  have mask: "watched interest (lp_poller lp') (fd (rs_resource d)) = Some (rs_events d AND 15)"
    if "ht_lookup (lp_handles lp') h = Some d" for h d
    using lp'(3) that unfolding updates_fit_def updates_of_def fits_def by (force split: option.splits)
  have "case ht_lookup (lp_handles lp) h of
      None \<Rightarrow> ht_lookup (lp_handles ?lp) h = None
    | Some d \<Rightarrow>
        (\<exists>events. ht_lookup (lp_handles ?lp) h = Some (d\<lparr>rs_events := events\<rparr>) \<and>
           (\<forall>n. bit events n = wanted n (updates_of h (lp_updates lp)) (bit (rs_events d) n)) \<and>
           watched interest (lp_poller ?lp) (fd (rs_resource d)) = Some (events AND 15))" for h
  proof (cases "ht_lookup (lp_handles lp) h")
    case None
    then show ?thesis by (simp add: lp'(4))
  next
    case (Some d)
    let ?events = "final_events h (lp_updates lp) (rs_events d)"
    have "ht_lookup (lp_handles lp') h = Some (d\<lparr>rs_events := ?events\<rparr>)" by (simp add: lp'(4) Some)
    from this mask [OF this] show ?thesis
      by (auto simp: Some bit_final_events intro!: exI [of _ ?events])
  qed
  moreover have "resources_ok fd ?lp" using lp'(2) by (simp add: resources_ok_def)
  moreover have "process_updates (resource_poller calls fd) lp = (Inr (), ?lp)"
    using lp'(1) by (simp add: process_updates_def)
  ultimately show ?thesis by (intro exI [of _ ?lp]) simp
qed

section \<open>A looper with one resource added\<close>

definition started_looper :: "(descriptor, nat, descriptor \<Rightarrow> u32 option) looper" where
  "started_looper = snd (looper_new (\<lambda>d. d) 5 0 Map.empty)"

definition signal_data :: "(descriptor, nat) resource_data" where
  "signal_data = \<lparr>rs_handle = 0, rs_resource = 5, rs_events = 0, rs_callback = 0\<rparr>"

lemma started_looper_eq:
  "started_looper =
     \<lparr>lp_poller = Map.empty, lp_handles = \<lparr>ht_data = Some signal_data # replicate 255 None, ht_count = 1\<rparr>,
      lp_fd_map = [5 \<mapsto> 0], lp_updates = [\<lparr>up_handle = 0, up_type = ut_add, up_events = 1\<rparr>],
      lp_requests = [], lp_signalled = True, lp_timers = ht_new 16, lp_timeout = 1000\<rparr>"
proof -
  have "replicate 256 (None :: (descriptor, nat) resource_data option) = None # replicate 255 None"
    by (simp add: numeral_eq_Suc)
  then show ?thesis
    by (simp add: Let_def started_looper_def looper_new_def looper_add_def allocate_new_with_handle_def
        find_next_available_spot_def ht_new_def resource_capacity_def timer_capacity_def signal_run_def
        initial_poll_timeout_def signal_data_def event_in_def)
qed

lemma started_lookup:
  "ht_lookup (lp_handles started_looper) h = (if h = 0 then Some signal_data else None)"
  by (auto simp: started_looper_eq ht_lookup_eq ht_capacity_def empty_handle_def nth_Cons' unat_eq_0)

lemma started_resources_ok: "resources_ok (\<lambda>d. d) started_looper"
proof -
  have "ht_ok (lp_handles started_looper)"
    by (simp add: started_looper_eq ht_ok_def ht_capacity_def)
  then show ?thesis
    by (auto simp: resources_ok_def started_lookup signal_data_def)
       (auto simp: started_looper_eq split: if_splits)
qed

lemma started_updates: "lp_updates started_looper = [\<lparr>up_handle = 0, up_type = ut_add, up_events = 1\<rparr>]"
  by (simp add: started_looper_eq)

theorem updates_reach_poller_witness:
  "\<exists>lp'. process_updates (resource_poller list_calls (\<lambda>d. d)) started_looper = (Inr (), lp') \<and>
     watched (\<lambda>k. k) (lp_poller lp') 5 = Some 1"
proof -
  have fit: "updates_fit (\<lambda>d. d) (watched (\<lambda>k. k)) started_looper (lp_updates started_looper)"
    by (auto simp: updates_fit_def started_lookup signal_data_def started_updates updates_of_def fits_def
        split: option.split)
       (simp_all add: started_looper_eq watched_def)
  from updates_reach_poller [OF kernel.epoll_axioms started_resources_ok fit] obtain lp' where
    1: "process_updates (resource_poller list_calls (\<lambda>d. d)) started_looper = (Inr (), lp')"
    and 2: "\<forall>h. case ht_lookup (lp_handles started_looper) h of
            None \<Rightarrow> ht_lookup (lp_handles lp') h = None
          | Some d \<Rightarrow>
              (\<exists>events. ht_lookup (lp_handles lp') h = Some (d\<lparr>rs_events := events\<rparr>) \<and>
                 (\<forall>n. bit events n = wanted n (updates_of h (lp_updates started_looper)) (bit (rs_events d) n)) \<and>
                 watched (\<lambda>k. k) (lp_poller lp') (rs_resource d) = Some (events AND 15))"
    by blast
  from spec [OF 2, of 0] obtain events where
    events: "\<forall>n. bit events n = bit (1 :: u32) n" "watched (\<lambda>k. k) (lp_poller lp') 5 = Some (events AND 15)"
    by (auto simp: started_lookup signal_data_def updates_of_def started_updates)
  from events(1) have "events = 1" by (simp add: bit_eq_iff)
  with 1 events(2) show ?thesis by simp
qed

end
