(* ===== verification/Obsr_Timer_Props.thy ===== *)
theory Obsr_Timer_Props
  imports Obsr_Looper_Props
begin

text \<open>
  Properties of the timers of the event loop, and of the handles it gives out: which timers fire, which
  handles \<open>stop_timer\<close> accepts, and what happens to the updates of a handle that is given out again.
\<close>

section \<open>A pass over the timers\<close>

lemma ht_update_none:
  "j < ht_capacity t \<Longrightarrow> (ht_data (ht_update h f t) ! j = None) = (ht_data t ! j = None)"
  by (cases "unat h = j") (auto simp: ht_update_def ht_capacity_def nth_list_update)

lemma taken_from_update [simp]: "taken_from (ht_update h f t) i = taken_from t i"
  unfolding taken_from_def by (intro filter_cong) (auto simp: ht_update_none)

definition stopped :: "'c timer_data handle_table \<Rightarrow> handle \<Rightarrow> bool" where
  "stopped t h = (case ht_lookup t h of Some d \<Rightarrow> td_timeout d = 0 | None \<Rightarrow> False)"

definition due :: "milliseconds \<Rightarrow> 'c timer_data handle_table \<Rightarrow> handle \<Rightarrow> bool" where
  "due now t h = (case ht_lookup t h of Some d \<Rightarrow> td_timeout d \<noteq> 0 \<and> td_next d \<le> now | None \<Rightarrow> False)"

definition timer_callback :: "'c timer_data handle_table \<Rightarrow> handle \<Rightarrow> 'c" where
  "timer_callback t h = td_callback (the (ht_lookup t h))"

definition rearm :: "milliseconds \<Rightarrow> 'c timer_data \<Rightarrow> 'c timer_data" where
  "rearm now d = d\<lparr>td_next := now + td_timeout d\<rparr>"

text \<open>Callbacks that leave the looper alone and are recorded.\<close>

definition recording :: "('c, ('r, 'c, 'p) looper, ('c \<times> handle) list) callbacks \<Rightarrow> bool" where
  "recording cbs \<longleftrightarrow> (\<forall>c h lp w. run_timer cbs c h (lp, w) = (Inr (), lp, w @ [(c, h)]))"

definition rearmed :: "milliseconds \<Rightarrow> handle list \<Rightarrow> 'c timer_data handle_table \<Rightarrow> 'c timer_data handle_table" where
  "rearmed now hs t = fold (\<lambda>h. ht_update h (rearm now)) (filter (due now t) hs) t"

definition fired :: "milliseconds \<Rightarrow> handle list \<Rightarrow> 'c timer_data handle_table \<Rightarrow> ('c \<times> handle) list" where
  "fired now hs t = map (\<lambda>h. (timer_callback t h, h)) (filter (due now t) hs)"

lemma other_handle:
  assumes "h \<noteq> k"
  shows "stopped (ht_update k f t) h = stopped t h" "due now (ht_update k f t) h = due now t h"
    "timer_callback (ht_update k f t) h = timer_callback t h"
  using assms by (simp_all add: stopped_def due_def timer_callback_def ht_update_lookup)

lemma timers_from_recorded:
  fixes lp :: "('r, 'c, 'p) looper"
  assumes rec: "recording cbs" and ok: "ht_ok (lp_timers lp)" and cap: "ht_capacity (lp_timers lp) = timer_capacity"
    and i: "i < timer_capacity \<Longrightarrow> ht_data (lp_timers lp) ! i \<noteq> None"
  shows "timers_from cbs now i (lp, w) =
     (let t = lp_timers lp; hs = map of_nat (taken_from t i) in
      (Inr (filter (stopped t) hs), lp\<lparr>lp_timers := rearmed now hs t\<rparr>, w @ fired now hs t))"
  using ok cap i
proof (induction "timer_capacity - i" arbitrary: i lp w rule: less_induct)
  case less
  let ?t = "lp_timers lp" and ?h = "of_nat i :: handle" and ?hs = "map of_nat (taken_from (lp_timers lp) i) :: handle list"
  show ?case
  proof (cases "i < timer_capacity")
    case False
    then have "taken_from ?t i = []" using less.prems(2) by simp
    with False show ?thesis by (subst timers_from.simps) (simp add: rearmed_def fired_def Let_def)
  next
    case True
    then have i: "i < ht_capacity ?t" "ht_data ?t ! i \<noteq> None" using less.prems by auto
    have lim: "ht_capacity ?t < 2 ^ 32" using less.prems(1) by (rule ht_ok_capacity)
    then have ui: "unat ?h = i" using i by (simp add: unat_of_nat_u32)
    have "?h \<noteq> empty_handle" using ui i lim unat_empty_handle by auto
    then obtain d where d: "ht_lookup ?t ?h = Some d" using i ui by (auto simp: ht_lookup_eq)
    let ?rest = "map of_nat (taken_from ?t (Suc i)) :: handle list"
    have hs: "?hs = ?h # ?rest" using taken_from_Cons [OF i(1)] i(2) by simp
    have fresh: "k \<noteq> ?h" if "k \<in> set ?rest" for k
    proof -
      from that obtain j where "k = of_nat j" "Suc i \<le> j" "j < ht_capacity ?t" by (auto simp: taken_from_def)
      then have "unat k = j" "j \<noteq> i" using lim by (auto simp: unat_of_nat_u32)
      with ui show ?thesis by auto
    qed
    have IH: "timers_from cbs now (iterate_to_next_element False t i) (lp\<lparr>lp_timers := t\<rparr>, w) =
        (Inr (filter (stopped t) ?rest), lp\<lparr>lp_timers := rearmed now ?rest t\<rparr>, w @ fired now ?rest t)"
      if t: "t = ?t \<or> (\<exists>f. t = ht_update ?h f ?t)" for t w
    proof -
      let ?j = "iterate_to_next_element False t i"
      have same: "taken_from t (Suc i) = taken_from ?t (Suc i)" "ht_ok t" "ht_capacity t = timer_capacity"
        using t less.prems by auto
      have "timer_capacity - ?j < timer_capacity - i"
        using iterate_to_next_element_gt [of i False t] True by simp
      from less.hyps [OF this, of "lp\<lparr>lp_timers := t\<rparr>" w] iterate_next_taken [of t False i] same
      show ?thesis by (simp add: Let_def)
    qed
    consider (stop) "td_timeout d = 0" | (later) "td_timeout d \<noteq> 0" "now < td_next d"
      | (due) "td_timeout d \<noteq> 0" "td_next d \<le> now" by linarith
    then show ?thesis
    proof cases
      case stop
      then have "stopped ?t ?h" "\<not> due now ?t ?h" using d by (auto simp: stopped_def due_def)
      with stop d True IH [of ?t w] show ?thesis
        by (subst timers_from.simps) (simp add: hs Let_def rearmed_def fired_def)
    next
      case later
      then have "\<not> stopped ?t ?h" "\<not> due now ?t ?h" using d by (auto simp: stopped_def due_def)
      with later d True IH [of ?t w] show ?thesis
        by (subst timers_from.simps) (simp add: hs Let_def rearmed_def fired_def)
    next
      case due
      let ?t' = "ht_update ?h (rearm now) ?t" and ?w = "w @ [(td_callback d, ?h)]"
      have st: "\<not> stopped ?t ?h" "due now ?t ?h" "timer_callback ?t ?h = td_callback d"
        using d due by (auto simp: stopped_def due_def timer_callback_def)
      have run: "caught (run_timer cbs (td_callback d) ?h (lp, w)) = (Inr (), lp, ?w)"
        using rec by (simp add: recording_def caught_def)
      have flt: "filter (stopped ?t') ?rest = filter (stopped ?t) ?rest"
        "filter (due now ?t') ?rest = filter (due now ?t) ?rest"
        by (intro filter_cong refl other_handle fresh; assumption)+
      have "fired now ?rest ?t' = fired now ?rest ?t"
        unfolding fired_def flt by (intro map_cong refl) (use fresh other_handle(3) in fastforce)
      then have calls: "?w @ fired now ?rest ?t' = w @ fired now ?hs ?t"
        using st unfolding hs by (simp add: fired_def)
      have arm: "rearmed now ?rest ?t' = rearmed now ?hs ?t"
        using st unfolding hs by (simp only: rearmed_def flt filter.simps if_True fold.simps comp_def)
      have stop: "filter (stopped ?t') ?rest = filter (stopped ?t) ?hs"
        using st unfolding hs flt by (simp only: filter.simps if_False)
      have "timers_from cbs now (iterate_to_next_element False ?t' i) (lp\<lparr>lp_timers := ?t'\<rparr>, ?w) =
          (Inr (filter (stopped ?t) ?hs), lp\<lparr>lp_timers := rearmed now ?hs ?t\<rparr>, w @ fired now ?hs ?t)"
        using IH [of ?t' ?w] unfolding calls arm stop by blast
      moreover have "(\<lambda>d. d\<lparr>td_next := now + td_timeout d\<rparr>) = (rearm now :: 'c timer_data \<Rightarrow> _)"
        by (simp add: rearm_def fun_eq_iff)
      ultimately show ?thesis
        using due d True run by (subst timers_from.simps) (simp add: Let_def)
    qed
  qed
qed

lemma release_timers_present:
  assumes "ht_ok t" and "distinct hs" and "\<forall>h\<in>set hs. ht_lookup t h \<noteq> None"
  shows "\<exists>t'. release_timers hs t = (Inr (), t') \<and> ht_ok t' \<and>
     (\<forall>h. ht_lookup t' h = (if h \<in> set hs then None else ht_lookup t h))"
  using assms
proof (induction hs arbitrary: t)
  case (Cons h hs)
  then obtain d where d: "ht_lookup t h = Some d" by auto
  from tab.release_Some [OF Cons.prems(1) d] obtain t1 where
    t1: "ht_release h t = (Inr d, t1)" "ht_lookup t1 = (ht_lookup t)(h := None)" "ht_ok t1"
    by (cases "ht_release h t") auto
  have "\<forall>k\<in>set hs. ht_lookup t1 k \<noteq> None" using Cons.prems t1(2) by auto
  from Cons.IH [OF t1(3) _ this] Cons.prems obtain t2 where
    "release_timers hs t1 = (Inr (), t2)" "ht_ok t2"
    "\<forall>k. ht_lookup t2 k = (if k \<in> set hs then None else ht_lookup t1 k)" by auto
  with t1 show ?case by auto
qed simp

lemma rearmed_lookup:
  assumes "distinct hs"
  shows "ht_lookup (rearmed now hs t) h =
     (if h \<in> set hs \<and> due now t h then map_option (rearm now) (ht_lookup t h) else ht_lookup t h)"
proof -
  have "distinct ks \<Longrightarrow> ht_lookup (fold (\<lambda>h. ht_update h (rearm now)) ks t) h =
      (if h \<in> set ks then map_option (rearm now) (ht_lookup t h) else ht_lookup t h)" for ks
    by (induction ks arbitrary: t) (auto simp: ht_update_lookup)
  from this [of "filter (due now t) hs"] assms show ?thesis by (simp add: rearmed_def)
qed

lemma rearmed_ok: "ht_ok t \<Longrightarrow> ht_ok (rearmed now hs t)"
proof -
  have "ht_ok t \<Longrightarrow> ht_ok (fold (\<lambda>h. ht_update h (rearm now)) ks t)" for ks
    by (induction ks arbitrary: t) auto
  then show "ht_ok t \<Longrightarrow> ht_ok (rearmed now hs t)" by (simp add: rearmed_def)
qed

lemma begin_taken:
  "taken_from t (ht_begin False t) = taken_from t 0 \<and>
   (ht_begin False t < ht_capacity t \<longrightarrow> ht_data t ! ht_begin False t \<noteq> None)"
  using iterate_next_taken [of t False 0] taken_from_Cons [of 0 t]
  by (auto simp: ht_begin_def slot_taken_def)

text \<open>
  C20 A pass over the timers fires exactly the running timers whose time has come, once each and in the
  order of their handles, and sets each one's next time to its timeout from now; it removes exactly
  the stopped timers and leaves the others as they are.
\<close>

theorem timers_fire_when_due:
  assumes "recording cbs" and "ht_ok (lp_timers lp)" and "ht_capacity (lp_timers lp) = timer_capacity"
  shows "\<exists>lp'. process_timers cbs now (lp, w) =
       (Inr (), lp', w @ map (\<lambda>h. (timer_callback (lp_timers lp) h, h))
          (filter (due now (lp_timers lp)) (ht_handles (lp_timers lp)))) \<and>
     ht_ok (lp_timers lp') \<and>
     (\<forall>h. ht_lookup (lp_timers lp') h =
        (if stopped (lp_timers lp) h then None
         else if due now (lp_timers lp) h then map_option (rearm now) (ht_lookup (lp_timers lp) h)
         else ht_lookup (lp_timers lp) h))"
proof -
  let ?t = "lp_timers lp" and ?hs = "ht_handles (lp_timers lp)"
  have hs: "distinct ?hs" "\<And>h. h \<in> set ?hs \<longleftrightarrow> ht_lookup ?t h \<noteq> None"
    using distinct_ht_handles set_ht_handles assms(2) by auto
  have from_begin: "timers_from cbs now (ht_begin False ?t) (lp, w) =
      (Inr (filter (stopped ?t) ?hs), lp\<lparr>lp_timers := rearmed now ?hs ?t\<rparr>, w @ fired now ?hs ?t)"
    using timers_from_recorded [OF assms, of "ht_begin False ?t" now w] begin_taken [of ?t] assms(3)
    by (simp add: Let_def ht_handles_eq)
  have look: "ht_lookup (rearmed now ?hs ?t) h =
      (if due now ?t h then map_option (rearm now) (ht_lookup ?t h) else ht_lookup ?t h)" for h
    using rearmed_lookup [OF hs(1), of now ?t h] hs(2) by (auto simp: due_def split: option.splits)
  have "\<forall>h\<in>set (filter (stopped ?t) ?hs). ht_lookup (rearmed now ?hs ?t) h \<noteq> None"
    using hs(2) by (auto simp: look)
  from release_timers_present [OF rearmed_ok [OF assms(2)] _ this] hs(1) obtain t' where t':
    "release_timers (filter (stopped ?t) ?hs) (rearmed now ?hs ?t) = (Inr (), t')" "ht_ok t'"
    "\<forall>h. ht_lookup t' h = (if h \<in> set (filter (stopped ?t) ?hs) then None else ht_lookup (rearmed now ?hs ?t) h)"
    by auto
  have "ht_lookup t' h = (if stopped ?t h then None
      else if due now ?t h then map_option (rearm now) (ht_lookup ?t h) else ht_lookup ?t h)" for h
    using t'(3) hs(2) [of h] by (auto simp: look stopped_def split: option.splits)
  with from_begin t' show ?thesis
    by (intro exI [of _ "lp\<lparr>lp_timers := t'\<rparr>"]) (simp add: process_timers_def fired_def)
qed

definition record_callbacks :: "(nat, ('r, nat, 'p) looper, (nat \<times> handle) list) callbacks" where
  "record_callbacks =
     \<lparr>run_io = (\<lambda>c h ev s. (Inr (), s)),
      run_timer = (\<lambda>c h (lp, w). (Inr (), lp, w @ [(c, h)])),
      run_request = (\<lambda>c s. (Inr (), s))\<rparr>"

text \<open>The started looper with a timer that is due at 500 and one that is due at 1500.\<close>

definition two_timers :: "nat timer_data handle_table" where
  "two_timers =
     \<lparr>ht_data = [Some \<lparr>td_timeout = 300, td_callback = 7, td_next = 500\<rparr>,
                 Some \<lparr>td_timeout = 1000, td_callback = 8, td_next = 1500\<rparr>] @ replicate 14 None,
      ht_count = 2\<rparr>"

lemma two_timers_ok: "ht_ok two_timers" "ht_capacity two_timers = timer_capacity"
  by (simp_all add: two_timers_def ht_ok_def ht_capacity_def timer_capacity_def)

lemma two_timers_lookup:
  "ht_lookup two_timers 0 = Some \<lparr>td_timeout = 300, td_callback = 7, td_next = 500\<rparr>"
  "ht_lookup two_timers 1 = Some \<lparr>td_timeout = 1000, td_callback = 8, td_next = 1500\<rparr>"
  by (simp_all add: two_timers_def ht_lookup_eq ht_capacity_def empty_handle_def)

lemma two_timers_handles: "ht_handles two_timers = [0, 1]"
  by (simp add: ht_handles_eq taken_from_def two_timers_def ht_capacity_def upt_rec)

theorem timers_fire_when_due_witness:
  "\<exists>lp'. process_timers record_callbacks 500 (started_looper\<lparr>lp_timers := two_timers\<rparr>, []) =
       (Inr (), lp', [(7, 0)]) \<and>
     ht_lookup (lp_timers lp') 0 = Some \<lparr>td_timeout = 300, td_callback = 7, td_next = 800\<rparr>"
proof -
  let ?lp = "started_looper\<lparr>lp_timers := two_timers\<rparr>"
  have "recording record_callbacks" by (simp add: recording_def record_callbacks_def)
  from timers_fire_when_due [OF this, of ?lp 500 "[]"] two_timers_ok obtain lp' where lp':
    "process_timers record_callbacks 500 (?lp, []) =
       (Inr (), lp', map (\<lambda>h. (timer_callback two_timers h, h)) (filter (due 500 two_timers) [0, 1]))"
    "\<forall>h. ht_lookup (lp_timers lp') h =
        (if stopped two_timers h then None
         else if due 500 two_timers h then map_option (rearm 500) (ht_lookup two_timers h)
         else ht_lookup two_timers h)"
    by (auto simp: two_timers_handles)
  have "filter (due 500 two_timers) [0, 1] = [0]" "timer_callback two_timers 0 = 7"
    by (simp_all add: due_def two_timers_lookup timer_callback_def)
  with lp'(1) spec [OF lp'(2), of 0] show ?thesis
    by (simp add: stopped_def due_def two_timers_lookup rearm_def)
qed

section \<open>Handles\<close>

text \<open>
  \<open>stop_timer\<close> looks its handle up among the resources: a running timer whose handle names no
  resource cannot be stopped. The call throws, changes nothing, and the timer keeps firing.
\<close>

theorem stop_timer_needs_resource:
  assumes "recording cbs" and "ht_ok (lp_timers lp)" and "ht_capacity (lp_timers lp) = timer_capacity"
    and "ht_lookup (lp_timers lp) h = Some d" and "td_timeout d \<noteq> 0" and "td_next d \<le> now"
    and "ht_lookup (lp_handles lp) h = None"
  shows "stop_timer h lp = (Inl (No_such_handle h), lp) \<and>
     (\<exists>lp' calls. process_timers cbs now (lp, []) = (Inr (), lp', calls) \<and> (td_callback d, h) \<in> set calls)"
proof -
  let ?t = "lp_timers lp"
  have from_begin: "timers_from cbs now (ht_begin False ?t) (lp, []) =
      (Inr (filter (stopped ?t) (ht_handles ?t)), lp\<lparr>lp_timers := rearmed now (ht_handles ?t) ?t\<rparr>,
       fired now (ht_handles ?t) ?t)"
    using timers_from_recorded [OF assms(1,2,3), of "ht_begin False ?t" now "[]"] begin_taken [of ?t] assms(3)
    by (simp add: Let_def ht_handles_eq)
  have look: "\<forall>k\<in>set (filter (stopped ?t) (ht_handles ?t)). ht_lookup (rearmed now (ht_handles ?t) ?t) k \<noteq> None"
    using rearmed_lookup [OF distinct_ht_handles [OF assms(2)], of now ?t] set_ht_handles [OF assms(2)]
    by auto
  from release_timers_present [OF rearmed_ok [OF assms(2)] _ look] distinct_ht_handles [OF assms(2)]
  obtain t' where "release_timers (filter (stopped ?t) (ht_handles ?t)) (rearmed now (ht_handles ?t) ?t) = (Inr (), t')"
    by auto
  with from_begin have "process_timers cbs now (lp, []) =
      (Inr (), lp\<lparr>lp_timers := t'\<rparr>, fired now (ht_handles ?t) ?t)"
    by (simp add: process_timers_def)
  moreover have "h \<in> set (ht_handles ?t)" using set_ht_handles [OF assms(2)] assms(4) by simp
  then have "(td_callback d, h) \<in> set (fired now (ht_handles ?t) ?t)"
    using assms(4-6) by (auto simp: fired_def due_def timer_callback_def image_iff)
  moreover have "stop_timer h lp = (Inl (No_such_handle h), lp)"
    using assms(7) by (simp add: stop_timer_def ht_has_lookup)
  ultimately show ?thesis by blast
qed

theorem stop_timer_needs_resource_witness:
  "stop_timer 1 (started_looper\<lparr>lp_timers := two_timers\<rparr>) =
     (Inl (No_such_handle 1), started_looper\<lparr>lp_timers := two_timers\<rparr>)"
proof -
  have "recording record_callbacks" by (simp add: recording_def record_callbacks_def)
  from stop_timer_needs_resource [OF this, of "started_looper\<lparr>lp_timers := two_timers\<rparr>" 1 _ 2000]
  show ?thesis using two_timers_ok two_timers_lookup started_lookup [of 1] by simp
qed

lemma first_free_again:
  "first_free xs = Some i \<Longrightarrow> first_free ((xs[i := Some x])[i := None]) = Some i"
  using first_free_Some [of xs i] by (simp add: list_update_same_conv) (metis list_update_id)

text \<open>
  A handle given out again inherits the queued updates of its previous owner. If a resource is
  added, removed and another one added before the loop has processed its queue, the second resource
  gets the same handle and is added to the poller twice; \<open>epoll\<close> refuses the second time, and
  \<open>process_updates\<close> throws out of the loop, whose thread does not catch it.
\<close>

theorem readded_resource_breaks_loop:
  assumes "epoll calls interest" and "ht_ok (lp_handles lp)" and "lp_updates lp = []"
    and add: "looper_add fd r ev c lp = (Inr h, lp1)"
    and remove: "looper_remove (resource_poller calls fd) fd h lp1 = (res, lp2)"
    and again: "looper_add fd r' ev' c' lp2 = (Inr h', lp3)" and "0 \<le> fd r'"
  shows "h' = h \<and> map up_type (lp_updates lp3) = [ut_add, ut_add] \<and>
     (\<exists>e lp4. process_updates (resource_poller calls fd) lp3 = (Inl e, lp4))"
proof -
  note pol = epoll_polling [OF assms(1), of fd]
  let ?d = "\<lambda>r c h. \<lparr>rs_handle = h, rs_resource = r, rs_events = 0, rs_callback = c\<rparr>"
  let ?u = "\<lambda>h ev. \<lparr>up_handle = h, up_type = ut_add, up_events = ev\<rparr>"
  let ?t = "lp_handles lp"
  obtain t1 where t1: "allocate_new_with_handle (?d r c) ?t = (Inr h, t1)" "lp_handles lp1 = t1"
      "lp_updates lp1 = [?u h ev]"
    using add assms(3) by (auto simp: looper_add_def signal_run_def split: if_splits prod.splits sum.splits)
  obtain i where i: "first_free (ht_data ?t) = Some i" "h = of_nat i"
    "ht_data t1 = (ht_data ?t)[i := Some (?d r c h)]"
    using t1(1) by (auto simp: allocate_new_with_handle_def find_next_available_spot_def Let_def split: option.splits)
  from tab.alloc_Inr [OF assms(2) t1(1)] have h1: "ht_lookup t1 h = Some (?d r c h)" "ht_ok t1" by auto
  obtain t2 where rel: "ht_release h t1 = (Inr (?d r c h), t2)" "ht_ok t2"
    using tab.release_Some [OF h1(2,1)] by (cases "ht_release h t1") auto
  have lt: "i < ht_capacity ?t" using first_free_Some [OF i(1)] by (simp add: ht_capacity_def)
  have ui: "unat h = i" using lt ht_ok_capacity [OF assms(2)] i(2) by (simp add: unat_of_nat_u32)
  have data2: "ht_data t2 = (ht_data t1)[i := None]"
    using rel(1) h1(1) ui by (auto simp: ht_release_def split: if_splits option.splits)
  have lp2: "lp_handles lp2 = t2" "lp_updates lp2 = [?u h ev]"
    using remove t1(2,3) h1(1) rel(1)
    by (auto simp: looper_remove_def ht_has_lookup signal_run_def Let_def split: prod.splits sum.splits)
  obtain t3 where t3: "allocate_new_with_handle (?d r' c') t2 = (Inr h', t3)" "lp_handles lp3 = t3"
      "lp_updates lp3 = [?u h ev, ?u h' ev']"
    using again lp2 by (auto simp: looper_add_def signal_run_def split: if_splits prod.splits sum.splits)
  have same: "h' = h"
    using t3(1) first_free_again [OF i(1), of "?d r c h"] i
    by (auto simp: allocate_new_with_handle_def find_next_available_spot_def data2 Let_def split: option.splits)
  from tab.alloc_Inr [OF rel(2) t3(1)] have h3: "ht_lookup t3 h = Some (?d r' c' h)" using same by auto
  have "\<exists>e us lp4. process_list (resource_poller calls fd) (lp_updates lp3) lp3 = (Inl e, us, lp4)"
  proof (cases "watched interest (lp_poller lp3) (fd r')")
    case (Some m)
    from polling.add_again [OF pol assms(7) Some, of ev] obtain e p where
      "pl_add (resource_poller calls fd) r' ev (lp_poller lp3) = (Inl e, p)" by blast
    with h3 t3(2,3) show ?thesis
      by (simp add: process_update_def ht_has_lookup ht_get_lookup apply_update_def Let_def)
  next
    case None
    from polling.add_new [OF pol assms(7) None, of ev] obtain p where
      p: "pl_add (resource_poller calls fd) r' ev (lp_poller lp3) = (Inr (), p)"
        "watched interest p (fd r') = Some (ev AND 15)" by auto
    from polling.add_again [OF pol assms(7) p(2), of ev'] obtain e p' where
      "pl_add (resource_poller calls fd) r' ev' p = (Inl e, p')" by blast
    with h3 t3(2,3) p(1) same show ?thesis
      by (simp add: process_update_def ht_has_lookup ht_get_lookup apply_update_def Let_def ht_update_lookup)
  qed
  with same t3(3) show ?thesis by (auto simp: process_updates_def)
qed

theorem readded_resource_breaks_loop_witness:
  "\<exists>h lp1 res lp2 lp3 e lp4.
     looper_add (\<lambda>d. d) 6 event_in 1 (started_looper\<lparr>lp_updates := []\<rparr>) = (Inr h, lp1) \<and>
     looper_remove (resource_poller list_calls (\<lambda>d. d)) (\<lambda>d. d) h lp1 = (res, lp2) \<and>
     looper_add (\<lambda>d. d) 7 event_in 2 lp2 = (Inr h, lp3) \<and>
     process_updates (resource_poller list_calls (\<lambda>d. d)) lp3 = (Inl e, lp4)"
proof -
  let ?lp = "started_looper\<lparr>lp_updates := []\<rparr>" and ?pl = "resource_poller list_calls (\<lambda>d. d)"
  let ?a = "looper_add (\<lambda>d. d) 6 event_in 1 ?lp"
  let ?r = "looper_remove ?pl (\<lambda>d. d) 1 (snd ?a)"
  let ?b = "looper_add (\<lambda>d. d) 7 event_in 2 (snd ?r)"
  have rep: "replicate 255 (None :: (descriptor, nat) resource_data option) = None # replicate 254 None"
    by (simp add: numeral_eq_Suc)
  have a: "fst ?a = Inr 1" and b: "fst ?b = Inr 1"
    by (simp_all add: started_looper_eq looper_add_def allocate_new_with_handle_def
        find_next_available_spot_def signal_run_def Let_def rep looper_remove_def ht_has_def ht_capacity_def
        empty_handle_def ht_release_def resource_poller_def rp_remove_def rp_control_def list_calls_def list_ctl_def)
  have ok: "ht_ok (lp_handles ?lp)" using started_resources_ok by (simp add: resources_ok_def)
  obtain lp1 where 1: "?a = (Inr 1, lp1)" using a by (cases ?a) auto
  obtain res lp2 where 2: "looper_remove ?pl (\<lambda>d. d) 1 lp1 = (res, lp2)" by fastforce
  obtain lp3 where 3: "looper_add (\<lambda>d. d) 7 event_in 2 lp2 = (Inr 1, lp3)"
    using b 1 2 by (cases "looper_add (\<lambda>d. d) 7 event_in 2 lp2") auto
  from readded_resource_breaks_loop [OF kernel.epoll_axioms ok _ 1 2 3] 1 2 3 show ?thesis by auto
qed

end
