(* ===== verification/Obsr_Socket_Io.thy ===== *)
theory Obsr_Socket_Io
  imports Obsr_Reader Obsr_Looper
begin

text \<open>
  The connection of a client or of one client of the server (\<open>socket_io\<close> in \<open>src/net/io.h\<close> and
  \<open>src/net/io.cpp\<close>). Its operations work on their own state and on the rest of the world: the socket,
  the looper and the owner, whose callbacks may use the connection again. What they use of the world
  is the record \<open>io_env\<close>: the methods of the socket, those of the looper, and the owner's callbacks.
\<close>

section \<open>State and environment\<close>

datatype io_state = io_idle | io_bound | io_connecting | io_connected

text \<open>\<open>so_socket\<close> is the shared pointer to the socket, \<open>None\<close> when it is null.\<close>

record 's socket_io =
  so_state :: io_state
  so_handle :: handle
  so_socket :: "'s option"
  so_reader :: reader
  so_write :: circular_buffer
  so_next_index :: u32

record connection_info =
  ci_ip :: string
  ci_port :: u16

text \<open>An operation may throw, and may leave its object changed all the same.\<close>

type_synonym ('s, 'w, 'x) io_op = "'s socket_io \<Rightarrow> 'w \<Rightarrow> (exn + 'x) \<times> 's socket_io \<times> 'w"

record ('s, 'w) os_env =
  sk_new :: "'w \<Rightarrow> (exn + 's) \<times> 'w"
  sk_reuseport :: "'s \<Rightarrow> 'w \<Rightarrow> (exn + unit) \<times> 'w"
  sk_nonblocking :: "'s \<Rightarrow> 'w \<Rightarrow> (exn + unit) \<times> 'w"
  sk_close :: "'s \<Rightarrow> 'w \<Rightarrow> (exn + unit) \<times> 'w"
  sk_connect :: "'s \<Rightarrow> connection_info \<Rightarrow> 'w \<Rightarrow> (exn + unit) \<times> 'w"
  sk_finalize :: "'s \<Rightarrow> 'w \<Rightarrow> (exn + unit) \<times> 'w"
  sk_read :: "'s \<Rightarrow> 'w os_read"
  sk_write :: "'s \<Rightarrow> 'w os_write"
  lo_add :: "'s \<Rightarrow> event_types \<Rightarrow> 'w \<Rightarrow> (exn + handle) \<times> 'w"
  lo_remove :: "handle \<Rightarrow> 'w \<Rightarrow> (exn + unit) \<times> 'w"
  lo_request :: "handle \<Rightarrow> event_types \<Rightarrow> events_update_type \<Rightarrow> 'w \<Rightarrow> (exn + unit) \<times> 'w"

record ('s, 'w) io_env = "('s, 'w) os_env" +
  cb_connect :: "('s, 'w, unit) io_op"
  cb_close :: "('s, 'w, unit) io_op"
  cb_message :: "message_header \<Rightarrow> bytes \<Rightarrow> nat \<Rightarrow> ('s, 'w, unit) io_op"

section \<open>Sequencing\<close>

definition io_return :: "'x \<Rightarrow> ('s, 'w, 'x) io_op" where
  "io_return x s w = (Inr x, s, w)"

definition io_throw :: "exn \<Rightarrow> ('s, 'w, 'x) io_op" where
  "io_throw e s w = (Inl e, s, w)"

definition io_then :: "('s, 'w, 'x) io_op \<Rightarrow> ('x \<Rightarrow> ('s, 'w, 'y) io_op) \<Rightarrow> ('s, 'w, 'y) io_op" where
  "io_then p f s w = (case p s w of (Inl e, s, w) \<Rightarrow> (Inl e, s, w) | (Inr x, s, w) \<Rightarrow> f x s w)"

definition io_modify :: "('s socket_io \<Rightarrow> 's socket_io) \<Rightarrow> ('s, 'w, unit) io_op" where
  "io_modify f s w = (Inr (), f s, w)"

definition io_call :: "('w \<Rightarrow> (exn + 'x) \<times> 'w) \<Rightarrow> ('s, 'w, 'x) io_op" where
  "io_call g s w = (case g w of (r, w) \<Rightarrow> (r, s, w))"

text \<open>A handler for the exceptions of a class; the others go on.\<close>

definition io_catch ::
  "(exn \<Rightarrow> bool) \<Rightarrow> ('s, 'w, 'x) io_op \<Rightarrow> (exn \<Rightarrow> ('s, 'w, 'x) io_op) \<Rightarrow> ('s, 'w, 'x) io_op" where
  "io_catch handled p h s w =
     (case p s w of
        (Inl e, s, w) \<Rightarrow> (if handled e then h e s w else (Inl e, s, w))
      | (Inr x, s, w) \<Rightarrow> (Inr x, s, w))"

text \<open>\<open>io_exception\<close> and the classes derived from it.\<close>

fun is_io_exception :: "exn \<Rightarrow> bool" where
  "is_io_exception (Io_exception _) = True"
| "is_io_exception Closed_fd = True"
| "is_io_exception Eof = True"
| "is_io_exception _ = False"

text \<open>A \<open>try\<close> block with \<open>catch (...)\<close> that only traces; also \<open>invoke_func_nolock\<close>.\<close>

definition io_try :: "('s, 'w, unit) io_op \<Rightarrow> ('s, 'w, unit) io_op" where
  "io_try p = io_catch catchable p (\<lambda>e. io_return ())"

definition invoke_func :: "('s, 'w, unit) io_op \<Rightarrow> ('s, 'w, unit) io_op" where
  "invoke_func callback = io_try callback"

text \<open>The method of the socket that the pointer refers to.\<close>

definition on_socket :: "('s \<Rightarrow> 'w \<Rightarrow> (exn + 'x) \<times> 'w) \<Rightarrow> ('s, 'w, 'x) io_op" where
  "on_socket g s w =
     (case so_socket s of None \<Rightarrow> (Inl Undefined_behaviour, s, w) | Some k \<Rightarrow> io_call (g k) s w)"

definition on_handle :: "(handle \<Rightarrow> 'w \<Rightarrow> (exn + 'x) \<times> 'w) \<Rightarrow> ('s, 'w, 'x) io_op" where
  "on_handle g s w = io_call (g (so_handle s)) s w"

section \<open>Operations\<close>

definition socket_io_new :: "read_data \<Rightarrow> (nat \<Rightarrow> u8) \<Rightarrow> (nat \<Rightarrow> u8) \<Rightarrow> 's socket_io" where
  "socket_io_new junk block block' =
     \<lparr>so_state = io_idle, so_handle = empty_handle, so_socket = None,
      so_reader = reader_new junk block 1024, so_write = circ_new block' 1024, so_next_index = 0\<rparr>"

text \<open>The destructor; the connection must have been stopped.\<close>

definition socket_io_destroy :: "'s socket_io \<Rightarrow> exn + unit" where
  "socket_io_destroy s = (if so_state s \<noteq> io_idle then Inl Assertion_failed else Inr ())"

definition stop_internal :: "('s, 'w) io_env \<Rightarrow> bool \<Rightarrow> ('s, 'w, unit) io_op" where
  "stop_internal env notify_owner s w =
     (if so_state s = io_idle then (Inr (), s, w)
      else
        io_then
          (io_try (\<lambda>s w.
             if so_handle s \<noteq> empty_handle then
               io_then (on_handle (lo_remove env)) (\<lambda>_. io_modify (\<lambda>s. s\<lparr>so_handle := empty_handle\<rparr>)) s w
             else (Inr (), s, w))) (\<lambda>_.
        io_then
          (io_try (io_then (on_socket (sk_close env)) (\<lambda>_. io_modify (\<lambda>s. s\<lparr>so_socket := None\<rparr>)))) (\<lambda>_.
        io_then (io_modify (\<lambda>s. s\<lparr>so_state := io_idle\<rparr>)) (\<lambda>_.
          if notify_owner then invoke_func (cb_close env) else io_return ()))) s w)"

definition io_stop :: "('s, 'w) io_env \<Rightarrow> ('s, 'w, unit) io_op" where
  "io_stop env s w = (if so_state s = io_idle then (Inr (), s, w) else stop_internal env False s w)"

definition start_with :: "('s, 'w) io_env \<Rightarrow> 's \<Rightarrow> bool \<Rightarrow> ('s, 'w, unit) io_op" where
  "start_with env socket connected s w =
     (if so_state s \<noteq> io_idle then (Inl (Illegal_state ''io already started''), s, w)
      else
        io_then (io_modify (\<lambda>s. s\<lparr>so_socket := Some socket\<rparr>)) (\<lambda>_.
        io_then (on_socket (sk_nonblocking env)) (\<lambda>_.
        io_then (io_modify (\<lambda>s. s\<lparr>so_state := (if connected then io_connected else io_bound)\<rparr>)) (\<lambda>_.
        io_then (io_call (lo_add env socket
                   (if connected then event_hung OR event_error OR event_in OR event_out
                    else event_hung OR event_error))) (\<lambda>h.
        io_modify (\<lambda>s. s\<lparr>so_handle := h\<rparr>))))) s w)"

definition io_start :: "('s, 'w) io_env \<Rightarrow> ('s, 'w, unit) io_op" where
  "io_start env s w =
     (if so_state s \<noteq> io_idle then (Inl (Illegal_state ''io already started''), s, w)
      else
        io_then (io_call (sk_new env)) (\<lambda>socket.
        io_then
          (io_catch is_io_exception
             (io_then (io_call (sk_reuseport env socket)) (\<lambda>_. io_call (sk_nonblocking env socket)))
             (\<lambda>e. io_then (io_call (sk_close env socket)) (\<lambda>_. io_throw e))) (\<lambda>_.
        start_with env socket False)) s w)"

definition io_connect :: "('s, 'w) io_env \<Rightarrow> connection_info \<Rightarrow> ('s, 'w, unit) io_op" where
  "io_connect env info s w =
     (if so_state s = io_idle \<or> so_state s = io_connecting \<or> so_state s = io_connected
      then (Inl (Illegal_state ''io not running or already connecting/connected''), s, w)
      else
        io_then (on_handle (\<lambda>h. lo_request env h event_in eu_remove)) (\<lambda>_.
        io_then
          (io_catch is_io_exception
             (io_then (io_modify (\<lambda>s. s\<lparr>so_state := io_connecting\<rparr>)) (\<lambda>_.
                on_socket (\<lambda>k. sk_connect env k info)))
             (\<lambda>e. io_then (stop_internal env True) (\<lambda>_. io_throw e))) (\<lambda>_.
        on_handle (\<lambda>h. lo_request env h event_out eu_append))) s w)"

definition next_header :: "u32 \<Rightarrow> u8 \<Rightarrow> nat \<Rightarrow> message_header" where
  "next_header index t sz =
     \<lparr>mh_magic = message_magic, mh_version = current_version, mh_index = index, mh_type = t,
      mh_size = of_nat sz\<rparr>"

text \<open>\<open>write\<close>; a null buffer is the empty payload.\<close>

definition io_write :: "('s, 'w) io_env \<Rightarrow> u8 \<Rightarrow> bytes \<Rightarrow> ('s, 'w, bool) io_op" where
  "io_write env t payload s w =
     (if \<not> circ_can_write (so_write s) (header_size + length payload) then (Inr False, s, w)
      else
        let header = header_convert_net (next_header (so_next_index s) t (length payload));
            s = s\<lparr>so_next_index := so_next_index s + 1\<rparr> in
        case circ_write (so_write s) (header_bytes header) of
          (False, b) \<Rightarrow> (Inr False, s\<lparr>so_write := b\<rparr>, w)
        | (True, b) \<Rightarrow>
            let s = s\<lparr>so_write := b\<rparr>;
                finish = io_then (on_handle (\<lambda>h. lo_request env h event_out eu_append)) (\<lambda>_. io_return True) in
            if payload \<noteq> [] then
              (case circ_write (so_write s) payload of
                 (False, b) \<Rightarrow>
                   io_then (stop_internal env True) (\<lambda>_. io_return False) (s\<lparr>so_write := b\<rparr>) w
               | (True, b) \<Rightarrow> finish (s\<lparr>so_write := b\<rparr>) w)
            else finish s w)"

text \<open>
  \<open>process_new_data\<close>: the message handed on is the whole block of 1024 bytes and the size from the
  header.
\<close>

partial_function (option) process_new_data ::
  "('s, 'w) io_env \<Rightarrow> 's socket_io \<Rightarrow> 'w \<Rightarrow> ((exn + unit) \<times> 's socket_io \<times> 'w) option" where
  "process_new_data env s w =
     (case reader_process (so_reader s) of
        None \<Rightarrow> None
      | Some p \<Rightarrow>
          (case p of
             (r, m) \<Rightarrow>
               (case r of
                  Inl e \<Rightarrow> Some (Inl e, s\<lparr>so_reader := m\<rparr>, w)
                | Inr _ \<Rightarrow>
                    if is_errored m then Some (stop_internal env True (s\<lparr>so_reader := m\<rparr>) w)
                    else if is_finished m then
                      (case invoke_func (cb_message env (rd_header (sm_data m)) (rd_message (sm_data m))
                              (unat (mh_size (rd_header (sm_data m))))) (s\<lparr>so_reader := m\<rparr>) w of
                         (r, s, w) \<Rightarrow>
                           (case r of
                              Inl e \<Rightarrow> Some (Inl e, s, w)
                            | Inr _ \<Rightarrow> process_new_data env (s\<lparr>so_reader := reader_reset (so_reader s)\<rparr>) w))
                    else Some (Inr (), s\<lparr>so_reader := m\<rparr>, w))))"

text \<open>The update of the reader, with the handlers that stop the connection.\<close>

definition read_update :: "('s, 'w) io_env \<Rightarrow> ('s, 'w, unit) io_op" where
  "read_update env =
     io_catch catchable
       (\<lambda>s w. case so_socket s of
                None \<Rightarrow> (Inl Undefined_behaviour, s, w)
              | Some k \<Rightarrow>
                  (case reader_update (sk_read env k) (so_reader s) w of
                     (r, m, w) \<Rightarrow> (map_sum id (\<lambda>_. ()) r, s\<lparr>so_reader := m\<rparr>, w)))
       (\<lambda>e. stop_internal env True)"

definition on_read_ready ::
  "('s, 'w) io_env \<Rightarrow> 's socket_io \<Rightarrow> 'w \<Rightarrow> ((exn + unit) \<times> 's socket_io \<times> 'w) option" where
  "on_read_ready env s w =
     (if so_state s = io_connected then
        (case read_update env s w of
           (Inl e, s, w) \<Rightarrow> Some (Inl e, s, w)
         | (Inr _, s, w) \<Rightarrow> process_new_data env s w)
      else Some (on_handle (\<lambda>h. lo_request env h event_in eu_remove) s w))"

definition on_write_ready :: "('s, 'w) io_env \<Rightarrow> ('s, 'w, unit) io_op" where
  "on_write_ready env s w =
     (case so_state s of
        io_connecting \<Rightarrow>
          io_then
            (io_catch is_io_exception
               (io_then (on_socket (sk_finalize env)) (\<lambda>_. io_return True))
               (\<lambda>e. io_then (stop_internal env True) (\<lambda>_. io_return False))) (\<lambda>go_on.
          if \<not> go_on then io_return ()
          else
            io_then (io_modify (\<lambda>s. s\<lparr>so_state := io_connected\<rparr>)) (\<lambda>_.
            io_then (on_handle (\<lambda>h. lo_request env h event_in eu_append)) (\<lambda>_.
            invoke_func (cb_connect env)))) s w
      | io_connected \<Rightarrow>
          io_catch is_io_exception
            (io_then
               (\<lambda>s w. case so_socket s of
                        None \<Rightarrow> (Inl Undefined_behaviour, s, w)
                      | Some k \<Rightarrow>
                          (case circ_write_into (sk_write env k) (so_write s) w of
                             (r, b, w) \<Rightarrow> (r, s\<lparr>so_write := b\<rparr>, w))) (\<lambda>wrote.
             if \<not> wrote then on_handle (\<lambda>h. lo_request env h event_out eu_remove) else io_return ()))
            (\<lambda>e. stop_internal env True) s w
      | _ \<Rightarrow> on_handle (\<lambda>h. lo_request env h event_out eu_remove) s w)"

definition on_hung_or_error :: "('s, 'w) io_env \<Rightarrow> ('s, 'w, unit) io_op" where
  "on_hung_or_error env = stop_internal env True"

text \<open>The callback that \<open>start\<close> registers with the looper.\<close>

definition io_event ::
  "('s, 'w) io_env \<Rightarrow> event_types \<Rightarrow> 's socket_io \<Rightarrow> 'w \<Rightarrow> ((exn + unit) \<times> 's socket_io \<times> 'w) option" where
  "io_event env events s w =
     (if events AND (event_hung OR event_error) \<noteq> 0 then Some (on_hung_or_error env s w)
      else
        (case (if events AND event_in \<noteq> 0 then on_read_ready env s w else Some (Inr (), s, w)) of
           None \<Rightarrow> None
         | Some (Inl e, s, w) \<Rightarrow> Some (Inl e, s, w)
         | Some (Inr _, s, w) \<Rightarrow>
             (if events AND event_out \<noteq> 0 then Some (on_write_ready env s w) else Some (Inr (), s, w))))"

lemmas io_defs = io_return_def io_throw_def io_then_def io_modify_def io_call_def io_catch_def
  io_try_def invoke_func_def on_socket_def on_handle_def

end
