(* ===== verification/Obsr_Connection.thy ===== *)
theory Obsr_Connection
  imports Obsr_Socket_Io
begin

text \<open>
  Properties of a connection: what is written goes out as frames, the frames that come in are delivered
  in order however they are fragmented, and what the reader does not recover from.
\<close>

section \<open>Writing\<close>

lemma can_write_room: "circ_ok b \<Longrightarrow> n \<le> circ_room b \<Longrightarrow> circ_can_write b n"
  by (auto simp: circ_can_write_def circ_write_available_def circ_room_def circ_ok_def circ_content_def)

text \<open>The frame that \<open>write\<close> makes of a message.\<close>

definition message_frame :: "u32 \<Rightarrow> u8 \<Rightarrow> bytes \<Rightarrow> message_header \<times> bytes" where
  "message_frame index t payload = (next_header index t (length payload), payload)"

definition stream_of :: "(message_header \<times> bytes) list \<Rightarrow> bytes" where
  "stream_of fs = concat (map (\<lambda>f. frame_bytes (fst f) (snd f)) fs)"

lemma message_frame_good: "length payload < 1024 \<Longrightarrow> good_frame (message_frame index t payload)"
  by (simp add: good_frame_def message_frame_def next_header_def good_header_def unsigned_of_nat
      take_bit_nat_eq_self)

lemma io_write_room:
  assumes ok: "circ_ok (so_write s)" and room: "header_size + length payload \<le> circ_room (so_write s)"
  shows "\<exists>b. circ_ok b \<and> cb_size b = cb_size (so_write s) \<and>
     circ_content b = circ_content (so_write s) @
       frame_bytes (next_header (so_next_index s) t (length payload)) payload \<and>
     io_write env t payload s w =
       io_then (on_handle (\<lambda>h. lo_request env h event_out eu_append)) (\<lambda>_. io_return True)
         (s\<lparr>so_write := b, so_next_index := so_next_index s + 1\<rparr>) w"
proof -
  let ?hb = "header_bytes (header_convert_net (next_header (so_next_index s) t (length payload)))"
  have sz: "header_size + length payload + length (circ_content (so_write s)) < cb_size (so_write s)"
    using room circ_content_bound [OF ok] by (simp add: circ_room_def)
  obtain b1 where b1: "circ_write (so_write s) ?hb = (True, b1)" "circ_ok b1"
    "cb_size b1 = cb_size (so_write s)" "circ_content b1 = circ_content (so_write s) @ ?hb"
    using circ_write_room [OF ok, of ?hb] sz by (cases "circ_write (so_write s) ?hb") auto
  obtain b2 where b2: "circ_write b1 payload = (True, b2)" "circ_ok b2" "cb_size b2 = cb_size b1"
    "circ_content b2 = circ_content b1 @ payload"
    using circ_write_room [OF b1(2), of payload] sz b1(3,4) by (cases "circ_write b1 payload") auto
  have order: "s\<lparr>so_next_index := i, so_write := b\<rparr> = s\<lparr>so_write := b, so_next_index := i\<rparr>" for i b
    by simp
  show ?thesis
  proof (cases "payload = []")
    case True
    from True b1 can_write_room [OF ok room] show ?thesis
      by (intro exI [of _ b1]) (simp add: io_write_def Let_def frame_bytes_def order)
  next
    case False
    with b1 b2 can_write_room [OF ok room] show ?thesis
      by (intro exI [of _ b2]) (simp add: io_write_def Let_def frame_bytes_def order)
  qed
qed

text \<open>
  Writing a message to a connection whose buffer has room for it appends exactly one frame (the
  header with the connection's next index, the type and the length, then the payload), advances the
  index, touches nothing else and asks the looper for a write event; it returns true when the looper
  accepts the request.
\<close>

theorem write_appends_frame:
  assumes "circ_ok (so_write s)" and "header_size + length payload \<le> circ_room (so_write s)"
    and "lo_request env (so_handle s) event_out eu_append w = (Inr (), w')"
  shows "\<exists>b. io_write env t payload s w =
       (Inr True, s\<lparr>so_write := b, so_next_index := so_next_index s + 1\<rparr>, w') \<and>
     circ_ok b \<and>
     circ_content b = circ_content (so_write s) @ stream_of [message_frame (so_next_index s) t payload]"
  using io_write_room [OF assms(1,2), where env = env and t = t and w = w] assms(3)
  by (auto simp: io_defs stream_of_def message_frame_def)

text \<open>An environment in which every call succeeds and the received messages are recorded.\<close>

type_synonym record_world = "bytes \<times> (message_header \<times> bytes) list"

definition recording_env :: "(nat, record_world) io_env" where
  "recording_env =
     \<lparr>sk_new = (\<lambda>w. (Inr 3, w)), sk_reuseport = (\<lambda>k w. (Inr (), w)), sk_nonblocking = (\<lambda>k w. (Inr (), w)),
      sk_close = (\<lambda>k w. (Inr (), w)), sk_connect = (\<lambda>k i w. (Inr (), w)), sk_finalize = (\<lambda>k w. (Inr (), w)),
      sk_read = (\<lambda>k w n. (Inr (take n (fst w)), (drop n (fst w), snd w))),
      sk_write = (\<lambda>k w xs. (Inr (length xs), w)),
      lo_add = (\<lambda>k ev w. (Inr 1, w)), lo_remove = (\<lambda>h w. (Inr (), w)), lo_request = (\<lambda>h ev t w. (Inr (), w)),
      cb_connect = io_return (), cb_close = io_return (),
      cb_message = (\<lambda>h buf n s w. (Inr (), s, (fst w, snd w @ [(h, take n buf)])))\<rparr>"

definition fresh_io :: "nat socket_io" where
  "fresh_io = (socket_io_new \<lparr>rd_header = next_header 0 0 0, rd_message = replicate 1024 0\<rparr> (\<lambda>_. 0) (\<lambda>_. 0))
     \<lparr>so_state := io_connected, so_socket := Some 3, so_handle := 1\<rparr>"

lemma fresh_io_ok:
  "circ_ok (so_write fresh_io)" "circ_content (so_write fresh_io) = []" "cb_size (so_write fresh_io) = 1024"
  "so_next_index fresh_io = 0" "so_handle fresh_io = 1" "so_state fresh_io = io_connected"
  "so_socket fresh_io = Some 3"
  by (simp_all add: fresh_io_def socket_io_new_def) (simp add: circ_new_def)

lemma fresh_reader: "reading (so_reader fresh_io)" "undelivered (so_reader fresh_io) = []"
  by (simp_all add: fresh_io_def socket_io_new_def reader_new_def reading_def waits_for_message_def
      undelivered_def reader_ok_def message_buffer_size_def) (simp add: circ_new_def)

theorem write_appends_frame_witness:
  "\<exists>b. io_write recording_env 5 [7, 8] fresh_io ([], []) =
       (Inr True, fresh_io\<lparr>so_write := b, so_next_index := 1\<rparr>, ([], [])) \<and>
     circ_content b = [0x29, 1, 0, 0, 0, 0, 5, 0, 0, 0, 2, 7, 8]"
proof -
  have "stream_of [message_frame 0 5 [7, 8]] = [0x29, 1, 0, 0, 0, 0, 5, 0, 0, 0, 2, 7, 8]" by code_simp
  with write_appends_frame [of fresh_io "[7, 8]" recording_env "([], [])" "([], [])" 5] fresh_io_ok
  show ?thesis by (auto simp: recording_env_def circ_room_def header_size_def)
qed

section \<open>Receiving\<close>

text \<open>
  The parts of the environment that receiving depends on: the socket hands out what has arrived, and
  the owner records each message.
\<close>

definition records :: "('s, record_world) io_env \<Rightarrow> bool" where
  "records env \<longleftrightarrow>
     (\<forall>k w n. sk_read env k w n = (Inr (take n (fst w)), (drop n (fst w), snd w))) \<and>
     (\<forall>h buf n s w. cb_message env h buf n s w = (Inr (), s, (fst w, snd w @ [(h, take n buf)])))"

lemma recording_env_records: "records recording_env"
  by (simp add: records_def recording_env_def)

text \<open>Everything that fits into the buffer is taken over, in order.\<close>

lemma circ_read_from_fits:
  fixes log :: "(message_header \<times> bytes) list"
  assumes ok: "circ_ok b" and fits: "length inp \<le> circ_room b"
    and rdf: "\<And>w n. rdf w n = (Inr (take n (fst w)), (drop n (fst w), snd w))"
  shows "\<exists>res b'. circ_read_from rdf b (inp, log) = (Inr res, b', ([], log)) \<and> circ_ok b' \<and>
     cb_size b' = cb_size b \<and> circ_content b' = circ_content b @ inp"
proof -
  from ok have o: "length (cb_buffer b) = cb_size b" "cb_read_pos b < cb_size b" "cb_write_pos b < cb_size b"
    by (auto simp: circ_ok_def)
  show ?thesis
  proof (cases "cb_write_pos b < cb_read_pos b")
    case True
    have "length inp < cb_read_pos b - cb_write_pos b"
      using fits True o by (simp add: circ_room_def circ_wrapped [OF ok True])
    with True circ_store [OF ok, of inp] show ?thesis
      by (auto simp: circ_read_from_def Let_def rdf)
  next
    case False
    then have le: "cb_read_pos b \<le> cb_write_pos b" by simp
    have room: "length inp + (cb_write_pos b - cb_read_pos b) < cb_size b"
      using fits le o by (simp add: circ_room_def circ_linear(2) [OF ok le])
    show ?thesis
    proof (cases "length inp < cb_size b - cb_write_pos b")
      case True
      with le o circ_store [OF ok, of inp] show ?thesis
        by (auto simp: circ_read_from_def Let_def rdf)
    next
      case part: False
      let ?n = "cb_size b - cb_write_pos b"
      let ?xs = "take ?n inp" and ?ys = "drop ?n inp"
      have n: "length ?xs = ?n" "length ?ys < cb_read_pos b" using part room le o by auto
      from circ_store_wrap [OF ok le n] have st:
        "circ_ok (b\<lparr>cb_buffer := mem_write (mem_write (cb_buffer b) (cb_write_pos b) ?xs) 0 ?ys,
           cb_write_pos := length ?ys\<rparr>)"
        "circ_content (b\<lparr>cb_buffer := mem_write (mem_write (cb_buffer b) (cb_write_pos b) ?xs) 0 ?ys,
           cb_write_pos := length ?ys\<rparr>) = circ_content b @ inp"
        by auto
      have sub: "size_sub (cb_read_pos b) 1 = cb_read_pos b - 1" using n by simp
      show ?thesis
      proof (cases "cb_read_pos b = 1")
        case True
        then have "?ys = []" using n by simp
        with st True le o n show ?thesis
          by (auto simp: circ_read_from_def Let_def rdf)
      next
        case False
        have "take (cb_read_pos b - 1) ?ys = ?ys" "drop (cb_read_pos b - 1) ?ys = []" using n by auto
        with st False le o n sub show ?thesis
          by (auto simp: circ_read_from_def Let_def rdf)
      qed
    qed
  qed
qed

lemma reading_update:
  assumes "reading m" and "circ_ok b" and "cb_size b = cb_size (rr_buffer m)"
    and "circ_content b = circ_content (rr_buffer m) @ inp"
  shows "reading (m\<lparr>rr_buffer := b\<rparr>) \<and> undelivered (m\<lparr>rr_buffer := b\<rparr>) = undelivered m @ inp"
  using assms by (simp add: reading_def reader_ok_def undelivered_def waits_for_message_def)

lemma records_message:
  "records env \<Longrightarrow> cb_message env h buf n s w = (Inr (), s, (fst w, snd w @ [(h, take n buf)]))"
  unfolding records_def by blast

lemma records_read:
  "records env \<Longrightarrow> sk_read env k w n = (Inr (take n (fst w)), (drop n (fst w), snd w))"
  unfolding records_def by blast

lemma process_new_data_step:
  assumes rec: "records env" and r: "reading (so_reader s)"
    and u: "undelivered (so_reader s) = frame_bytes h p @ rest" and f: "good_frame (h, p)"
  shows "\<exists>m. process_new_data env s w =
       process_new_data env (s\<lparr>so_reader := m\<rparr>) (fst w, snd w @ [(h, p)]) \<and>
     reading m \<and> undelivered m = rest"
proof -
  from reader_whole_frame [OF r u f] obtain m where m: "reader_process (so_reader s) = Some (Inr (), m)"
    "is_finished m" "\<not> is_errored m" "rd_header (sm_data m) = h" "take (length p) (rd_message (sm_data m)) = p"
    "circ_content (rr_buffer m) = rest" "reader_ok m" by blast
  have "unat (mh_size h) = length p" using f by (simp add: good_frame_def)
  with m rec have "process_new_data env s w =
      process_new_data env (s\<lparr>so_reader := reader_reset m\<rparr>) (fst w, snd w @ [(h, p)])"
    by (subst process_new_data.simps) (simp add: io_defs records_message)
  with reader_reset_reading [OF m(7)] m(6) show ?thesis by auto
qed

text \<open>What is left after the last whole frame: a proper part of a further frame, or nothing.\<close>

definition part_of_frame :: "bytes \<Rightarrow> bool" where
  "part_of_frame part \<longleftrightarrow> (\<exists>f tail. good_frame f \<and> tail \<noteq> [] \<and> part @ tail = frame_bytes (fst f) (snd f))"

lemma frame_not_empty: "frame_bytes h p \<noteq> []"
proof
  assume "frame_bytes h p = []"
  then have "length (header_bytes (header_convert_net h)) = 0" by (simp add: frame_bytes_def)
  then show False by (simp add: header_size_def)
qed

lemma part_of_frame_Nil [simp]: "part_of_frame []"
proof -
  have "good_frame (message_frame 0 0 [])" by (rule message_frame_good) simp
  with frame_not_empty show ?thesis unfolding part_of_frame_def by (metis append_Nil)
qed

lemma process_new_data_frames:
  assumes rec: "records env" and part: "part_of_frame part"
  shows "reading (so_reader s) \<Longrightarrow> undelivered (so_reader s) = stream_of fs @ part \<Longrightarrow>
     \<forall>f\<in>set fs. good_frame f \<Longrightarrow>
     \<exists>m. process_new_data env s w = Some (Inr (), s\<lparr>so_reader := m\<rparr>, (fst w, snd w @ fs)) \<and>
       reading m \<and> undelivered m = part"
proof (induction fs arbitrary: s w)
  case Nil
  obtain f tail where f: "good_frame (fst f, snd f)" "tail \<noteq> []" "part @ tail = frame_bytes (fst f) (snd f)"
    using part by (auto simp: part_of_frame_def)
  from Nil have "undelivered (so_reader s) @ tail = frame_bytes (fst f) (snd f)" by (simp add: stream_of_def f)
  from reader_part_of_frame [OF Nil(1) this f(2,1)] obtain m where
    "reader_process (so_reader s) = Some (Inr (), m)" "\<not> is_finished m" "\<not> is_errored m" "reading m"
    "undelivered m = undelivered (so_reader s)" by blast
  then show ?case using Nil(2) by (subst process_new_data.simps) (auto simp: stream_of_def)
next
  case (Cons f fs)
  have "undelivered (so_reader s) = frame_bytes (fst f) (snd f) @ (stream_of fs @ part)"
    using Cons.prems(2) by (simp add: stream_of_def)
  from process_new_data_step [OF rec Cons.prems(1) this, of w] Cons.prems(3) obtain m where m:
    "process_new_data env s w = process_new_data env (s\<lparr>so_reader := m\<rparr>) (fst w, snd w @ [f])"
    "reading m" "undelivered m = stream_of fs @ part" by auto
  from Cons.IH [of "s\<lparr>so_reader := m\<rparr>" "(fst w, snd w @ [f])"] m Cons.prems(3) show ?case by auto
qed

text \<open>Bytes arriving in pieces, with one read event for each piece.\<close>

fun arrivals ::
  "('s, record_world) io_env \<Rightarrow> bytes list \<Rightarrow> 's socket_io \<Rightarrow> record_world \<Rightarrow>
   ((exn + unit) \<times> 's socket_io \<times> record_world) option" where
  "arrivals env [] s w = Some (Inr (), s, w)"
| "arrivals env (c # cs) s w =
     (case on_read_ready env s (fst w @ c, snd w) of
        None \<Rightarrow> None
      | Some (Inl e, s, w) \<Rightarrow> Some (Inl e, s, w)
      | Some (Inr _, s, w) \<Rightarrow> arrivals env cs s w)"

text \<open>Splitting the stream behind what has arrived.\<close>

lemma part_of_frame_short:
  assumes "part @ tail = frame_bytes (fst f) (snd f)" and "tail \<noteq> []"
  shows "length part < header_size + length (snd f)"
proof -
  have "length part + length tail = header_size + length (snd f)"
    using arg_cong [OF assms(1), of length] by (simp add: frame_bytes_def)
  with assms(2) show ?thesis by (cases tail) auto
qed

definition short_part :: "bytes \<Rightarrow> (message_header \<times> bytes) list \<Rightarrow> bool" where
  "short_part part fs \<longleftrightarrow>
     part = [] \<or> (\<exists>f\<in>set fs. length part < header_size + length (snd f))"

lemma short_part_mono: "short_part part fs \<Longrightarrow> set fs \<subseteq> set gs \<Longrightarrow> short_part part gs"
  by (auto simp: short_part_def)

lemma split_stream:
  "xs @ tail = stream_of fs \<Longrightarrow> \<forall>f\<in>set fs. good_frame f \<Longrightarrow>
   \<exists>front rest part. fs = front @ rest \<and> xs = stream_of front @ part \<and> part_of_frame part \<and>
     part @ tail = stream_of rest \<and> short_part part fs"
proof (induction fs arbitrary: xs)
  case Nil
  then have "xs = []" "tail = []" by (simp_all add: stream_of_def)
  then show ?case by (simp add: stream_of_def short_part_def)
next
  case (Cons f fs)
  let ?f = "frame_bytes (fst f) (snd f)"
  have eq: "xs @ tail = ?f @ stream_of fs" using Cons.prems(1) by (simp add: stream_of_def)
  from append_eq_append_conv2 [THEN iffD1, OF eq] obtain us
    where us: "xs = ?f @ us \<and> us @ tail = stream_of fs \<or> xs @ us = ?f \<and> tail = us @ stream_of fs" by blast
  show ?case
  proof (cases "xs = ?f @ us \<and> us @ tail = stream_of fs")
    case True
    with Cons.IH [of us] Cons.prems(2) obtain d rest part where d: "fs = d @ rest"
      "us = stream_of d @ part" "part_of_frame part" "part @ tail = stream_of rest" "short_part part fs"
      by force
    have "f # fs = (f # d) @ rest" "xs = stream_of (f # d) @ part" using True d by (simp_all add: stream_of_def)
    moreover have "short_part part (f # fs)" by (rule short_part_mono [OF d(5)]) auto
    ultimately show ?thesis using d(3,4) by blast
  next
    case False
    with us have z: "xs @ us = ?f" "tail = us @ stream_of fs" by auto
    from False z have ne: "us \<noteq> []" by auto
    have "part_of_frame xs" unfolding part_of_frame_def using z(1) ne Cons.prems(2) by (metis list.set_intros(1))
    moreover have "short_part xs (f # fs)"
      using part_of_frame_short [OF z(1) ne] by (simp add: short_part_def)
    moreover have "f # fs = [] @ f # fs" "xs = stream_of [] @ xs" by (simp_all add: stream_of_def)
    ultimately show ?thesis using Cons.prems(1) by blast
  qed
qed

text \<open>What is left of a frame does not begin with a whole one.\<close>

lemma part_of_frame_no_frame:
  assumes part: "part_of_frame (frame_bytes h p @ q)" and g: "good_frame (h, p)"
  shows False
proof -
  obtain f tail where f: "good_frame f" "tail \<noteq> []"
    "(frame_bytes h p @ q) @ tail = frame_bytes (fst f) (snd f)"
    using part unfolding part_of_frame_def by blast
  have "header_bytes (header_convert_net h) = header_bytes (header_convert_net (fst f))"
    using f(3) by (simp add: frame_bytes_def)
  then have "h = fst f" by (rule header_bytes_net_inj)
  then have "length p = length (snd f)" using f(1) g by (simp add: good_frame_def)
  with part_of_frame_short [OF f(3,2)] show False by (simp add: frame_bytes_def)
qed

lemma part_of_frame_end:
  assumes "part_of_frame part" and "part = stream_of fs" and "\<forall>f\<in>set fs. good_frame f"
  shows "fs = []"
proof (cases fs)
  case (Cons g gs)
  with assms have "part_of_frame (frame_bytes (fst g) (snd g) @ stream_of gs)" "good_frame (fst g, snd g)"
    by (simp_all add: stream_of_def)
  from part_of_frame_no_frame [OF this] show ?thesis ..
qed simp

lemma undelivered_content: "length (circ_content (rr_buffer m)) \<le> length (undelivered m)"
  by (simp add: undelivered_def)

lemma one_arrival:
  assumes rec: "records env" and st: "so_state s = io_connected" "so_socket s = Some k"
    and r: "reading (so_reader s)" and fits: "length (undelivered (so_reader s)) + length c < 1024"
    and u: "undelivered (so_reader s) @ c = stream_of fs @ part" and part: "part_of_frame part"
    and fs: "\<forall>f\<in>set fs. good_frame f"
  shows "\<exists>m. on_read_ready env s (c, log) = Some (Inr (), s\<lparr>so_reader := m\<rparr>, ([], log @ fs)) \<and>
     reading m \<and> undelivered m = part"
proof -
  let ?b = "rr_buffer (so_reader s)"
  have ok: "circ_ok ?b" "cb_size ?b = 1024" using r by (auto simp: reading_def reader_ok_def)
  have "length c \<le> circ_room ?b"
    using fits undelivered_content [of "so_reader s"] by (simp add: circ_room_def ok)
  from circ_read_from_fits [OF ok(1) this, of "sk_read env k" log] rec obtain res b where b:
    "circ_read_from (sk_read env k) ?b (c, log) = (Inr res, b, ([], log))" "circ_ok b"
    "cb_size b = cb_size ?b" "circ_content b = circ_content ?b @ c" by (auto simp: records_def)
  let ?m = "(so_reader s)\<lparr>rr_buffer := b\<rparr>"
  from reading_update [OF r b(2,3,4)] have m: "reading ?m" "undelivered ?m = undelivered (so_reader s) @ c" by auto
  have "on_read_ready env s (c, log) = process_new_data env (s\<lparr>so_reader := ?m\<rparr>) ([], log)"
    using st b(1) by (simp add: on_read_ready_def read_update_def io_defs reader_update_def)
  with process_new_data_frames [OF rec part, of "s\<lparr>so_reader := ?m\<rparr>" fs "([], log)"] m u fs show ?thesis by simp
qed

text \<open>The pieces have to be small enough for the reader's buffer beside an unfinished frame.\<close>

definition small_pieces :: "bytes list \<Rightarrow> (message_header \<times> bytes) list \<Rightarrow> bool" where
  "small_pieces cs fs \<longleftrightarrow> (\<forall>c\<in>set cs. \<forall>f\<in>set fs. length c + length (snd f) + header_size \<le> 1024)"

lemma small_piece:
  assumes "short_part part fs" and "small_pieces (c # cs) fs" and "(part @ c) @ rest = stream_of gs"
    and "set gs \<subseteq> set fs"
  shows "length part + length c < 1024"
proof (cases "fs = []")
  case True
  with assms(3,4) show ?thesis by (simp add: stream_of_def)
next
  case False
  then obtain f where f: "f \<in> set fs" by (cases fs) auto
  show ?thesis
  proof (cases "part = []")
    case True
    have "length c + length (snd f) + header_size \<le> 1024" using f assms(2) by (simp add: small_pieces_def)
    then show ?thesis using True by (simp add: header_size_def)
  next
    case False
    then obtain g where g: "g \<in> set fs" "length part < header_size + length (snd g)"
      using assms(1) unfolding short_part_def by blast
    then have "length c + length (snd g) + header_size \<le> 1024" using assms(2) by (simp add: small_pieces_def)
    with g(2) show ?thesis by simp
  qed
qed

lemma arrivals_deliver:
  assumes rec: "records env" and good: "\<forall>f\<in>set fs. good_frame f"
  shows "reading (so_reader s) \<Longrightarrow> undelivered (so_reader s) @ concat cs = stream_of gs \<Longrightarrow>
     set gs \<subseteq> set fs \<Longrightarrow> so_state s = io_connected \<Longrightarrow> so_socket s = Some k \<Longrightarrow>
     part_of_frame (undelivered (so_reader s)) \<Longrightarrow> short_part (undelivered (so_reader s)) fs \<Longrightarrow>
     small_pieces cs fs \<Longrightarrow>
     \<exists>m. arrivals env cs s ([], log) = Some (Inr (), s\<lparr>so_reader := m\<rparr>, ([], log @ gs)) \<and>
       reading m \<and> undelivered m = []"
proof (induction cs arbitrary: s gs log)
  case Nil
  have "\<forall>f\<in>set gs. good_frame f" using Nil.prems(3) good by blast
  moreover have "undelivered (so_reader s) = stream_of gs" using Nil.prems(2) by simp
  ultimately have "gs = []" using part_of_frame_end [OF Nil.prems(6)] by blast
  with Nil.prems(1,2) show ?case by (intro exI [of _ "so_reader s"]) (simp add: stream_of_def)
next
  case (Cons c cs)
  let ?u = "undelivered (so_reader s)"
  have good': "\<forall>f\<in>set gs. good_frame f" using Cons.prems(3) good by blast
  have all: "(?u @ c) @ concat cs = stream_of gs" using Cons.prems(2) by simp
  from split_stream [OF this good'] obtain d rest part where d: "gs = d @ rest" "?u @ c = stream_of d @ part"
    "part_of_frame part" "part @ concat cs = stream_of rest" "short_part part gs" by blast
  have sub: "set rest \<subseteq> set fs" "\<forall>f\<in>set d. good_frame f" using d(1) Cons.prems(3) good' by auto
  from one_arrival [OF rec Cons.prems(4,5,1) small_piece [OF Cons.prems(7,8) all Cons.prems(3)] d(2,3) sub(2),
      of log] obtain m where m:
    "on_read_ready env s (c, log) = Some (Inr (), s\<lparr>so_reader := m\<rparr>, ([], log @ d))" "reading m"
    "undelivered m = part" by blast
  let ?s = "s\<lparr>so_reader := m\<rparr>"
  have st: "reading (so_reader ?s)" "undelivered (so_reader ?s) @ concat cs = stream_of rest"
    "so_state ?s = io_connected" "so_socket ?s = Some k" "part_of_frame (undelivered (so_reader ?s))"
    "short_part (undelivered (so_reader ?s)) fs" "small_pieces cs fs"
    using m d(3,4) short_part_mono [OF d(5) Cons.prems(3)] Cons.prems(4,5,8) by (simp_all add: small_pieces_def)
  from Cons.IH [OF st(1,2) sub(1) st(3-7), of "log @ d"] obtain m' where
    "arrivals env cs ?s ([], log @ d) = Some (Inr (), s\<lparr>so_reader := m'\<rparr>, ([], (log @ d) @ rest))"
    "reading m'" "undelivered m' = []" by auto
  with m(1) d(1) show ?case by (intro exI [of _ m']) simp
qed

text \<open>
  C11 However the stream of a peer's frames is cut into pieces by the network, the messages are delivered
  to the owner exactly once each, complete and in order, and nothing stays behind; the connection
  stays open. The pieces have to be small enough for the reader's buffer.
\<close>

theorem frames_survive_fragmentation:
  assumes "records env" and "so_state s = io_connected" and "so_socket s = Some k"
    and "reading (so_reader s)" and "undelivered (so_reader s) = []"
    and "\<forall>f\<in>set fs. good_frame f" and "concat cs = stream_of fs"
    and "small_pieces cs fs"
  shows "\<exists>m. arrivals env cs s ([], log) = Some (Inr (), s\<lparr>so_reader := m\<rparr>, ([], log @ fs)) \<and>
     reading m \<and> undelivered m = []"
proof -
  have "part_of_frame (undelivered (so_reader s))" "short_part (undelivered (so_reader s)) fs"
    using assms(5) by (simp_all add: short_part_def)
  moreover have "undelivered (so_reader s) @ concat cs = stream_of fs" using assms(5,7) by simp
  ultimately show ?thesis using arrivals_deliver [OF assms(1,6,4) _ order.refl assms(2,3)] assms(8) by blast
qed

theorem frames_survive_fragmentation_witness:
  "\<exists>m. arrivals recording_env
       [[0x29, 1, 0, 0, 0], [0, 5, 0, 0, 0, 2, 7], [8, 0x29, 1, 0, 0], [0, 1, 9, 0, 0, 0, 0]] fresh_io ([], []) =
     Some (Inr (), fresh_io\<lparr>so_reader := m\<rparr>, ([], [(next_header 0 5 2, [7, 8]), (next_header 1 9 0, [])])) \<and>
     undelivered m = []"
proof -
  let ?fs = "[message_frame 0 5 [7, 8], message_frame 1 9 []]"
  let ?cs = "[[0x29, 1, 0, 0, 0], [0, 5, 0, 0, 0, 2, 7], [8, 0x29, 1, 0, 0], [0, 1, 9, 0, 0, 0, 0]] :: bytes list"
  have st: "concat ?cs = stream_of ?fs" by code_simp
  have good: "\<forall>f\<in>set ?fs. good_frame f" by (simp add: message_frame_good)
  have small: "small_pieces ?cs ?fs" by (simp add: small_pieces_def message_frame_def header_size_def)
  from frames_survive_fragmentation [OF recording_env_records fresh_io_ok(6,7) fresh_reader good st small, of "[]"]
  obtain m where "arrivals recording_env ?cs fresh_io ([], []) =
     Some (Inr (), fresh_io\<lparr>so_reader := m\<rparr>, ([], [] @ ?fs))" "undelivered m = []" by blast
  then show ?thesis by (intro exI [of _ m]) (simp add: message_frame_def numeral_2_eq_2)
qed

end
