(* ===== verification/Obsr_Io_Safety.thy ===== *)
theory Obsr_Io_Safety
  imports Obsr_Connection
begin

text \<open>
  What holds of a connection however it is used: the commands of its owner and the events of the looper
  in any order. What has arrived is always processed to the end; a reader that has given up never delivers
  a message again; stopping and starting leaves the buffers as they are.
\<close>

section \<open>Using a connection\<close>

datatype 's io_command =
    Io_start
  | Io_start_with 's bool
  | Io_connect connection_info
  | Io_write u8 bytes
  | Io_event event_types
  | Io_stop

fun io_do ::
  "('s, 'w) io_env \<Rightarrow> 's io_command \<Rightarrow> 's socket_io \<Rightarrow> 'w \<Rightarrow> ((exn + unit) \<times> 's socket_io \<times> 'w) option"
where
  "io_do env Io_start s w = Some (io_start env s w)"
| "io_do env (Io_start_with k connected) s w = Some (start_with env k connected s w)"
| "io_do env (Io_connect info) s w = Some (io_connect env info s w)"
| "io_do env (Io_write t p) s w = Some (io_then (io_write env t p) (\<lambda>_. io_return ()) s w)"
| "io_do env (Io_event ev) s w = io_event env ev s w"
| "io_do env Io_stop s w = Some (io_stop env s w)"

text \<open>The results of the commands, the final connection and the final world.\<close>

fun io_run ::
  "('s, 'w) io_env \<Rightarrow> 's io_command list \<Rightarrow> 's socket_io \<Rightarrow> 'w \<Rightarrow> ((exn + unit) list \<times> 's socket_io \<times> 'w) option"
where
  "io_run env [] s w = Some ([], s, w)"
| "io_run env (c # cs) s w =
     (case io_do env c s w of
        None \<Rightarrow> None
      | Some (r, s, w) \<Rightarrow>
          (case io_run env cs s w of None \<Rightarrow> None | Some (rs, s, w) \<Rightarrow> Some (r # rs, s, w)))"

section \<open>What the operations leave as it is\<close>

definition io_keeps :: "('s socket_io \<Rightarrow> 'a) \<Rightarrow> ('s, 'w, 'x) io_op \<Rightarrow> bool" where
  "io_keeps view p \<longleftrightarrow> (\<forall>s w. view (fst (snd (p s w))) = view s)"

lemma io_keepsI: "(\<And>s w. view (fst (snd (p s w))) = view s) \<Longrightarrow> io_keeps view p"
  by (simp add: io_keeps_def)

lemma io_keepsD: "io_keeps view p \<Longrightarrow> p s w = (r, s', w') \<Longrightarrow> view s' = view s"
  unfolding io_keeps_def by (metis fst_conv snd_conv)

lemma io_keepsE: "io_keeps view p \<Longrightarrow> view (fst (snd (p s w))) = view s"
  by (simp add: io_keeps_def)

named_theorems keeps

lemma keeps_return [keeps]: "io_keeps view (io_return x)"
  by (simp add: io_keeps_def io_return_def)

lemma keeps_throw [keeps]: "io_keeps view (io_throw e)"
  by (simp add: io_keeps_def io_throw_def)

lemma keeps_modify [keeps]: "(\<And>s. view (f s) = view s) \<Longrightarrow> io_keeps view (io_modify f)"
  by (simp add: io_keeps_def io_modify_def)

lemma keeps_call [keeps]: "io_keeps view (io_call g)"
  by (simp add: io_keeps_def io_call_def split: prod.split)

lemma keeps_handle [keeps]: "io_keeps view (on_handle g)"
  by (simp add: io_keeps_def on_handle_def io_call_def split: prod.split)

lemma keeps_socket [keeps]: "io_keeps view (on_socket g)"
  by (simp add: io_keeps_def on_socket_def io_call_def split: option.split prod.split)

lemma keeps_then [keeps]:
  assumes p: "io_keeps view p" and f: "\<And>x. io_keeps view (f x)"
  shows "io_keeps view (io_then p f)"
proof (rule io_keepsI)
  fix s w
  obtain r s' w' where e: "p s w = (r, s', w')" by (cases "p s w") auto
  with io_keepsD [OF p e] f show "view (fst (snd (io_then p f s w))) = view s"
    by (cases r) (simp_all add: io_then_def io_keeps_def)
qed

lemma keeps_catch [keeps]:
  assumes p: "io_keeps view p" and h: "\<And>e. io_keeps view (h e)"
  shows "io_keeps view (io_catch handled p h)"
proof (rule io_keepsI)
  fix s w
  obtain r s' w' where e: "p s w = (r, s', w')" by (cases "p s w") auto
  with io_keepsD [OF p e] h show "view (fst (snd (io_catch handled p h s w))) = view s"
    by (cases r) (simp_all add: io_catch_def io_keeps_def)
qed

lemma keeps_try [keeps]: "io_keeps view p \<Longrightarrow> io_keeps view (io_try p)"
  by (simp add: io_try_def keeps_catch keeps_return)

lemma keeps_invoke [keeps]: "io_keeps view p \<Longrightarrow> io_keeps view (invoke_func p)"
  by (simp add: invoke_func_def keeps_try)

lemma keeps_if [keeps]:
  "io_keeps view p \<Longrightarrow> io_keeps view q \<Longrightarrow> io_keeps view (\<lambda>s w. if c s w then p s w else q s w)"
  by (simp add: io_keeps_def)

lemma keeps_if_const [keeps]: "io_keeps view p \<Longrightarrow> io_keeps view q \<Longrightarrow> io_keeps view (if b then p else q)"
  by simp

lemma keeps_done [keeps]: "io_keeps view (\<lambda>s w. (r, s, w))"
  by (simp add: io_keeps_def)

text \<open>A view that does not look at the state, the handle and the socket survives a stop and a start.\<close>

definition buffers_view :: "('s socket_io \<Rightarrow> 'a) \<Rightarrow> bool" where
  "buffers_view view \<longleftrightarrow> (\<forall>s st h k. view (s\<lparr>so_state := st\<rparr>) = view s \<and> view (s\<lparr>so_handle := h\<rparr>) = view s \<and>
     view (s\<lparr>so_socket := k\<rparr>) = view s)"

definition owner_keeps :: "('s socket_io \<Rightarrow> 'a) \<Rightarrow> ('s, 'w) io_env \<Rightarrow> bool" where
  "owner_keeps view env \<longleftrightarrow> io_keeps view (cb_connect env) \<and> io_keeps view (cb_close env) \<and>
     (\<forall>h buf n. io_keeps view (cb_message env h buf n))"

lemma keeps_stop_internal:
  assumes "buffers_view view" and "owner_keeps view env"
  shows "io_keeps view (stop_internal env notify)"
proof -
  have v: "view (s\<lparr>so_state := st\<rparr>) = view s" "view (s\<lparr>so_handle := h\<rparr>) = view s"
    "view (s\<lparr>so_socket := k\<rparr>) = view s" for s st h k
    using assms(1) by (simp_all add: buffers_view_def)
  show ?thesis
    using assms(2) unfolding stop_internal_def [abs_def]
    by (intro keeps) (simp_all add: v owner_keeps_def)
qed

text \<open>Every operation but the ones that receive.\<close>

lemma keeps_on_write_ready:
  assumes b: "buffers_view view" and o: "owner_keeps view env"
    and w: "\<And>s b. view (s\<lparr>so_write := b\<rparr>) = view s"
  shows "io_keeps view (on_write_ready env)"
proof (rule io_keepsI)
  fix s w
  have v: "view (s\<lparr>so_state := st\<rparr>) = view s" for s st using b by (simp add: buffers_view_def)
  note stop = keeps_stop_internal [OF b o]
  have cb: "io_keeps view (cb_connect env)" using o by (simp add: owner_keeps_def)
  show "view (fst (snd (on_write_ready env s w))) = view s"
  proof (cases "so_state s")
    case io_connecting
    have "io_keeps view
       (io_then
            (io_catch is_io_exception
               (io_then (on_socket (sk_finalize env)) (\<lambda>_. io_return True))
               (\<lambda>e. io_then (stop_internal env True) (\<lambda>_. io_return False))) (\<lambda>go_on.
          if \<not> go_on then io_return ()
          else
            io_then (io_modify (\<lambda>s. s\<lparr>so_state := io_connected\<rparr>)) (\<lambda>_.
            io_then (on_handle (\<lambda>h. lo_request env h event_in eu_append)) (\<lambda>_.
            invoke_func (cb_connect env)))))"
      by (intro keeps stop cb) (simp add: v)
    with io_connecting show ?thesis by (simp add: on_write_ready_def io_keeps_def)
  next
    case io_connected
    have wr: "io_keeps view
        (\<lambda>s w. case so_socket s of
                 None \<Rightarrow> (Inl Undefined_behaviour, s, w)
               | Some k \<Rightarrow>
                   (case circ_write_into (sk_write env k) (so_write s) w of
                      (r, b, w) \<Rightarrow> (r, s\<lparr>so_write := b\<rparr>, w)))"
      by (simp add: io_keeps_def w split: option.split prod.split)
    show ?thesis
      using io_connected keeps_catch [OF keeps_then [OF wr] stop] 
      unfolding on_write_ready_def by (simp add: io_keeps_def keeps_handle [unfolded io_keeps_def]
          keeps_return [unfolded io_keeps_def])
  qed (simp_all add: on_write_ready_def keeps_handle [unfolded io_keeps_def])
qed

lemma keeps_start_with: "buffers_view view \<Longrightarrow> io_keeps view (start_with env k connected)"
  unfolding start_with_def [abs_def] by (intro keeps) (simp_all add: buffers_view_def)

lemma keeps_io_start: "buffers_view view \<Longrightarrow> io_keeps view (io_start env)"
  unfolding io_start_def [abs_def] by (intro keeps keeps_start_with)

lemma keeps_io_stop: "buffers_view view \<Longrightarrow> owner_keeps view env \<Longrightarrow> io_keeps view (io_stop env)"
  unfolding io_stop_def [abs_def] by (intro keeps keeps_stop_internal)

lemma keeps_io_connect: "buffers_view view \<Longrightarrow> owner_keeps view env \<Longrightarrow> io_keeps view (io_connect env info)"
  unfolding io_connect_def [abs_def] by (intro keeps keeps_stop_internal) (simp_all add: buffers_view_def)

lemma keeps_io_write:
  assumes b: "buffers_view view" and o: "owner_keeps view env"
    and w: "\<And>s b. view (s\<lparr>so_write := b\<rparr>) = view s" "\<And>s i. view (s\<lparr>so_next_index := i\<rparr>) = view s"
  shows "io_keeps view (io_write env t p)"
proof (rule io_keepsI)
  fix s w0
  have fin: "view (fst (snd (io_then (on_handle (\<lambda>h. lo_request env h event_out eu_append)) (\<lambda>_. io_return True) s w)))
     = view s" for s and w
    by (rule io_keepsE) (intro keeps)
  have stop: "view (fst (snd (io_then (stop_internal env True) (\<lambda>_. io_return False) s w))) = view s" for s and w
    by (rule io_keepsE) (intro keeps keeps_stop_internal b o)
  show "view (fst (snd (io_write env t p s w0))) = view s"
    by (simp add: io_write_def Let_def w fin stop split: prod.split bool.split)
qed

section \<open>Stopping and starting\<close>

fun restarts :: "'s io_command \<Rightarrow> bool" where
  "restarts (Io_write t p) = False"
| "restarts (Io_event ev) = False"
| "restarts _ = True"

definition buffers :: "'s socket_io \<Rightarrow> reader \<times> circular_buffer \<times> u32" where
  "buffers s = (so_reader s, so_write s, so_next_index s)"

lemma buffers_view_buffers: "buffers_view buffers"
  by (simp add: buffers_view_def buffers_def)

lemma restart_step:
  assumes "owner_keeps buffers env" and "restarts c"
  shows "\<exists>r s' w'. io_do env c s w = Some (r, s', w') \<and> buffers s' = buffers s"
proof -
  note k = keeps_io_start [OF buffers_view_buffers] keeps_start_with [OF buffers_view_buffers]
    keeps_io_stop [OF buffers_view_buffers assms(1)] keeps_io_connect [OF buffers_view_buffers assms(1)]
  have "\<exists>op. io_do env c s w = Some (op s w) \<and> io_keeps buffers op"
    using assms(2) k by (cases c) force+
  then obtain op where "io_do env c s w = Some (op s w)" "io_keeps buffers op" by blast
  then show ?thesis using io_keepsE [of buffers op s w] by (cases "op s w") auto
qed

text \<open>
  C36 Stopping a connection and starting or connecting it again, in any order and however the socket and
  the looper behave, leaves the buffers and the message index of the connection as they were: the
  unsent bytes of the old connection, perhaps the rest of a message that was half written, are the
  first that the new peer gets, and the reader goes on in the middle of the old peer's message.
\<close>

theorem restart_keeps_stale_bytes:
  assumes "owner_keeps buffers env" and "\<forall>c\<in>set cs. restarts c"
  shows "\<exists>rs s' w'. io_run env cs s w = Some (rs, s', w') \<and> so_write s' = so_write s \<and>
     so_reader s' = so_reader s \<and> so_next_index s' = so_next_index s"
  using assms(2)
proof (induction cs arbitrary: s w)
  case (Cons c cs)
  then obtain r s1 w1 where 1: "io_do env c s w = Some (r, s1, w1)" "buffers s1 = buffers s"
    using restart_step [OF assms(1), of c s w] by auto
  from Cons.IH [of s1 w1] Cons.prems obtain rs s' w' where "io_run env cs s1 w1 = Some (rs, s', w')"
    "so_write s' = so_write s1" "so_reader s' = so_reader s1" "so_next_index s' = so_next_index s1" by auto
  with 1 show ?case by (simp add: buffers_def)
qed simp

lemma recording_owner_keeps: "owner_keeps view recording_env"
  by (simp add: owner_keeps_def recording_env_def io_keeps_def io_return_def)

theorem restart_keeps_stale_bytes_witness:
  "\<exists>rs s' w'. io_run recording_env [Io_stop, Io_start_with 4 True]
       (fresh_io\<lparr>so_write := snd (circ_write (so_write fresh_io) [1, 2, 3])\<rparr>) ([], []) = Some (rs, s', w') \<and>
     circ_content (so_write s') = [1, 2, 3] \<and> so_socket s' = Some 4 \<and> so_state s' = io_connected"
proof -
  let ?s = "fresh_io\<lparr>so_write := snd (circ_write (so_write fresh_io) [1, 2, 3])\<rparr>"
  let ?cs = "[Io_stop, Io_start_with 4 True] :: nat io_command list"
  have c: "circ_content (so_write ?s) = [1, 2, 3]"
    using circ_write_room [OF fresh_io_ok(1), of "[1, 2, 3]"] fresh_io_ok(2,3) 
    by (simp add: circ_room_def) 
  have "\<forall>c\<in>set ?cs. restarts c" by simp
  from restart_keeps_stale_bytes [OF recording_owner_keeps this, of ?s "([], [])"] obtain rs s' w' where
    r: "io_run recording_env ?cs ?s ([], []) = Some (rs, s', w')" "so_write s' = so_write ?s" by blast
  have "so_socket s' = Some 4 \<and> so_state s' = io_connected"
    using r(1) fresh_io_ok(4-7)
    by (simp add: io_stop_def stop_internal_def start_with_def io_defs recording_env_def empty_handle_def)  (auto)
  with r c show ?thesis by auto
qed

section \<open>A reader that has given up\<close>

text \<open>The operations that do not receive do not look at the message callback.\<close>

lemma other_owner:
  "stop_internal (env\<lparr>cb_message := f\<rparr>) = stop_internal env"
  "io_stop (env\<lparr>cb_message := f\<rparr>) = io_stop env"
  "start_with (env\<lparr>cb_message := f\<rparr>) = start_with env"
  "io_start (env\<lparr>cb_message := f\<rparr>) = io_start env"
  "io_connect (env\<lparr>cb_message := f\<rparr>) = io_connect env"
  "io_write (env\<lparr>cb_message := f\<rparr>) = io_write env"
  "read_update (env\<lparr>cb_message := f\<rparr>) = read_update env"
  "on_write_ready (env\<lparr>cb_message := f\<rparr>) = on_write_ready env"
proof -
  show stop: "stop_internal (env\<lparr>cb_message := f\<rparr>) = stop_internal env"
    by (intro ext) (simp add: stop_internal_def cong: if_cong)
  show "io_stop (env\<lparr>cb_message := f\<rparr>) = io_stop env" by (intro ext) (simp add: io_stop_def stop)
  show sw: "start_with (env\<lparr>cb_message := f\<rparr>) = start_with env" by (intro ext) (simp add: start_with_def)
  show "io_start (env\<lparr>cb_message := f\<rparr>) = io_start env" by (intro ext) (simp add: io_start_def sw)
  show "io_connect (env\<lparr>cb_message := f\<rparr>) = io_connect env" by (intro ext) (simp add: io_connect_def stop)
  show "io_write (env\<lparr>cb_message := f\<rparr>) = io_write env" by (intro ext) (simp add: io_write_def stop Let_def cong: if_cong split: prod.split bool.split)
  show "read_update (env\<lparr>cb_message := f\<rparr>) = read_update env" by (simp add: read_update_def stop cong: option.case_cong)
  show "on_write_ready (env\<lparr>cb_message := f\<rparr>) = on_write_ready env"
    by (intro ext) (simp add: on_write_ready_def stop cong: if_cong option.case_cong split: io_state.split)
qed

definition reader_status :: "'s socket_io \<Rightarrow> overall_state \<times> u8" where
  "reader_status s = (sm_state (so_reader s), sm_error_code (so_reader s))"

definition stuck :: "'s socket_io \<Rightarrow> bool" where
  "stuck s \<longleftrightarrow> fst (reader_status s) = os_error \<and> snd (reader_status s) \<noteq> 0"

lemma buffers_view_status: "buffers_view reader_status"
  by (simp add: buffers_view_def reader_status_def)

lemma owner_keeps_status: "owner_keeps so_reader env \<Longrightarrow> owner_keeps reader_status env"
  by (simp add: owner_keeps_def io_keeps_def reader_status_def)

lemma stuck_process:
  "stuck s \<Longrightarrow> process_new_data env s w = Some (stop_internal env True s w)"
  by (subst process_new_data.simps)
     (simp add: stuck_def reader_status_def is_errored_def reader_process_def sm_process_def)

lemma keeps_read_update:
  assumes "owner_keeps reader_status env"
  shows "io_keeps reader_status (read_update env)"
proof -
  have "io_keeps reader_status
      (\<lambda>s w. case so_socket s of
                None \<Rightarrow> (Inl Undefined_behaviour, s, w)
              | Some k \<Rightarrow>
                  (case reader_update (sk_read env k) (so_reader s) w of
                     (r, m, w) \<Rightarrow> (map_sum id (\<lambda>_. ()) r, s\<lparr>so_reader := m\<rparr>, w)))"
    by (auto simp: io_keeps_def reader_status_def reader_update_def split: option.split prod.splits)
  from keeps_catch [OF this keeps_stop_internal [OF buffers_view_status assms]]
  show ?thesis by (simp add: read_update_def)
qed

lemma stuck_read:
  assumes o: "owner_keeps reader_status env" and s: "stuck s"
  shows "\<exists>r s' w'. on_read_ready env s w = Some (r, s', w') \<and> stuck s' \<and>
     on_read_ready (env\<lparr>cb_message := f\<rparr>) s w = Some (r, s', w')"
proof (cases "so_state s = io_connected")
  case True
  obtain r s1 w1 where u: "read_update env s w = (r, s1, w1)" by (cases "read_update env s w") auto
  have s1: "stuck s1"
    using io_keepsD [OF keeps_read_update [OF o] u] s by (simp add: stuck_def)
  obtain r' s2 w2 where st: "stop_internal env True s1 w1 = (r', s2, w2)" 
    by (cases "stop_internal env True s1 w1") auto
  have s2: "stuck s2"
    using io_keepsD [OF keeps_stop_internal [OF buffers_view_status o] st] s1 by (simp add: stuck_def)
  from True u s1 s2 st show ?thesis
    by (cases r) (simp_all add: on_read_ready_def other_owner stuck_process)
next
  case False
  obtain r' s2 w2 where st: "on_handle (\<lambda>h. lo_request env h event_in eu_remove) s w = (r', s2, w2)" 
    by (cases "on_handle (\<lambda>h. lo_request env h event_in eu_remove) s w") auto
  from io_keepsD [OF keeps_handle st, of reader_status] s have "stuck s2" by (simp add: stuck_def)
  with False st show ?thesis by (simp add: on_read_ready_def)
qed

lemma stuck_op:
  assumes "io_keeps reader_status p" and "stuck s"
  shows "\<exists>r s' w'. p s w = (r, s', w') \<and> stuck s' \<and> p s w = (r, s', w')"
  using io_keepsE [OF assms(1), of s w] assms(2) by (cases "p s w") (auto simp: stuck_def)

lemma stuck_event:
  assumes o: "owner_keeps reader_status env" and s: "stuck s"
  shows "\<exists>r s' w'. io_event env ev s w = Some (r, s', w') \<and> stuck s' \<and>
     io_event (env\<lparr>cb_message := f\<rparr>) ev s w = Some (r, s', w')"
proof -
  note wr = keeps_on_write_ready [OF buffers_view_status o]
  have sw: "reader_status (t\<lparr>so_write := b\<rparr>) = reader_status t" for t :: "'a socket_io" and b
    by (simp add: reader_status_def)
  consider "ev AND (event_hung OR event_error) \<noteq> 0"
    | "ev AND (event_hung OR event_error) = 0" "ev AND event_in \<noteq> 0"
    | "ev AND (event_hung OR event_error) = 0" "ev AND event_in = 0" by blast
  then show ?thesis
  proof cases
    case 1
    with stuck_op [OF keeps_stop_internal [OF buffers_view_status o] s, where w = w] show ?thesis
      by (simp add: io_event_def on_hung_or_error_def other_owner)
  next
    case 2
    from stuck_read [OF o s, of w f] obtain r s1 w1 where r: "on_read_ready env s w = Some (r, s1, w1)"
      "stuck s1" "on_read_ready (env\<lparr>cb_message := f\<rparr>) s w = Some (r, s1, w1)" by blast
    with 2 stuck_op [OF wr r(2), where w = w1] show ?thesis
      by (cases r) (auto simp: io_event_def other_owner sw)
  next
    case 3
    with stuck_op [OF wr s] s show ?thesis
      by (auto simp: io_event_def other_owner sw)
  qed
qed

lemma stuck_step:
  assumes o: "owner_keeps reader_status env" and s: "stuck s"
  shows "\<exists>r s' w'. io_do env c s w = Some (r, s', w') \<and> stuck s' \<and>
     io_do (env\<lparr>cb_message := f\<rparr>) c s w = Some (r, s', w')"
proof -
  note b = buffers_view_status
  have v: "reader_status (t\<lparr>so_write := b\<rparr>) = reader_status t"
    "reader_status (t\<lparr>so_next_index := i\<rparr>) = reader_status t" for t :: "'a socket_io" and b i
    by (simp_all add: reader_status_def)
  show ?thesis
  proof (cases c)
    case Io_start
    with stuck_op [OF keeps_io_start [OF b] s, where w = w] show ?thesis by (simp add: other_owner)
  next
    case (Io_start_with k x)
    with stuck_op [OF keeps_start_with [OF b] s, where w = w] show ?thesis by (simp add: other_owner)
  next
    case (Io_connect info)
    with stuck_op [OF keeps_io_connect [OF b o] s, where w = w] show ?thesis by (simp add: other_owner)
  next
    case (Io_write t p)
    with stuck_op [OF keeps_then [OF keeps_io_write [OF b o v] keeps_return] s, where w = w] show ?thesis
      by (simp add: other_owner)
  next
    case (Io_event ev)
    with stuck_event [OF o s] show ?thesis by simp
  next
    case Io_stop
    with stuck_op [OF keeps_io_stop [OF b o] s, where w = w] show ?thesis by (simp add: other_owner)
  qed
qed

lemma stuck_run:
  assumes o: "owner_keeps reader_status env"
  shows "stuck s \<Longrightarrow> \<exists>rs s' w'. io_run env cs s w = Some (rs, s', w') \<and> stuck s' \<and>
     io_run (env\<lparr>cb_message := f\<rparr>) cs s w = Some (rs, s', w')"
proof (induction cs arbitrary: s w)
  case (Cons c cs)
  from stuck_step [OF o Cons.prems, of c w f] obtain r s1 w1 where 1: "io_do env c s w = Some (r, s1, w1)"
    "stuck s1" "io_do (env\<lparr>cb_message := f\<rparr>) c s w = Some (r, s1, w1)" by blast
  from Cons.IH [OF 1(2), of w1] 1 show ?case by auto
qed simp

lemma reader_rejects_size:
  assumes r: "reading m" and u: "undelivered m = header_bytes (header_convert_net h) @ rest"
    and h: "good_header h" "1024 < unat (mh_size h)"
  shows "\<exists>m'. reader_process m = Some (Inr (), m') \<and> sm_state m' = os_error \<and>
     sm_error_code m' = read_unsupported_size"
proof -
  have ok: "reader_ok m" using r by (simp add: reading_def)
  have nw: "\<not> waits_for_message m"
  proof
    assume w: "waits_for_message m"
    with u have "rd_header (sm_data m) = h" by (auto simp: undelivered_def dest!: header_bytes_net_inj)
    with w r h(2) show False by (simp add: reading_def)
  qed
  then have "circ_content (rr_buffer m) = [] @ header_bytes (header_convert_net h) @ rest"
    using u by (simp add: undelivered_def)
  from header_complete [OF ok this _ h(1)] obtain m1 where m1:
    "process_loop reader_step (in_header m) = process_loop reader_step m1" "waits_for_message m1"
    "rd_header (sm_data m1) = h" by auto
  let ?m = "m1\<lparr>sm_state := os_error, sm_error_code := read_unsupported_size,
      rr_buffer := circ_seek_read (rr_buffer m1) (unat (mh_size h))\<rparr>"
  have "process_once reader_step m1 = (Inr False, ?m)"
    using m1 h(2)
    by (simp add: waits_for_message_def reader_step_def Let_def no_exn_def sm_error_def message_buffer_size_def)
  from process_loop_stop [OF this] m1(1) process_in_header [OF r nw] show ?thesis by simp
qed

text \<open>
  C33 A header that announces more than 1024 bytes puts the reader of the connection into its error state
  for good: whatever its owner, the sockets and the looper do afterwards, stopping and connecting again
  included, no message is ever delivered (the outcome does not depend on the message callback).
\<close>

theorem oversized_header_is_final:
  assumes "reading (so_reader s)"
    and "undelivered (so_reader s) = header_bytes (header_convert_net h) @ rest"
    and "good_header h" and "1024 < unat (mh_size h)" and "owner_keeps so_reader env"
  shows "\<exists>r s1 w1. process_new_data env s w = Some (r, s1, w1) \<and>
     process_new_data (env\<lparr>cb_message := f\<rparr>) s w = Some (r, s1, w1) \<and>
     (\<forall>cs w'. \<exists>rs s2 w2. io_run env cs s1 w' = Some (rs, s2, w2) \<and>
        io_run (env\<lparr>cb_message := f\<rparr>) cs s1 w' = Some (rs, s2, w2) \<and> is_errored (so_reader s2))"
proof -
  note o = owner_keeps_status [OF assms(5)]
  from reader_rejects_size [OF assms(1-4)] obtain m where m: "reader_process (so_reader s) = Some (Inr (), m)"
    "sm_state m = os_error" "sm_error_code m = read_unsupported_size" by blast
  let ?s = "s\<lparr>so_reader := m\<rparr>"
  have st: "stuck ?s" using m by (simp add: stuck_def reader_status_def read_unsupported_size_def)
  have e: "is_errored m" using m by (simp add: is_errored_def read_unsupported_size_def)
  obtain r s1 w1 where s1: "stop_internal env True ?s w = (r, s1, w1)"
    by (cases "stop_internal env True ?s w") auto
  have p: "process_new_data env s w = Some (r, s1, w1)" 
    using m(1) e s1 by (subst process_new_data.simps) simp
  have q: "process_new_data (env\<lparr>cb_message := f\<rparr>) s w = Some (r, s1, w1)"
    using m(1) e s1 by (subst process_new_data.simps) (simp add: other_owner)
  have "stuck s1"
    using io_keepsD [OF keeps_stop_internal [OF buffers_view_status o] s1] st by (simp add: stuck_def)
  then have "\<exists>rs s2 w2. io_run env cs s1 w' = Some (rs, s2, w2) \<and>
      io_run (env\<lparr>cb_message := f\<rparr>) cs s1 w' = Some (rs, s2, w2) \<and> is_errored (so_reader s2)" for cs w'
    using stuck_run [OF o, of s1 cs w' f] by (auto simp: stuck_def reader_status_def is_errored_def)
  with p q show ?thesis by blast
qed

theorem oversized_header_is_final_witness:
  "\<exists>s r s1 w1. circ_content (rr_buffer (so_reader s)) = [0x29, 1, 0, 0, 0, 0, 5, 0, 0, 8, 0] \<and>
     process_new_data recording_env s ([], []) = Some (r, s1, w1) \<and>
     (\<exists>rs s2 w2. io_run recording_env [Io_start_with 4 True, Io_event event_in] s1
        ([0x29, 1, 0, 0, 0, 0, 5, 0, 0, 0, 0], []) = Some (rs, s2, w2) \<and> is_errored (so_reader s2))"
proof -
  let ?h = "next_header 0 5 0x800"
  let ?bs = "header_bytes (header_convert_net ?h)"
  let ?rd = "so_reader fresh_io"
  have bs: "?bs = [0x29, 1, 0, 0, 0, 0, 5, 0, 0, 8, 0]" by code_simp
  have ok: "circ_ok (rr_buffer ?rd)" "cb_size (rr_buffer ?rd) = 1024" "circ_content (rr_buffer ?rd) = []"
    using fresh_reader by (auto simp: reading_def reader_ok_def undelivered_def split: if_splits)
  then obtain b where b: "circ_ok b" "cb_size b = cb_size (rr_buffer ?rd)" "circ_content b = ?bs"
    using circ_write_room [OF ok(1), of ?bs]
    by (cases "circ_write (rr_buffer ?rd) ?bs") (auto simp: circ_room_def header_size_def)
  let ?s = "fresh_io\<lparr>so_reader := ?rd\<lparr>rr_buffer := b\<rparr>\<rparr>"
  have "reading (so_reader ?s)" "undelivered (so_reader ?s) = ?bs @ []"
    using reading_update [OF fresh_reader(1) b(1,2)] b(3) ok(3) fresh_reader(2) by auto
  moreover have "good_header ?h" "1024 < unat (mh_size ?h)"
    by (simp_all add: good_header_def next_header_def)
  ultimately obtain r s1 w1 where "process_new_data recording_env ?s ([], []) = Some (r, s1, w1)"
    "\<forall>cs w'. \<exists>rs s2 w2. io_run recording_env cs s1 w' = Some (rs, s2, w2) \<and> is_errored (so_reader s2)"
    using oversized_header_is_final [OF _ _ _ _ recording_owner_keeps, of ?s ?h "[]" "([], [])"
        "\<lambda>_ _ _. io_return ()"] by blast
  moreover have "circ_content (rr_buffer (so_reader ?s)) = [0x29, 1, 0, 0, 0, 0, 5, 0, 0, 8, 0]"
    using b(3) bs by simp
  ultimately show ?thesis by blast
qed

section \<open>What has arrived is processed to the end\<close>

text \<open>A header that is found has been taken off the unread bytes.\<close>

lemma find_header_takes:
  "circ_ok b \<Longrightarrow> find_header h b = Some (found, h', b') \<Longrightarrow>
   length (circ_content b') \<le> length (circ_content b) \<and>
   (found \<longrightarrow> length (circ_content b') < length (circ_content b))"
proof (induction "length (circ_content b)" arbitrary: b h rule: less_induct)
  case less
  show ?case
  proof (cases "message_magic \<in> set (circ_content b)")
    case False
    from find_header_absent [OF less.prems(1) False, of h] less.prems(2) show ?thesis by auto
  next
    case True
    then obtain junk rest where c: "circ_content b = junk @ message_magic # rest"
      and junk: "message_magic \<notin> set junk" by (meson split_list_first)
    show ?thesis
    proof (cases "length rest < 10")
      case True
      from find_header_short [OF less.prems(1) c junk True, of h] less.prems(2) c show ?thesis by auto
    next
      case False
      let ?hb = "message_magic # take 10 rest"
      have "circ_content b = junk @ ?hb @ drop 10 rest" using c by simp
      moreover have "length ?hb = header_size" using False by (simp add: header_size_def)
      ultimately obtain b1 where b1: "circ_ok b1" "circ_content b1 = drop 10 rest"
        "find_header h b = (let h = header_convert_host (header_of_bytes ?hb) in
          if mh_magic h \<noteq> message_magic \<or> mh_version h \<noteq> current_version
          then find_header h b1 else Some (True, h, b1))"
        using find_header_step [OF less.prems(1) _ junk, of ?hb "drop 10 rest" h] by auto
      have lt: "length (circ_content b1) < length (circ_content b)" using b1(2) c by simp
      show ?thesis
      proof (cases "find_header h b = Some (True, header_convert_host (header_of_bytes ?hb), b1)")
        case True
        with less.prems(2) lt show ?thesis by simp
      next
        case False
        with b1(3) have "find_header h b = find_header (header_convert_host (header_of_bytes ?hb)) b1"
          by (simp add: Let_def split: if_splits)
        with less.hyps [OF lt b1(1)] less.prems(2) lt show ?thesis by fastforce
      qed
    qed
  qed
qed

text \<open>
  The processing of a message, from a fresh start, takes at least its header off the unread bytes.
\<close>

definition unread :: "reader \<Rightarrow> nat" where
  "unread m = length (circ_content (rr_buffer m))"

lemma message_step_takes:
  assumes "reader_ok m"
  shows "unread (snd (reader_step rs_message m)) \<le> unread m"
proof -
  have ok: "circ_ok (rr_buffer m)" using assms by (simp add: reader_ok_def)
  let ?sz = "unat (mh_size (rd_header (sm_data m)))"
  have r: "length (circ_content (snd (circ_read (rr_buffer m) ?sz))) \<le> unread m"
    using circ.rd_rest [OF ok, of ?sz] circ.rd_short [OF ok, of ?sz] by (cases "?sz \<le> unread m") (auto simp: unread_def)
  show ?thesis
    using circ_seek_content [OF ok, of ?sz] r
    by (cases "circ_read (rr_buffer m) ?sz"; cases "fst (circ_read (rr_buffer m) ?sz)")
       (auto simp: reader_step_def Let_def no_exn_def sm_error_def try_later_def finished_def unread_def)
qed

lemma message_loop:
  assumes ok: "reader_ok m" and st: "waits_for_message m"
  shows "\<exists>m'. process_loop reader_step m = Some (Inr (), m') \<and> reader_ok m' \<and> unread m' \<le> unread m"
proof -
  obtain r m' where e: "reader_step rs_message m = (r, m')" by fastforce
  with reader_step_ok [OF ok, of rs_message] message_step_takes [OF ok]
  have m': "r = Inr False" "reader_ok m'" "unread m' \<le> unread m" by auto
  have "process_once reader_step m = (Inr False, m')" using st e m' by (simp add: waits_for_message_def)
  from process_loop_stop [OF this] m' show ?thesis by blast
qed

lemma header_loop:
  assumes ok: "reader_ok m"
  shows "\<exists>m'. process_loop reader_step (in_header m) = Some (Inr (), m') \<and> reader_ok m' \<and>
     unread m' \<le> unread m \<and> (is_finished m' \<longrightarrow> unread m' < unread m)"
proof -
  have c: "circ_ok (rr_buffer m)" using ok by (simp add: reader_ok_def)
  obtain found h b where f: "find_header (rd_header (sm_data m)) (rr_buffer m) = Some (found, h, b)"
    "circ_ok b" "cb_size b = cb_size (rr_buffer m)"
    using find_header_returns [OF c] by blast
  note t = find_header_takes [OF c f(1)]
  let ?m = "(in_header m)\<lparr>sm_data := (sm_data m)\<lparr>rd_header := h\<rparr>, rr_buffer := b\<rparr>"
  have ok': "reader_ok (?m\<lparr>sm_user_state := u\<rparr>)" for u
    using ok f by (simp add: reader_ok_def in_header_def)
  show ?thesis
  proof (cases found)
    case True
    let ?w = "?m\<lparr>sm_user_state := rs_message\<rparr>"
    have "process_once reader_step (in_header m) = (Inr True, ?w)"
      using f True by (simp add: in_header_def reader_step_def Let_def no_exn_def move_to_state_def)
    then have l: "process_loop reader_step (in_header m) = process_loop reader_step ?w"
      by (rule process_loop_again)
    have "waits_for_message ?w" by (simp add: waits_for_message_def in_header_def)
    from message_loop [OF ok' this] t True l show ?thesis by (auto simp: unread_def)
  next
    case False
    have "process_once reader_step (in_header m) = (Inr False, ?m)"
      using f False by (simp add: in_header_def reader_step_def Let_def no_exn_def try_later_def)
    from process_loop_stop [OF this] ok' [of rs_header] t show ?thesis
      by (intro exI [of _ ?m]) (simp add: unread_def is_finished_def in_header_def reader_ok_def)
  qed
qed

lemma reader_process_takes:
  assumes ok: "reader_ok m"
  shows "\<exists>m'. reader_process m = Some (Inr (), m') \<and> reader_ok m' \<and> unread m' \<le> unread m \<and>
     (sm_state m = os_start \<longrightarrow> is_finished m' \<longrightarrow> unread m' < unread m)"
proof -
  have still: "\<exists>m'. Some (Inr (), m) = Some (Inr (), m') \<and> reader_ok m' \<and> unread m' \<le> unread m" 
    using ok by blast
  consider "sm_state m = os_start" | "sm_state m = os_in_state" "sm_user_state m = rs_message"
    | "sm_state m = os_in_state" "sm_user_state m = rs_header" | "sm_state m = os_end \<or> sm_state m = os_error"
    by (cases "sm_state m"; cases "sm_user_state m") auto
  then show ?thesis
  proof cases
    case 1
    with header_loop [OF ok] show ?thesis by (auto simp: reader_process_def sm_process_def in_header_def)
  next
    case 2
    with message_loop [OF ok] show ?thesis by (auto simp: reader_process_def sm_process_def waits_for_message_def)
  next
    case 3
    let ?m = "m\<lparr>sm_error_code := 0\<rparr>"
    obtain r m' where e: "reader_step rs_header m = (r, m')" by fastforce
    from reader_step_ok [OF ok, of rs_header] e obtain again where r: "r = Inr again" "reader_ok m'" by auto
    have c: "circ_ok (rr_buffer m)" using ok by (simp add: reader_ok_def)
    have u: "unread m' \<le> unread m" "again \<longrightarrow> waits_for_message m'"
      using e r(1) find_header_returns [OF c, of "rd_header (sm_data m)"] find_header_takes [OF c, of "rd_header (sm_data m)"]
      by (auto simp: reader_step_def Let_def no_exn_def move_to_state_def try_later_def unread_def
          waits_for_message_def split: if_splits)
    have once: "process_once reader_step m = (Inr again, m')" using 3 e r(1) by simp
    show ?thesis
    proof (cases again)
      case True
      with process_loop_again [of reader_step m m'] once message_loop [OF r(2)] u 3 show ?thesis
        by (force simp: reader_process_def sm_process_def)
    next
      case False
      with process_loop_stop [of reader_step m m'] once r(2) u 3 show ?thesis
        by (simp add: reader_process_def sm_process_def)
    qed
  next
    case 4
    with still show ?thesis by (auto simp: reader_process_def sm_process_def)
  qed
qed

text \<open>A frame that is whole is handed to the owner, and the loop goes on with a reader that starts anew.\<close>

lemma process_whole_frame:
  assumes env: "owner_keeps so_reader env" and m: "reader_process (so_reader s) = Some (Inr (), m)"
    and f: "\<not> is_errored m" "is_finished m"
  shows "\<exists>(r :: exn + unit) s1 w1. so_reader s1 = m \<and> process_new_data env s w =
     (case r of Inl x \<Rightarrow> Some (Inl x, s1, w1)
      | Inr _ \<Rightarrow> process_new_data env (s1\<lparr>so_reader := reader_reset m\<rparr>) w1)"
proof -
  let ?s = "s\<lparr>so_reader := m\<rparr>"
  let ?cb = "invoke_func (cb_message env (rd_header (sm_data m)) (rd_message (sm_data m))
                            (unat (mh_size (rd_header (sm_data m)))))"
  have cb: "io_keeps so_reader (cb_message env h buf n)" for h buf n
    using env by (simp add: owner_keeps_def)
  obtain r s1 w1 where e: "?cb ?s w = (r, s1, w1)" by (cases "?cb ?s w") auto
  have s1: "so_reader s1 = m" using io_keepsD [OF keeps_invoke [OF cb] e] by simp
  have "process_new_data env s w =
      (case r of Inl x \<Rightarrow> Some (Inl x, s1, w1)
       | Inr _ \<Rightarrow> process_new_data env (s1\<lparr>so_reader := reader_reset m\<rparr>) w1)"
    using m f e s1 by (subst process_new_data.simps) (cases r, simp_all)
  with s1 show ?thesis by blast
qed

text \<open>
  C18 Whatever bytes have arrived, garbage included, and whatever the message callback does with the
  messages, the processing of the received bytes comes to an end, and the reader is left in order.
\<close>

theorem received_bytes_are_processed:
  assumes "reader_ok (so_reader s)" and "owner_keeps so_reader env"
  shows "\<exists>r s' w'. process_new_data env s w = Some (r, s', w') \<and> reader_ok (so_reader s')"
  using assms(1)
proof (induction "2 * unread (so_reader s) + (if sm_state (so_reader s) = os_start then 0 else 1)"
    arbitrary: s w rule: less_induct)
  case less
  have "buffers_view so_reader" by (simp add: buffers_view_def)
  note stop = keeps_stop_internal [OF this assms(2)]
  from reader_process_takes [OF less.prems] obtain m where m: "reader_process (so_reader s) = Some (Inr (), m)"
    "reader_ok m" "unread m \<le> unread (so_reader s)"
    "sm_state (so_reader s) = os_start \<longrightarrow> is_finished m \<longrightarrow> unread m < unread (so_reader s)" by blast
  let ?s = "s\<lparr>so_reader := m\<rparr>"
  consider "is_errored m" | "\<not> is_errored m" "is_finished m" | "\<not> is_errored m" "\<not> is_finished m" by blast
  then show ?case
  proof cases
    case 1
    obtain r s1 w1 where e: "stop_internal env True ?s w = (r, s1, w1)"
      by (cases "stop_internal env True ?s w") auto
    with io_keepsD [OF stop e] m 1 show ?thesis by (subst process_new_data.simps) simp
  next
    case 2
    from process_whole_frame [OF assms(2) m(1) 2, of w] obtain r :: "exn + unit" and s1 w1 where s1: "so_reader s1 = m"
      and pd: "process_new_data env s w = (case r of Inl x \<Rightarrow> Some (Inl x, s1, w1)
        | Inr _ \<Rightarrow> process_new_data env (s1\<lparr>so_reader := reader_reset m\<rparr>) w1)" by blast
    let ?t = "s1\<lparr>so_reader := reader_reset m\<rparr>"
    have "unread (reader_reset m) = unread m" "sm_state (reader_reset m) = os_start"
      by (simp_all add: unread_def reader_reset_def sm_reset_def)
    with m(3,4) 2 have "2 * unread (so_reader ?t) + (if sm_state (so_reader ?t) = os_start then 0 else 1)
        < 2 * unread (so_reader s) + (if sm_state (so_reader s) = os_start then 0 else 1)"
      by auto
    moreover have "reader_ok (so_reader ?t)"
      using m(2) by (simp add: reader_reset_def sm_reset_def reader_ok_def)
    ultimately have "\<exists>r s' w'. process_new_data env ?t w1 = Some (r, s', w') \<and> reader_ok (so_reader s')"
      by (rule less.hyps)
    with pd s1 m(2) show ?thesis by (cases r) auto
  next
    case 3
    with m show ?thesis by (subst process_new_data.simps) simp
  qed
qed

theorem received_bytes_are_processed_witness:
  "\<exists>s r s' w'. circ_content (rr_buffer (so_reader s)) = [0x29, 7, 0x29, 1, 0] \<and>
     process_new_data recording_env s ([], []) = Some (r, s', w')"
proof -
  let ?bs = "[0x29, 7, 0x29, 1, 0] :: bytes"
  let ?rd = "so_reader fresh_io"
  have ok: "circ_ok (rr_buffer ?rd)" "cb_size (rr_buffer ?rd) = 1024" "circ_content (rr_buffer ?rd) = []"
    "reader_ok ?rd"
    using fresh_reader by (auto simp: reading_def reader_ok_def undelivered_def split: if_splits)
  then obtain b where b: "circ_ok b" "cb_size b = cb_size (rr_buffer ?rd)" "circ_content b = ?bs"
    using circ_write_room [OF ok(1), of ?bs]
    by (cases "circ_write (rr_buffer ?rd) ?bs") (auto simp: circ_room_def header_size_def)
  let ?s = "fresh_io\<lparr>so_reader := ?rd\<lparr>rr_buffer := b\<rparr>\<rparr>"
  have "reader_ok (so_reader ?s)" using ok b by (simp add: reader_ok_def)
  from received_bytes_are_processed [OF this recording_owner_keeps, of "([], [])"] b(3)
  show ?thesis by (intro exI [of _ ?s]) auto
qed

end
