(* ===== verification/Obsr_Net.thy ===== *)
theory Obsr_Net
  imports Obsr_Socket_Io Obsr_Queue Obsr_Storage
begin

text \<open>
  What the network client and the network server share: the outside world (operating system, looper,
  clock readings), how an operation of a connection is lifted to the world of its owner, the helpers of
  \<open>src/util/general.h\<close>, and the mutex of the owner.
\<close>

section \<open>The outside\<close>

text \<open>
  The calls on the outside: those of a connection, the timers of the looper, and the system clock, of
  which a handler takes the readings of one call at once, by their order in the program.
\<close>

record ('s, 'o) net_env = "('s, 'o) os_env" +
  ne_times :: "'o \<Rightarrow> readings \<times> 'o"
  ne_create_timer :: "milliseconds \<Rightarrow> 'o \<Rightarrow> (exn + handle) \<times> 'o"
  ne_stop_timer :: "handle \<Rightarrow> 'o \<Rightarrow> (exn + unit) \<times> 'o"

text \<open>\<open>'o\<close> is a part of the world \<open>'w\<close>, which \<open>get\<close> reads and \<open>put\<close> replaces.\<close>

definition lift_call ::
  "('w \<Rightarrow> 'o) \<Rightarrow> ('o \<Rightarrow> 'w \<Rightarrow> 'w) \<Rightarrow> ('o \<Rightarrow> (exn + 'x) \<times> 'o) \<Rightarrow> 'w \<Rightarrow> (exn + 'x) \<times> 'w" where
  "lift_call get put g w = (case g (get w) of (r, k) \<Rightarrow> (r, put k w))"

definition lift_env ::
  "('w \<Rightarrow> 'o) \<Rightarrow> ('o \<Rightarrow> 'w \<Rightarrow> 'w) \<Rightarrow> ('s, 'o, 'z) os_env_scheme \<Rightarrow> ('s, 'w, unit) io_op \<Rightarrow>
   ('s, 'w, unit) io_op \<Rightarrow> (message_header \<Rightarrow> bytes \<Rightarrow> nat \<Rightarrow> ('s, 'w, unit) io_op) \<Rightarrow> ('s, 'w) io_env" where
  "lift_env get put ne on_connect on_close on_message =
     \<lparr>sk_new = lift_call get put (sk_new ne),
      sk_reuseport = (\<lambda>k. lift_call get put (sk_reuseport ne k)),
      sk_nonblocking = (\<lambda>k. lift_call get put (sk_nonblocking ne k)),
      sk_close = (\<lambda>k. lift_call get put (sk_close ne k)),
      sk_connect = (\<lambda>k info. lift_call get put (sk_connect ne k info)),
      sk_finalize = (\<lambda>k. lift_call get put (sk_finalize ne k)),
      sk_read = (\<lambda>k w n. lift_call get put (\<lambda>o'. sk_read ne k o' n) w),
      sk_write = (\<lambda>k w xs. lift_call get put (\<lambda>o'. sk_write ne k o' xs) w),
      lo_add = (\<lambda>k ev. lift_call get put (lo_add ne k ev)),
      lo_remove = (\<lambda>h. lift_call get put (lo_remove ne h)),
      lo_request = (\<lambda>h ev t. lift_call get put (lo_request ne h ev t)),
      cb_connect = on_connect, cb_close = on_close, cb_message = on_message\<rparr>"

section \<open>Operations on the world\<close>

definition io_ask :: "('w \<Rightarrow> 'x) \<Rightarrow> ('s, 'w, 'x) io_op" where
  "io_ask f s w = (Inr (f w), s, w)"

definition io_world :: "('w \<Rightarrow> 'w) \<Rightarrow> ('s, 'w, unit) io_op" where
  "io_world f s w = (Inr (), s, f w)"

text \<open>The value of an expression that may throw.\<close>

definition io_eval :: "('w \<Rightarrow> exn + 'x) \<Rightarrow> ('s, 'w, 'x) io_op" where
  "io_eval f s w = (f w, s, w)"

text \<open>\<open>is_running() && has_elapsed(time)\<close>, which asks the timer only when it runs.\<close>

definition timer_due :: "milliseconds \<Rightarrow> milliseconds \<Rightarrow> timer \<Rightarrow> exn + bool" where
  "timer_due r time t = (if timer_is_running t then timer_has_elapsed r time t else Inr False)"

text \<open>\<open>is_running() && !has_elapsed(time)\<close>.\<close>

definition timer_waits :: "milliseconds \<Rightarrow> milliseconds \<Rightarrow> timer \<Rightarrow> exn + bool" where
  "timer_waits r time t = (if timer_is_running t then map_sum id Not (timer_has_elapsed r time t) else Inr False)"

text \<open>
  \<open>std::unique_lock\<close> and \<open>std::lock_guard\<close> on a \<open>std::mutex\<close>, which is not recursive: \<open>locked\<close> and
  \<open>set_locked\<close> are the flag of the mutex in the world. The handlers of one looper run on one thread, so
  a handler that finds the mutex locked waits for itself.
\<close>

definition with_lock ::
  "('w \<Rightarrow> bool) \<Rightarrow> (bool \<Rightarrow> 'w \<Rightarrow> 'w) \<Rightarrow> ('s, 'w, 'x) io_op \<Rightarrow> ('s, 'w, 'x) io_op" where
  "with_lock locked set_locked p s w =
     (if locked w then (Inl Deadlock, s, w)
      else (case p s (set_locked True w) of (r, s, w) \<Rightarrow> (r, s, set_locked False w)))"

text \<open>The body of a message parsed; a parser that does not return is undefined in C++.\<close>

definition parse_body :: "message_type \<Rightarrow> bytes \<Rightarrow> nat \<Rightarrow> message_parser \<Rightarrow> (exn + unit) \<times> message_parser" where
  "parse_body t buffer sz p =
     (case parser_process (set_data t buffer sz p) of None \<Rightarrow> (Inl Undefined_behaviour, p) | Some r \<Rightarrow> r)"

text \<open>A connection as the destination of a message queue.\<close>

definition io_destination :: "('s, 'w) io_env \<Rightarrow> ('s socket_io \<times> 'w) destination" where
  "io_destination env t b sw = (case io_write env t b (fst sw) (snd sw) of (r, s, w) \<Rightarrow> (r, (s, w)))"

lemmas world_defs = io_ask_def io_world_def io_eval_def lift_call_def

end
