(* ===== verification/Obsr_Server_Io.thy ===== *)
theory Obsr_Server_Io
  imports Obsr_Net "HOL-Library.AList"
begin

text \<open>
  The listening side (\<open>server_io\<close> in \<open>src/net/io.h\<close> and \<open>src/net/io.cpp\<close>): it accepts connections,
  keeps one \<open>socket_io\<close> for each and hands on what they report, with the identifier of the client. The
  world of its owner extends the record \<open>io_world\<close>; an operation on the connection of a client takes
  the connection out of the world and a callback puts it back first.
\<close>

section \<open>State and environment\<close>

datatype server_io_state = sio_idle | sio_open

record 's io_client =
  ic_io :: "'s socket_io"
  ic_closing :: bool

text \<open>
  The clients as an association list; the order in which \<open>std::unordered_map\<close> visits them is
  unspecified, here it is that of their insertion.
\<close>

record ('s, 'l) server_io =
  si_state :: server_io_state
  si_handle :: handle
  si_socket :: "'l option"
  si_clients :: "(u16 \<times> 's io_client) list"
  si_next :: u16

record ('s, 'l) io_world =
  iw_io :: "('s, 'l) server_io"

type_synonym ('w, 'x) world_op = "'w \<Rightarrow> (exn + 'x) \<times> 'w"

text \<open>The methods of the server socket, and the owner's callbacks.\<close>

record ('s, 'l, 'w) server_env = "('s, 'w) os_env" +
  ss_new :: "('w, 'l) world_op"
  ss_reuseport :: "'l \<Rightarrow> ('w, unit) world_op"
  ss_nonblocking :: "'l \<Rightarrow> ('w, unit) world_op"
  ss_bind :: "'l \<Rightarrow> u16 \<Rightarrow> ('w, unit) world_op"
  ss_listen :: "'l \<Rightarrow> nat \<Rightarrow> ('w, unit) world_op"
  ss_accept :: "'l \<Rightarrow> ('w, 's) world_op"
  ss_close :: "'l \<Rightarrow> ('w, unit) world_op"
  sl_add :: "'l \<Rightarrow> event_types \<Rightarrow> ('w, handle) world_op"
  scb_connect :: "u16 \<Rightarrow> ('w, unit) world_op"
  scb_disconnect :: "u16 \<Rightarrow> ('w, unit) world_op"
  scb_close :: "('w, unit) world_op"
  scb_message :: "u16 \<Rightarrow> message_header \<Rightarrow> bytes \<Rightarrow> nat \<Rightarrow> ('w, unit) world_op"

definition invalid_client_id :: u16 where "invalid_client_id = - 1"

section \<open>Sequencing on the world\<close>

definition w_return :: "'x \<Rightarrow> ('w, 'x) world_op" where
  "w_return x w = (Inr x, w)"

definition w_throw :: "exn \<Rightarrow> ('w, 'x) world_op" where
  "w_throw e w = (Inl e, w)"

definition w_then :: "('w, 'x) world_op \<Rightarrow> ('x \<Rightarrow> ('w, 'y) world_op) \<Rightarrow> ('w, 'y) world_op" where
  "w_then p f w = (case p w of (Inl e, w) \<Rightarrow> (Inl e, w) | (Inr x, w) \<Rightarrow> f x w)"

definition w_modify :: "('w \<Rightarrow> 'w) \<Rightarrow> ('w, unit) world_op" where
  "w_modify f w = (Inr (), f w)"

definition w_ask :: "('w \<Rightarrow> 'x) \<Rightarrow> ('w, 'x) world_op" where
  "w_ask f w = (Inr (f w), w)"

definition w_catch :: "(exn \<Rightarrow> bool) \<Rightarrow> ('w, 'x) world_op \<Rightarrow> (exn \<Rightarrow> ('w, 'x) world_op) \<Rightarrow> ('w, 'x) world_op"
where
  "w_catch handled p h w =
     (case p w of
        (Inl e, w) \<Rightarrow> (if handled e then h e w else (Inl e, w))
      | (Inr x, w) \<Rightarrow> (Inr x, w))"

definition w_try :: "('w, unit) world_op \<Rightarrow> ('w, unit) world_op" where
  "w_try p = w_catch catchable p (\<lambda>e. w_return ())"

lemmas w_defs = w_return_def w_throw_def w_then_def w_modify_def w_ask_def w_catch_def w_try_def

section \<open>The clients\<close>

definition on_io ::
  "(('s, 'l) server_io \<Rightarrow> ('s, 'l) server_io) \<Rightarrow> (('s, 'l, 'z) io_world_scheme, unit) world_op" where
  "on_io f = w_modify (\<lambda>w. w\<lparr>iw_io := f (iw_io w)\<rparr>)"

definition ask_io :: "(('s, 'l) server_io \<Rightarrow> 'x) \<Rightarrow> (('s, 'l, 'z) io_world_scheme, 'x) world_op" where
  "ask_io f = w_ask (\<lambda>w. f (iw_io w))"

definition find_client :: "u16 \<Rightarrow> ('s, 'l, 'z) io_world_scheme \<Rightarrow> 's io_client option" where
  "find_client i w = map_of (si_clients (iw_io w)) i"

text \<open>The connection of a client put back into the world.\<close>

definition put_io :: "u16 \<Rightarrow> 's socket_io \<Rightarrow> ('s, 'l, 'z) io_world_scheme \<Rightarrow> ('s, 'l, 'z) io_world_scheme" where
  "put_io i s w =
     w\<lparr>iw_io := (iw_io w)\<lparr>si_clients :=
        map (\<lambda>(j, c). (j, if j = i then c\<lparr>ic_io := s\<rparr> else c)) (si_clients (iw_io w))\<rparr>\<rparr>"

text \<open>
  A callback of the owner, called while an operation on the client's connection runs. If it destroyed
  the client, the operation would go on with an object that is gone.
\<close>

definition owner_callback ::
  "u16 \<Rightarrow> (('s, 'l, 'z) io_world_scheme, unit) world_op \<Rightarrow> ('s, ('s, 'l, 'z) io_world_scheme, unit) io_op" where
  "owner_callback i op s w =
     (case op (put_io i s w) of
        (r, w) \<Rightarrow>
          (case find_client i w of
             None \<Rightarrow> (Inl Undefined_behaviour, s, w)
           | Some c \<Rightarrow> (r, ic_io c, w)))"

text \<open>What the constructor of \<open>server_io::client\<close> registers with its connection.\<close>

definition io_client_env ::
  "('s, 'l, ('s, 'l, 'z) io_world_scheme) server_env \<Rightarrow> u16 \<Rightarrow> ('s, ('s, 'l, 'z) io_world_scheme) io_env" where
  "io_client_env env i =
     \<lparr>sk_new = sk_new env, sk_reuseport = sk_reuseport env, sk_nonblocking = sk_nonblocking env,
      sk_close = sk_close env, sk_connect = sk_connect env, sk_finalize = sk_finalize env,
      sk_read = sk_read env, sk_write = sk_write env, lo_add = lo_add env, lo_remove = lo_remove env,
      lo_request = lo_request env,
      cb_connect = owner_callback i (w_try (scb_connect env i)),
      cb_close = owner_callback i (w_try (scb_disconnect env i)),
      cb_message = (\<lambda>h buffer sz. owner_callback i (w_try (scb_message env i h buffer sz)))\<rparr>"

definition io_client_new :: "read_data \<Rightarrow> (nat \<Rightarrow> u8) \<Rightarrow> (nat \<Rightarrow> u8) \<Rightarrow> 's io_client" where
  "io_client_new junk block block' = \<lparr>ic_io = socket_io_new junk block block', ic_closing = False\<rparr>"

text \<open>An operation on the connection of a client, which must be there.\<close>

definition with_client ::
  "u16 \<Rightarrow> ('s, ('s, 'l, 'z) io_world_scheme, 'x) io_op \<Rightarrow> (('s, 'l, 'z) io_world_scheme, 'x) world_op" where
  "with_client i op w =
     (case find_client i w of
        None \<Rightarrow> (Inl Undefined_behaviour, w)
      | Some c \<Rightarrow> (case op (ic_io c) w of (r, s, w) \<Rightarrow> (r, put_io i s w)))"

text \<open>The destructor of a connection that is not idle aborts.\<close>

definition erase_client :: "u16 \<Rightarrow> (('s, 'l, 'z) io_world_scheme, unit) world_op" where
  "erase_client i w =
     (case find_client i w of
        None \<Rightarrow> (Inr (), w)
      | Some c \<Rightarrow>
          (if so_state (ic_io c) \<noteq> io_idle then (Inl Assertion_failed, w)
           else (Inr (), w\<lparr>iw_io := (iw_io w)\<lparr>si_clients := AList.delete i (si_clients (iw_io w))\<rparr>\<rparr>)))"

definition clear_clients :: "(('s, 'l, 'z) io_world_scheme, unit) world_op" where
  "clear_clients w =
     (if \<exists>c\<in>set (si_clients (iw_io w)). so_state (ic_io (snd c)) \<noteq> io_idle then (Inl Assertion_failed, w)
      else (Inr (), w\<lparr>iw_io := (iw_io w)\<lparr>si_clients := []\<rparr>\<rparr>))"

section \<open>Operations\<close>

definition server_io_new :: "('s, 'l) server_io" where
  "server_io_new =
     \<lparr>si_state = sio_idle, si_handle = empty_handle, si_socket = None, si_clients = [], si_next = 0\<rparr>"

text \<open>The destructor, which destroys the connections of the clients after its own check.\<close>

definition server_io_destroy :: "('s, 'l) server_io \<Rightarrow> exn + unit" where
  "server_io_destroy x =
     (if si_state x \<noteq> sio_idle then Inl Assertion_failed
      else if \<exists>c\<in>set (si_clients x). socket_io_destroy (ic_io (snd c)) \<noteq> Inr () then Inl Assertion_failed
      else Inr ())"

definition on_server_socket ::
  "('l \<Rightarrow> (('s, 'l, 'z) io_world_scheme, 'x) world_op) \<Rightarrow> (('s, 'l, 'z) io_world_scheme, 'x) world_op" where
  "on_server_socket g w =
     (case si_socket (iw_io w) of None \<Rightarrow> (Inl Undefined_behaviour, w) | Some k \<Rightarrow> g k w)"

definition sio_start ::
  "('s, 'l, ('s, 'l, 'z) io_world_scheme) server_env \<Rightarrow> u16 \<Rightarrow> (('s, 'l, 'z) io_world_scheme, unit) world_op" where
  "sio_start env port =
     w_then (ask_io si_state) (\<lambda>st.
     if st \<noteq> sio_idle then w_throw (Illegal_state ''io already started'')
     else
       w_then clear_clients (\<lambda>_.
       w_then (on_io (\<lambda>x. x\<lparr>si_next := 0\<rparr>)) (\<lambda>_.
       w_then
         (w_catch is_io_exception
            (w_then (ss_new env) (\<lambda>k.
             w_then (on_io (\<lambda>x. x\<lparr>si_socket := Some k\<rparr>)) (\<lambda>_.
             w_then (on_server_socket (ss_reuseport env)) (\<lambda>_.
             w_then (on_server_socket (ss_nonblocking env)) (\<lambda>_.
             w_then (on_server_socket (\<lambda>k. ss_bind env k port)) (\<lambda>_.
             on_server_socket (\<lambda>k. ss_listen env k 2)))))))
            (\<lambda>e.
             w_then (ask_io si_socket) (\<lambda>k.
             w_then
               (if k \<noteq> None then
                  w_then (on_server_socket (ss_close env)) (\<lambda>_. on_io (\<lambda>x. x\<lparr>si_socket := None\<rparr>))
                else w_return ()) (\<lambda>_.
             w_throw e)))) (\<lambda>_.
       w_then (on_io (\<lambda>x. x\<lparr>si_state := sio_open\<rparr>)) (\<lambda>_.
       w_then (on_server_socket (\<lambda>k. sl_add env k (event_hung OR event_error OR event_in))) (\<lambda>h.
       on_io (\<lambda>x. x\<lparr>si_handle := h\<rparr>)))))))"

fun stop_clients ::
  "('s, 'l, ('s, 'l, 'z) io_world_scheme) server_env \<Rightarrow> u16 list \<Rightarrow> (('s, 'l, 'z) io_world_scheme, unit) world_op"
where
  "stop_clients env [] = w_return ()"
| "stop_clients env (i # is) =
     w_then
       (w_try
          (w_then (on_io (\<lambda>x. x\<lparr>si_clients :=
              map (\<lambda>(j, c). (j, if j = i then c\<lparr>ic_closing := True\<rparr> else c)) (si_clients x)\<rparr>)) (\<lambda>_.
           with_client i (io_stop (io_client_env env i))))) (\<lambda>_.
     stop_clients env is)"

definition sio_stop_internal ::
  "('s, 'l, ('s, 'l, 'z) io_world_scheme) server_env \<Rightarrow> bool \<Rightarrow> (('s, 'l, 'z) io_world_scheme, unit) world_op" where
  "sio_stop_internal env notify_owner =
     w_then (ask_io id) (\<lambda>x.
     if si_state x = sio_idle then w_return ()
     else
       w_then
         (w_try
            (if si_handle x \<noteq> empty_handle then
               w_then (lo_remove env (si_handle x)) (\<lambda>_. on_io (\<lambda>x. x\<lparr>si_handle := empty_handle\<rparr>))
             else w_return ())) (\<lambda>_.
       w_then (ask_io (\<lambda>x. map fst (si_clients x))) (\<lambda>is.
       w_then (stop_clients env is) (\<lambda>_.
       w_then clear_clients (\<lambda>_.
       w_then
         (w_try (w_then (on_server_socket (ss_close env)) (\<lambda>_. on_io (\<lambda>x. x\<lparr>si_socket := None\<rparr>)))) (\<lambda>_.
       w_then (on_io (\<lambda>x. x\<lparr>si_state := sio_idle\<rparr>)) (\<lambda>_.
       if notify_owner then w_try (scb_close env) else w_return ())))))))"

definition sio_stop ::
  "('s, 'l, ('s, 'l, 'z) io_world_scheme) server_env \<Rightarrow> (('s, 'l, 'z) io_world_scheme, unit) world_op" where
  "sio_stop env =
     w_then (ask_io si_state) (\<lambda>st. if st = sio_idle then w_return () else sio_stop_internal env False)"

definition write_to ::
  "('s, 'l, ('s, 'l, 'z) io_world_scheme) server_env \<Rightarrow> u16 \<Rightarrow> u8 \<Rightarrow> bytes \<Rightarrow>
   (('s, 'l, 'z) io_world_scheme, bool) world_op" where
  "write_to env i t buffer w =
     (if si_state (iw_io w) \<noteq> sio_open then (Inl (Illegal_state ''io not started''), w)
      else if find_client i w = None then (Inl (Illegal_argument ''no such client''), w)
      else with_client i (io_write (io_client_env env i) t buffer) w)"

text \<open>The constructor of the new client gets its memory as it is.\<close>

definition sio_on_read_ready ::
  "('s, 'l, ('s, 'l, 'z) io_world_scheme) server_env \<Rightarrow> 's io_client \<Rightarrow> (('s, 'l, 'z) io_world_scheme, unit) world_op"
where
  "sio_on_read_ready env fresh w =
     (let i = si_next (iw_io w) in
      case on_server_socket (ss_accept env) w of
        (Inl e, w) \<Rightarrow> (if is_io_exception e then Inr () else Inl e, w)
      | (Inr socket, w) \<Rightarrow>
          w_catch is_io_exception
            (w_then (on_io (\<lambda>x. x\<lparr>si_next := i + 1\<rparr>)) (\<lambda>_.
             w_then (w_ask (find_client i)) (\<lambda>old.
             if old \<noteq> None then sk_close env socket
             else
               w_then (on_io (\<lambda>x. x\<lparr>si_clients := si_clients x @ [(i, fresh)]\<rparr>)) (\<lambda>_.
               w_then (with_client i (start_with (io_client_env env i) socket True)) (\<lambda>_.
               w_try (scb_connect env i))))))
            (\<lambda>e. if i \<noteq> invalid_client_id then erase_client i else w_return ()) w)"

definition sio_on_hung_or_error ::
  "('s, 'l, ('s, 'l, 'z) io_world_scheme) server_env \<Rightarrow> (('s, 'l, 'z) io_world_scheme, unit) world_op" where
  "sio_on_hung_or_error env = sio_stop_internal env True"

definition sio_event ::
  "('s, 'l, ('s, 'l, 'z) io_world_scheme) server_env \<Rightarrow> 's io_client \<Rightarrow> event_types \<Rightarrow>
   (('s, 'l, 'z) io_world_scheme, unit) world_op" where
  "sio_event env fresh events w =
     (if events AND (event_hung OR event_error) \<noteq> 0 then sio_on_hung_or_error env w
      else if events AND event_in \<noteq> 0 then sio_on_read_ready env fresh w
      else (Inr (), w))"

text \<open>An event of the looper for the connection of a client.\<close>

definition sio_client_event ::
  "('s, 'l, ('s, 'l, 'z) io_world_scheme) server_env \<Rightarrow> u16 \<Rightarrow> event_types \<Rightarrow> ('s, 'l, 'z) io_world_scheme \<Rightarrow>
   ((exn + unit) \<times> ('s, 'l, 'z) io_world_scheme) option" where
  "sio_client_event env i events w =
     (case find_client i w of
        None \<Rightarrow> Some (Inl Undefined_behaviour, w)
      | Some c \<Rightarrow>
          (case io_event (io_client_env env i) events (ic_io c) w of
             None \<Rightarrow> None
           | Some (r, s, w) \<Rightarrow> Some (r, put_io i s w)))"

end
