(* ===== verification/Obsr_Server.thy ===== *)
theory Obsr_Server
  imports Obsr_Server_Io
begin

text \<open>
  The network server (\<open>src/net/server.h\<close>, \<open>src/net/server.cpp\<close>): it gives the entries their
  identifiers, applies the messages of its clients to the storage, passes them on to the other clients,
  and publishes what changes in the storage.
\<close>

section \<open>State\<close>

datatype server_client_state = sc_connected | sc_in_handshake | sc_in_use

record server_client =
  sc_state :: server_client_state
  sc_queue :: message_queue
  sc_published :: "u16 set"

datatype server_state = ss_idle | ss_opening | ss_in_use

text \<open>The maps of the server, \<open>std::map\<close>, are visited in the order of their keys.\<close>

record net_server =
  ns_locked :: bool
  ns_state :: server_state
  ns_attached :: bool
  ns_port :: u16
  ns_timer_handle :: handle
  ns_parser :: message_parser
  ns_next_id :: u16
  ns_clients :: "(u16 \<times> server_client) list"
  ns_ids :: "(u16 \<times> string) list"
  ns_retry :: timer

record ('s, 'l, 'c, 'o) server_world = "('s, 'l) io_world" +
  sw_server :: net_server
  sw_storage :: "'c storage"
  sw_out :: 'o

type_synonym ('s, 'l, 'c, 'o, 'x) server_op = "(('s, 'l, 'c, 'o) server_world, 'x) world_op"

definition open_retry_time :: milliseconds where "open_retry_time = 1000"
definition server_update_time :: milliseconds where "server_update_time = 200"

text \<open>\<open>std::map::emplace\<close>: a key that is there keeps its value.\<close>

fun sorted_emplace :: "'k :: linorder \<Rightarrow> 'v \<Rightarrow> ('k \<times> 'v) list \<Rightarrow> ('k \<times> 'v) list" where
  "sorted_emplace k v [] = [(k, v)]"
| "sorted_emplace k v ((j, x) # xs) =
     (if k < j then (k, v) # (j, x) # xs
      else if k = j then (j, x) # xs
      else (j, x) # sorted_emplace k v xs)"

definition net_server_new :: "parse_data \<Rightarrow> net_server" where
  "net_server_new junk =
     \<lparr>ns_locked = False, ns_state = ss_idle, ns_attached = False, ns_port = 0,
      ns_timer_handle = empty_handle, ns_parser = message_parser_new junk, ns_next_id = 0,
      ns_clients = [], ns_ids = [], ns_retry = timer_new\<rparr>"

section \<open>A client of the server\<close>

definition server_client_new :: "(nat \<Rightarrow> u8) \<Rightarrow> server_client" where
  "server_client_new block =
     \<lparr>sc_state = sc_connected, sc_queue = message_queue_new block, sc_published = {}\<rparr>"

definition set_state :: "server_client_state \<Rightarrow> server_client \<Rightarrow> server_client" where
  "set_state st c = c\<lparr>sc_state := st\<rparr>"

definition is_known :: "u16 \<Rightarrow> server_client \<Rightarrow> bool" where
  "is_known i c \<longleftrightarrow> i \<in> sc_published c"

text \<open>\<open>enqueue\<close> without the immediate flag, which does not touch the connection.\<close>

definition sc_enqueue :: "out_message \<Rightarrow> server_client \<Rightarrow> server_client" where
  "sc_enqueue m c = c\<lparr>sc_queue := (sc_queue c)\<lparr>mq_outgoing := mq_outgoing (sc_queue c) @ [m]\<rparr>\<rparr>"

definition sc_publish :: "u16 \<Rightarrow> string \<Rightarrow> server_client \<Rightarrow> server_client" where
  "sc_publish i name c =
     (let c = sc_enqueue (out_entry_id_assign i name) c in c\<lparr>sc_published := insert i (sc_published c)\<rparr>)"

definition sc_clear :: "server_client \<Rightarrow> server_client" where
  "sc_clear c = c\<lparr>sc_queue := mq_clear (sc_queue c)\<rparr>"

section \<open>Helpers\<close>

record ('s, 'l, 'o) net_server_env = "('s, 'o) net_env" +
  so_new :: "('o, 'l) world_op"
  so_reuseport :: "'l \<Rightarrow> ('o, unit) world_op"
  so_nonblocking :: "'l \<Rightarrow> ('o, unit) world_op"
  so_bind :: "'l \<Rightarrow> u16 \<Rightarrow> ('o, unit) world_op"
  so_listen :: "'l \<Rightarrow> nat \<Rightarrow> ('o, unit) world_op"
  so_accept :: "'l \<Rightarrow> ('o, 's) world_op"
  so_close :: "'l \<Rightarrow> ('o, unit) world_op"
  so_add :: "'l \<Rightarrow> event_types \<Rightarrow> ('o, handle) world_op"

definition on_server :: "(net_server \<Rightarrow> net_server) \<Rightarrow> ('s, 'l, 'c, 'o, unit) server_op" where
  "on_server f = w_modify (\<lambda>w. w\<lparr>sw_server := f (sw_server w)\<rparr>)"

definition ask_server :: "(net_server \<Rightarrow> 'x) \<Rightarrow> ('s, 'l, 'c, 'o, 'x) server_op" where
  "ask_server f = w_ask (\<lambda>w. f (sw_server w))"

definition server_out :: "('o \<Rightarrow> (exn + 'x) \<times> 'o) \<Rightarrow> ('s, 'l, 'c, 'o, 'x) server_op" where
  "server_out g = lift_call sw_out (\<lambda>k w. w\<lparr>sw_out := k\<rparr>) g"

definition server_times :: "('s, 'l, 'o) net_server_env \<Rightarrow> ('s, 'l, 'c, 'o, readings) server_op" where
  "server_times ne = server_out (\<lambda>k. case ne_times ne k of (tm, k) \<Rightarrow> (Inr tm, k))"

definition server_now :: "milliseconds \<Rightarrow> ('s, 'l, 'c, 'o, milliseconds) server_op" where
  "server_now r = w_ask (\<lambda>w. clock_now (st_clock (sw_storage w)) r)"

definition server_storage :: "('c, 'x) storage_op \<Rightarrow> ('s, 'l, 'c, 'o, 'x) server_op" where
  "server_storage op w = (case op (sw_storage w) of (r, st) \<Rightarrow> (r, w\<lparr>sw_storage := st\<rparr>))"

text \<open>A method called on the pointer, and \<open>invoke_sharedptr_nolock\<close>.\<close>

definition on_store :: "('c, 'x) storage_op \<Rightarrow> ('s, 'l, 'c, 'o, 'x) server_op" where
  "on_store op w =
     (if ns_attached (sw_server w) then server_storage op w else (Inl Undefined_behaviour, w))"

definition invoke_store :: "('c, unit) storage_op \<Rightarrow> ('s, 'l, 'c, 'o, unit) server_op" where
  "invoke_store op w =
     (if ns_attached (sw_server w) then w_try (server_storage op) w else (Inr (), w))"

definition server_lock :: "('s, 'l, 'c, 'o, 'x) server_op \<Rightarrow> ('s, 'l, 'c, 'o, 'x) server_op" where
  "server_lock p w =
     (if ns_locked (sw_server w) then (Inl Deadlock, w)
      else
        (case p (w\<lparr>sw_server := (sw_server w)\<lparr>ns_locked := True\<rparr>\<rparr>) of
           (r, w) \<Rightarrow> (r, w\<lparr>sw_server := (sw_server w)\<lparr>ns_locked := False\<rparr>\<rparr>)))"

definition update_client :: "u16 \<Rightarrow> (server_client \<Rightarrow> server_client) \<Rightarrow> net_server \<Rightarrow> net_server" where
  "update_client i f n =
     n\<lparr>ns_clients := map (\<lambda>(j, c). (j, if j = i then f c else c)) (ns_clients n)\<rparr>"

section \<open>The operations that the callbacks use\<close>

definition assign_id_to_entry :: "string \<Rightarrow> ('s, 'l, 'c, 'o, u16) server_op" where
  "assign_id_to_entry name =
     w_then (ask_server ns_next_id) (\<lambda>i.
     w_then (on_server (\<lambda>n. n\<lparr>ns_next_id := i + 1, ns_ids := sorted_emplace i name (ns_ids n)\<rparr>)) (\<lambda>_.
     w_then (on_store (on_entry_id_assigned i name)) (\<lambda>_.
     w_return i)))"

definition enqueue_message_for_clients :: "out_message \<Rightarrow> u16 \<Rightarrow> ('s, 'l, 'c, 'o, unit) server_op" where
  "enqueue_message_for_clients m id_to_skip =
     on_server (\<lambda>n. n\<lparr>ns_clients :=
        map (\<lambda>(i, c). (i, if i = id_to_skip then c else sc_enqueue m c)) (ns_clients n)\<rparr>)"

text \<open>The clients are told the name under their own identifier \<open>id\<close>, as the code has it.\<close>

definition publish_and_update_entry_for_clients ::
  "u16 \<Rightarrow> string \<Rightarrow> obsr_value \<Rightarrow> milliseconds \<Rightarrow> u16 \<Rightarrow> ('s, 'l, 'c, 'o, unit) server_op" where
  "publish_and_update_entry_for_clients entry_id name v value_time id_to_skip =
     (let m = out_entry_update value_time entry_id v in
      on_server (\<lambda>n. n\<lparr>ns_clients :=
        map (\<lambda>(i, c). (i, if i = id_to_skip then c else sc_enqueue m (sc_publish i name c))) (ns_clients n)\<rparr>))"

fun handshake_entries ::
  "milliseconds \<Rightarrow> 'c storage \<Rightarrow> (u16 \<times> string) list \<Rightarrow> server_client \<Rightarrow> server_client" where
  "handshake_entries now st [] c = c"
| "handshake_entries now st ((i, name) # ids) c =
     handshake_entries now st ids
       (if is_known i c then c
        else
          (let c = sc_publish i name c in
           case get_entry_value_from_id i st of
             None \<Rightarrow> c
           | Some v \<Rightarrow> sc_enqueue (out_entry_update now i v) c))"

definition handle_do_handshake_for_client ::
  "('s, 'l, 'o) net_server_env \<Rightarrow> u16 \<Rightarrow> ('s, 'l, 'c, 'o, unit) server_op" where
  "handle_do_handshake_for_client ne i =
     w_then (ask_server (\<lambda>n. map_of (ns_clients n) i)) (\<lambda>known.
     if known = None then w_return ()
     else
       w_then (server_times ne) (\<lambda>tm.
       w_then (server_now (tm 0)) (\<lambda>now.
       w_then (on_store (\<lambda>st. (Inr st, st))) (\<lambda>st.
       on_server (\<lambda>n. update_client i
         (\<lambda>c. set_state sc_in_use (sc_enqueue out_handshake_finished (handshake_entries now st (ns_ids n) c))) n)))))"

section \<open>The callbacks\<close>

definition server_on_connect :: "(nat \<Rightarrow> u8) \<Rightarrow> u16 \<Rightarrow> ('s, 'l, 'c, 'o, unit) server_op" where
  "server_on_connect block i = server_lock (
     on_server (\<lambda>n. update_client i (set_state sc_in_handshake)
       (n\<lparr>ns_clients := sorted_emplace i (server_client_new block) (ns_clients n)\<rparr>)))"

definition server_on_disconnect :: "u16 \<Rightarrow> ('s, 'l, 'c, 'o, unit) server_op" where
  "server_on_disconnect i = server_lock (
     on_server (\<lambda>n. n\<lparr>ns_clients := filter (\<lambda>(j, c). j \<noteq> i) (ns_clients n)\<rparr>))"

definition server_on_close :: "('s, 'l, 'c, 'o, unit) server_op" where
  "server_on_close = server_lock (on_server (\<lambda>n. n\<lparr>ns_clients := [], ns_state := ss_opening\<rparr>))"

text \<open>The environment of the server's own calls, before its message callback is in place.\<close>

definition server_calls ::
  "('s, 'l, 'o) net_server_env \<Rightarrow> (nat \<Rightarrow> u8) \<Rightarrow>
   (u16 \<Rightarrow> message_header \<Rightarrow> bytes \<Rightarrow> nat \<Rightarrow> ('s, 'l, 'c, 'o, unit) server_op) \<Rightarrow>
   ('s, 'l, ('s, 'l, 'c, 'o) server_world) server_env" where
  "server_calls ne block on_message =
     \<lparr>sk_new = server_out (sk_new ne), sk_reuseport = (\<lambda>k. server_out (sk_reuseport ne k)),
      sk_nonblocking = (\<lambda>k. server_out (sk_nonblocking ne k)),
      sk_close = (\<lambda>k. server_out (sk_close ne k)),
      sk_connect = (\<lambda>k info. server_out (sk_connect ne k info)),
      sk_finalize = (\<lambda>k. server_out (sk_finalize ne k)),
      sk_read = (\<lambda>k w n. server_out (\<lambda>o'. sk_read ne k o' n) w),
      sk_write = (\<lambda>k w xs. server_out (\<lambda>o'. sk_write ne k o' xs) w),
      lo_add = (\<lambda>k ev. server_out (lo_add ne k ev)), lo_remove = (\<lambda>h. server_out (lo_remove ne h)),
      lo_request = (\<lambda>h ev t. server_out (lo_request ne h ev t)),
      ss_new = server_out (so_new ne), ss_reuseport = (\<lambda>k. server_out (so_reuseport ne k)),
      ss_nonblocking = (\<lambda>k. server_out (so_nonblocking ne k)),
      ss_bind = (\<lambda>k port. server_out (so_bind ne k port)),
      ss_listen = (\<lambda>k n. server_out (so_listen ne k n)), ss_accept = (\<lambda>k. server_out (so_accept ne k)),
      ss_close = (\<lambda>k. server_out (so_close ne k)), sl_add = (\<lambda>k ev. server_out (so_add ne k ev)),
      scb_connect = server_on_connect block, scb_disconnect = server_on_disconnect,
      scb_close = server_on_close, scb_message = on_message\<rparr>"

text \<open>A client's queue writes to its connection; writing calls none but the closing callbacks.\<close>

definition client_destination ::
  "('s, 'l, 'o) net_server_env \<Rightarrow> (nat \<Rightarrow> u8) \<Rightarrow> u16 \<Rightarrow> ('s, 'l, 'c, 'o) server_world destination" where
  "client_destination ne block i t b = write_to (server_calls ne block (\<lambda>_ _ _ _. w_return ())) i t b"

text \<open>A queue operation of the client \<open>i\<close>; it must still be there when the operation ends.\<close>

definition on_client_queue ::
  "u16 \<Rightarrow> (message_queue \<Rightarrow> ('s, 'l, 'c, 'o) server_world \<Rightarrow>
            (exn + unit) \<times> message_queue \<times> ('s, 'l, 'c, 'o) server_world) \<Rightarrow>
   ('s, 'l, 'c, 'o, unit) server_op" where
  "on_client_queue i f w =
     (case map_of (ns_clients (sw_server w)) i of
        None \<Rightarrow> (Inr (), w)
      | Some c \<Rightarrow>
          (case f (sc_queue c) w of
             (r, q, w) \<Rightarrow>
               (if map_of (ns_clients (sw_server w)) i = None then (Inl Undefined_behaviour, w)
                else (r, w\<lparr>sw_server := update_client i (\<lambda>c. c\<lparr>sc_queue := q\<rparr>) (sw_server w)\<rparr>))))"

definition enqueue_message_for_client ::
  "('s, 'l, 'o) net_server_env \<Rightarrow> (nat \<Rightarrow> u8) \<Rightarrow> u16 \<Rightarrow> out_message \<Rightarrow> u8 \<Rightarrow> ('s, 'l, 'c, 'o, unit) server_op" where
  "enqueue_message_for_client ne block i m flags =
     on_client_queue i (enqueue (client_destination ne block i) m flags)"

definition server_parse :: "message_type \<Rightarrow> bytes \<Rightarrow> nat \<Rightarrow> ('s, 'l, 'c, 'o, unit) server_op" where
  "server_parse t buffer sz w =
     (case parse_body t buffer sz (ns_parser (sw_server w)) of
        (r, p) \<Rightarrow> (r, w\<lparr>sw_server := (sw_server w)\<lparr>ns_parser := p\<rparr>\<rparr>))"

definition server_dispatch ::
  "('s, 'l, 'o) net_server_env \<Rightarrow> (nat \<Rightarrow> u8) \<Rightarrow> u16 \<Rightarrow> message_type \<Rightarrow> parse_data \<Rightarrow> ('s, 'l, 'c, 'o, unit) server_op"
where
  "server_dispatch ne block i t d =
     (case t of
        mt_entry_create \<Rightarrow>
          w_then (if pd_id d = id_not_assigned then assign_id_to_entry (pd_name d) else w_return (pd_id d)) (\<lambda>e.
          w_then (server_times ne) (\<lambda>tm.
          w_then (invoke_store (on_entry_created tm e (pd_name d) (pd_value d) (pd_send_time d))) (\<lambda>_.
          publish_and_update_entry_for_clients e (pd_name d) (pd_value d) (pd_send_time d) i)))
      | mt_entry_update \<Rightarrow>
          w_then (server_times ne) (\<lambda>tm.
          w_then (invoke_store (on_entry_updated tm (pd_id d) (pd_value d) (pd_send_time d))) (\<lambda>_.
          enqueue_message_for_clients (out_entry_update (pd_send_time d) (pd_id d) (pd_value d)) i))
      | mt_entry_delete \<Rightarrow>
          w_then (server_times ne) (\<lambda>tm.
          w_then (invoke_store (on_entry_deleted tm (pd_id d) (pd_send_time d))) (\<lambda>_.
          enqueue_message_for_clients (out_entry_deleted (pd_send_time d) (pd_id d)) i))
      | mt_time_sync_request \<Rightarrow>
          w_then (server_times ne) (\<lambda>tm.
          w_then (server_now (tm 0)) (\<lambda>now.
          enqueue_message_for_client ne block i (out_time_sync_response now (pd_send_time d)) flag_immediate))
      | mt_handshake_ready \<Rightarrow> handle_do_handshake_for_client ne i
      | _ \<Rightarrow> w_return ())"

definition server_on_message ::
  "('s, 'l, 'o) net_server_env \<Rightarrow> (nat \<Rightarrow> u8) \<Rightarrow> u16 \<Rightarrow> message_header \<Rightarrow> bytes \<Rightarrow> nat \<Rightarrow>
   ('s, 'l, 'c, 'o, unit) server_op" where
  "server_on_message ne block i header buffer sz = server_lock (
     let t = mt_of_code (mh_type header) in
     w_then (server_parse t buffer sz) (\<lambda>_.
     w_then (ask_server ns_parser) (\<lambda>p.
     if is_errored p then w_return ()
     else if \<not> is_finished p then w_return ()
     else server_dispatch ne block i t (sm_data p))))"

definition server_env_of ::
  "('s, 'l, 'o) net_server_env \<Rightarrow> (nat \<Rightarrow> u8) \<Rightarrow> ('s, 'l, ('s, 'l, 'c, 'o) server_world) server_env" where
  "server_env_of ne block = server_calls ne block (server_on_message ne block)"

section \<open>The interface\<close>

definition configure_bind :: "u16 \<Rightarrow> ('s, 'l, 'c, 'o, unit) server_op" where
  "configure_bind port = server_lock (
     w_then (ask_server ns_state) (\<lambda>st.
     if st \<noteq> ss_idle then w_throw (Illegal_state ''server running, cannot reconfigure'')
     else on_server (\<lambda>n. n\<lparr>ns_port := port\<rparr>)))"

definition server_attach_storage :: "bool \<Rightarrow> ('s, 'l, 'c, 'o, unit) server_op" where
  "server_attach_storage present = server_lock (
     w_then (ask_server ns_state) (\<lambda>st.
     if st \<noteq> ss_idle then w_throw (Illegal_state ''server running, cannot reconfigure'')
     else on_server (\<lambda>n. n\<lparr>ns_attached := present\<rparr>)))"

definition server_start :: "('s, 'l, 'o) net_server_env \<Rightarrow> ('s, 'l, 'c, 'o, unit) server_op" where
  "server_start ne = server_lock (
     w_then (ask_server id) (\<lambda>n.
     if ns_state n \<noteq> ss_idle then w_throw (Illegal_state ''server already running'')
     else if \<not> ns_attached n then w_throw (Illegal_state ''server cannot start without storage being attached'')
     else if ns_port n = 0 then w_throw (Illegal_state ''server cannot start without binding being configured'')
     else
       w_then (on_server (\<lambda>n. n\<lparr>ns_next_id := 0, ns_clients := []\<rparr>)) (\<lambda>_.
       w_then (on_store (\<lambda>st. (Inr (), clear_net_ids st))) (\<lambda>_.
       w_then (on_server (\<lambda>n. n\<lparr>ns_state := ss_opening\<rparr>)) (\<lambda>_.
       w_then (server_out (ne_create_timer ne server_update_time)) (\<lambda>h.
       on_server (\<lambda>n. n\<lparr>ns_timer_handle := h\<rparr>)))))))"

definition server_stop_request ::
  "('s, 'l, 'o) net_server_env \<Rightarrow> (nat \<Rightarrow> u8) \<Rightarrow> ('s, 'l, 'c, 'o, unit) server_op" where
  "server_stop_request ne block = server_lock (
     w_then (ask_server ns_timer_handle) (\<lambda>h.
     w_then
       (if h \<noteq> empty_handle then
          w_then (server_out (ne_stop_timer ne h)) (\<lambda>_. on_server (\<lambda>n. n\<lparr>ns_timer_handle := empty_handle\<rparr>))
        else w_return ()) (\<lambda>_.
     sio_stop (server_env_of ne block))))"

text \<open>As for the client, \<open>meanwhile\<close> is what the looper does before it runs the request.\<close>

definition server_stop ::
  "('s, 'l, 'o) net_server_env \<Rightarrow> (nat \<Rightarrow> u8) \<Rightarrow> ('s, 'l, 'c, 'o, unit) server_op \<Rightarrow> ('s, 'l, 'c, 'o, unit) server_op"
where
  "server_stop ne block meanwhile =
     w_then
       (server_lock (
          w_then (ask_server ns_state) (\<lambda>st.
          if st = ss_idle then w_throw (Illegal_state ''not running'') else w_return ()))) (\<lambda>_.
     w_then meanwhile (\<lambda>_.
     w_then (w_try (server_stop_request ne block)) (\<lambda>_.
     server_lock (on_server (\<lambda>n. n\<lparr>ns_state := ss_idle\<rparr>)))))"

section \<open>The update\<close>

text \<open>
  What \<open>process_updates\<close> does with a dirty entry. The storage is the one that \<open>act_on_dirty_entries\<close>
  works on, so the action takes it from there and puts it back.
\<close>

definition update_message :: "milliseconds \<Rightarrow> u16 \<Rightarrow> storage_entry \<Rightarrow> out_message" where
  "update_message now i d =
     (if has_flags flag_internal_deleted d then out_entry_deleted now i
      else out_entry_update (se_last_update d) i (se_value d))"

definition send_update :: "u16 \<Rightarrow> string \<Rightarrow> out_message \<Rightarrow> server_client \<Rightarrow> server_client" where
  "send_update i path m c =
     (let c = (if \<not> is_known i c then sc_publish i path c else c) in
      if om_type m \<noteq> mt_no_type then sc_enqueue m c else c)"

definition update_entry :: "('s, 'l, 'o) net_server_env \<Rightarrow> ('c, ('s, 'l, 'c, 'o) server_world) entry_action" where
  "update_entry ne d stw =
     (case
        w_then
          (if se_net_id d = id_not_assigned then assign_id_to_entry (se_path d) else w_return (se_net_id d)) (\<lambda>i.
        w_then (if has_flags flag_internal_deleted d then server_times ne else w_return (\<lambda>_. 0)) (\<lambda>tm.
        w_then (server_now (tm 0)) (\<lambda>now.
        w_then (on_server (\<lambda>n. n\<lparr>ns_clients :=
            map (\<lambda>(j, c). (j, send_update i (se_path d) (update_message now i d) c)) (ns_clients n)\<rparr>)) (\<lambda>_.
        w_return True)))) ((snd stw)\<lparr>sw_storage := fst stw\<rparr>)
      of (r, w) \<Rightarrow> (r, (sw_storage w, w)))"

fun update_clients :: "('s, 'l, 'o) net_server_env \<Rightarrow> (nat \<Rightarrow> u8) \<Rightarrow> u16 list \<Rightarrow> ('s, 'l, 'c, 'o, unit) server_op" where
  "update_clients ne block [] = w_return ()"
| "update_clients ne block (i # is) =
     w_then (on_client_queue i (mq_process (client_destination ne block i))) (\<lambda>_.
     update_clients ne block is)"

definition process_dirty :: "('s, 'l, 'o) net_server_env \<Rightarrow> ('s, 'l, 'c, 'o, unit) server_op" where
  "process_dirty ne w =
     (if \<not> ns_attached (sw_server w) then (Inl Undefined_behaviour, w)
      else
        (case act_on_dirty_entries (update_entry ne) (sw_storage w, w) of
           (r, st, w) \<Rightarrow> (r, w\<lparr>sw_storage := st\<rparr>)))"

definition server_process_updates ::
  "('s, 'l, 'o) net_server_env \<Rightarrow> (nat \<Rightarrow> u8) \<Rightarrow> ('s, 'l, 'c, 'o, unit) server_op" where
  "server_process_updates ne block =
     w_then (process_dirty ne) (\<lambda>_.
     w_then (ask_server (\<lambda>n. map fst (ns_clients n))) (\<lambda>is.
     update_clients ne block is))"

definition do_open :: "('s, 'l, 'o) net_server_env \<Rightarrow> (nat \<Rightarrow> u8) \<Rightarrow> ('s, 'l, 'c, 'o, bool) server_op" where
  "do_open ne block =
     w_catch catchable
       (w_then (ask_server ns_port) (\<lambda>port.
        w_then (sio_start (server_env_of ne block) port) (\<lambda>_.
        w_then (on_server (\<lambda>n. n\<lparr>ns_state := ss_in_use\<rparr>)) (\<lambda>_.
        w_return True))))
       (\<lambda>e. w_then (sio_stop (server_env_of ne block)) (\<lambda>_. w_return False))"

text \<open>\<open>update\<close>, the callback of the timer; it does not take the mutex.\<close>

definition server_update ::
  "('s, 'l, 'o) net_server_env \<Rightarrow> (nat \<Rightarrow> u8) \<Rightarrow> ('s, 'l, 'c, 'o, unit) server_op" where
  "server_update ne block =
     w_then (ask_server id) (\<lambda>n.
     case ns_state n of
       ss_idle \<Rightarrow> w_return ()
     | ss_opening \<Rightarrow>
         w_then (server_times ne) (\<lambda>tm w.
           case timer_waits (tm 0) open_retry_time (ns_retry n) of
             Inl e \<Rightarrow> (Inl e, w)
           | Inr waits \<Rightarrow>
               (if waits then (Inr (), w)
                else
                  w_then (do_open ne block) (\<lambda>ok.
                  if ok then on_server (\<lambda>n. n\<lparr>ns_retry := timer_stop (ns_retry n)\<rparr>)
                  else on_server (\<lambda>n. n\<lparr>ns_retry := timer_start (tm 1) (ns_retry n)\<rparr>)) w))
     | ss_in_use \<Rightarrow> if ns_clients n \<noteq> [] then server_process_updates ne block else w_return ())"

lemmas server_helpers = on_server_def ask_server_def server_out_def server_times_def server_now_def
  server_storage_def on_store_def

end
