(* ===== verification/Obsr_Client.thy ===== *)
theory Obsr_Client
  imports Obsr_Net
begin

text \<open>
  The network client (\<open>src/net/client.h\<close>, \<open>src/net/client.cpp\<close>): the owner of one connection. It
  connects and reconnects, runs the handshake with the server, applies the server's messages to the
  storage and sends the dirty entries of the storage.
\<close>

section \<open>State\<close>

datatype client_state =
    cs_idle | cs_opening | cs_connecting | cs_in_handshake_time_sync | cs_in_handshake | cs_in_use

text \<open>
  \<open>nc_locked\<close> is the mutex; \<open>nc_attached\<close> is whether \<open>m_storage\<close> is not null. The storage and the
  clock (which is the storage's, as \<open>instance\<close> sets it up) are shared with the user's thread and stand
  beside the client in its world.
\<close>

record net_client =
  nc_locked :: bool
  nc_state :: client_state
  nc_attached :: bool
  nc_conn_info :: connection_info
  nc_timer_handle :: handle
  nc_parser :: message_parser
  nc_queue :: message_queue
  nc_retry :: timer
  nc_sync :: timer

record ('c, 'o) client_world =
  cw_client :: net_client
  cw_storage :: "'c storage"
  cw_out :: 'o

type_synonym ('s, 'c, 'o, 'x) client_op = "('s, ('c, 'o) client_world, 'x) io_op"

definition connect_retry_time :: milliseconds where "connect_retry_time = 1000"
definition server_sync_time :: milliseconds where "server_sync_time = 1000"
definition client_update_time :: milliseconds where "client_update_time = 200"

definition net_client_new :: "parse_data \<Rightarrow> (nat \<Rightarrow> u8) \<Rightarrow> net_client" where
  "net_client_new junk block =
     \<lparr>nc_locked = False, nc_state = cs_idle, nc_attached = False,
      nc_conn_info = \<lparr>ci_ip = [], ci_port = 0\<rparr>, nc_timer_handle = empty_handle,
      nc_parser = message_parser_new junk, nc_queue = message_queue_new block,
      nc_retry = timer_new, nc_sync = timer_new\<rparr>"

section \<open>Helpers\<close>

definition on_client :: "(net_client \<Rightarrow> net_client) \<Rightarrow> ('s, 'c, 'o, unit) client_op" where
  "on_client f = io_world (\<lambda>w. w\<lparr>cw_client := f (cw_client w)\<rparr>)"

definition ask_client :: "(net_client \<Rightarrow> 'x) \<Rightarrow> ('s, 'c, 'o, 'x) client_op" where
  "ask_client f = io_ask (\<lambda>w. f (cw_client w))"

definition set_client_state :: "client_state \<Rightarrow> ('s, 'c, 'o, unit) client_op" where
  "set_client_state st = on_client (\<lambda>c. c\<lparr>nc_state := st\<rparr>)"

definition client_lock :: "('s, 'c, 'o, 'x) client_op \<Rightarrow> ('s, 'c, 'o, 'x) client_op" where
  "client_lock = with_lock (\<lambda>w. nc_locked (cw_client w))
     (\<lambda>b w. w\<lparr>cw_client := (cw_client w)\<lparr>nc_locked := b\<rparr>\<rparr>)"

definition client_out :: "('o \<Rightarrow> (exn + 'x) \<times> 'o) \<Rightarrow> ('s, 'c, 'o, 'x) client_op" where
  "client_out g = io_call (lift_call cw_out (\<lambda>k w. w\<lparr>cw_out := k\<rparr>) g)"

definition client_times :: "('s, 'o) net_env \<Rightarrow> ('s, 'c, 'o, readings) client_op" where
  "client_times ne = client_out (\<lambda>k. case ne_times ne k of (tm, k) \<Rightarrow> (Inr tm, k))"

text \<open>\<open>m_clock->now()\<close> at a reading.\<close>

definition client_now :: "milliseconds \<Rightarrow> ('s, 'c, 'o, milliseconds) client_op" where
  "client_now r = io_ask (\<lambda>w. clock_now (st_clock (cw_storage w)) r)"

definition client_storage :: "('c, 'x) storage_op \<Rightarrow> ('s, 'c, 'o, 'x) client_op" where
  "client_storage op = io_call (\<lambda>w. case op (cw_storage w) of (r, st) \<Rightarrow> (r, w\<lparr>cw_storage := st\<rparr>))"

text \<open>\<open>invoke_sharedptr_nolock(m_storage, ...)\<close>.\<close>

definition invoke_storage :: "('c, unit) storage_op \<Rightarrow> ('s, 'c, 'o, unit) client_op" where
  "invoke_storage op s w =
     (if nc_attached (cw_client w) then io_try (client_storage op) s w else (Inr (), s, w))"

section \<open>The callbacks of the connection\<close>

definition client_on_close :: "('s, 'o) net_env \<Rightarrow> ('s, 'c, 'o, unit) client_op" where
  "client_on_close ne = client_lock (
     io_then (on_client (\<lambda>c. c\<lparr>nc_retry := timer_stop (nc_retry c), nc_sync := timer_stop (nc_sync c)\<rparr>)) (\<lambda>_.
     io_then (set_client_state cs_opening) (\<lambda>_.
     io_then (client_times ne) (\<lambda>tm.
     on_client (\<lambda>c. c\<lparr>nc_retry := timer_start (tm 0) (nc_retry c)\<rparr>)))))"

text \<open>
  The environment of the client's own calls on its connection: of the callbacks only that of
  \<open>on_close\<close> can be called from them.
\<close>

definition client_calls :: "('s, 'o) net_env \<Rightarrow> ('s, ('c, 'o) client_world) io_env" where
  "client_calls ne =
     lift_env cw_out (\<lambda>k w. w\<lparr>cw_out := k\<rparr>) ne (io_return ()) (client_on_close ne) (\<lambda>_ _ _. io_return ())"

definition client_enqueue :: "('s, 'o) net_env \<Rightarrow> out_message \<Rightarrow> u8 \<Rightarrow> ('s, 'c, 'o, unit) client_op" where
  "client_enqueue ne m flags s w =
     (case enqueue (io_destination (client_calls ne)) m flags (nc_queue (cw_client w)) (s, w) of
        (r, q, (s, w)) \<Rightarrow> (r, s, w\<lparr>cw_client := (cw_client w)\<lparr>nc_queue := q\<rparr>\<rparr>))"

definition client_process_queue :: "('s, 'o) net_env \<Rightarrow> ('s, 'c, 'o, unit) client_op" where
  "client_process_queue ne s w =
     (case mq_process (io_destination (client_calls ne)) (nc_queue (cw_client w)) (s, w) of
        (r, q, (s, w)) \<Rightarrow> (r, s, w\<lparr>cw_client := (cw_client w)\<lparr>nc_queue := q\<rparr>\<rparr>))"

definition client_on_connect :: "('s, 'o) net_env \<Rightarrow> ('s, 'c, 'o, unit) client_op" where
  "client_on_connect ne = client_lock (
     io_then (on_client (\<lambda>c. c\<lparr>nc_queue := mq_clear (nc_queue c)\<rparr>)) (\<lambda>_.
     io_then (client_times ne) (\<lambda>tm.
     io_then (client_now (tm 0)) (\<lambda>now.
     io_then (client_enqueue ne (out_time_sync_request now) flag_immediate) (\<lambda>_.
     set_client_state cs_in_handshake_time_sync)))))"

definition client_parse :: "message_type \<Rightarrow> bytes \<Rightarrow> nat \<Rightarrow> ('s, 'c, 'o, unit) client_op" where
  "client_parse t buffer sz s w =
     (case parse_body t buffer sz (nc_parser (cw_client w)) of
        (r, p) \<Rightarrow> (r, s, w\<lparr>cw_client := (cw_client w)\<lparr>nc_parser := p\<rparr>\<rparr>))"

text \<open>\<open>m_clock->sync\<close>, and \<open>m_storage->on_clock_resync()\<close> when it has been accepted.\<close>

definition client_sync :: "milliseconds \<Rightarrow> parse_data \<Rightarrow> ('s, 'c, 'o, unit) client_op" where
  "client_sync r d s w =
     (case clock_sync r (pd_time_value d) (pd_send_time d) (st_clock (cw_storage w)) of
        (accepted, c) \<Rightarrow>
          (let w = w\<lparr>cw_storage := (cw_storage w)\<lparr>st_clock := c\<rparr>\<rparr> in
           if \<not> accepted then (Inr (), s, w)
           else if \<not> nc_attached (cw_client w) then (Inl Undefined_behaviour, s, w)
           else (Inr (), s, w\<lparr>cw_storage := on_clock_resync (cw_storage w)\<rparr>)))"

definition client_dispatch :: "('s, 'o) net_env \<Rightarrow> message_type \<Rightarrow> parse_data \<Rightarrow> ('s, 'c, 'o, unit) client_op"
where
  "client_dispatch ne t d =
     (case t of
        mt_entry_update \<Rightarrow>
          io_then (client_times ne) (\<lambda>tm.
          invoke_storage (on_entry_updated tm (pd_id d) (pd_value d) (pd_send_time d)))
      | mt_entry_delete \<Rightarrow>
          io_then (client_times ne) (\<lambda>tm. invoke_storage (on_entry_deleted tm (pd_id d) (pd_send_time d)))
      | mt_entry_id_assign \<Rightarrow> invoke_storage (on_entry_id_assigned (pd_id d) (pd_name d))
      | mt_handshake_finished \<Rightarrow>
          io_then (set_client_state cs_in_use) (\<lambda>_.
          io_then (client_times ne) (\<lambda>tm. on_client (\<lambda>c. c\<lparr>nc_sync := timer_start (tm 0) (nc_sync c)\<rparr>)))
      | mt_time_sync_response \<Rightarrow>
          io_then (client_times ne) (\<lambda>tm.
          io_then (client_sync (tm 0) d) (\<lambda>_.
          io_then (ask_client nc_state) (\<lambda>st.
          if st = cs_in_handshake_time_sync then
            io_then (client_enqueue ne out_handshake_ready 0) (\<lambda>_. set_client_state cs_in_handshake)
          else on_client (\<lambda>c. c\<lparr>nc_sync := timer_start (tm 1) (nc_sync c)\<rparr>))))
      | _ \<Rightarrow> io_return ())"

definition client_on_message ::
  "('s, 'o) net_env \<Rightarrow> message_header \<Rightarrow> bytes \<Rightarrow> nat \<Rightarrow> ('s, 'c, 'o, unit) client_op" where
  "client_on_message ne header buffer sz = client_lock (
     let t = mt_of_code (mh_type header) in
     io_then (client_parse t buffer sz) (\<lambda>_.
     io_then (ask_client nc_parser) (\<lambda>p.
     if is_errored p then io_return ()
     else if \<not> is_finished p then io_return ()
     else client_dispatch ne t (sm_data p))))"

text \<open>The environment in which the looper's events reach the connection.\<close>

definition client_env :: "('s, 'o) net_env \<Rightarrow> ('s, ('c, 'o) client_world) io_env" where
  "client_env ne =
     lift_env cw_out (\<lambda>k w. w\<lparr>cw_out := k\<rparr>) ne (client_on_connect ne) (client_on_close ne) (client_on_message ne)"

section \<open>The interface\<close>

definition configure_target :: "connection_info \<Rightarrow> ('s, 'c, 'o, unit) client_op" where
  "configure_target info = client_lock (
     io_then (ask_client nc_state) (\<lambda>st.
     if st \<noteq> cs_idle then io_throw (Illegal_state ''client running, cannot reconfigure'')
     else on_client (\<lambda>c. c\<lparr>nc_conn_info := info\<rparr>)))"

text \<open>\<open>attach_storage\<close>: the storage of the world, or a null pointer.\<close>

definition client_attach_storage :: "bool \<Rightarrow> ('s, 'c, 'o, unit) client_op" where
  "client_attach_storage present = client_lock (
     io_then (ask_client nc_state) (\<lambda>st.
     if st \<noteq> cs_idle then io_throw (Illegal_state ''client running, cannot reconfigure'')
     else on_client (\<lambda>c. c\<lparr>nc_attached := present\<rparr>)))"

definition client_start :: "('s, 'o) net_env \<Rightarrow> ('s, 'c, 'o, unit) client_op" where
  "client_start ne = client_lock (
     io_then (ask_client id) (\<lambda>c.
     if nc_state c \<noteq> cs_idle then io_throw (Illegal_state ''already running'')
     else if \<not> nc_attached c then io_throw (Illegal_state ''cannot start without attached storage'')
     else if ci_port (nc_conn_info c) = 0 then io_throw (Illegal_state ''cannot start without target info'')
     else
       io_then (client_storage (\<lambda>st. (Inr (), clear_net_ids st))) (\<lambda>_.
       io_then (on_client (\<lambda>c. c\<lparr>nc_retry := timer_stop (nc_retry c), nc_sync := timer_stop (nc_sync c),
                               nc_queue := mq_clear (nc_queue c)\<rparr>)) (\<lambda>_.
       io_then (set_client_state cs_opening) (\<lambda>_.
       io_then (client_out (ne_create_timer ne client_update_time)) (\<lambda>h.
       on_client (\<lambda>c. c\<lparr>nc_timer_handle := h\<rparr>)))))))"

text \<open>
  The request that \<open>stop\<close> hands to the looper, which catches what it throws.
\<close>

definition client_stop_request :: "('s, 'o) net_env \<Rightarrow> ('s, 'c, 'o, unit) client_op" where
  "client_stop_request ne = client_lock (
     io_then (ask_client nc_timer_handle) (\<lambda>h.
     io_then
       (if h \<noteq> empty_handle then
          io_then (client_out (ne_stop_timer ne h)) (\<lambda>_. on_client (\<lambda>c. c\<lparr>nc_timer_handle := empty_handle\<rparr>))
        else io_return ()) (\<lambda>_.
     io_stop (client_calls ne))))"

text \<open>
  \<open>stop\<close> waits without the mutex until the looper has run the request; \<open>meanwhile\<close> is what the looper's
  thread does before it gets there.
\<close>

definition client_stop ::
  "('s, 'o) net_env \<Rightarrow> ('s, 'c, 'o, unit) client_op \<Rightarrow> ('s, 'c, 'o, unit) client_op" where
  "client_stop ne meanwhile =
     io_then
       (client_lock (
          io_then (ask_client nc_state) (\<lambda>st.
          if st = cs_idle then io_throw (Illegal_state ''not running'') else io_return ()))) (\<lambda>_.
     io_then meanwhile (\<lambda>_.
     io_then (io_try (client_stop_request ne)) (\<lambda>_.
     client_lock (set_client_state cs_idle))))"

section \<open>The update\<close>

text \<open>What \<open>process_storage\<close> does with a dirty entry; only a created one needs the time.\<close>

definition publish_entry ::
  "('s, 'o) net_env \<Rightarrow> ('c, 's socket_io \<times> ('c, 'o) client_world) entry_action" where
  "publish_entry ne d stw =
     (case stw of (st, (s, w)) \<Rightarrow>
        (let i = se_net_id d;
             send = (\<lambda>m w. case client_enqueue ne m 0 s w of (r, s, w) \<Rightarrow> (map_sum id (\<lambda>_. True) r, st, (s, w))) in
         if i = id_not_assigned then
           (case ne_times ne (cw_out w) of
              (tm, k) \<Rightarrow>
                send (out_entry_create (clock_now (st_clock st) (tm 0)) (se_path d) (se_value d)) (w\<lparr>cw_out := k\<rparr>))
         else if has_flags flag_internal_deleted d then send (out_entry_deleted (se_last_update d) i) w
         else send (out_entry_update (se_last_update d) i (se_value d)) w))"

definition process_storage :: "('s, 'o) net_env \<Rightarrow> ('s, 'c, 'o, unit) client_op" where
  "process_storage ne s w =
     (if \<not> nc_attached (cw_client w) then (Inl Undefined_behaviour, s, w)
      else
        (case act_on_dirty_entries (publish_entry ne) (cw_storage w, (s, w)) of
           (r, st, (s, w)) \<Rightarrow> (r, s, w\<lparr>cw_storage := st\<rparr>)))"

definition do_open_and_connect :: "('s, 'o) net_env \<Rightarrow> ('s, 'c, 'o, bool) client_op" where
  "do_open_and_connect ne =
     io_catch catchable
       (io_then (io_start (client_calls ne)) (\<lambda>_.
        io_then (ask_client nc_conn_info) (\<lambda>info.
        io_then (io_connect (client_calls ne) info) (\<lambda>_.
        io_then (set_client_state cs_connecting) (\<lambda>_.
        io_return True)))))
       (\<lambda>e. io_then (io_stop (client_calls ne)) (\<lambda>_. io_return False))"

definition client_sync_request :: "('s, 'o) net_env \<Rightarrow> readings \<Rightarrow> ('s, 'c, 'o, unit) client_op" where
  "client_sync_request ne tm =
     io_then (io_eval (\<lambda>w. timer_due (tm 0) server_sync_time (nc_sync (cw_client w)))) (\<lambda>due.
     if due then
       io_then (client_now (tm 1)) (\<lambda>now.
       io_then (client_enqueue ne (out_time_sync_request now) flag_immediate) (\<lambda>_.
       on_client (\<lambda>c. c\<lparr>nc_sync := timer_stop (nc_sync c)\<rparr>)))
     else io_return ())"

definition client_update :: "('s, 'o) net_env \<Rightarrow> ('s, 'c, 'o, unit) client_op" where
  "client_update ne =
     io_then (ask_client nc_state) (\<lambda>st.
     if st = cs_idle then io_return ()
     else
       io_then (client_times ne) (\<lambda>tm.
       io_then (client_sync_request ne tm) (\<lambda>_.
       io_then (ask_client nc_state) (\<lambda>st.
       case st of
         cs_opening \<Rightarrow>
           io_then (io_eval (\<lambda>w. timer_waits (tm 2) connect_retry_time (nc_retry (cw_client w)))) (\<lambda>waits.
           if waits then io_return ()
           else
             io_then (do_open_and_connect ne) (\<lambda>ok.
             if ok then on_client (\<lambda>c. c\<lparr>nc_retry := timer_stop (nc_retry c)\<rparr>)
             else on_client (\<lambda>c. c\<lparr>nc_retry := timer_start (tm 3) (nc_retry c)\<rparr>)))
       | cs_in_use \<Rightarrow> io_then (process_storage ne) (\<lambda>_. client_process_queue ne)
       | cs_in_handshake_time_sync \<Rightarrow> client_process_queue ne
       | cs_in_handshake \<Rightarrow> client_process_queue ne
       | _ \<Rightarrow> io_return ()))))"

text \<open>The callback of the update timer.\<close>

definition client_tick :: "('s, 'o) net_env \<Rightarrow> ('s, 'c, 'o, unit) client_op" where
  "client_tick ne = client_lock (client_update ne)"

lemmas client_helpers = on_client_def ask_client_def set_client_state_def client_out_def client_times_def
  client_now_def client_storage_def

end
