(* ===== verification/Obsr_Client_Props.thy ===== *)
theory Obsr_Client_Props
  imports Obsr_Client Obsr_Protocol Obsr_Storage_Props
begin

text \<open>
  Properties of the network client: a connection that is refused at once locks it up, nothing of the
  storage leaves before the handshake is over, every dirty entry is sent once, and a message of the
  server acts on the storage as it says.
\<close>

section \<open>A connection refused at once\<close>

lemma client_lock_locked: "nc_locked (cw_client w) \<Longrightarrow> client_lock p s w = (Inl Deadlock, s, w)"
  by (simp add: client_lock_def with_lock_def)

text \<open>A call on the outside does not change the client.\<close>

lemma lift_call_client:
  "lift_call cw_out (\<lambda>k w. w\<lparr>cw_out := k\<rparr>) g w = (r, w') \<Longrightarrow>
   cw_client w' = cw_client w \<and> cw_storage w' = cw_storage w \<and> r = fst (g (cw_out w))"
  by (auto simp: lift_call_def split: prod.splits)

text \<open>The calls on the outside throw exceptions at most.\<close>

definition throws_only :: "('s, 'o) net_env \<Rightarrow> bool" where
  "throws_only ne \<longleftrightarrow>
     (\<forall>h o'. pred_sum catchable (\<lambda>_. True) (fst (lo_remove ne h o'))) \<and>
     (\<forall>k o'. pred_sum catchable (\<lambda>_. True) (fst (sk_close ne k o')))"

lemma stop_internal_locked:
  fixes ne :: "('s, 'o) net_env" and w :: "('c, 'o) client_world"
  assumes "nc_locked (cw_client w)" and "so_state s \<noteq> io_idle" and "so_socket s \<noteq> None" and "throws_only ne"
  shows "fst (stop_internal (client_calls ne) True s w) = Inl Deadlock"
proof -
  obtain k where k: "so_socket s = Some k" using assms(3) by blast
  let ?env = "client_calls ne :: ('s, ('c, 'o) client_world) io_env"
  have close: "cb_close ?env s w = (Inl Deadlock, s, w)" if "nc_locked (cw_client w)" for s w
    using that by (simp add: client_calls_def lift_env_def client_on_close_def client_lock_locked)
  let ?p1 = "io_try (\<lambda>s w.
             if so_handle s \<noteq> empty_handle then
               io_then (on_handle (lo_remove ?env)) (\<lambda>_. io_modify (\<lambda>s. s\<lparr>so_handle := empty_handle\<rparr>)) s w
             else (Inr (), s, w))"
  have 1: "\<exists>s1 w1. ?p1 s w = (Inr (), s1, w1) \<and> so_socket s1 = Some k \<and> nc_locked (cw_client w1)"
  proof (cases "so_handle s = empty_handle")
    case False
    obtain r w1 where "lo_remove ?env (so_handle s) w = (r, w1)" by fastforce
    moreover from this have "nc_locked (cw_client w1)" "pred_sum catchable (\<lambda>_. True) r"
      using assms(1,4) unfolding client_calls_def lift_env_def throws_only_def
      by (auto dest!: lift_call_client)
    ultimately show ?thesis using False k by (cases r) (auto simp: io_defs)
  qed (use k assms(1) in \<open>simp add: io_defs\<close>)
  then obtain s1 w1 where s1: "?p1 s w = (Inr (), s1, w1)" "so_socket s1 = Some k" "nc_locked (cw_client w1)"
    by blast
  let ?p2 = "io_try (io_then (on_socket (sk_close ?env)) (\<lambda>_. io_modify (\<lambda>s. s\<lparr>so_socket := None\<rparr>)))"
  obtain r w2 where c: "sk_close ?env k w1 = (r, w2)" by fastforce
  then have "nc_locked (cw_client w2)" "pred_sum catchable (\<lambda>_. True) r"
    using s1(3) assms(4) unfolding client_calls_def lift_env_def throws_only_def
    by (auto dest!: lift_call_client)
  with c s1(2) obtain s2 where s2: "?p2 s1 w1 = (Inr (), s2, w2)" "nc_locked (cw_client w2)"
    by (cases r) (auto simp: io_defs)
  have "stop_internal ?env True s w = (Inl Deadlock, s2\<lparr>so_state := io_idle\<rparr>, w2)"
    using assms(2) s1(1) s2 close [of w2]
    by (simp add: stop_internal_def io_then_def io_modify_def invoke_func_def io_try_def io_catch_def catchable_def)
  then show ?thesis by simp
qed

text \<open>A network in which a socket can be set up but the connection is refused at once.\<close>

definition refusing :: "('s, 'o) net_env \<Rightarrow> bool" where
  "refusing ne \<longleftrightarrow> throws_only ne \<and>
     (\<forall>o'. \<not> isl (fst (sk_new ne o'))) \<and> (\<forall>k o'. \<not> isl (fst (sk_reuseport ne k o'))) \<and>
     (\<forall>k o'. \<not> isl (fst (sk_nonblocking ne k o'))) \<and> (\<forall>k ev o'. \<not> isl (fst (lo_add ne k ev o'))) \<and>
     (\<forall>h ev t o'. \<not> isl (fst (lo_request ne h ev t o'))) \<and>
     (\<forall>k info o'. pred_sum is_io_exception (\<lambda>_. False) (fst (sk_connect ne k info o')))"

lemma client_call:
  fixes w :: "('c, 'o) client_world"
  assumes "\<not> isl (fst (g (cw_out w)))"
  obtains x w' where "lift_call cw_out (\<lambda>k w. w\<lparr>cw_out := k\<rparr>) g w = (Inr x, w')"
    and "cw_client w' = cw_client w"
  using assms by (cases "g (cw_out w)"; cases "fst (g (cw_out w))") (auto simp: lift_call_def)

lemma refusing_start:
  fixes ne :: "('s, 'o) net_env" and w :: "('c, 'o) client_world"
  assumes "refusing ne" and "so_state s = io_idle"
  shows "\<exists>s1 w1. io_start (client_calls ne) s w = (Inr (), s1, w1) \<and> so_state s1 = io_bound \<and>
     so_socket s1 \<noteq> None \<and> cw_client w1 = cw_client w"
proof -
  note calls = client_calls_def lift_env_def
  obtain k w1 where 1: "lift_call cw_out (\<lambda>k w. w\<lparr>cw_out := k\<rparr>) (sk_new ne) w = (Inr k, w1)"
    "cw_client w1 = cw_client w" using assms(1) client_call [of "sk_new ne" w] by (auto simp: refusing_def)
  obtain u w2 where 2: "lift_call cw_out (\<lambda>k w. w\<lparr>cw_out := k\<rparr>) (sk_reuseport ne k) w1 = (Inr u, w2)"
    "cw_client w2 = cw_client w1" using assms(1) client_call [of "sk_reuseport ne k" w1] by (auto simp: refusing_def)
  obtain u w3 where 3: "lift_call cw_out (\<lambda>k w. w\<lparr>cw_out := k\<rparr>) (sk_nonblocking ne k) w2 = (Inr u, w3)"
    "cw_client w3 = cw_client w2" using assms(1) client_call [of "sk_nonblocking ne k" w2] by (auto simp: refusing_def)
  obtain u w4 where 4: "lift_call cw_out (\<lambda>k w. w\<lparr>cw_out := k\<rparr>) (sk_nonblocking ne k) w3 = (Inr u, w4)"
    "cw_client w4 = cw_client w3" using assms(1) client_call [of "sk_nonblocking ne k" w3] by (auto simp: refusing_def)
  obtain h w5 where 5: "lift_call cw_out (\<lambda>k w. w\<lparr>cw_out := k\<rparr>) (lo_add ne k (event_hung OR event_error)) w4 =
      (Inr h, w5)" "cw_client w5 = cw_client w4"
    using assms(1) client_call [of "lo_add ne k (event_hung OR event_error)" w4] by (auto simp: refusing_def)
  let ?s = "s\<lparr>so_socket := Some k, so_state := io_bound, so_handle := h\<rparr>"
  have "io_start (client_calls ne) s w = (Inr (), ?s, w5)"
    using assms(2) 1(1) 2(1) 3(1) 4(1) 5(1) by (simp add: io_start_def start_with_def io_defs calls)
  with 1 2 3 4 5 show ?thesis by (intro exI [of _ ?s] exI [of _ w5]) simp
qed

lemma refusing_connect:
  fixes ne :: "('s, 'o) net_env" and w :: "('c, 'o) client_world"
  assumes "refusing ne" and "so_state s = io_bound" and "so_socket s \<noteq> None" and "nc_locked (cw_client w)"
  shows "fst (io_connect (client_calls ne) info s w) = Inl Deadlock"
proof -
  note calls = client_calls_def lift_env_def
  obtain k where k: "so_socket s = Some k" using assms(3) by blast
  obtain u w1 where 1: "lift_call cw_out (\<lambda>k w. w\<lparr>cw_out := k\<rparr>) (lo_request ne (so_handle s) event_in eu_remove) w =
      (Inr u, w1)" "cw_client w1 = cw_client w"
    using assms(1) client_call [of "lo_request ne (so_handle s) event_in eu_remove" w] by (auto simp: refusing_def)
  obtain r w2 where 2: "lift_call cw_out (\<lambda>k w. w\<lparr>cw_out := k\<rparr>) (sk_connect ne k info) w1 = (r, w2)" by fastforce
  have "pred_sum is_io_exception (\<lambda>_. False) r" "cw_client w2 = cw_client w1"
    using assms(1) lift_call_client [OF 2] by (simp_all add: refusing_def)
  then obtain e where e: "r = Inl e" "is_io_exception e" "cw_client w2 = cw_client w1" by (cases r) auto
  have "fst (stop_internal (client_calls ne) True (s\<lparr>so_state := io_connecting\<rparr>) w2) = Inl Deadlock"
    using stop_internal_locked [of w2 "s\<lparr>so_state := io_connecting\<rparr>" ne] 1(2) e(3) assms k
    by (simp add: refusing_def)
  then obtain s3 w3 where "stop_internal (client_calls ne) True (s\<lparr>so_state := io_connecting\<rparr>) w2 = (Inl Deadlock, s3, w3)"
    by (cases "stop_internal (client_calls ne) True (s\<lparr>so_state := io_connecting\<rparr>) w2") auto
  moreover have "lo_request (client_calls ne) (so_handle s) event_in eu_remove w = (Inr u, w1)"
    "sk_connect (client_calls ne) k info w1 = (Inl e, w2)" using 1(1) 2 e(1) by (simp_all add: calls)
  ultimately show ?thesis
    using assms(2) k e(2) by (simp add: io_connect_def io_defs)
qed


text \<open>A network that refuses every connection.\<close>

definition closed_network :: "(nat, unit) net_env" where
  "closed_network =
     \<lparr>sk_new = (\<lambda>w. (Inr 3, w)), sk_reuseport = (\<lambda>k w. (Inr (), w)), sk_nonblocking = (\<lambda>k w. (Inr (), w)),
      sk_close = (\<lambda>k w. (Inr (), w)), sk_connect = (\<lambda>k i w. (Inl (Io_exception 111), w)),
      sk_finalize = (\<lambda>k w. (Inr (), w)), sk_read = (\<lambda>k w n. (Inr [], w)),
      sk_write = (\<lambda>k w xs. (Inr (length xs), w)),
      lo_add = (\<lambda>k ev w. (Inr 1, w)), lo_remove = (\<lambda>h w. (Inr (), w)), lo_request = (\<lambda>h ev t w. (Inr (), w)),
      ne_times = (\<lambda>w. (\<lambda>_. 5000, w)), ne_create_timer = (\<lambda>t w. (Inr 0, w)),
      ne_stop_timer = (\<lambda>h w. (Inr (), w))\<rparr>"

lemma closed_network_refuses: "refusing closed_network"
  by (simp add: refusing_def closed_network_def throws_only_def)

definition idle_io :: "nat socket_io" where
  "idle_io = socket_io_new \<lparr>rd_header = next_header 0 0 0, rd_message = replicate 1024 0\<rparr> (\<lambda>_. 0) (\<lambda>_. 0)"

definition opening_client :: "net_client" where
  "opening_client = (net_client_new blank_parse_data (\<lambda>_. 0))\<lparr>nc_state := cs_opening, nc_attached := True,
     nc_conn_info := \<lparr>ci_ip = ''127.0.0.1'', ci_port = 50001\<rparr>\<rparr>"


section \<open>Sending the dirty entries\<close>

text \<open>The message that announces a dirty entry to the server.\<close>

definition announces :: "storage_entry \<Rightarrow> out_message \<Rightarrow> bool" where
  "announces d m \<longleftrightarrow>
     (if se_net_id d = id_not_assigned then \<exists>t. m = out_entry_create t (se_path d) (se_value d)
      else if has_flags flag_internal_deleted d then m = out_entry_deleted (se_last_update d) (se_net_id d)
      else m = out_entry_update (se_last_update d) (se_net_id d) (se_value d))"

lemma client_enqueue_later:
  "client_enqueue ne m 0 s w =
     (Inr (), s, w\<lparr>cw_client := (cw_client w)\<lparr>nc_queue :=
        (nc_queue (cw_client w))\<lparr>mq_outgoing := mq_outgoing (nc_queue (cw_client w)) @ [m]\<rparr>\<rparr>\<rparr>)"
  by (simp add: client_enqueue_def enqueue_def)

definition queued :: "('c, 'o) client_world \<Rightarrow> out_message list" where
  "queued w = mq_outgoing (nc_queue (cw_client w))"

text \<open>The world apart from the queue and the outside.\<close>

definition client_rest :: "('c, 'o) client_world \<Rightarrow> net_client \<times> 'c storage" where
  "client_rest w = ((cw_client w)\<lparr>nc_queue := (nc_queue (cw_client w))\<lparr>mq_outgoing := []\<rparr>\<rparr>, cw_storage w)"

lemma publish_entry_step:
  "\<exists>m w'. publish_entry ne d (st, (s, w)) = (Inr True, st, (s, w')) \<and> announces d m \<and>
     queued w' = queued w @ [m] \<and> client_rest w' = client_rest w"
  by (cases "ne_times ne (cw_out w)")
     (auto simp: publish_entry_def announces_def client_enqueue_later Let_def queued_def client_rest_def)

text \<open>An action that leaves the storage alone is handed the dirty entries one after the other.\<close>

lemma act_on_dirty_only:
  assumes act: "\<And>d st w. P w \<Longrightarrow> \<exists>w'. action d (st, w) = (Inr True, st, w') \<and> P w' \<and> R d w w'"
    and hs: "\<forall>h\<in>set hs. ht_lookup (st_entries st) h \<noteq> None" "distinct hs" and w: "P w"
    and nil: "\<And>w. Q [] w w"
    and cons: "\<And>d ds w w1 w2. R d w w1 \<Longrightarrow> Q ds w1 w2 \<Longrightarrow> Q (d # ds) w w2"
  shows "\<exists>st' w'. act_on action hs (st, w) = (Inr (), st', w') \<and> P w' \<and> Q (dirty_entries hs st) w w' \<and>
     act_on (\<lambda>d (s, u). (Inr True, s, u)) hs (st, ()) = (Inr (), st', ())"
  using hs w
proof (induction hs arbitrary: st w)
  case Nil
  with nil show ?case by (auto simp: dirty_entries_def)
next
  case (Cons h hs)
  then obtain d where d: "ht_lookup (st_entries st) h = Some d" by auto
  show ?case
  proof (cases "has_flags flag_internal_dirty d")
    case False
    from Cons.IH [of st w] Cons.prems d False show ?thesis
      by (auto simp: ht_get_lookup dirty_entries_def)
  next
    case True
    obtain w1 where w1: "action d (st, w) = (Inr True, st, w1)" "P w1" "R d w w1"
      using act [OF Cons.prems(3)] by blast
    let ?st = "st\<lparr>st_entries := ht_update h clear_dirty (st_entries st)\<rparr>"
    have same: "ht_lookup (st_entries ?st) k = ht_lookup (st_entries st) k" if "k \<in> set hs" for k
      using that Cons.prems(2) by (auto simp: ht_update_lookup)
    then have eq: "dirty_entries hs ?st = dirty_entries hs st"
      unfolding dirty_entries_def by (intro arg_cong [of _ _ "filter _"] map_cong) auto
    have "\<forall>h\<in>set hs. ht_lookup (st_entries ?st) h \<noteq> None"
      using Cons.prems(1) same by (metis list.set_intros(2))
    from Cons.IH [OF this _ w1(2)] Cons.prems(2) eq obtain st' w' where
      a: "act_on action hs (?st, w1) = (Inr (), st', w')" "P w'" "Q (dirty_entries hs st) w1 w'"
        "act_on (\<lambda>d (s, u). (Inr True, s, u)) hs (?st, ()) = (Inr (), st', ())" by auto
    have "dirty_entries (h # hs) st = d # dirty_entries hs st" using d True by (simp add: dirty_entries_def)
    with a w1 d True cons [OF w1(3) a(3)] show ?thesis by (simp add: ht_get_lookup)
  qed
qed

lemma act_on_cleans:
  assumes ok: "storage_ok st"
    and a: "act_on (\<lambda>d (s, u). (Inr True, s, u)) (ht_handles (st_entries st)) (st, ()) = (Inr (), st', ())"
  shows "dirty_entries (ht_handles (st_entries st)) st' = [] \<and> view h st' = view h st"
proof -
  let ?hs = "ht_handles (st_entries st)"
  have hs: "\<forall>h\<in>set ?hs. ht_lookup (st_entries st) h \<noteq> None" "distinct ?hs"
    using set_ht_handles [OF storage_okD(1) [OF ok]] distinct_ht_handles [OF storage_okD(1) [OF ok]] by blast+
  have lk: "ht_lookup (st_entries st') k =
        (if k \<in> set ?hs \<and> (\<exists>d. ht_lookup (st_entries st) k = Some d \<and> has_flags flag_internal_dirty d)
         then map_option clear_dirty (ht_lookup (st_entries st) k) else ht_lookup (st_entries st) k)" for k
    using act_on_collects [OF hs, of "\<lambda>_ u. u" "()"] a by auto
  have "\<not> has_flags flag_internal_dirty (the (ht_lookup (st_entries st') k))" if "k \<in> set ?hs" for k
    using that hs(1) lk [of k] by (auto simp: has_one_flag bit_change_flags flag_bits)
  moreover have "view h st' = view h st"
    using lk [of h] by (auto simp: view_def entry_register_def has_value_bits bit_change_flags flag_bits)
  ultimately show ?thesis by (auto simp: dirty_entries_def filter_empty_conv)
qed

text \<open>
  C15 A client in use announces every dirty entry of its storage to the server in exactly one message (a
  creation when the server has given it no identifier, else a deletion or an update with the entry's
  own time stamp), in the order of the handles, behind what is queued already; afterwards no entry is
  dirty, and what the user sees of the entries is unchanged.
\<close>

theorem client_announces_dirty_entries:
  assumes "storage_ok (cw_storage w)" and "nc_attached (cw_client w)"
  shows "\<exists>w' ms. process_storage ne s w = (Inr (), s, w') \<and> queued w' = queued w @ ms \<and>
     list_all2 announces (dirty_entries (ht_handles (st_entries (cw_storage w))) (cw_storage w)) ms \<and>
     dirty_entries (ht_handles (st_entries (cw_storage w))) (cw_storage w') = [] \<and>
     view h (cw_storage w') = view h (cw_storage w)"
proof -
  let ?st = "cw_storage w" and ?hs = "ht_handles (st_entries (cw_storage w))"
  let ?R = "\<lambda>d (s, w) (s', w'). s' = s \<and> (\<exists>m. announces d m \<and> queued w' = queued w @ [m])"
  let ?Q = "\<lambda>ds (s, w) (s', w'). s' = s \<and> (\<exists>ms. list_all2 announces ds ms \<and> queued w' = queued w @ ms)"
  have hs: "\<forall>h\<in>set ?hs. ht_lookup (st_entries ?st) h \<noteq> None" "distinct ?hs"
    using set_ht_handles [OF storage_okD(1) [OF assms(1)]] distinct_ht_handles [OF storage_okD(1) [OF assms(1)]]
    by blast+
  have step: "\<exists>x'. publish_entry ne d (st, x) = (Inr True, st, x') \<and> True \<and> ?R d x x'" for d st x
    using publish_entry_step [of ne d st "fst x" "snd x"] by fastforce
  have comb: "?Q (d # ds) x x2" if "?R d x x1" "?Q ds x1 x2" for d ds x x1 x2
    using that by (cases x; cases x1; cases x2) fastforce
  have nil: "?Q [] x x" for x by (cases x) simp
  have "\<exists>st' x'. act_on (publish_entry ne) ?hs (?st, (s, w)) = (Inr (), st', x') \<and> True \<and>
      ?Q (dirty_entries ?hs ?st) (s, w) x' \<and>
      act_on (\<lambda>d (s, u). (Inr True, s, u)) ?hs (?st, ()) = (Inr (), st', ())"
    by (rule act_on_dirty_only [where P = "\<lambda>_. True" and R = ?R and Q = ?Q, OF step hs TrueI nil comb])
  then obtain st' s' w1 ms where a: "act_on (publish_entry ne) ?hs (?st, (s, w)) = (Inr (), st', (s', w1))"
    "s' = s" "list_all2 announces (dirty_entries ?hs ?st) ms" "queued w1 = queued w @ ms"
    "act_on (\<lambda>d (s, u). (Inr True, s, u)) ?hs (?st, ()) = (Inr (), st', ())" by auto
  have "process_storage ne s w = (Inr (), s, w1\<lparr>cw_storage := st'\<rparr>)"
    using a(1,2) assms(2) by (simp add: process_storage_def act_on_dirty_entries_def)
  with a(3,4) act_on_cleans [OF assms(1) a(5), of h] show ?thesis by (auto simp: queued_def)
qed

theorem client_announces_dirty_entries_witness:
  "\<exists>w' m. process_storage closed_network idle_io
       \<lparr>cw_client = opening_client, cw_storage = valued_storage, cw_out = ()\<rparr> = (Inr (), idle_io, w') \<and>
     queued w' = [m] \<and> om_type m = mt_entry_create \<and> om_name m = ''/a/x'' \<and> om_value m = make_int32 9"
proof -
  let ?w = "\<lparr>cw_client = opening_client, cw_storage = valued_storage, cw_out = ()\<rparr>"
  have d: "dirty_entries [0] valued_storage = [the (ht_lookup (st_entries valued_storage) 0)]"
    by (simp add: dirty_entries_def valued_lookup has_one_flag flag_bits)
  obtain w' ms where w': "process_storage closed_network idle_io ?w = (Inr (), idle_io, w')"
    "queued w' = queued ?w @ ms" "list_all2 announces (dirty_entries [0] valued_storage) ms"
    using client_announces_dirty_entries [of ?w closed_network idle_io 0] valued_ok valued_handles
    by (auto simp: opening_client_def net_client_new_def)
  then obtain m where m: "ms = [m]" "announces (the (ht_lookup (st_entries valued_storage) 0)) m"
    unfolding d by (auto simp: list_all2_Cons1)
  have "queued ?w = []" by (simp add: queued_def opening_client_def net_client_new_def message_queue_new_def)
  moreover have "om_type m = mt_entry_create \<and> om_name m = ''/a/x'' \<and> om_value m = make_int32 9"
    using m(2) by (auto simp: announces_def valued_lookup out_entry_create_def out_message_new_def)
  ultimately show ?thesis using w' m(1) by auto
qed

section \<open>The messages of the server\<close>

text \<open>The handlers of the storage throw exceptions only.\<close>

lemma set_entry_internal_throws:
  "pred_sum catchable (\<lambda>_. True) (fst (set_entry_internal tm h v clear i dirty t s))"
  by (auto simp: set_entry_internal_def Let_def ht_get_lookup entry_set_value_def catchable_def
      split: option.split prod.split sum.split)

lemma delete_entry_internal_throws:
  "pred_sum catchable (\<lambda>_. True) (fst (delete_entry_internal tm h dirty t s))"
  by (auto simp: delete_entry_internal_def Let_def ht_get_lookup catchable_def split: option.split)

lemma find_or_create_throws: "find_or_create path s = (Inl e, s') \<Longrightarrow> catchable e"
  by (auto simp: find_or_create_def create_new_entry_def Let_def catchable_def
      dest: allocate_Inl split: option.splits prod.splits sum.splits)

lemma handlers_throw:
  "pred_sum catchable (\<lambda>_. True) (fst (on_entry_updated tm i v t s))"
  "pred_sum catchable (\<lambda>_. True) (fst (on_entry_deleted tm i t s))"
  "pred_sum catchable (\<lambda>_. True) (fst (on_entry_created tm i path v t s))"
  "pred_sum catchable (\<lambda>_. True) (fst (on_entry_id_assigned i path s))"
  using find_or_create_throws [of path s]
  by (auto simp: on_entry_updated_def on_entry_deleted_def on_entry_created_def on_entry_id_assigned_def
      set_entry_internal_throws delete_entry_internal_throws ht_get_lookup catchable_def
      split: option.split prod.split sum.split)

lemma invoke_storage_result:
  assumes "nc_attached (cw_client w)" and "pred_sum catchable (\<lambda>_. True) (fst (op (cw_storage w)))"
  shows "invoke_storage op s w = (Inr (), s, w\<lparr>cw_storage := snd (op (cw_storage w))\<rparr>)"
  using assms
  by (cases "op (cw_storage w)"; cases "fst (op (cw_storage w))")
     (auto simp: invoke_storage_def client_storage_def io_defs)

text \<open>What a message of the protocol does to the client.\<close>

fun storage_after :: "net_message \<Rightarrow> obsr_value \<Rightarrow> readings \<Rightarrow> 'c storage \<Rightarrow> 'c storage" where
  "storage_after (N_update t i c) v tm st = snd (on_entry_updated tm i v t st)"
| "storage_after (N_delete t i) v tm st = snd (on_entry_deleted tm i t st)"
| "storage_after (N_assign i n) v tm st = snd (on_entry_id_assigned i n st)"
| "storage_after (N_response t u) v tm st =
     (case clock_sync (tm 0) u t (st_clock st) of
        (accepted, c) \<Rightarrow> (if accepted then on_clock_resync (st\<lparr>st_clock := c\<rparr>) else st\<lparr>st_clock := c\<rparr>))"
| "storage_after _ v tm st = st"

fun client_state_after :: "net_message \<Rightarrow> client_state \<Rightarrow> client_state" where
  "client_state_after N_finished st = cs_in_use"
| "client_state_after (N_response t u) st = (if st = cs_in_handshake_time_sync then cs_in_handshake else st)"
| "client_state_after _ st = st"

fun replies :: "net_message \<Rightarrow> client_state \<Rightarrow> out_message list" where
  "replies (N_response t u) st = (if st = cs_in_handshake_time_sync then [out_handshake_ready] else [])"
| "replies _ st = []"

text \<open>\<open>valued k v\<close>: the value \<open>v\<close> is one that the message carries.\<close>

fun valued :: "net_message \<Rightarrow> obsr_value \<Rightarrow> bool" where
  "valued (N_create t n c) v \<longleftrightarrow> content_of v = Some c"
| "valued (N_update t i c) v \<longleftrightarrow> content_of v = Some c"
| "valued _ v \<longleftrightarrow> True"

lemma parse_body_message:
  assumes "net_clean k" and "take sz buffer = net_body k" and "sz \<le> length buffer"
  shows "\<exists>p'. parse_body (net_type k) buffer sz p = (Inr (), p') \<and> is_finished p' \<and> \<not> is_errored p' \<and>
     parsed k (sm_data p) (sm_data p')"
  using parse_net_message [OF assms, of p] by (auto simp: parse_body_def parse_done_def)

lemma client_dispatch_message:
  assumes d: "parsed k d0 d" and a: "nc_attached (cw_client w)"
  shows "\<exists>tm w'. client_dispatch ne (net_type k) d s w = (Inr (), s, w') \<and>
     cw_storage w' = storage_after k (pd_value d) tm (cw_storage w) \<and>
     nc_state (cw_client w') = client_state_after k (nc_state (cw_client w)) \<and>
     queued w' = queued w @ replies k (nc_state (cw_client w)) \<and>
     nc_attached (cw_client w') \<and> nc_parser (cw_client w') = nc_parser (cw_client w)"
proof -
  obtain tm o' where tm: "ne_times ne (cw_out w) = (tm, o')" by fastforce
  let ?w = "w\<lparr>cw_out := o'\<rparr>"
  have times: "client_times ne s w = (Inr tm, s, ?w)"
    using tm by (simp add: client_times_def client_out_def io_call_def lift_call_def)
  have a': "nc_attached (cw_client ?w)" using a by simp
  show ?thesis
  proof (cases k)
    case (N_update t i c)
    then have "pd_id d = i" "pd_send_time d = t" using d by (cases d; cases d0; simp)+
    with N_update times a invoke_storage_result [where op = "on_entry_updated tm i (pd_value d) t" and s = s, OF a' handlers_throw(1)] show ?thesis
      by (simp add: client_dispatch_def io_then_def queued_def) (rule exI [of _ tm], simp)
  next
    case (N_delete t i)
    then have "pd_id d = i" "pd_send_time d = t" using d by simp_all
    with N_delete times a invoke_storage_result [where op = "on_entry_deleted tm i t" and s = s, OF a' handlers_throw(2)] show ?thesis
      by (simp add: client_dispatch_def io_then_def queued_def) (rule exI [of _ tm], simp)
  next
    case (N_assign i n)
    then have "pd_id d = i" "pd_name d = n" using d by simp_all
    with N_assign a invoke_storage_result [where op = "on_entry_id_assigned i n" and s = s, OF a handlers_throw(4)] show ?thesis
      by (simp add: client_dispatch_def queued_def)
  next
    case N_finished
    let ?v = "w\<lparr>cw_client := (cw_client w)\<lparr>nc_state := cs_in_use\<rparr>\<rparr>"
    have "client_times ne s ?v = (Inr tm, s, ?v\<lparr>cw_out := o'\<rparr>)"
      using tm by (simp add: client_times_def client_out_def io_call_def lift_call_def)
    with N_finished a show ?thesis
      by (simp add: client_dispatch_def io_then_def client_helpers world_defs queued_def)
  next
    case (N_response t u)
    then have "pd_time_value d = u" "pd_send_time d = t" using d by simp_all
    with N_response times a show ?thesis
      by (cases "clock_sync (tm 0) u t (st_clock (cw_storage w))")
         (auto simp: client_dispatch_def io_then_def client_sync_def Let_def client_enqueue_later queued_def
           ask_client_def set_client_state_def on_client_def io_ask_def io_world_def intro!: exI [of _ tm])
  qed (use a in \<open>simp_all add: client_dispatch_def io_return_def queued_def\<close>)
qed

lemma client_on_message_effect:
  assumes "net_clean k" and "take sz buffer = net_body k" and "sz \<le> length buffer"
    and "mt_of_code (mh_type header) = net_type k"
    and "\<not> nc_locked (cw_client w)" and "nc_attached (cw_client w)"
  shows "\<exists>v tm w'. client_on_message ne header buffer sz s w = (Inr (), s, w') \<and> valued k v \<and>
     cw_storage w' = storage_after k v tm (cw_storage w) \<and>
     nc_state (cw_client w') = client_state_after k (nc_state (cw_client w)) \<and>
     queued w' = queued w @ replies k (nc_state (cw_client w))"
proof -
  let ?c = "cw_client w"
  obtain p where p: "parse_body (net_type k) buffer sz (nc_parser ?c) = (Inr (), p)" "is_finished p"
    "\<not> is_errored p" "parsed k (sm_data (nc_parser ?c)) (sm_data p)"
    using parse_body_message [OF assms(1-3)] by blast
  let ?w = "w\<lparr>cw_client := ?c\<lparr>nc_locked := True, nc_parser := p\<rparr>\<rparr>"
  from client_dispatch_message [OF p(4), of ?w ne s] assms(6) obtain tm w' where d:
    "client_dispatch ne (net_type k) (sm_data p) s ?w = (Inr (), s, w')"
    "cw_storage w' = storage_after k (pd_value (sm_data p)) tm (cw_storage w)"
    "nc_state (cw_client w') = client_state_after k (nc_state ?c)"
    "queued w' = queued w @ replies k (nc_state ?c)" by (auto simp: queued_def)
  have v: "valued k (pd_value (sm_data p))" using p(4) by (cases k) auto
  let ?w' = "w'\<lparr>cw_client := (cw_client w')\<lparr>nc_locked := False\<rparr>\<rparr>"
  have "client_on_message ne header buffer sz s w = (Inr (), s, ?w')"
    using assms(4,5) p(1-3) d(1)
    by (simp add: client_on_message_def client_lock_def with_lock_def io_then_def client_parse_def
        ask_client_def io_ask_def Let_def)
  with d(2-4) v show ?thesis by (auto simp: queued_def intro!: exI [of _ ?w'])
qed



end
