(* ===== verification/Obsr_Server_Props.thy ===== *)
theory Obsr_Server_Props
  imports Obsr_Server Obsr_Client_Props
begin

text \<open>
  Properties of the network server: what a client is told in its handshake, what the messages of the
  clients do to the storage and to the other clients, how a value travels from the server's storage into
  that of a client, and where the identifiers go wrong.
\<close>

section \<open>The handshake\<close>

abbreviation sc_outgoing :: "server_client \<Rightarrow> out_message list" where
  "sc_outgoing c \<equiv> mq_outgoing (sc_queue c)"

text \<open>What a client is told of an entry it does not know.\<close>

definition introduces :: "milliseconds \<Rightarrow> 'c storage \<Rightarrow> u16 \<times> string \<Rightarrow> out_message list" where
  "introduces now st e =
     out_entry_id_assign (fst e) (snd e) #
       (case get_entry_value_from_id (fst e) st of None \<Rightarrow> [] | Some v \<Rightarrow> [out_entry_update now (fst e) v])"

lemma sc_enqueue_simps [simp]:
  "sc_outgoing (sc_enqueue m c) = sc_outgoing c @ [m]"
  "sc_published (sc_enqueue m c) = sc_published c" "sc_state (sc_enqueue m c) = sc_state c"
  by (simp_all add: sc_enqueue_def)

lemma sc_publish_simps [simp]:
  "sc_outgoing (sc_publish i n c) = sc_outgoing c @ [out_entry_id_assign i n]"
  "sc_published (sc_publish i n c) = insert i (sc_published c)" "sc_state (sc_publish i n c) = sc_state c"
  by (simp_all add: sc_publish_def Let_def)

lemma handshake_entries_told:
  "distinct (map fst ids) \<Longrightarrow>
   sc_outgoing (handshake_entries now st ids c) =
     sc_outgoing c @ concat (map (introduces now st) (filter (\<lambda>e. \<not> is_known (fst e) c) ids)) \<and>
   sc_published (handshake_entries now st ids c) = sc_published c \<union> fst ` set ids"
proof (induction ids arbitrary: c)
  case Nil
  then show ?case by simp
next
  case (Cons e ids)
  obtain i n where e: "e = (i, n)" by fastforce
  show ?case
  proof (cases "is_known i c")
    case True
    with Cons.IH [of c] Cons.prems e show ?thesis by (auto simp: is_known_def)
  next
    case False
    let ?c = "case get_entry_value_from_id i st of None \<Rightarrow> sc_publish i n c
           | Some v \<Rightarrow> sc_enqueue (out_entry_update now i v) (sc_publish i n c)"
    have c: "sc_outgoing ?c = sc_outgoing c @ introduces now st e" "sc_published ?c = insert i (sc_published c)"
      by (simp_all add: introduces_def e split: option.split)
    have "filter (\<lambda>e. \<not> is_known (fst e) ?c) ids = filter (\<lambda>e. \<not> is_known (fst e) c) ids"
      using Cons.prems e by (intro filter_cong) (auto simp: is_known_def c)
    with Cons.IH [of ?c] Cons.prems e c False show ?thesis by (auto simp: Let_def)
  qed
qed

lemma map_of_update_client:
  "map_of (ns_clients (update_client i f n)) j =
     (if j = i then map_option f (map_of (ns_clients n) j) else map_of (ns_clients n) j)"
proof -
  have "map_of (map (\<lambda>(j, c). (j, if j = i then f c else c)) xs) j =
     (if j = i then map_option f (map_of xs j) else map_of xs j)" for xs :: "(u16 \<times> server_client) list"
    by (induction xs) auto
  then show ?thesis by (simp add: update_client_def)
qed

lemma on_store_attached:
  "ns_attached (sw_server w) \<Longrightarrow>
   on_store op w = (case op (sw_storage w) of (r, st) \<Rightarrow> (r, w\<lparr>sw_storage := st\<rparr>))"
  by (simp add: on_store_def server_storage_def)

lemma handshake_effect:
  assumes "map_of (ns_clients (sw_server w)) i = Some c" and "ns_attached (sw_server w)"
    and "distinct (map fst (ns_ids (sw_server w)))" and tm: "ne_times ne (sw_out w) = (tm, o')"
    and now: "now = clock_now (st_clock (sw_storage w)) (tm 0)"
  shows "\<exists>w' c'. handle_do_handshake_for_client ne i w = (Inr (), w') \<and>
     map_of (ns_clients (sw_server w')) i = Some c' \<and>
     sc_outgoing c' = sc_outgoing c @
       concat (map (introduces now (sw_storage w))
         (filter (\<lambda>e. \<not> is_known (fst e) c) (ns_ids (sw_server w)))) @ [out_handshake_finished] \<and>
     sc_published c' = sc_published c \<union> fst ` set (ns_ids (sw_server w)) \<and> sc_state c' = sc_in_use \<and>
     (\<forall>j. j \<noteq> i \<longrightarrow> map_of (ns_clients (sw_server w')) j = map_of (ns_clients (sw_server w)) j) \<and>
     sw_storage w' = sw_storage w"
proof -
  let ?ids = "ns_ids (sw_server w)"
  let ?f = "\<lambda>c. set_state sc_in_use (sc_enqueue out_handshake_finished
      (handshake_entries now (sw_storage w) ?ids c))"
  let ?w = "w\<lparr>sw_out := o', sw_server := update_client i ?f (sw_server w)\<rparr>"
  have "handle_do_handshake_for_client ne i w = (Inr (), ?w)"
    using assms(1,2) tm now
    by (simp add: handle_do_handshake_for_client_def w_defs server_helpers lift_call_def)
  moreover have "map_of (ns_clients (sw_server ?w)) i = Some (?f c)"
    using assms(1) by (simp add: map_of_update_client)
  moreover have "sc_outgoing (?f c) = sc_outgoing c @
       concat (map (introduces now (sw_storage w)) (filter (\<lambda>e. \<not> is_known (fst e) c) ?ids)) @
       [out_handshake_finished]" "sc_published (?f c) = sc_published c \<union> fst ` set ?ids"
    "sc_state (?f c) = sc_in_use"
    using handshake_entries_told [OF assms(3), of now "sw_storage w" c] by (simp_all add: set_state_def)
  moreover have "\<forall>j. j \<noteq> i \<longrightarrow> map_of (ns_clients (sw_server ?w)) j = map_of (ns_clients (sw_server w)) j"
    by (simp add: map_of_update_client)
  moreover have "sw_storage ?w = sw_storage w" by simp
  ultimately show ?thesis by blast
qed

text \<open>
  A client that has asked for it is told, once each and in the order of their identifiers, every entry
  that has an identifier and that it has not been told before: the identifier with the name, then the
  value, if there is one, as an update stamped with the present time; then that the handshake is over.
  From then on it counts as knowing all of them and as in use; nobody else is concerned.
\<close>

theorem handshake_tells_all_entries:
  assumes "map_of (ns_clients (sw_server w)) i = Some c" and "ns_attached (sw_server w)"
    and "distinct (map fst (ns_ids (sw_server w)))"
  shows "\<exists>now w' c'. handle_do_handshake_for_client ne i w = (Inr (), w') \<and>
     map_of (ns_clients (sw_server w')) i = Some c' \<and>
     sc_outgoing c' = sc_outgoing c @
       concat (map (introduces now (sw_storage w))
         (filter (\<lambda>e. \<not> is_known (fst e) c) (ns_ids (sw_server w)))) @ [out_handshake_finished] \<and>
     sc_published c' = sc_published c \<union> fst ` set (ns_ids (sw_server w)) \<and> sc_state c' = sc_in_use \<and>
     (\<forall>j. j \<noteq> i \<longrightarrow> map_of (ns_clients (sw_server w')) j = map_of (ns_clients (sw_server w)) j) \<and>
     sw_storage w' = sw_storage w"
proof -
  obtain tm o' where tm: "ne_times ne (sw_out w) = (tm, o')" by fastforce
  from handshake_effect [OF assms tm refl] show ?thesis by blast
qed

section \<open>The messages of the clients\<close>

lemma invoke_store_result:
  assumes "ns_attached (sw_server w)" and "pred_sum catchable (\<lambda>_. True) (fst (op (sw_storage w)))"
  shows "invoke_store op w = (Inr (), w\<lparr>sw_storage := snd (op (sw_storage w))\<rparr>)"
  using assms
  by (cases "op (sw_storage w)"; cases "fst (op (sw_storage w))")
     (auto simp: invoke_store_def server_storage_def w_defs)

text \<open>A well-formed message gets through the parser and reaches its handler.\<close>

lemma server_on_message_dispatches:
  assumes "net_clean k" and "take sz buffer = net_body k" and "sz \<le> length buffer"
    and "mt_of_code (mh_type header) = net_type k" and "\<not> ns_locked (sw_server w)"
  shows "\<exists>p. parsed k (sm_data (ns_parser (sw_server w))) (sm_data p) \<and>
     server_on_message ne block i header buffer sz w =
       (case server_dispatch ne block i (net_type k) (sm_data p)
               (w\<lparr>sw_server := (sw_server w)\<lparr>ns_locked := True, ns_parser := p\<rparr>\<rparr>) of
          (r, w) \<Rightarrow> (r, w\<lparr>sw_server := (sw_server w)\<lparr>ns_locked := False\<rparr>\<rparr>))"
proof -
  obtain p where "parse_body (net_type k) buffer sz (ns_parser (sw_server w)) = (Inr (), p)" "is_finished p"
    "\<not> is_errored p" "parsed k (sm_data (ns_parser (sw_server w))) (sm_data p)"
    using parse_body_message [OF assms(1-3)] by blast
  with assms(4,5) show ?thesis
    by (intro exI [of _ p])
       (simp add: server_on_message_def server_lock_def Let_def w_defs server_parse_def ask_server_def)
qed

text \<open>The messages that change an entry that has an identifier.\<close>

fun changes_entry :: "net_message \<Rightarrow> bool" where
  "changes_entry (N_update t i c) = True"
| "changes_entry (N_delete t i) = True"
| "changes_entry _ = False"

lemma server_on_message_effect:
  assumes "net_clean k" and "take sz buffer = net_body k" and "sz \<le> length buffer"
    and "mt_of_code (mh_type header) = net_type k" and "changes_entry k"
    and "\<not> ns_locked (sw_server w)" and "ns_attached (sw_server w)"
  shows "\<exists>v tm w' m. server_on_message ne block i header buffer sz w = (Inr (), w') \<and> valued k v \<and>
     sw_storage w' = storage_after k v tm (sw_storage w) \<and> stands_for m k \<and>
     ns_clients (sw_server w') =
       map (\<lambda>(j, c). (j, if j = i then c else sc_enqueue m c)) (ns_clients (sw_server w)) \<and>
     \<not> ns_locked (sw_server w') \<and> ns_attached (sw_server w')"
proof -
  obtain p where p: "parsed k (sm_data (ns_parser (sw_server w))) (sm_data p)"
    "server_on_message ne block i header buffer sz w =
       (case server_dispatch ne block i (net_type k) (sm_data p)
               (w\<lparr>sw_server := (sw_server w)\<lparr>ns_locked := True, ns_parser := p\<rparr>\<rparr>) of
          (r, w) \<Rightarrow> (r, w\<lparr>sw_server := (sw_server w)\<lparr>ns_locked := False\<rparr>\<rparr>))"
    using server_on_message_dispatches [OF assms(1-4,6), of ne block i] by blast
  let ?w = "w\<lparr>sw_server := (sw_server w)\<lparr>ns_locked := True, ns_parser := p\<rparr>\<rparr>"
  obtain tm o' where tm: "ne_times ne (sw_out w) = (tm, o')" by fastforce
  let ?v = "?w\<lparr>sw_out := o'\<rparr>"
  have times: "server_times ne ?w = (Inr tm, ?v)"
    using tm by (simp add: server_times_def server_out_def lift_call_def)
  have a: "ns_attached (sw_server ?v)" using assms(7) by simp
  show ?thesis
  proof (cases k)
    case (N_update t e c)
    then have d: "pd_id (sm_data p) = e" "pd_send_time (sm_data p) = t" "content_of (pd_value (sm_data p)) = Some c"
      using p(1) by (cases "sm_data p"; cases "sm_data (ns_parser (sw_server w))"; simp)+
    let ?v = "pd_value (sm_data p)" and ?m = "out_entry_update t e (pd_value (sm_data p))"
    have "server_on_message ne block i header buffer sz w = (Inr (),
        w\<lparr>sw_out := o', sw_storage := snd (on_entry_updated tm e ?v t (sw_storage w)),
          sw_server := (sw_server w)\<lparr>ns_parser := p, ns_clients :=
            map (\<lambda>(j, c). (j, if j = i then c else sc_enqueue ?m c)) (ns_clients (sw_server w)),
            ns_locked := False\<rparr>\<rparr>)" (is "_ = (_, ?u)")
      using N_update d p(2) times
        invoke_store_result [where op = "on_entry_updated tm e ?v t", OF a handlers_throw(1)]
      by (simp add: server_dispatch_def w_then_def enqueue_message_for_clients_def on_server_def w_modify_def)
    moreover have "stands_for ?m k" using N_update d by (simp add: out_entry_update_def out_message_new_def)
    ultimately show ?thesis
      using N_update d a
      by (intro exI [of _ ?v] exI [of _ tm] exI [of _ ?u] exI [of _ ?m]) simp
  next
    case (N_delete t e)
    then have d: "pd_id (sm_data p) = e" "pd_send_time (sm_data p) = t" using p(1) by simp_all
    let ?m = "out_entry_deleted t e"
    have "server_on_message ne block i header buffer sz w = (Inr (),
        w\<lparr>sw_out := o', sw_storage := snd (on_entry_deleted tm e t (sw_storage w)),
          sw_server := (sw_server w)\<lparr>ns_parser := p, ns_clients :=
            map (\<lambda>(j, c). (j, if j = i then c else sc_enqueue ?m c)) (ns_clients (sw_server w)),
            ns_locked := False\<rparr>\<rparr>)" (is "_ = (_, ?u)")
      using N_delete d p(2) times
        invoke_store_result [where op = "on_entry_deleted tm e t", OF a handlers_throw(2)]
      by (simp add: server_dispatch_def w_then_def enqueue_message_for_clients_def on_server_def w_modify_def)
    moreover have "stands_for ?m k" using N_delete by (simp add: out_entry_deleted_def out_message_new_def)
    ultimately show ?thesis
      using N_delete a
      by (intro exI [of _ value_make] exI [of _ tm] exI [of _ ?u] exI [of _ ?m]) simp
  qed (use assms(5) in simp_all)
qed



section \<open>Where the identifiers go wrong\<close>

text \<open>The index of the identifiers keeps what it has.\<close>

lemma set_entry_internal_ids: "st_ids (snd (set_entry_internal tm h v clear i dirty t s)) = st_ids s"
  by (auto simp: set_entry_internal_def Let_def notify_entry_def notify_value_def
      split: sum.split prod.split)

lemma create_new_entry_ids: "create_new_entry path s = (r, s') \<Longrightarrow> st_ids s' = st_ids s"
  by (auto simp: create_new_entry_def Let_def split: prod.splits sum.splits)

lemma find_or_create_ids: "find_or_create path s = (r, s') \<Longrightarrow> st_ids s' = st_ids s"
  by (auto simp: find_or_create_def dest: create_new_entry_ids split: option.splits)

lemma on_entry_created_keeps_id:
  assumes "st_ids s e = Some h"
  shows "st_ids (snd (on_entry_created tm e n v t s)) e = Some h"
proof -
  obtain r s1 where f: "find_or_create n s = (r, s1)" by fastforce
  with find_or_create_ids [OF f] assms show ?thesis
    by (cases r) (simp_all add: on_entry_created_def set_entry_internal_ids map_emplace_def)
qed

lemma assigned_ids:
  "st_ids (snd (on_entry_id_assigned i n s)) e =
     (if fst (on_entry_id_assigned i n s) = Inr () \<and> e = i \<and> st_ids s e = None
      then Some (case fst (find_or_create n s) of Inr h \<Rightarrow> h | Inl x \<Rightarrow> 0) else st_ids s e)"
proof -
  obtain r s1 where f: "find_or_create n s = (r, s1)" by fastforce
  with find_or_create_ids [OF f] show ?thesis
    by (auto simp: on_entry_id_assigned_def map_emplace_def ht_get_lookup split: sum.split option.split)
qed

text \<open>
  C39 A creation carries no identifier, and the server takes the one that its parser has left from an
  earlier message of any client. Unless that happens to be the invalid one, the new entry gets an
  identifier that another entry may have: no new identifier is given out, the entry is not recorded
  for the handshakes of later clients, and an entry that has the identifier keeps it in the index,
  so that later updates of the new entry go to the other one.
\<close>

theorem creation_takes_previous_identifier:
  assumes "net_clean (N_create t n c)" and "take sz buffer = net_body (N_create t n c)" and "sz \<le> length buffer"
    and "mt_of_code (mh_type header) = mt_entry_create"
    and "\<not> ns_locked (sw_server w)" and "ns_attached (sw_server w)"
    and "pd_id (sm_data (ns_parser (sw_server w))) = e" and "e \<noteq> id_not_assigned"
    and "st_ids (sw_storage w) e = Some h"
  shows "\<exists>v tm w'. server_on_message ne block i header buffer sz w = (Inr (), w') \<and> content_of v = Some c \<and>
     sw_storage w' = snd (on_entry_created tm e n v t (sw_storage w)) \<and>
     ns_next_id (sw_server w') = ns_next_id (sw_server w) \<and> ns_ids (sw_server w') = ns_ids (sw_server w) \<and>
     st_ids (sw_storage w') e = Some h"
proof -
  let ?k = "N_create t n c"
  obtain p where p: "parsed ?k (sm_data (ns_parser (sw_server w))) (sm_data p)"
    "server_on_message ne block i header buffer sz w =
       (case server_dispatch ne block i (net_type ?k) (sm_data p)
               (w\<lparr>sw_server := (sw_server w)\<lparr>ns_locked := True, ns_parser := p\<rparr>\<rparr>) of
          (r, w) \<Rightarrow> (r, w\<lparr>sw_server := (sw_server w)\<lparr>ns_locked := False\<rparr>\<rparr>))"
    using server_on_message_dispatches [OF assms(1-3) _ assms(5), of header ne block i] assms(4) by auto
  let ?w = "w\<lparr>sw_server := (sw_server w)\<lparr>ns_locked := True, ns_parser := p\<rparr>\<rparr>"
  let ?v = "pd_value (sm_data p)"
  have d: "pd_id (sm_data p) = e" "pd_send_time (sm_data p) = t" "pd_name (sm_data p) = n" "content_of ?v = Some c"
    using p(1) assms(7) by (cases "sm_data p"; cases "sm_data (ns_parser (sw_server w))"; simp)+
  obtain tm o' where tm: "ne_times ne (sw_out w) = (tm, o')" by fastforce
  have times: "server_times ne ?w = (Inr tm, ?w\<lparr>sw_out := o'\<rparr>)"
    using tm by (simp add: server_times_def server_out_def lift_call_def)
  have a: "ns_attached (sw_server (?w\<lparr>sw_out := o'\<rparr>))" using assms(6) by simp
  let ?st = "snd (on_entry_created tm e n ?v t (sw_storage w))"
  let ?f = "\<lambda>(j, c). (j, if j = i then c else sc_enqueue (out_entry_update t e ?v) (sc_publish j n c))"
  have "server_on_message ne block i header buffer sz w = (Inr (),
        w\<lparr>sw_out := o', sw_storage := ?st,
          sw_server := (sw_server w)\<lparr>ns_parser := p, ns_clients := map ?f (ns_clients (sw_server w)),
            ns_locked := False\<rparr>\<rparr>)" (is "_ = (_, ?u)")
    using d p(2) times assms(8)
      invoke_store_result [where op = "on_entry_created tm e n ?v t", OF a handlers_throw(3)]
    by (simp add: server_dispatch_def w_then_def w_return_def publish_and_update_entry_for_clients_def
        Let_def on_server_def w_modify_def)
  moreover have "st_ids ?st e = Some h"
    using on_entry_created_keeps_id [OF assms(9)] .
  ultimately show ?thesis
    using d(4) by (intro exI [of _ ?v] exI [of _ tm] exI [of _ ?u]) simp
qed

text \<open>
  When a client creates an entry, the other clients are told its name under their own client
  identifier instead of the entry's, and its value under the entry's. A client that does not know
  the entry's identifier by then creates the entry but never gets the value.
\<close>

theorem relayed_creation_loses_value:
  assumes "map_of (ns_clients (sw_server w)) j = Some c" and "j \<noteq> origin" and "j \<noteq> e"
    and "st_ids st e = None"
  shows "\<exists>w' c'. publish_and_update_entry_for_clients e n v t origin w = (Inr (), w') \<and>
     map_of (ns_clients (sw_server w')) j = Some c' \<and>
     sc_outgoing c' = sc_outgoing c @ [out_entry_id_assign j n, out_entry_update t e v] \<and>
     storage_after (N_update t e k) v' tm (storage_after (N_assign j n) v'' tm' st) =
       storage_after (N_assign j n) v'' tm' st"
proof -
  let ?f = "\<lambda>i c. if i = origin then c else sc_enqueue (out_entry_update t e v) (sc_publish i n c)"
  let ?w = "w\<lparr>sw_server := (sw_server w)\<lparr>ns_clients := map (\<lambda>(i, c). (i, ?f i c)) (ns_clients (sw_server w))\<rparr>\<rparr>"
  have "map_of (map (\<lambda>(i, c). (i, ?f i c)) xs) j = map_option (?f j) (map_of xs j)" for xs
    by (induction xs) auto
  moreover have "publish_and_update_entry_for_clients e n v t origin w = (Inr (), ?w)"
    by (simp add: publish_and_update_entry_for_clients_def Let_def on_server_def w_modify_def)
  moreover have "st_ids (snd (on_entry_id_assigned j n st)) e = None"
    using assigned_ids [of j n st e] assms(3,4) by simp
  ultimately show ?thesis
    using assms(1,2) by (intro exI [of _ ?w] exI [of _ "?f j c"]) (simp add: on_entry_updated_def)
qed

end
