(* ===== verification/Obsr_Sync.thy ===== *)
theory Obsr_Sync
  imports Obsr_Server_Props Obsr_Connection
begin

text \<open>
  The server and a client together: how a value gets from the storage of the one into that of the other,
  and what a restart of the server does to the identifiers.
\<close>

section \<open>Identifiers in the storage\<close>

lemma assign_known:
  assumes "st_paths st n = Some h" and "ht_lookup (st_entries st) h = Some d"
  shows "on_entry_id_assigned i n st =
     (Inr (), (put_entry h (set_net_id i d) st)\<lparr>st_ids := map_emplace i h (st_ids st)\<rparr>)"
  using assms by (simp add: on_entry_id_assigned_def find_or_create_def ht_get_lookup)

lemma assign_fresh:
  assumes ok: "storage_ok st" and fresh: "st_paths st n = None" "st_ids st i = None"
    and a: "on_entry_id_assigned i n st = (Inr (), st')"
  shows "\<exists>h. st_paths st' n = Some h \<and> st_ids st' i = Some h \<and> view h st' = Some (0, None) \<and> storage_ok st'"
proof -
  obtain r s1 where f: "create_new_entry n st = (r, s1)" by fastforce
  with a fresh obtain h where r: "r = Inr h"
    by (cases r) (auto simp: on_entry_id_assigned_def find_or_create_def)
  from create_new_entry_cases [OF storage_okD(1) [OF ok] f] r obtain t where t:
    "s1 = st\<lparr>st_paths := map_emplace n h (st_paths st), st_entries := t\<rparr>"
    "ht_lookup t = (ht_lookup (st_entries st))(h \<mapsto> created_entry h n)" by auto
  have st': "st' = (put_entry h (set_net_id i (created_entry h n)) s1)\<lparr>st_ids := map_emplace i h (st_ids s1)\<rparr>"
    using a f r t fresh by (simp add: on_entry_id_assigned_def find_or_create_def ht_get_lookup)
  have "ht_lookup (st_entries st') h = Some (set_net_id i (created_entry h n))"
    using t by (simp add: st' put_entry_def ht_update_lookup)
  then have "view h st' = Some (0, None)"
    by (simp add: view_def entry_register_def has_value_bits flag_bits)
  moreover have "storage_ok st'" using on_entry_id_assigned_ok [OF ok, of i n] a by simp
  ultimately show ?thesis using fresh t by (simp add: st' map_emplace_def)
qed

lemma set_entry_internal_paths: "st_paths (snd (set_entry_internal tm h v clear i dirty t s)) = st_paths s"
  by (auto simp: set_entry_internal_def Let_def notify_entry_def notify_value_def
      split: sum.split prod.split)

section \<open>From the server's storage into the client's\<close>

text \<open>A client that gets the frames of messages, one after the other.\<close>

fun client_receives ::
  "('s, 'o) net_env \<Rightarrow> (message_header \<times> bytes) list \<Rightarrow> ('s, 'c, 'o, unit) client_op" where
  "client_receives ne [] s w = (Inr (), s, w)"
| "client_receives ne (f # fs) s w =
     (case client_on_message ne (fst f) (snd f) (unat (mh_size (fst f))) s w of
        (Inl e, s, w) \<Rightarrow> (Inl e, s, w)
      | (Inr _, s, w) \<Rightarrow> client_receives ne fs s w)"

definition frame_of :: "u32 \<Rightarrow> net_message \<Rightarrow> message_header \<times> bytes" where
  "frame_of index k = message_frame index (mt_byte (net_type k)) (net_body k)"

lemma client_does_message:
  assumes k: "net_clean k" "take sz buffer = net_body k" "sz \<le> length buffer" "mt_of_code (mh_type header) = net_type k"
    and w: "\<not> nc_locked (cw_client w)" "nc_attached (cw_client w)"
  shows "\<exists>v tm w'. client_on_message ne header buffer sz s w = (Inr (), s, w') \<and> valued k v \<and>
     cw_storage w' = storage_after k v tm (cw_storage w) \<and>
     \<not> nc_locked (cw_client w') \<and> nc_attached (cw_client w') \<and>
     nc_state (cw_client w') = client_state_after k (nc_state (cw_client w)) \<and>
     queued w' = queued w @ replies k (nc_state (cw_client w))"
proof -
  obtain p where p: "parse_body (net_type k) buffer sz (nc_parser (cw_client w)) =
      (Inr (), p)" "is_finished p" "\<not> is_errored p" "parsed k (sm_data (nc_parser (cw_client w))) (sm_data p)"
    using parse_body_message [OF k(1-3)] by auto
  let ?w = "w\<lparr>cw_client := (cw_client w)\<lparr>nc_locked := True, nc_parser := p\<rparr>\<rparr>"
  from client_dispatch_message [OF p(4), of ?w ne s] w(2) obtain tm w' where d:
    "client_dispatch ne (net_type k) (sm_data p) s ?w = (Inr (), s, w')"
    "cw_storage w' = storage_after k (pd_value (sm_data p)) tm (cw_storage w)" "nc_attached (cw_client w')"
    "nc_state (cw_client w') = client_state_after k (nc_state (cw_client w))"
    "queued w' = queued w @ replies k (nc_state (cw_client w))" by (auto simp: queued_def)
  have v: "valued k (pd_value (sm_data p))" using p(4) by (cases k) auto
  let ?w' = "w'\<lparr>cw_client := (cw_client w')\<lparr>nc_locked := False\<rparr>\<rparr>"
  have "client_on_message ne header buffer sz s w = (Inr (), s, ?w')"
    using k(4) w(1) p(1-3) d(1)
    by (simp add: client_on_message_def client_lock_def with_lock_def io_then_def client_parse_def
        ask_client_def io_ask_def Let_def)
  with d v show ?thesis
    by (intro exI [of _ "pd_value (sm_data p)"] exI [of _ tm] exI [of _ ?w']) (simp add: queued_def)
qed

lemma frame_message:
  assumes "length (net_body k) < 1024"
  shows "snd (frame_of index k) = net_body k" "unat (mh_size (fst (frame_of index k))) = length (net_body k)"
    "mt_of_code (mh_type (fst (frame_of index k))) = net_type k"
proof -
  have "mt_named (net_type k)" by (cases k) auto
  with assms show "snd (frame_of index k) = net_body k"
    "unat (mh_size (fst (frame_of index k))) = length (net_body k)"
    "mt_of_code (mh_type (fst (frame_of index k))) = net_type k"
    by (simp_all add: frame_of_def message_frame_def next_header_def unsigned_of_nat take_bit_nat_eq_self)
qed

lemma client_receives_message:
  assumes k: "net_clean k" "length (net_body k) < 1024"
    and w: "\<not> nc_locked (cw_client w)" "nc_attached (cw_client w)"
  shows "\<exists>v tm w'. client_receives ne (frame_of index k # fs) s w = client_receives ne fs s w' \<and> valued k v \<and>
     cw_storage w' = storage_after k v tm (cw_storage w) \<and>
     \<not> nc_locked (cw_client w') \<and> nc_attached (cw_client w') \<and>
     nc_state (cw_client w') = client_state_after k (nc_state (cw_client w)) \<and>
     queued w' = queued w @ replies k (nc_state (cw_client w))"
proof -
  have "take (length (net_body k)) (net_body k) = net_body k" "length (net_body k) \<le> length (net_body k)" by simp_all
  from client_does_message [OF k(1) this frame_message(3) [OF k(2)] w, of ne index s] frame_message(1,2) [OF k(2)]
  show ?thesis by force
qed

text \<open>What the server does with a dirty entry, for one of its clients.\<close>

definition entry_id :: "net_server \<Rightarrow> storage_entry \<Rightarrow> u16" where
  "entry_id n d = (if se_net_id d = id_not_assigned then ns_next_id n else se_net_id d)"

lemma map_of_map_clients: "map_of (map (\<lambda>(j, c). (j, f j c)) xs) j = map_option (f j) (map_of xs j)"
  by (induction xs) auto

lemma update_entry_sends:
  assumes ok: "storage_ok st" and d: "ht_lookup (st_entries st) h = Some d" and a: "ns_attached (sw_server w)"
    and c: "map_of (ns_clients (sw_server w)) j = Some c"
  shows "\<exists>now st' w'. update_entry ne d (st, w) = (Inr True, (st', w')) \<and>
     map_of (ns_clients (sw_server w')) j =
       Some (send_update (entry_id (sw_server w) d) (se_path d)
               (update_message now (entry_id (sw_server w) d) d) c)"
proof -
  let ?i = "entry_id (sw_server w) d"
  have p: "st_paths st (se_path d) = Some h" using storage_okD(4) [OF ok d] .
  let ?assign = "if se_net_id d = id_not_assigned then assign_id_to_entry (se_path d) else w_return (se_net_id d)"
  have "\<exists>w1. ?assign (w\<lparr>sw_storage := st\<rparr>) = (Inr ?i, w1) \<and>
      ns_clients (sw_server w1) = ns_clients (sw_server w)"
    using a assign_known [OF p d, of "ns_next_id (sw_server w)"]
    by (simp add: entry_id_def assign_id_to_entry_def w_defs server_helpers)
  then obtain w1 where w1: "?assign (w\<lparr>sw_storage := st\<rparr>) = (Inr ?i, w1)"
    "ns_clients (sw_server w1) = ns_clients (sw_server w)" by blast
  let ?times = "if has_flags flag_internal_deleted d then server_times ne else w_return (\<lambda>_. 0)"
  have "\<exists>tm w2. ?times w1 = (Inr tm, w2) \<and> ns_clients (sw_server w2) = ns_clients (sw_server w1)"
    by (cases "ne_times ne (sw_out w1)") (simp add: server_times_def server_out_def lift_call_def w_return_def)
  then obtain tm w2 where w2: "?times w1 = (Inr tm, w2)" "ns_clients (sw_server w2) = ns_clients (sw_server w1)"
    by blast
  let ?now = "clock_now (st_clock (sw_storage w2)) (tm 0)"
  let ?w3 = "w2\<lparr>sw_server := (sw_server w2)\<lparr>ns_clients :=
      map (\<lambda>(j, c). (j, send_update ?i (se_path d) (update_message ?now ?i d) c)) (ns_clients (sw_server w2))\<rparr>\<rparr>"
  have "update_entry ne d (st, w) = (Inr True, (sw_storage ?w3, ?w3))"
    using w1(1) w2(1) unfolding update_entry_def
    by (simp add: w_then_def on_server_def w_modify_def server_now_def w_ask_def w_return_def)
  moreover have "map_of (ns_clients (sw_server ?w3)) j =
      Some (send_update ?i (se_path d) (update_message ?now ?i d) c)"
    using w1(2) w2(2) c by (simp add: map_of_map_clients)
  ultimately show ?thesis by blast
qed


text \<open>A server with one client, and a client without entries.\<close>

definition sample_network :: "(nat, nat, unit) net_server_env" where
  "sample_network =
     \<lparr>sk_new = (\<lambda>w. (Inr 3, w)), sk_reuseport = (\<lambda>k w. (Inr (), w)), sk_nonblocking = (\<lambda>k w. (Inr (), w)),
      sk_close = (\<lambda>k w. (Inr (), w)), sk_connect = (\<lambda>k i w. (Inr (), w)),
      sk_finalize = (\<lambda>k w. (Inr (), w)), sk_read = (\<lambda>k w n. (Inr [], w)),
      sk_write = (\<lambda>k w xs. (Inr (length xs), w)),
      lo_add = (\<lambda>k ev w. (Inr 1, w)), lo_remove = (\<lambda>h w. (Inr (), w)), lo_request = (\<lambda>h ev t w. (Inr (), w)),
      ne_times = (\<lambda>w. (\<lambda>_. 5000, w)), ne_create_timer = (\<lambda>t w. (Inr 0, w)),
      ne_stop_timer = (\<lambda>h w. (Inr (), w)),
      so_new = (\<lambda>w. (Inr 4, w)), so_reuseport = (\<lambda>k w. (Inr (), w)), so_nonblocking = (\<lambda>k w. (Inr (), w)),
      so_bind = (\<lambda>k p w. (Inr (), w)), so_listen = (\<lambda>k n w. (Inr (), w)), so_accept = (\<lambda>k w. (Inr 5, w)),
      so_close = (\<lambda>k w. (Inr (), w)), so_add = (\<lambda>k ev w. (Inr 2, w))\<rparr>"

definition sample_server :: "net_server" where
  "sample_server = (net_server_new blank_parse_data)\<lparr>ns_state := ss_in_use, ns_attached := True, ns_port := 50001,
     ns_clients := [(0, server_client_new (\<lambda>_. 0)), (1, server_client_new (\<lambda>_. 0))]\<rparr>"

definition sample_world :: "(nat, nat, string, unit) server_world" where
  "sample_world =
     \<lparr>iw_io = server_io_new, sw_server = sample_server, sw_storage = valued_storage, sw_out = ()\<rparr>"

lemma sample_server_simps [simp]:
  "ns_state sample_server = ss_in_use" "ns_attached sample_server" "ns_port sample_server = 50001"
  "ns_clients sample_server = [(0, server_client_new (\<lambda>_. 0)), (1, server_client_new (\<lambda>_. 0))]"
  "\<not> ns_locked sample_server" "ns_next_id sample_server = 0" "ns_ids sample_server = []"
  "sm_data (ns_parser sample_server) = blank_parse_data\<lparr>pd_name := [], pd_value := value_make\<rparr>"
  by (simp_all add: sample_server_def net_server_new_def message_parser_new_def)

lemma server_client_new_simps [simp]:
  "sc_outgoing (server_client_new block) = []" "sc_published (server_client_new block) = {}"
  by (simp_all add: server_client_new_def message_queue_new_def)

lemma assign_first: "on_entry_id_assigned i ''/a/x'' no_entries = (Inr (),
    (put_entry 0 (set_net_id i (created_entry 0 ''/a/x'')) one_entry_storage)\<lparr>st_ids := [i \<mapsto> 0]\<rparr>)"
proof -
  have "find_or_create ''/a/x'' no_entries = (Inr 0, one_entry_storage)"
    using one_entry_storage_eq(1) by (simp add: get_or_create_entry_def find_or_create_def no_entries_def storage_new_def)
  then show ?thesis
    by (simp add: on_entry_id_assigned_def ht_get_lookup one_entry_storage_eq map_emplace_def)
qed


section \<open>After a restart of the server\<close>

lemma sorted_emplace_same:
  "sorted (map fst xs) \<Longrightarrow> map_of xs k = Some x \<Longrightarrow> sorted_emplace k v xs = xs"
  by (induction xs) (auto dest!: map_of_SomeD split: if_splits)

lemma clear_net_ids_lookup:
  "storage_ok s \<Longrightarrow> ht_lookup (st_entries (clear_net_ids s)) h = map_option clear_net_id (ht_lookup (st_entries s) h)"
  "st_paths (clear_net_ids s) = st_paths s" "st_ids (clear_net_ids s) = Map.empty"
  using update_all_lookup [OF storage_okD(1)] by (simp_all add: clear_net_ids_def)

text \<open>
  A server that is stopped and started again counts its identifiers from zero but keeps the names
  that it has given to identifiers before. The first entry that gets an identifier then gets one that
  is recorded under an old name, and every client that connects is told this entry's value under
  the old name.
\<close>

theorem restart_serves_old_names:
  assumes "server_start ne w = (Inr (), w1)" and "storage_ok (sw_storage w)"
    and "sorted (map fst (ns_ids (sw_server w)))" and "map_of (ns_ids (sw_server w)) 0 = Some old"
    and "st_paths (sw_storage w) name = Some h" and "ht_lookup (st_entries (sw_storage w)) h = Some d"
    and "does_entry_have_value d"
  shows "\<exists>w2. assign_id_to_entry name w1 = (Inr 0, w2) \<and> ns_ids (sw_server w2) = ns_ids (sw_server w) \<and>
     (0, old) \<in> set (ns_ids (sw_server w2)) \<and>
     introduces now (sw_storage w2) (0, old) = [out_entry_id_assign 0 old, out_entry_update now 0 (se_value d)]"
proof -
  let ?st = "clear_net_ids (sw_storage w)"
  have w1: "ns_next_id (sw_server w1) = 0" "ns_ids (sw_server w1) = ns_ids (sw_server w)"
    "sw_storage w1 = ?st" "ns_attached (sw_server w1)"
    using assms(1)
    by (auto simp: server_start_def server_lock_def w_defs server_helpers lift_call_def
        split: if_splits prod.splits sum.splits)
  have lk: "ht_lookup (st_entries ?st) h = Some (clear_net_id d)" "st_paths ?st name = Some h"
    "st_ids ?st = Map.empty"
    using clear_net_ids_lookup(1) [OF assms(2)] assms(5,6) by (simp_all add: clear_net_ids_lookup(2,3))
  let ?st2 = "(put_entry h (set_net_id 0 (clear_net_id d)) ?st)\<lparr>st_ids := [0 \<mapsto> h]\<rparr>"
  have as: "on_entry_id_assigned 0 name ?st = (Inr (), ?st2)"
    using assign_known [OF lk(2,1), of 0] lk(3) by (simp add: map_emplace_def)
  have same: "sorted_emplace 0 name (ns_ids (sw_server w)) = ns_ids (sw_server w)"
    using sorted_emplace_same [OF assms(3,4)] .
  let ?w2 = "w1\<lparr>sw_server := (sw_server w1)\<lparr>ns_next_id := 1, ns_ids := ns_ids (sw_server w)\<rparr>, sw_storage := ?st2\<rparr>"
  have a: "assign_id_to_entry name w1 = (Inr 0, ?w2)"
    using w1 as same by (simp add: assign_id_to_entry_def w_defs server_helpers)
  have "get_entry_value_from_id 0 ?st2 = Some (se_value d)"
    using assms(7) lk(1)
    by (simp add: get_entry_value_from_id_def ht_get_lookup put_entry_def ht_update_lookup
        does_entry_have_value_def has_flags_def clear_net_id_def set_net_id_def)
  with a map_of_SomeD [OF assms(4)] show ?thesis
    by (intro exI [of _ ?w2]) (simp add: introduces_def)
qed

theorem restart_serves_old_names_witness:
  "\<exists>w1 w2. server_start sample_network
       (sample_world\<lparr>sw_server := sample_server\<lparr>ns_state := ss_idle, ns_ids := [(0, ''/old'')]\<rparr>\<rparr>) = (Inr (), w1) \<and>
     assign_id_to_entry ''/a/x'' w1 = (Inr 0, w2) \<and>
     introduces 9 (sw_storage w2) (0, ''/old'') =
       [out_entry_id_assign 0 ''/old'', out_entry_update 9 0 (make_int32 9)]"
proof -
  let ?w = "sample_world\<lparr>sw_server := sample_server\<lparr>ns_state := ss_idle, ns_ids := [(0, ''/old'')]\<rparr>\<rparr>"
  have "\<exists>w1. server_start sample_network ?w = (Inr (), w1)"
    by (simp add: server_start_def server_lock_def w_defs server_helpers lift_call_def sample_network_def)
  then obtain w1 where w1: "server_start sample_network ?w = (Inr (), w1)" by blast
  have "st_paths valued_storage = st_paths one_entry_storage"
    by (simp add: valued_storage_def set_entry_value_def set_entry_internal_paths)
  then have p: "st_paths (sw_storage ?w) ''/a/x'' = Some 0"
    by (simp add: sample_world_def one_entry_storage_eq)
  have v: "ht_lookup (st_entries (sw_storage ?w)) 0 =
      Some ((created_entry 0 ''/a/x'')\<lparr>se_value := make_int32 9, se_last_update := 5,
        se_flags := flag_internal_dirty\<rparr>)" (is "_ = Some ?d")
    by (simp add: sample_world_def valued_lookup)
  have hv: "does_entry_have_value ?d" by (simp add: has_value_bits flag_bits)
  have "storage_ok (sw_storage ?w)" by (simp add: sample_world_def valued_ok)
  from restart_serves_old_names [OF w1 this _ _ p v hv, of "''/old''" 9] w1 show ?thesis by auto
qed

section \<open>Examples of the server's properties\<close>

theorem handshake_tells_all_entries_witness:
  "\<exists>now w' c'. handle_do_handshake_for_client sample_network 1
       (sample_world\<lparr>sw_server := sample_server\<lparr>ns_ids := [(0, ''/a''), (4, ''/b'')]\<rparr>\<rparr>) = (Inr (), w') \<and>
     map_of (ns_clients (sw_server w')) 1 = Some c' \<and> sc_state c' = sc_in_use \<and> sc_published c' = {0, 4} \<and>
     sc_outgoing c' = introduces now valued_storage (0, ''/a'') @ introduces now valued_storage (4, ''/b'') @
       [out_handshake_finished]"
proof -
  let ?w = "sample_world\<lparr>sw_server := sample_server\<lparr>ns_ids := [(0, ''/a''), (4, ''/b'')]\<rparr>\<rparr>"
  have "map_of (ns_clients (sw_server ?w)) 1 = Some (server_client_new (\<lambda>_. 0))"
    "ns_attached (sw_server ?w)" "distinct (map fst (ns_ids (sw_server ?w)))" by simp_all
  from handshake_tells_all_entries [OF this, of sample_network]
  show ?thesis by (simp add: is_known_def sample_world_def) blast
qed


theorem creation_takes_previous_identifier_witness:
  "\<exists>v tm w'. server_on_message sample_network (\<lambda>_. 0) 0 (next_header 0 1 0)
       (net_body (N_create 9 ''/b'' (C_int32 1))) (length (net_body (N_create 9 ''/b'' (C_int32 1))))
       (sample_world\<lparr>sw_server := sample_server\<lparr>ns_parser := (ns_parser sample_server)\<lparr>sm_data :=
          (sm_data (ns_parser sample_server))\<lparr>pd_id := 3\<rparr>\<rparr>\<rparr>, sw_storage := networked_storage\<rparr>) = (Inr (), w') \<and>
     sw_storage w' = snd (on_entry_created tm 3 ''/b'' v 9 networked_storage) \<and>
     st_ids (sw_storage w') 3 = Some 0 \<and> ns_next_id (sw_server w') = 0"
proof -
  let ?k = "N_create 9 ''/b'' (C_int32 1)"
  let ?w = "sample_world\<lparr>sw_server := sample_server\<lparr>ns_parser := (ns_parser sample_server)\<lparr>sm_data :=
          (sm_data (ns_parser sample_server))\<lparr>pd_id := 3\<rparr>\<rparr>\<rparr>, sw_storage := networked_storage\<rparr>"
  have k: "net_clean ?k" "take (length (net_body ?k)) (net_body ?k) = net_body ?k"
    "length (net_body ?k) \<le> length (net_body ?k)"
    "mt_of_code (mh_type (next_header 0 1 0)) = mt_entry_create"
    "\<not> ns_locked (sw_server ?w)" "ns_attached (sw_server ?w)"
    "pd_id (sm_data (ns_parser (sw_server ?w))) = 3" "3 \<noteq> id_not_assigned" "st_ids (sw_storage ?w) 3 = Some 0"
    by (simp_all add: ms_ok_def faithful_def next_header_def mt_of_code_def networked_simps id_not_assigned_def)
  from creation_takes_previous_identifier [OF k, of sample_network "\<lambda>_. 0" 0] show ?thesis by auto
qed

theorem relayed_creation_loses_value_witness:
  "\<exists>w' c'. publish_and_update_entry_for_clients 5 ''/a/x'' (make_int32 9) 7 0 sample_world = (Inr (), w') \<and>
     map_of (ns_clients (sw_server w')) 1 = Some c' \<and>
     sc_outgoing c' = [out_entry_id_assign 1 ''/a/x'', out_entry_update 7 5 (make_int32 9)] \<and>
     view 0 (storage_after (N_update 7 5 (C_int32 9)) (make_int32 9) (\<lambda>_. 0)
       (storage_after (N_assign 1 ''/a/x'') value_make (\<lambda>_. 0) no_entries)) = Some (0, None)"
proof -
  have a: "map_of (ns_clients (sw_server sample_world)) 1 = Some (server_client_new (\<lambda>_. 0))"
    "(1 :: u16) \<noteq> 0" "(1 :: u16) \<noteq> 5" "st_ids no_entries 5 = None"
    by (simp_all add: sample_world_def no_entries_def storage_new_def)
  have "view 0 (snd (on_entry_id_assigned 1 ''/a/x'' no_entries)) = Some (0, None)"
    by (simp add: assign_first view_def put_entry_def ht_update_lookup one_entry_storage_eq
        entry_register_def has_value_bits flag_bits)
  with relayed_creation_loses_value [OF a, of "''/a/x''" "make_int32 9" 7 "C_int32 9" "make_int32 9" "\<lambda>_. 0"
      value_make "\<lambda>_. 0"] show ?thesis by auto
qed

end
