(* ===== verification/Obsr_Replication.thy ===== *)
theory Obsr_Replication
  imports Obsr_Sync
begin

text \<open>
  Replication: how the storages of the server and of its clients follow each other. A change made at a
  client reaches the server and every other client as the same write of the same register.
\<close>

section \<open>Registers up to their representation\<close>

text \<open>
  What is seen of an entry: its time stamp and the content of its value. The replicas have values of their
  own, with the same content.
\<close>

definition seen :: "register \<Rightarrow> milliseconds \<times> content option" where
  "seen r = (fst r, Option.bind (snd r) content_of)"

definition overwritten :: "milliseconds \<times> content \<Rightarrow> milliseconds \<times> content option \<Rightarrow> milliseconds \<times> content option"
where
  "overwritten u x = (if fst x > fst u then x else (fst u, Some (snd u)))"

definition seen_at :: "u16 \<Rightarrow> 'c storage \<Rightarrow> (milliseconds \<times> content option) option" where
  "seen_at i st = Option.bind (st_ids st i) (\<lambda>h. map_option seen (view h st))"

lemma seen_write: "content_of v = Some c \<Longrightarrow> seen (lww_write (t, v) r) = overwritten (t, c) (seen r)"
  by (simp add: seen_def lww_write_def overwritten_def)

text \<open>An update of the network at one replica.\<close>

lemma update_seen:
  assumes ok: "storage_ok st" and h: "st_ids st i = Some h" "view h st = Some r"
    and t: "t \<noteq> 0" and c: "content_of v = Some c" "accepts_type (content_type c) r"
  shows "seen_at i (storage_after (N_update t i c') v tm st) = Some (overwritten (t, c) (seen r))"
proof -
  have "accepts_type (v_type v) r" using c content_type_of [OF c(1)] by (simp add: value_get_type_def)
  from set_entry_view [OF ok h(2) t this, of tm i False] obtain st' where
    "set_entry_internal tm h v False i False t st = (Inr (), st')" "view h st' = Some (lww_write (t, v) r)"
    "st_ids st' = st_ids st" by blast
  with h(1) show ?thesis by (simp add: on_entry_updated_def seen_at_def seen_write [OF c(1)])
qed

section \<open>From a client to everyone\<close>



end
