(* ===== verification/Obsr_Join.thy ===== *)
theory Obsr_Join
  imports Obsr_Replication
begin

text \<open>
  Joining: what a client's storage holds after the server has told it everything in the handshake, and what
  becomes of that when the client knows identifiers of an earlier connection.
\<close>

section \<open>Room for an entry\<close>

lemma storage_paths_card:
  assumes ok: "storage_ok st"
  shows "finite (dom (st_paths st))"
    and "(\<And>h. unat h < entry_capacity \<Longrightarrow> h \<noteq> empty_handle \<Longrightarrow> ht_lookup (st_entries st) h \<noteq> None) \<Longrightarrow> entry_capacity \<le> card (dom (st_paths st))"
proof -
  let ?H = "dom (ht_lookup (st_entries st))"
  let ?p = "\<lambda>h. se_path (the (ht_lookup (st_entries st) h))"
  have paths: "dom (st_paths st) = ?p ` ?H"
    using storage_okD(4,5) [OF ok] by (fastforce simp: image_iff dom_def)
  show fin: "finite (dom (st_paths st))" unfolding paths by simp
  have inj: "inj_on ?p ?H"
    using storage_okD(4) [OF ok] by (intro inj_onI) (metis domIff option.collapse option.inject)
  show "entry_capacity \<le> card (dom (st_paths st))"
    if full: "\<And>h. unat h < entry_capacity \<Longrightarrow> h \<noteq> empty_handle \<Longrightarrow> ht_lookup (st_entries st) h \<noteq> None"
  proof -
    let ?I = "(of_nat :: nat \<Rightarrow> handle) ` {..<entry_capacity}"
    have u: "unat (of_nat n :: handle) = n" if "n < entry_capacity" for n
      using that by (simp add: unsigned_of_nat take_bit_nat_eq_self entry_capacity_def)
    have "?I \<subseteq> ?H"
    proof
      fix h assume "h \<in> ?I"
      then obtain n where n: "n < entry_capacity" "h = of_nat n" by auto
      then have "unat h < entry_capacity" "h \<noteq> empty_handle"
        using u [of n] by (auto simp: unat_empty_handle entry_capacity_def)
      from full [OF this] show "h \<in> ?H" by auto
    qed
    moreover have "card ?I = entry_capacity"
      using u by (subst card_image) (auto intro!: inj_onI, metis)
    ultimately show ?thesis using card_mono [of ?H ?I] card_image [OF inj] by (simp add: paths)
  qed
qed

lemma create_with_room:
  assumes ok: "storage_ok st" and room: "card (dom (st_paths st)) < entry_capacity"
    and c: "create_new_entry n st = (r, st')"
  shows "r \<noteq> Inl e"
proof
  assume r: "r = Inl e"
  then have "first_free (ht_data (st_entries st)) = None"
    using c by (auto simp: create_new_entry_def allocate_new_with_handle_def find_next_available_spot_def Let_def
        split: option.splits prod.splits sum.splits)
  then have "ht_lookup (st_entries st) h \<noteq> None" if "unat h < entry_capacity" "h \<noteq> empty_handle" for h
    using that ok first_free_None [of "ht_data (st_entries st)"]
    by (auto simp: ht_lookup_eq storage_ok_def ht_capacity_def in_set_conv_nth)
  with storage_paths_card(2) [OF ok] room show False by auto
qed

section \<open>Entries by name\<close>

definition register_under :: "string \<Rightarrow> 'c storage \<Rightarrow> register option" where
  "register_under n st = Option.bind (st_paths st n) (\<lambda>h. view h st)"

text \<open>What a storage shows of a name, with nothing for a name that it does not have.\<close>

definition shown :: "string \<Rightarrow> 'c storage \<Rightarrow> milliseconds \<times> content option" where
  "shown n st = (case register_under n st of None \<Rightarrow> (0, None) | Some r \<Rightarrow> seen r)"

text \<open>An identifier for a name: the other names show what they did.\<close>

lemma assign_id:
  assumes ok: "storage_ok st"
    and room: "st_paths st n = None \<Longrightarrow> card (dom (st_paths st)) < entry_capacity"
  shows "\<exists>h r st'. on_entry_id_assigned i n st = (Inr (), st') \<and> storage_ok st' \<and>
     st_paths st' = (st_paths st)(n \<mapsto> h) \<and> st_ids st' = map_emplace i h (st_ids st) \<and> view h st' = Some r \<and>
     (register_under n st = None \<and> r = (0, None) \<or> register_under n st = Some r) \<and>
     (\<forall>m. m \<noteq> n \<longrightarrow> register_under m st' = register_under m st)"
proof (cases "st_paths st n")
  case (Some h)
  then obtain d where d: "ht_lookup (st_entries st) h = Some d" using storage_okD(5) [OF ok] by blast
  let ?st = "(put_entry h (set_net_id i d) st)\<lparr>st_ids := map_emplace i h (st_ids st)\<rparr>"
  have a: "on_entry_id_assigned i n st = (Inr (), ?st)" using assign_known [OF Some d] .
  have reg: "entry_register (set_net_id i d) = entry_register d"
    by (simp add: entry_register_def set_net_id_def does_entry_have_value_def has_flags_def)
  then have "view k ?st = view k st" for k using d by (simp add: view_def put_entry_def ht_update_lookup)
  moreover have "storage_ok ?st" using on_entry_id_assigned_ok [OF ok, of i n] a by simp
  moreover have "st_paths ?st = (st_paths st)(n \<mapsto> h)" using Some by (simp add: put_entry_def fun_upd_idem)
  ultimately show ?thesis
    using a d Some by (intro exI [of _ h] exI [of _ "entry_register d"] exI [of _ ?st])
      (simp add: register_under_def view_def reg)
next
  case None
  obtain r s1 where f: "create_new_entry n st = (r, s1)" by fastforce
  then obtain h where r: "r = Inr h" using create_with_room [OF ok room [OF None] f] by (cases r) auto
  from create_new_entry_cases [OF storage_okD(1) [OF ok] f] r obtain t where t:
    "s1 = st\<lparr>st_paths := map_emplace n h (st_paths st), st_entries := t\<rparr>"
    "ht_lookup t = (ht_lookup (st_entries st))(h \<mapsto> created_entry h n)" "ht_lookup (st_entries st) h = None" by auto
  let ?st = "(put_entry h (set_net_id i (created_entry h n)) s1)\<lparr>st_ids := map_emplace i h (st_ids s1)\<rparr>"
  have a: "on_entry_id_assigned i n st = (Inr (), ?st)"
    using f r t None by (simp add: on_entry_id_assigned_def find_or_create_def ht_get_lookup)
  have "view k ?st = (if k = h then Some (0, None) else view k st)" for k
    using t by (simp add: view_def put_entry_def ht_update_lookup entry_register_def has_value_bits flag_bits)
  moreover have "storage_ok ?st" using on_entry_id_assigned_ok [OF ok, of i n] a by simp
  moreover have "st_paths ?st = (st_paths st)(n \<mapsto> h)" using None t(1) by (simp add: put_entry_def map_emplace_def)
  moreover have "st_ids ?st = map_emplace i h (st_ids st)" using t(1) by simp
  moreover have "k \<noteq> h" if "st_paths st m = Some k" for m k using storage_okD(5) [OF ok that] t(3) by auto
  ultimately show ?thesis
    using a None by (intro exI [of _ h] exI [of _ "(0, None)"] exI [of _ ?st])
      (auto simp: register_under_def split: bind_split)
qed

section \<open>The messages of the handshake\<close>

text \<open>The messages that introduce an entry, of which \<open>c\<close> is the content if it has one.\<close>

definition introduction :: "milliseconds \<Rightarrow> content option \<Rightarrow> u16 \<times> string \<Rightarrow> net_message list" where
  "introduction now c e =
     N_assign (fst e) (snd e) # (case c of None \<Rightarrow> [] | Some c \<Rightarrow> [N_update now (fst e) c])"

definition content_at :: "'c storage \<Rightarrow> u16 \<Rightarrow> content option" where
  "content_at st i = Option.bind (get_entry_value_from_id i st) content_of"

text \<open>An entry whose messages are messages of the protocol.\<close>

definition transferable :: "'c storage \<Rightarrow> u16 \<times> string \<Rightarrow> bool" where
  "transferable st e \<longleftrightarrow> length (snd e) < 255 \<and>
     (case get_entry_value_from_id (fst e) st of None \<Rightarrow> True
      | Some v \<Rightarrow> (case content_of v of None \<Rightarrow> False | Some c \<Rightarrow> faithful c \<and> length (wire_content c) < 1000))"

lemma transferable_content:
  "transferable st e \<Longrightarrow> content_at st (fst e) = Some c \<Longrightarrow> faithful c \<and> length (wire_content c) < 1000"
  by (auto simp: transferable_def content_at_def split: option.splits bind_splits)

lemma introduces_stand:
  "transferable st e \<Longrightarrow> list_all2 stands_for (introduces now st e) (introduction now (content_at st (fst e)) e)"
  by (auto simp: transferable_def introduces_def introduction_def content_at_def out_entry_id_assign_def
      out_entry_update_def out_message_new_def split: option.splits)

text \<open>What a name shows after its introduction.\<close>

definition told :: "milliseconds \<Rightarrow> content option \<Rightarrow> milliseconds \<times> content option \<Rightarrow> milliseconds \<times> content option"
where
  "told now c x = (case c of None \<Rightarrow> x | Some c \<Rightarrow> overwritten (now, c) x)"

definition takes :: "content option \<Rightarrow> register option \<Rightarrow> bool" where
  "takes c r = (case (c, r) of (Some c, Some r) \<Rightarrow> accepts_type (content_type c) r | _ \<Rightarrow> True)"

text \<open>A client that listens: in the handshake, or later.\<close>

definition listening :: "('c, 'o) client_world \<Rightarrow> bool" where
  "listening w \<longleftrightarrow> \<not> nc_locked (cw_client w) \<and> nc_attached (cw_client w) \<and> storage_ok (cw_storage w)"

lemma client_introduced:
  assumes e: "length n < 255" "\<And>c. f = Some c \<Longrightarrow> faithful c \<and> length (wire_content c) < 1000"
    and t: "0 < now" "now < 2 ^ 63" and w: "listening w" and i: "st_ids (cw_storage w) i = None"
    and room: "st_paths (cw_storage w) n = None \<Longrightarrow> card (dom (st_paths (cw_storage w))) < entry_capacity"
    and ty: "takes f (register_under n (cw_storage w))"
  shows "\<exists>h w'. client_receives ne (map (frame_of index) (introduction now f (i, n)) @ fs) s w = client_receives ne fs s w' \<and>
     listening w' \<and> nc_state (cw_client w') = nc_state (cw_client w) \<and>
     st_paths (cw_storage w') = (st_paths (cw_storage w))(n \<mapsto> h) \<and>
     st_ids (cw_storage w') = (st_ids (cw_storage w))(i \<mapsto> h) \<and>
     shown n (cw_storage w') = told now f (shown n (cw_storage w)) \<and>
     (\<forall>m. m \<noteq> n \<longrightarrow> register_under m (cw_storage w') = register_under m (cw_storage w))"
proof -
  let ?st = "cw_storage w"
  have ok: "storage_ok ?st" and w': "\<not> nc_locked (cw_client w)" "nc_attached (cw_client w)"
    using w by (simp_all add: listening_def)
  have emp: "map_emplace i h (st_ids ?st) = (st_ids ?st)(i \<mapsto> h)" for h using i by (simp add: map_emplace_def)
  from assign_id [where n = n and i = i, OF ok room, unfolded emp] obtain h r st1 where a: "on_entry_id_assigned i n ?st = (Inr (), st1)"
    "storage_ok st1" "st_paths st1 = (st_paths ?st)(n \<mapsto> h)" "st_ids st1 = (st_ids ?st)(i \<mapsto> h)" "view h st1 = Some r"
    "register_under n ?st = None \<and> r = (0, None) \<or> register_under n ?st = Some r"
    "\<forall>m. m \<noteq> n \<longrightarrow> register_under m st1 = register_under m ?st" by blast
  have k1: "net_clean (N_assign i n)" "length (net_body (N_assign i n)) < 1024" using e(1) by (simp_all add: wire_str_def)
  let ?fs = "case f of None \<Rightarrow> fs | Some c \<Rightarrow> frame_of index (N_update now i c) # fs"
  from client_receives_message [OF k1 w', of ne index ?fs s] obtain w1 where
    w1: "client_receives ne (frame_of index (N_assign i n) # ?fs) s w = client_receives ne ?fs s w1"
    "cw_storage w1 = st1" "\<not> nc_locked (cw_client w1)" "nc_attached (cw_client w1)"
    "nc_state (cw_client w1) = nc_state (cw_client w)" using a(1) by auto
  have r: "seen r = shown n ?st" using a(6) by (auto simp: shown_def seen_def)
  show ?thesis
  proof (cases f)
    case None
    have "shown n st1 = told now f (shown n ?st)"
      using a(3,5) None r by (simp add: shown_def register_under_def told_def)
    with None a w1 show ?thesis by (intro exI [of _ h] exI [of _ w1]) (simp add: introduction_def listening_def)
  next
    case (Some c)
    have k2: "net_clean (N_update now i c)" "length (net_body (N_update now i c)) < 1024"
      using e(2) [OF Some] t by (simp_all add: ms_ok_def)
    from client_receives_message [OF k2 w1(3,4), of ne index fs s] obtain v tm w2 where
      w2: "client_receives ne (frame_of index (N_update now i c) # fs) s w1 = client_receives ne fs s w2"
      "content_of v = Some c" "cw_storage w2 = snd (on_entry_updated tm i v now st1)"
      "\<not> nc_locked (cw_client w2)" "nc_attached (cw_client w2)" "nc_state (cw_client w2) = nc_state (cw_client w)"
      using w1(2,5) by auto
    have "accepts_type (v_type v) r"
      using ty Some a(6) content_type_of [OF w2(2)] by (auto simp: takes_def accepts_type_def value_get_type_def)
    from set_entry_view [OF a(2,5) _ this, of now tm i False] t obtain st2 where
      st2: "set_entry_internal tm h v False i False now st1 = (Inr (), st2)" "storage_ok st2" "st_ids st2 = st_ids st1"
      "view h st2 = Some (lww_write (now, v) r)" "\<forall>k. k \<noteq> h \<longrightarrow> view k st2 = view k st1" by auto
    have p: "st_paths st2 = st_paths st1"
      using set_entry_internal_paths [of tm h v False i False now st1] st2(1) by simp
    have cw: "cw_storage w2 = st2" using w2(3) a(4) st2(1) by (simp add: on_entry_updated_def)
    have "shown n st2 = told now f (shown n ?st)"
      using p a(3) st2(4) Some r by (simp add: shown_def register_under_def told_def seen_write [OF w2(2)])
    moreover have "register_under m st2 = register_under m st1" if m: "m \<noteq> n" for m
    proof -
      have "st_paths st1 m \<noteq> Some h"
        using storage_okD(5) [OF a(2), of m h] storage_okD(5) [OF a(2), of n h] a(3) m by auto
      with p st2(5) show ?thesis by (cases "st_paths st1 m") (auto simp: register_under_def)
    qed
    ultimately show ?thesis
      using Some a w1 w2 st2 p cw by (intro exI [of _ h] exI [of _ w2]) (simp add: introduction_def listening_def)
  qed
qed

text \<open>A client that has room for the entries and none of the identifiers, and can take the values.\<close>

definition can_join :: "'d storage \<Rightarrow> (u16 \<times> string) list \<Rightarrow> 'c storage \<Rightarrow> bool" where
  "can_join st ids cst \<longleftrightarrow> card (dom (st_paths cst) \<union> snd ` set ids) \<le> entry_capacity \<and>
     (\<forall>e\<in>set ids. st_ids cst (fst e) = None \<and> takes (content_at st (fst e)) (register_under (snd e) cst))"

text \<open>The entry is there, under its name and its identifier, and shows what it showed with what it was told.\<close>

definition joined :: "milliseconds \<Rightarrow> 'd storage \<Rightarrow> 'c storage \<Rightarrow> 'c storage \<Rightarrow> u16 \<times> string \<Rightarrow> bool" where
  "joined now st cst cst' e \<longleftrightarrow>
     st_paths cst' (snd e) \<noteq> None \<and> st_ids cst' (fst e) = st_paths cst' (snd e) \<and>
     shown (snd e) cst' = told now (content_at st (fst e)) (shown (snd e) cst)"

lemma client_joins:
  assumes "distinct (map fst ids)" "distinct (map snd ids)" "\<forall>e\<in>set ids. transferable st e"
    and t: "0 < now" "now < 2 ^ 63" and "listening w" "can_join st ids (cw_storage w)"
  shows "\<exists>w'. client_receives ne (map (frame_of index)
       (concat (map (\<lambda>e. introduction now (content_at st (fst e)) e) ids)) @ fs) s w = client_receives ne fs s w' \<and>
     listening w' \<and> nc_state (cw_client w') = nc_state (cw_client w) \<and>
     (\<forall>e\<in>set ids. joined now st (cw_storage w) (cw_storage w') e) \<and>
     (\<forall>m. m \<notin> snd ` set ids \<longrightarrow> register_under m (cw_storage w') = register_under m (cw_storage w) \<and>
        st_paths (cw_storage w') m = st_paths (cw_storage w) m) \<and>
     (\<forall>i. i \<notin> fst ` set ids \<longrightarrow> st_ids (cw_storage w') i = st_ids (cw_storage w) i)"
  using assms(1-3,6,7)
proof (induction ids arbitrary: w)
  case Nil
  then show ?case by (intro exI [of _ w]) simp
next
  case (Cons e ids)
  obtain i n where e: "e = (i, n)" by fastforce
  let ?f = "content_at st i" and ?st = "cw_storage w"
  let ?rest = "map (frame_of index) (concat (map (\<lambda>e. introduction now (content_at st (fst e)) e) ids))"
  have small: "length n < 255" "?f = Some c \<Longrightarrow> faithful c \<and> length (wire_content c) < 1000" for c
    using Cons.prems(3) transferable_content [of st "(i, n)" c] by (auto simp: e transferable_def)
  have join: "st_ids ?st i = None" "takes ?f (register_under n ?st)"
    "card (insert n (dom (st_paths ?st) \<union> snd ` set ids)) \<le> entry_capacity"
    using Cons.prems(5) by (simp_all add: can_join_def e)
  have fin: "finite (insert n (dom (st_paths ?st) \<union> snd ` set ids))"
    using storage_paths_card(1) [of ?st] Cons.prems(4) by (simp add: listening_def)
  have room: "card (dom (st_paths ?st)) < entry_capacity" if "st_paths ?st n = None"
  proof -
    have "dom (st_paths ?st) \<subset> insert n (dom (st_paths ?st) \<union> snd ` set ids)" using that by auto
    from psubset_card_mono [OF fin this] join(3) show ?thesis by simp
  qed
  from client_introduced [OF small t Cons.prems(4) join(1) room join(2), of ne index "?rest @ fs" s]
  obtain h w1 where w1: "client_receives ne (map (frame_of index) (introduction now ?f (i, n)) @ ?rest @ fs) s w =
      client_receives ne (?rest @ fs) s w1" "listening w1" "nc_state (cw_client w1) = nc_state (cw_client w)"
    "st_paths (cw_storage w1) = (st_paths ?st)(n \<mapsto> h)" "st_ids (cw_storage w1) = (st_ids ?st)(i \<mapsto> h)"
    "shown n (cw_storage w1) = told now ?f (shown n ?st)"
    "\<forall>m. m \<noteq> n \<longrightarrow> register_under m (cw_storage w1) = register_under m ?st" by blast
  have new: "n \<notin> snd ` set ids" "i \<notin> fst ` set ids" using Cons.prems(1,2) by (auto simp: e)
  have later: "st_ids (cw_storage w1) (fst x) = None \<and>
      takes (content_at st (fst x)) (register_under (snd x) (cw_storage w1))" if x: "x \<in> set ids" for x
  proof -
    have "fst x \<noteq> i" "snd x \<noteq> n" using x new by auto
    moreover have "st_ids ?st (fst x) = None \<and> takes (content_at st (fst x)) (register_under (snd x) ?st)"
      using Cons.prems(5) x by (simp add: can_join_def)
    ultimately show ?thesis using w1(5,7) by simp
  qed
  have "can_join st ids (cw_storage w1)"
    unfolding can_join_def using later join(3) by (simp add: w1(4))
  moreover have "distinct (map fst ids)" "distinct (map snd ids)" "\<forall>e\<in>set ids. transferable st e"
    using Cons.prems(1-3) by simp_all
  ultimately obtain w2 where
    w2: "client_receives ne (?rest @ fs) s w1 = client_receives ne fs s w2" "listening w2"
      "nc_state (cw_client w2) = nc_state (cw_client w1)"
      "\<forall>e\<in>set ids. joined now st (cw_storage w1) (cw_storage w2) e"
      "\<forall>m. m \<notin> snd ` set ids \<longrightarrow> register_under m (cw_storage w2) = register_under m (cw_storage w1) \<and>
         st_paths (cw_storage w2) m = st_paths (cw_storage w1) m"
      "\<forall>i. i \<notin> fst ` set ids \<longrightarrow> st_ids (cw_storage w2) i = st_ids (cw_storage w1) i"
    using Cons.IH [OF _ _ _ w1(2)] by blast
  have old: "joined now st ?st (cw_storage w2) x" if x: "x \<in> set ids" for x
  proof -
    have "snd x \<noteq> n" using x new by auto
    then have "shown (snd x) (cw_storage w1) = shown (snd x) ?st" using w1(7) by (simp add: shown_def)
    with w2(4) x show ?thesis by (simp add: joined_def)
  qed
  have now: "joined now st ?st (cw_storage w2) (i, n)"
    using w2(5,6) new w1(4,5,6) by (simp add: joined_def shown_def)
  have same: "client_receives ne (map (frame_of index)
       (concat (map (\<lambda>e. introduction now (content_at st (fst e)) e) (e # ids))) @ fs) s w = client_receives ne fs s w2"
    using w1(1) w2(1) by (simp add: e)
  show ?case
  proof (intro exI [of _ w2] conjI ballI allI impI)
    show "joined now st ?st (cw_storage w2) x" if "x \<in> set (e # ids)" for x using that old [of x] now e by auto
    show "register_under m (cw_storage w2) = register_under m ?st" "st_paths (cw_storage w2) m = st_paths ?st m"
      if "m \<notin> snd ` set (e # ids)" for m using that w1(4,7) w2(5) by (simp_all add: e)
    show "st_ids (cw_storage w2) j = st_ids ?st j" if "j \<notin> fst ` set (e # ids)" for j
      using that w1(5) w2(6) by (simp add: e)
  qed (use same w1(3) w2(2,3) in simp_all)
qed

lemma introductions_stand:
  "\<forall>e\<in>set ids. transferable st e \<Longrightarrow>
   list_all2 stands_for (concat (map (introduces now st) ids))
     (concat (map (\<lambda>e. introduction now (content_at st (fst e)) e) ids))"
  by (induction ids) (auto intro!: list_all2_appendI introduces_stand)

section \<open>A client that joins\<close>


text \<open>A server that has one entry with an identifier and a value.\<close>

definition served_storage :: "string storage" where
  "served_storage = snd (set_entry_internal (\<lambda>_. 0) 0 (make_int32 9) False 3 False 50 networked_storage)"

lemma value_from_id: "get_entry_value_from_id i st = Option.bind (st_ids st i) (\<lambda>h. Option.bind (view h st) snd)"
  by (auto simp: get_entry_value_from_id_def ht_get_lookup view_def entry_register_def split: option.splits)

lemma set_entry_internal_clock: "st_clock (snd (set_entry_internal tm h v clear i dirty t s)) = st_clock s"
  by (auto simp: set_entry_internal_def Let_def notify_entry_def notify_value_def
      split: sum.split prod.split)

lemma served_simps:
  "st_clock served_storage = clock_new" "get_entry_value_from_id 3 served_storage = Some (make_int32 9)"
proof -
  have "accepts_type (v_type (make_int32 9)) (0, None)" by (simp add: accepts_type_def)
  from set_entry_view [OF networked_ok networked_simps(3) _ this, of 50 "\<lambda>_. 0" 3 False]
  have "view 0 served_storage = Some (50, Some (make_int32 9))" "st_ids served_storage = st_ids networked_storage"
    by (auto simp: served_storage_def lww_write_def)
  then show "get_entry_value_from_id 3 served_storage = Some (make_int32 9)"
    by (simp add: value_from_id networked_simps)
  have "st_clock networked_storage = clock_new"
    by (simp add: networked_storage_def on_entry_id_assigned_def find_or_create_def ht_get_lookup
        one_entry_storage_eq put_entry_def)
  then show "st_clock served_storage = clock_new" by (simp add: served_storage_def set_entry_internal_clock)
qed


end
