(* ===== verification/Obsr_Io_Invariant.thy ===== *)
theory Obsr_Io_Invariant
  imports Obsr_Socket_Io
begin

text \<open>
  Invariants of the world of a connection: a predicate that the system calls, the looper and the
  callbacks of the owner keep is kept by every operation of the connection and by every event. The rules
  are those of a Hoare logic whose postcondition holds whether the operation returns or throws.
\<close>

section \<open>Rules\<close>

definition io_to :: "('w \<Rightarrow> bool) \<Rightarrow> ('s, 'w, 'x) io_op \<Rightarrow> ('w \<Rightarrow> bool) \<Rightarrow> bool" where
  "io_to P p Q \<longleftrightarrow> (\<forall>s w. P w \<longrightarrow> Q (snd (snd (p s w))))"

named_theorems io_rules

lemma io_toI: "(\<And>s w r s' w'. P w \<Longrightarrow> p s w = (r, s', w') \<Longrightarrow> Q w') \<Longrightarrow> io_to P p Q"
  unfolding io_to_def by (metis prod.collapse)

lemma io_toD: "io_to P p Q \<Longrightarrow> P w \<Longrightarrow> p s w = (r, s', w') \<Longrightarrow> Q w'"
  unfolding io_to_def by (metis snd_conv)

lemma io_to_weaken: "io_to P p Q \<Longrightarrow> (\<And>w. P' w \<Longrightarrow> P w) \<Longrightarrow> (\<And>w. Q w \<Longrightarrow> Q' w) \<Longrightarrow> io_to P' p Q'"
  by (simp add: io_to_def)

lemma to_return [io_rules]: "io_to I (io_return x) I"
  by (simp add: io_to_def io_return_def)

lemma to_throw [io_rules]: "io_to I (io_throw e) I"
  by (simp add: io_to_def io_throw_def)

lemma to_done [io_rules]: "io_to I (\<lambda>s w. (r, s, w)) I"
  by (simp add: io_to_def)

lemma to_modify [io_rules]: "io_to I (io_modify f) I"
  by (simp add: io_to_def io_modify_def)

lemma to_call [io_rules]: "(\<And>w. P w \<Longrightarrow> Q (snd (g w))) \<Longrightarrow> io_to P (io_call g) Q"
  by (simp add: io_to_def io_call_def split: prod.split) (metis snd_conv)

lemma to_handle [io_rules]: "(\<And>h w. I w \<Longrightarrow> I (snd (g h w))) \<Longrightarrow> io_to I (on_handle g) I"
  by (simp add: io_to_def on_handle_def io_call_def split: prod.split) (metis snd_conv)

lemma to_socket [io_rules]: "(\<And>k w. I w \<Longrightarrow> I (snd (g k w))) \<Longrightarrow> io_to I (on_socket g) I"
  by (simp add: io_to_def on_socket_def io_call_def split: option.split prod.split) (metis snd_conv)

text \<open>In the middle of a sequence \<open>K\<close> holds, which must be enough if the first part throws.\<close>

lemma to_then_mid:
  assumes "io_to P p K" "\<And>x. io_to K (f x) Q" "\<And>w. K w \<Longrightarrow> Q w"
  shows "io_to P (io_then p f) Q"
proof (rule io_toI)
  fix s w r s' w'
  assume w: "P w" and e: "io_then p f s w = (r, s', w')"
  obtain r1 s1 w1 where 1: "p s w = (r1, s1, w1)" by (cases "p s w") auto
  from io_toD [OF assms(1) w 1] e 1 io_toD [OF assms(2)] assms(3) show "Q w'"
    by (cases r1) (auto simp: io_then_def)
qed

lemma to_then [io_rules]: "io_to I p I \<Longrightarrow> (\<And>x. io_to I (f x) I) \<Longrightarrow> io_to I (io_then p f) I"
  by (rule to_then_mid)

lemma to_catch [io_rules]:
  assumes "io_to I p I" "\<And>e. io_to I (h e) I"
  shows "io_to I (io_catch handled p h) I"
proof (rule io_toI)
  fix s w r s' w'
  assume w: "I w" and e: "io_catch handled p h s w = (r, s', w')"
  obtain r1 s1 w1 where 1: "p s w = (r1, s1, w1)" by (cases "p s w") auto
  from io_toD [OF assms(1) w 1] e 1 io_toD [OF assms(2)] show "I w'"
    by (cases r1) (auto simp: io_catch_def split: if_splits)
qed

lemma to_try [io_rules]: "io_to I p I \<Longrightarrow> io_to I (io_try p) I"
  by (simp add: io_try_def to_catch to_return)

lemma to_invoke [io_rules]: "io_to I p I \<Longrightarrow> io_to I (invoke_func p) I"
  by (simp add: invoke_func_def to_try)

lemma to_if [io_rules]:
  "io_to I p I \<Longrightarrow> io_to I q I \<Longrightarrow> io_to I (\<lambda>s w. if c s w then p s w else q s w) I"
  by (simp add: io_to_def)

lemma to_if_const [io_rules]: "(b \<Longrightarrow> io_to P p Q) \<Longrightarrow> (\<not> b \<Longrightarrow> io_to P q Q) \<Longrightarrow> io_to P (if b then p else q) Q"
  by simp

section \<open>The buffers\<close>

lemma read_from_keeps:
  assumes "\<And>w n. I w \<Longrightarrow> I (snd (rdf w n))" and "I w"
  shows "I (snd (snd (circ_read_from rdf b w)))"
proof -
  have step: "I w'" if "rdf w n = (r, w')" "I w" for w n r w'
    using assms(1) [of w n] that by simp
  show ?thesis
    using assms(2) unfolding circ_read_from_def Let_def
    by (auto split: prod.split sum.split dest: step)
qed

lemma write_into_keeps:
  assumes "\<And>w xs. I w \<Longrightarrow> I (snd (wrf w xs))" and "I w"
  shows "I (snd (snd (circ_write_into wrf b w)))"
proof -
  have step: "I w'" if "wrf w xs = (r, w')" "I w" for w xs r w'
    using assms(1) [of w xs] that by simp
  show ?thesis
    using assms(2) unfolding circ_write_into_def Let_def
    by (auto split: prod.split sum.split dest: step)
qed

section \<open>The connection\<close>

locale io_invariant =
  fixes env :: "('s, 'w) io_env" and I :: "'w \<Rightarrow> bool"
  assumes socket_calls: "I w \<Longrightarrow> I (snd (sk_new env w))" "I w \<Longrightarrow> I (snd (sk_reuseport env k w))"
      "I w \<Longrightarrow> I (snd (sk_nonblocking env k w))" "I w \<Longrightarrow> I (snd (sk_close env k w))"
      "I w \<Longrightarrow> I (snd (sk_connect env k info w))" "I w \<Longrightarrow> I (snd (sk_finalize env k w))"
      "I w \<Longrightarrow> I (snd (sk_read env k w n))" "I w \<Longrightarrow> I (snd (sk_write env k w xs))"
    and looper_calls: "I w \<Longrightarrow> I (snd (lo_add env k ev w))" "I w \<Longrightarrow> I (snd (lo_remove env h w))"
      "I w \<Longrightarrow> I (snd (lo_request env h ev t w))"
    and owner_calls: "io_to I (cb_connect env) I" "io_to I (cb_close env) I" "io_to I (cb_message env header xs n) I"
begin

lemma stop_internal_to: "io_to I (stop_internal env notify) I"
  unfolding stop_internal_def [abs_def] by (intro io_rules socket_calls looper_calls owner_calls)

lemma io_stop_to: "io_to I (io_stop env) I"
  unfolding io_stop_def [abs_def] by (intro io_rules stop_internal_to)

lemma start_with_to: "io_to I (start_with env k connected) I"
  unfolding start_with_def [abs_def] by (intro io_rules socket_calls looper_calls)

lemma io_start_to: "io_to I (io_start env) I"
  unfolding io_start_def [abs_def] by (intro io_rules socket_calls start_with_to)

lemma io_connect_to: "io_to I (io_connect env info) I"
  unfolding io_connect_def [abs_def] by (intro io_rules socket_calls looper_calls stop_internal_to)

lemma io_write_to: "io_to I (io_write env t p) I"
proof (rule io_toI)
  fix s w r s' w'
  assume w: "I w" and e: "io_write env t p s w = (r, s', w')"
  have fin: "io_to I (io_then (on_handle (\<lambda>h. lo_request env h event_out eu_append)) (\<lambda>_. io_return True)) I"
    by (intro io_rules looper_calls)
  have stop: "io_to I (io_then (stop_internal env True) (\<lambda>_. io_return False)) I"
    by (intro io_rules stop_internal_to)
  show "I w'"
    using w e io_toD [OF fin w] io_toD [OF stop w]
    by (auto simp: io_write_def Let_def split: if_splits prod.splits bool.splits)
qed

lemma on_write_ready_to: "io_to I (on_write_ready env) I"
proof -
  have wr: "io_to I (\<lambda>s w. case so_socket s of
      None \<Rightarrow> (Inl Undefined_behaviour, s, w)
    | Some k \<Rightarrow>
        (case circ_write_into (sk_write env k) (so_write s) w of
           (r, b, w) \<Rightarrow> (r, s\<lparr>so_write := b\<rparr>, w))) I"
    using write_into_keeps [of I "sk_write env _"] socket_calls(8)
    by (intro io_toI) (auto split: option.splits prod.splits, metis snd_conv)
  have c1: "io_to I (io_then
            (io_catch is_io_exception
               (io_then (on_socket (sk_finalize env)) (\<lambda>_. io_return True))
               (\<lambda>e. io_then (stop_internal env True) (\<lambda>_. io_return False))) (\<lambda>go_on.
          if \<not> go_on then io_return ()
          else
            io_then (io_modify (\<lambda>s. s\<lparr>so_state := io_connected\<rparr>)) (\<lambda>_.
            io_then (on_handle (\<lambda>h. lo_request env h event_in eu_append)) (\<lambda>_.
            invoke_func (cb_connect env))))) I"
    by (intro io_rules socket_calls looper_calls owner_calls stop_internal_to)
  have c2: "io_to I (io_catch is_io_exception
            (io_then
               (\<lambda>s w. case so_socket s of
                        None \<Rightarrow> (Inl Undefined_behaviour, s, w)
                      | Some k \<Rightarrow>
                          (case circ_write_into (sk_write env k) (so_write s) w of
                             (r, b, w) \<Rightarrow> (r, s\<lparr>so_write := b\<rparr>, w))) (\<lambda>wrote.
             if \<not> wrote then on_handle (\<lambda>h. lo_request env h event_out eu_remove) else io_return ()))
            (\<lambda>e. stop_internal env True)) I"
    by (intro io_rules wr looper_calls stop_internal_to)
  have c3: "io_to I (on_handle (\<lambda>h. lo_request env h event_out eu_remove)) I"
    by (intro io_rules looper_calls)
  show ?thesis
    using c1 c2 c3 by (auto simp: io_to_def on_write_ready_def split: io_state.split)
qed

lemma read_update_to: "io_to I (read_update env) I"
proof -
  have "io_to I (\<lambda>s w. case so_socket s of
      None \<Rightarrow> (Inl Undefined_behaviour, s, w)
    | Some k \<Rightarrow>
        (case reader_update (sk_read env k) (so_reader s) w of
           (r, m, w) \<Rightarrow> (map_sum id (\<lambda>_. ()) r, s\<lparr>so_reader := m\<rparr>, w))) I"
    using read_from_keeps [of I "sk_read env _"] socket_calls(7)
    by (intro io_toI) (auto simp: reader_update_def split: option.splits prod.splits, metis snd_conv)
  then show ?thesis unfolding read_update_def by (intro io_rules stop_internal_to)
qed

lemma process_new_data_to: "process_new_data env s w = Some y \<Longrightarrow> I w \<Longrightarrow> I (snd (snd y))"
proof -
  have "e = env \<Longrightarrow> I w \<Longrightarrow> I (snd (snd y))" if "process_new_data e s w = Some y" for e s w y
    using that
  proof (induction e s w y rule: process_new_data.raw_induct [rotated 1, consumes 1, case_names step])
    case (step rec e s w y)
    show ?case
    proof (cases "reader_process (so_reader s)")
      case (Some p)
      obtain r m where p: "p = (r, m)" by (cases p)
      let ?s = "s\<lparr>so_reader := m\<rparr>"
      let ?msg = "invoke_func (cb_message env (rd_header (sm_data m)) (rd_message (sm_data m))
          (unat (mh_size (rd_header (sm_data m)))))"
      obtain r2 s2 w2 where msg: "?msg ?s w = (r2, s2, w2)" by (cases "?msg ?s w")
      have "io_to I ?msg I" by (intro io_rules owner_calls)
      from io_toD [OF this step(4) msg] have w2: "I w2" .
      have stop: "I (snd (snd (stop_internal env True ?s w)))"
        using stop_internal_to step(4) by (simp add: io_to_def)
      note again = step(1) [of env "s2\<lparr>so_reader := reader_reset (so_reader s2)\<rparr>" w2 y]
      show ?thesis
      proof (cases r)
        case (Inl x)
        with step(2-4) Some p show ?thesis by auto
      next
        case (Inr u)
        consider "is_errored m" | "\<not> is_errored m" "is_finished m" | "\<not> is_errored m" "\<not> is_finished m" by blast
        then show ?thesis
        proof cases
          case 1
          with step(2-4) Some p Inr stop show ?thesis by auto
        next
          case 2
          then show ?thesis using step(2-4) Some p Inr msg w2 again by (cases r2) auto
        next
          case 3
          then show ?thesis using step(2-4) Some p Inr by auto
        qed
      qed
    qed (use step in simp)
  qed
  then show "process_new_data env s w = Some y \<Longrightarrow> I w \<Longrightarrow> I (snd (snd y))" by blast
qed

lemma io_event_to:
  assumes "io_event env ev s w = Some (r, s', w')" and "I w"
  shows "I w'"
proof -
  have rd: "I w2" if "on_read_ready env s w = Some (r1, s2, w2)" "I w" for s w r1 s2 w2
  proof (cases "so_state s = io_connected")
    case True
    obtain r0 s0 w0 where u: "read_update env s w = (r0, s0, w0)" by (cases "read_update env s w")
    from io_toD [OF read_update_to that(2) u] True that(1) u process_new_data_to [of s0 w0] show ?thesis
      by (cases r0) (auto simp: on_read_ready_def)
  next
    case False
    have "io_to I (on_handle (\<lambda>h. lo_request env h event_in eu_remove)) I" by (intro io_rules looper_calls)
    from io_toD [OF this that(2)] False that(1) show ?thesis by (auto simp: on_read_ready_def)
  qed
  note hung = io_toD [OF stop_internal_to assms(2)] and wr = io_toD [OF on_write_ready_to]
  consider "ev AND (event_hung OR event_error) \<noteq> 0"
    | "ev AND (event_hung OR event_error) = 0" "ev AND event_in \<noteq> 0"
    | "ev AND (event_hung OR event_error) = 0" "ev AND event_in = 0" by blast
  then show ?thesis
  proof cases
    case 1
    with assms(1) hung show ?thesis by (simp add: io_event_def on_hung_or_error_def)
  next
    case 2
    then obtain r1 s1 w1 where 3: "on_read_ready env s w = Some (r1, s1, w1)"
      using assms(1) by (auto simp: io_event_def split: option.splits)
    from rd [OF this assms(2)] 2 3 assms(1) wr show ?thesis
      by (cases r1) (auto simp: io_event_def split: if_splits)
  next
    case 3
    with assms wr show ?thesis by (auto simp: io_event_def split: if_splits)
  qed
qed

end

end
