(* ===== verification/Obsr_Handshake.thy ===== *)
theory Obsr_Handshake
  imports Obsr_Client_Props Obsr_Io_Invariant Obsr_Sync
begin

text \<open>
  The network client as a transition system: its own operations, the events of its connection, and what
  the user's thread and the outside do in between, in any order. While the client is in the handshake
  its queue holds nothing but the messages of the handshake.
\<close>

section \<open>The runs of a client\<close>

inductive client_reach ::
  "('s, 'o) net_env \<Rightarrow> 's socket_io \<Rightarrow> ('c, 'o) client_world \<Rightarrow> bool" for ne where
  constructed: "client_reach ne (socket_io_new junk block block')
      \<lparr>cw_client = net_client_new parse mem, cw_storage = st, cw_out = k\<rparr>"
| attaches: "client_reach ne s w \<Longrightarrow> client_attach_storage b s w = (r, s', w') \<Longrightarrow> client_reach ne s' w'"
| configures: "client_reach ne s w \<Longrightarrow> configure_target info s w = (r, s', w') \<Longrightarrow> client_reach ne s' w'"
| starts: "client_reach ne s w \<Longrightarrow> client_start ne s w = (r, s', w') \<Longrightarrow> client_reach ne s' w'"
| ticks: "client_reach ne s w \<Longrightarrow> client_tick ne s w = (r, s', w') \<Longrightarrow> client_reach ne s' w'"
| event_comes: "client_reach ne s w \<Longrightarrow> io_event (client_env ne) ev s w = Some (r, s', w') \<Longrightarrow> client_reach ne s' w'"
| stops: "client_reach ne s w \<Longrightarrow> client_stop_request ne s w = (r, s', w') \<Longrightarrow> client_reach ne s' w'"
| rests: "client_reach ne s w \<Longrightarrow> client_lock (set_client_state cs_idle) s w = (r, s', w') \<Longrightarrow> client_reach ne s' w'"
| storage_used: "client_reach ne s w \<Longrightarrow> client_reach ne s (w\<lparr>cw_storage := st\<rparr>)"
| outside_moves: "client_reach ne s w \<Longrightarrow> client_reach ne s (w\<lparr>cw_out := k\<rparr>)"

section \<open>The invariant\<close>

definition handshaking :: "client_state \<Rightarrow> bool" where
  "handshaking st \<longleftrightarrow> st = cs_in_handshake_time_sync \<or> st = cs_in_handshake"

definition handshake_message :: "out_message \<Rightarrow> bool" where
  "handshake_message m \<longleftrightarrow> om_type m = mt_time_sync_request \<or> om_type m = mt_handshake_ready"

definition quiet :: "net_client \<Rightarrow> bool" where
  "quiet c \<longleftrightarrow> (\<forall>m\<in>set (mq_outgoing (nc_queue c)). handshake_message m)"

definition silent :: "('c, 'o) client_world \<Rightarrow> bool" where
  "silent w \<longleftrightarrow> (handshaking (nc_state (cw_client w)) \<longrightarrow> quiet (cw_client w))"

text \<open>
  The connection is a part of the client that may call it back. While the client's queue is at work the
  callbacks see the client's state, not the queue: then \<open>b\<close> stands for what is known of the queue.
\<close>

definition held :: "bool \<Rightarrow> ('c, 'o) client_world \<Rightarrow> bool" where
  "held b w \<longleftrightarrow> (handshaking (nc_state (cw_client w)) \<longrightarrow> b)"

lemma handshaking_simps [simp]:
  "\<not> handshaking cs_idle" "\<not> handshaking cs_opening" "\<not> handshaking cs_connecting" "\<not> handshaking cs_in_use"
  "handshaking cs_in_handshake_time_sync" "handshaking cs_in_handshake"
  by (simp_all add: handshaking_def)

lemma handshake_messages [simp]:
  "handshake_message (out_time_sync_request t)" "handshake_message out_handshake_ready"
  by (simp_all add: handshake_message_def out_time_sync_request_def out_handshake_ready_def out_message_new_def)

section \<open>Rules of the client\<close>

lemma to_client [io_rules]: "(\<And>w. P w \<Longrightarrow> Q (w\<lparr>cw_client := f (cw_client w)\<rparr>)) \<Longrightarrow> io_to P (on_client f) Q"
  by (simp add: io_to_def on_client_def io_world_def)

lemma to_ask: "io_to I (ask_client f) I"
  by (simp add: io_to_def ask_client_def io_ask_def)

lemma to_now [io_rules]: "io_to I (client_now r) I"
  by (simp add: io_to_def client_now_def io_ask_def)

lemma to_eval [io_rules]: "io_to I (io_eval f) I"
  by (simp add: io_to_def io_eval_def)

lemma to_out [io_rules]: "(\<And>w k. I w \<Longrightarrow> I (w\<lparr>cw_out := k\<rparr>)) \<Longrightarrow> io_to I (client_out g) I"
  by (simp add: io_to_def client_out_def io_call_def lift_call_def split: prod.split)

lemma to_times [io_rules]: "(\<And>w k. I w \<Longrightarrow> I (w\<lparr>cw_out := k\<rparr>)) \<Longrightarrow> io_to I (client_times ne) I"
  by (simp add: client_times_def to_out)

lemma to_storage [io_rules]: "(\<And>w st. I w \<Longrightarrow> I (w\<lparr>cw_storage := st\<rparr>)) \<Longrightarrow> io_to I (client_storage op) I"
  by (simp add: io_to_def client_storage_def io_call_def split: prod.split)

lemma to_invoke_storage [io_rules]:
  "(\<And>w st. I w \<Longrightarrow> I (w\<lparr>cw_storage := st\<rparr>)) \<Longrightarrow> io_to I (invoke_storage op) I"
  unfolding invoke_storage_def [abs_def] by (intro io_rules)

lemma to_lock [io_rules]:
  assumes "io_to P p Q" "\<And>w b. P w \<Longrightarrow> P (w\<lparr>cw_client := (cw_client w)\<lparr>nc_locked := b\<rparr>\<rparr>)"
    "\<And>w b. Q w \<Longrightarrow> Q (w\<lparr>cw_client := (cw_client w)\<lparr>nc_locked := b\<rparr>\<rparr>)" "\<And>w. P w \<Longrightarrow> Q w"
  shows "io_to P (client_lock p) Q"
proof (rule io_toI)
  fix s w r s' w'
  assume w: "P w" and e: "client_lock p s w = (r, s', w')"
  let ?w = "w\<lparr>cw_client := (cw_client w)\<lparr>nc_locked := True\<rparr>\<rparr>"
  obtain r1 s1 w1 where 1: "p s ?w = (r1, s1, w1)" by (cases "p s ?w")
  from io_toD [OF assms(1) assms(2) [OF w] 1] assms(3,4) w e 1 show "Q w'"
    by (auto simp: client_lock_def with_lock_def split: if_splits)
qed

text \<open>A question to the client whose answer the rest knows.\<close>

lemma to_asked:
  assumes "\<And>x. io_to (\<lambda>w. I w \<and> f (cw_client w) = x) (g x) I"
  shows "io_to I (io_then (ask_client f) g) I"
  using assms by (simp add: io_to_def io_then_def ask_client_def io_ask_def)

section \<open>The queue\<close>

lemma write_message_keeps:
  assumes "\<And>t b w. I w \<Longrightarrow> I (snd (dest t b w))" and "I w"
  shows "I (snd (snd (write_message dest m s w)))"
proof -
  have d: "I w'" if "dest t b w = (r, w')" for t b r w' using assms(1) [OF assms(2), of t b] that by simp
  have body: "I (snd (snd (write_body dest t body s w)))" for t body s
    using assms(2) d by (auto simp: write_body_def split: prod.split sum.split bool.split)
  show ?thesis
    using assms(2) body d
    by (auto simp: write_message_def write_entry_created_def write_entry_updated_def write_entry_deleted_def
        write_entry_id_assigned_def write_time_sync_request_def write_time_sync_response_def write_basic_def
        need_def Let_def split: message_type.split sum.split prod.split)
qed

lemma drain_keeps:
  assumes "\<And>t b w. I w \<Longrightarrow> I (snd (dest t b w))"
  shows "I w \<Longrightarrow> drain dest ms s w = (r, ms', s', w') \<Longrightarrow> I w' \<and> set ms' \<subseteq> set ms"
proof (induction ms arbitrary: s w)
  case (Cons m ms)
  obtain r1 s1 w1 where 1: "write_message dest m s w = (r1, s1, w1)" by (cases "write_message dest m s w")
  have "I w1" using write_message_keeps [of I dest w m s] assms Cons.prems(1) 1 by simp
  with 1 Cons.prems(2) Cons.IH [of w1 s1] show ?case
    by (cases r1) (auto split: bool.splits)
qed simp

lemma enqueue_keeps:
  assumes "\<And>t b w. I w \<Longrightarrow> I (snd (dest t b w))" and "I w" and "enqueue dest m flags q w = (r, q', w')"
  shows "I w' \<and> set (mq_outgoing q') \<subseteq> insert m (set (mq_outgoing q))"
proof -
  have "I (snd (snd (write_message dest m (mq_serializer q) w)))"
    using write_message_keeps [of I dest] assms(1,2) by blast
  with assms(2,3) show ?thesis
    by (auto simp: enqueue_def split: if_splits prod.splits sum.splits bool.splits)
qed

lemma out_simps [simp]:
  "held b (w\<lparr>cw_out := k\<rparr>) = held b w" "held b (w\<lparr>cw_storage := st\<rparr>) = held b w"
  "silent (w\<lparr>cw_out := k\<rparr>) = silent w" "silent (w\<lparr>cw_storage := st\<rparr>) = silent w"
  "held b (w\<lparr>cw_client := (cw_client w)\<lparr>nc_locked := l\<rparr>\<rparr>) = held b w"
  "silent (w\<lparr>cw_client := (cw_client w)\<lparr>nc_locked := l\<rparr>\<rparr>) = silent w"
  by (simp_all add: held_def silent_def quiet_def)

lemma lift_call_keeps: "(\<And>k. I (w\<lparr>cw_out := k\<rparr>) = I w) \<Longrightarrow> I w \<Longrightarrow>
    I (snd (lift_call cw_out (\<lambda>k w. w\<lparr>cw_out := k\<rparr>) g w))"
  by (simp add: lift_call_def split: prod.split)

lemma on_close_to:
  assumes "\<And>w f. I w \<Longrightarrow> nc_state (f (cw_client w)) = cs_opening \<Longrightarrow> I (w\<lparr>cw_client := f (cw_client w)\<rparr>)"
    and "\<And>w t u. I w \<Longrightarrow> I (w\<lparr>cw_client := (cw_client w)\<lparr>nc_retry := t, nc_sync := u\<rparr>\<rparr>)"
    and "\<And>w t. I w \<Longrightarrow> I (w\<lparr>cw_client := (cw_client w)\<lparr>nc_retry := t\<rparr>\<rparr>)"
    and "\<And>w k. I w \<Longrightarrow> I (w\<lparr>cw_out := k\<rparr>)"
    and "\<And>w b. I w \<Longrightarrow> I (w\<lparr>cw_client := (cw_client w)\<lparr>nc_locked := b\<rparr>\<rparr>)"
  shows "io_to I (client_on_close ne) I"
  unfolding client_on_close_def set_client_state_def by (intro io_rules assms) simp_all

interpretation held: io_invariant "client_calls ne" "held b" for ne :: "('s, 'o) net_env" and b
proof unfold_locales
  show "io_to (held b) (cb_close (client_calls ne)) (held b)"
    unfolding client_calls_def lift_env_def io_env.select_convs
    by (rule on_close_to) (simp_all add: held_def)
qed (simp_all add: client_calls_def lift_env_def lift_call_keeps to_return)

lemma destination_held: "held b (snd sw) \<Longrightarrow> held b (snd (snd (io_destination (client_calls ne) t xs sw)))"
  using held.io_write_to [of b ne t xs] by (cases sw) (auto simp: io_to_def io_destination_def split: prod.split)

lemma silent_queue:
  "held (quiet (cw_client w)) w' \<Longrightarrow> set (mq_outgoing q) \<subseteq> ms \<union> set (mq_outgoing (nc_queue (cw_client w))) \<Longrightarrow>
   \<forall>m\<in>ms. handshake_message m \<Longrightarrow> silent (w'\<lparr>cw_client := (cw_client w')\<lparr>nc_queue := q\<rparr>\<rparr>)"
  by (auto simp: held_def silent_def quiet_def)

lemma client_enqueue_silent:
  assumes "handshake_message m"
  shows "io_to silent (client_enqueue ne m flags) silent"
proof (rule io_toI)
  fix s w r s' w'
  assume w: "silent w" and e: "client_enqueue ne m flags s w = (r, s', w')"
  obtain r1 q s1 w1 where 1: "enqueue (io_destination (client_calls ne)) m flags (nc_queue (cw_client w)) (s, w) =
      (r1, q, (s1, w1))" by (metis prod_cases3 surj_pair)
  have "held (quiet (cw_client w)) w" using w by (simp add: held_def silent_def)
  then have "held (quiet (cw_client w)) w1 \<and> set (mq_outgoing q) \<subseteq> insert m (set (mq_outgoing (nc_queue (cw_client w))))"
    using enqueue_keeps [where I = "\<lambda>sw. held (quiet (cw_client w)) (snd sw)", OF destination_held _ 1] by simp
  with silent_queue [of w w1 q "{m}"] assms 1 e show "silent w'" by (auto simp: client_enqueue_def)
qed

lemma client_process_queue_silent: "io_to silent (client_process_queue ne) silent"
proof (rule io_toI)
  fix s w r s' w'
  assume w: "silent w" and e: "client_process_queue ne s w = (r, s', w')"
  let ?q = "nc_queue (cw_client w)" and ?dest = "io_destination (client_calls ne)"
  obtain r1 ms u s1 w1 where 1: "drain ?dest (mq_outgoing ?q) (mq_serializer ?q) (s, w) = (r1, ms, u, (s1, w1))"
    by (metis prod_cases4 surj_pair)
  have "held (quiet (cw_client w)) w" using w by (simp add: held_def silent_def)
  then have "held (quiet (cw_client w)) w1 \<and> set ms \<subseteq> set (mq_outgoing ?q)"
    using drain_keeps [where I = "\<lambda>sw. held (quiet (cw_client w)) (snd sw)", OF destination_held _ 1] by simp
  with silent_queue [of w w1 "?q\<lparr>mq_outgoing := ms, mq_serializer := u\<rparr>" "{}"] 1 e show "silent w'"
    by (auto simp: client_process_queue_def mq_process_def)
qed

lemma enqueue_quiet:
  assumes "handshake_message m"
  shows "io_to (\<lambda>w. quiet (cw_client w)) (client_enqueue ne m flags) (\<lambda>w. quiet (cw_client w))"
proof (rule io_toI)
  fix s w r s' w'
  assume w: "quiet (cw_client w)" and e: "client_enqueue ne m flags s w = (r, s', w')"
  obtain r1 q s1 w1 where 1: "enqueue (io_destination (client_calls ne)) m flags (nc_queue (cw_client w)) (s, w) =
      (r1, q, (s1, w1))" by (metis prod_cases3 surj_pair)
  from enqueue_keeps [where I = "\<lambda>_. True", OF _ _ 1] w assms 1 e show "quiet (cw_client w')"
    by (auto simp: client_enqueue_def quiet_def)
qed

section \<open>Every step is silent\<close>

lemma on_connect_silent:
  fixes ne :: "('s, 'o) net_env"
  shows "io_to (silent :: ('c, 'o) client_world \<Rightarrow> bool) (client_on_connect ne) silent"
proof -
  have "io_to silent (io_then (on_client (\<lambda>c. c\<lparr>nc_queue := mq_clear (nc_queue c)\<rparr>)) (\<lambda>_.
     io_then (client_times ne) (\<lambda>tm.
     io_then (client_now (tm 0)) (\<lambda>now.
     io_then (client_enqueue ne (out_time_sync_request now) flag_immediate) (\<lambda>_.
     set_client_state cs_in_handshake_time_sync))))) (\<lambda>w :: ('c, 'o) client_world. quiet (cw_client w))"
    by (rule to_then_mid [where K = "\<lambda>w. quiet (cw_client w)"], rule to_client)
      (simp add: quiet_def mq_clear_def, unfold set_client_state_def, intro io_rules enqueue_quiet,
       simp_all add: quiet_def)
  note lock = to_lock [OF io_to_weaken [OF this]]
  show ?thesis unfolding client_on_connect_def by (rule lock) (simp_all add: silent_def quiet_def)
qed

lemma on_close_silent: "io_to silent (client_on_close ne) silent"
  by (rule on_close_to) (simp_all add: silent_def quiet_def)

lemma sync_silent: "io_to silent (client_sync r d) silent"
  by (auto simp: io_to_def client_sync_def Let_def split: prod.split)

lemma set_state_silent:
  "\<not> handshaking st \<Longrightarrow> io_to silent (set_client_state st) silent"
  unfolding set_client_state_def by (rule to_client) (simp add: silent_def)

lemma dispatch_silent:
  fixes ne :: "('s, 'o) net_env"
  shows "io_to (silent :: ('c, 'o) client_world \<Rightarrow> bool) (client_dispatch ne t d) silent"
proof -
  let ?go = "\<lambda>tm st. if st = cs_in_handshake_time_sync then
            io_then (client_enqueue ne out_handshake_ready 0) (\<lambda>_. set_client_state cs_in_handshake)
          else (on_client (\<lambda>c. c\<lparr>nc_sync := timer_start (tm (1 :: nat)) (nc_sync c)\<rparr>) ::
            ('s, 'c, 'o, unit) client_op)"
  have go: "io_to (\<lambda>w :: ('c, 'o) client_world. silent w \<and> nc_state (cw_client w) = st) (?go tm st) silent" for tm st
  proof (rule to_if_const)
    assume st: "st = cs_in_handshake_time_sync"
    have "io_to (\<lambda>w :: ('c, 'o) client_world. quiet (cw_client w)) (io_then (client_enqueue ne out_handshake_ready 0)
        (\<lambda>_. set_client_state cs_in_handshake)) (\<lambda>w. quiet (cw_client w))"
      unfolding set_client_state_def by (intro io_rules enqueue_quiet) (simp_all add: quiet_def)
    then show "io_to (\<lambda>w :: ('c, 'o) client_world. silent w \<and> nc_state (cw_client w) = st)
        (io_then (client_enqueue ne out_handshake_ready 0) (\<lambda>_. set_client_state cs_in_handshake)) silent"
      by (rule io_to_weaken) (simp_all add: silent_def st)
  next
    show "io_to (\<lambda>w :: ('c, 'o) client_world. silent w \<and> nc_state (cw_client w) = st)
        (on_client (\<lambda>c. c\<lparr>nc_sync := timer_start (tm 1) (nc_sync c)\<rparr>)) silent"
      by (rule to_client) (simp add: silent_def quiet_def)
  qed
  have sync: "io_to (silent :: ('c, 'o) client_world \<Rightarrow> bool) (on_client (\<lambda>c. c\<lparr>nc_sync := timer_start (tm 0) (nc_sync c)\<rparr>)) silent" for tm
    by (rule to_client) (simp add: silent_def quiet_def)
  have response: "io_to (silent :: ('c, 'o) client_world \<Rightarrow> bool) (io_then (client_times ne) (\<lambda>tm. io_then (client_sync (tm 0) d) (\<lambda>_.
      io_then (ask_client nc_state) (?go tm)))) silent"
    by (intro to_then to_times sync_silent to_asked go) simp
  show ?thesis
  proof (cases t)
    case mt_time_sync_response
    with response show ?thesis by (simp add: client_dispatch_def)
  next
    case mt_handshake_finished
    have "io_to (silent :: ('c, 'o) client_world \<Rightarrow> bool) (io_then (set_client_state cs_in_use) (\<lambda>_. io_then (client_times ne)
        (\<lambda>tm. on_client (\<lambda>c. c\<lparr>nc_sync := timer_start (tm 0) (nc_sync c)\<rparr>)))) silent"
      by (intro to_then to_times set_state_silent sync) simp_all
    with mt_handshake_finished show ?thesis by (simp add: client_dispatch_def)
  qed ((simp add: client_dispatch_def, (intro io_rules; simp))+)
qed

lemma on_message_silent: "io_to silent (client_on_message ne header buffer sz) silent"
proof -
  have "io_to silent (client_parse t buffer sz) silent" for t
    by (simp add: io_to_def client_parse_def silent_def quiet_def split: prod.split)
  then show ?thesis unfolding client_on_message_def Let_def
    by (intro io_rules to_ask dispatch_silent) simp_all
qed

interpretation calls: io_invariant "client_calls ne" silent for ne :: "('s, 'o) net_env"
proof unfold_locales
  show "io_to silent (cb_close (client_calls ne)) silent" by (simp add: client_calls_def lift_env_def on_close_silent)
qed (simp_all add: client_calls_def lift_env_def lift_call_keeps to_return)

interpretation events: io_invariant "client_env ne" silent for ne :: "('s, 'o) net_env"
  by unfold_locales (simp_all add: client_env_def lift_env_def lift_call_keeps on_close_silent on_connect_silent
      on_message_silent)

lemma process_storage_in_use:
  fixes ne :: "('s, 'o) net_env"
  shows "io_to (\<lambda>w :: ('c, 'o) client_world. nc_state (cw_client w) = cs_in_use) (process_storage ne) (\<lambda>w. nc_state (cw_client w) = cs_in_use)"
proof -
  let ?I = "\<lambda>sw :: 's socket_io \<times> ('c, 'o) client_world. nc_state (cw_client (snd sw)) = cs_in_use"
  have step: "?I (snd (snd (publish_entry ne d (st, x))))" if "?I x" for d st x
  proof -
    from publish_entry_step [of ne d st "fst x" "snd x"] obtain m w' where
      "publish_entry ne d (st, x) = (Inr True, st, (fst x, w'))" "client_rest w' = client_rest (snd x)" by auto
    moreover from this(2) have "nc_state (cw_client w') = nc_state (cw_client (snd x))"
      unfolding client_rest_def by (metis Pair_inject net_client.ext_inject net_client.surjective net_client.update_convs(7))
    ultimately show ?thesis using that by simp
  qed
  have all: "?I (snd (snd (act_on (publish_entry ne) hs sw)))" if "?I (snd sw)" for hs sw
    using that
  proof (induction hs arbitrary: sw)
    case (Cons h hs)
    obtain st x where sw: "sw = (st, x)" by (cases sw)
    show ?case
    proof (cases "ht_get (st_entries st) h")
      case (Inr d)
      obtain r st' x' where a: "publish_entry ne d (st, x) = (r, st', x')" by (cases "publish_entry ne d (st, x)")
      then have "?I x'" using step [of x d st] Cons.prems sw by simp
      then show ?thesis
        using Cons sw Inr a by (auto split: sum.split bool.split)
    qed (use Cons sw in simp)
  qed simp
  show ?thesis
    using all by (auto simp: io_to_def process_storage_def act_on_dirty_entries_def split: prod.split) (metis snd_conv)
qed

lemma update_silent:
  fixes ne :: "('s, 'o) net_env"
  shows "io_to (silent :: ('c, 'o) client_world \<Rightarrow> bool) (client_update ne) silent"
proof -
  have open_it: "io_to (silent :: ('c, 'o) client_world \<Rightarrow> bool) (do_open_and_connect ne) silent"
    unfolding do_open_and_connect_def
    by (intro io_rules to_ask calls.io_start_to calls.io_connect_to calls.io_stop_to set_state_silent) simp
  have retry: "io_to (silent :: ('c, 'o) client_world \<Rightarrow> bool) (on_client (\<lambda>c. c\<lparr>nc_retry := f c\<rparr>)) silent" for f
    by (rule to_client) (simp add: silent_def quiet_def)
  have sync: "io_to (silent :: ('c, 'o) client_world \<Rightarrow> bool) (client_sync_request ne tm) silent" for tm
    unfolding client_sync_request_def
    by (intro io_rules client_enqueue_silent) (simp_all add: silent_def quiet_def)
  have use: "io_to (\<lambda>w. silent w \<and> nc_state (cw_client w) = cs_in_use)
      (io_then (process_storage ne) (\<lambda>_. client_process_queue ne)) (silent :: ('c, 'o) client_world \<Rightarrow> bool)"
    by (rule to_then_mid [OF io_to_weaken [OF process_storage_in_use] io_to_weaken [OF client_process_queue_silent]])
      (simp_all add: silent_def)
  have keep: "io_to (\<lambda>w. silent w \<and> nc_state (cw_client w) = st) p (silent :: ('c, 'o) client_world \<Rightarrow> bool)"
    if "io_to silent p silent" for st and p :: "('s, 'c, 'o, unit) client_op"
    using that by (simp add: io_to_def)
  have act: "io_to (\<lambda>w. silent w \<and> nc_state (cw_client w) = st)
      (case st of
         cs_opening \<Rightarrow>
           io_then (io_eval (\<lambda>w. timer_waits (tm 2) connect_retry_time (nc_retry (cw_client w)))) (\<lambda>waits.
           if waits then io_return ()
           else
             io_then (do_open_and_connect ne) (\<lambda>ok.
             if ok then on_client (\<lambda>c. c\<lparr>nc_retry := timer_stop (nc_retry c)\<rparr>)
             else on_client (\<lambda>c. c\<lparr>nc_retry := timer_start (tm (3 :: nat)) (nc_retry c)\<rparr>)))
       | cs_in_use \<Rightarrow> io_then (process_storage ne) (\<lambda>_. client_process_queue ne)
       | cs_in_handshake_time_sync \<Rightarrow> client_process_queue ne
       | cs_in_handshake \<Rightarrow> client_process_queue ne
       | _ \<Rightarrow> io_return ()) (silent :: ('c, 'o) client_world \<Rightarrow> bool)" for st tm
  proof (cases st)
    case cs_opening
    then show ?thesis by (simp only: client_state.case) (intro keep io_rules open_it retry)
  next
    case cs_in_use
    with use show ?thesis by simp
  qed (simp_all add: keep client_process_queue_silent to_return)
  show ?thesis
    unfolding client_update_def
    by (intro to_then to_ask to_if_const to_return to_times sync to_asked act) simp
qed

section \<open>A run into the handshake\<close>

text \<open>
  A client from its construction to its handshake in a network where every call succeeds: it is given a
  storage and a target, started, its update connects, and the socket becomes ready for writing.
\<close>

definition sample_links :: "(nat, unit) net_env" where
  "sample_links = net_env.truncate sample_network"

definition run_constructed :: "nat socket_io \<times> (string, unit) client_world" where
  "run_constructed =
     (socket_io_new \<lparr>rd_header = next_header 0 0 0, rd_message = replicate 1024 0\<rparr> (\<lambda>_. 0) (\<lambda>_. 0),
      \<lparr>cw_client = net_client_new blank_parse_data (\<lambda>_. 0), cw_storage = no_entries, cw_out = ()\<rparr>)"

definition run_attached :: "nat socket_io \<times> (string, unit) client_world" where
  "run_attached = snd (client_attach_storage True (fst run_constructed) (snd run_constructed))"

definition run_configured :: "nat socket_io \<times> (string, unit) client_world" where
  "run_configured =
     snd (configure_target \<lparr>ci_ip = ''10.0.0.2'', ci_port = 5000\<rparr> (fst run_attached) (snd run_attached))"

definition run_started :: "nat socket_io \<times> (string, unit) client_world" where
  "run_started = snd (client_start sample_links (fst run_configured) (snd run_configured))"

definition run_connecting :: "nat socket_io \<times> (string, unit) client_world" where
  "run_connecting = snd (client_tick sample_links (fst run_started) (snd run_started))"

lemmas run_defs = client_lock_def with_lock_def io_defs client_helpers world_defs net_client_new_def
  sample_links_def net_env.defs sample_network_def

lemma run_started_eq:
  "run_started = (fst run_constructed,
     \<lparr>cw_client = (net_client_new blank_parse_data (\<lambda>_. 0))\<lparr>nc_state := cs_opening, nc_attached := True,
        nc_conn_info := \<lparr>ci_ip = ''10.0.0.2'', ci_port = 5000\<rparr>, nc_timer_handle := 0\<rparr>,
      cw_storage = clear_net_ids no_entries, cw_out = ()\<rparr>)"
  by (simp add: run_started_def run_configured_def run_attached_def run_constructed_def
      client_attach_storage_def configure_target_def client_start_def run_defs)
    (simp add: timer_stop_def timer_new_def mq_clear_def message_queue_new_def)

lemma run_connecting_eq:
  "run_connecting =
     ((fst run_constructed)\<lparr>so_state := io_connecting, so_socket := Some 3, so_handle := 1\<rparr>,
      (snd run_started)\<lparr>cw_client := (cw_client (snd run_started))\<lparr>nc_state := cs_connecting\<rparr>\<rparr>)"
  by (simp add: run_connecting_def run_started_eq client_tick_def client_update_def
      client_sync_request_def timer_due_def timer_waits_def run_defs do_open_and_connect_def io_start_def
      start_with_def io_connect_def run_constructed_def socket_io_new_def client_calls_def lift_env_def)
    (simp add: timer_stop_def timer_is_running_def timer_new_def timer_start_def)

lemma request_is_written:
  fixes w :: "(string, unit) client_world" and now :: milliseconds
  assumes "nc_queue (cw_client w) = message_queue_new (\<lambda>_. 0)"
  shows "\<exists>s q. client_enqueue sample_links (out_time_sync_request now) flag_immediate ((fst run_connecting)\<lparr>so_state := io_connected\<rparr>) w =
    (Inr (), s, w\<lparr>cw_client := (cw_client w)\<lparr>nc_queue := q\<rparr>\<rparr>)"
proof -
  let ?s = "(fst run_connecting)\<lparr>so_state := io_connected\<rparr>"
  let ?q = "nc_queue (cw_client w)" and ?dest = "io_destination (client_calls sample_links)"
  have so: "so_write ?s = circ_new (\<lambda>_. 0) 1024" by (simp add: run_connecting_eq run_constructed_def socket_io_new_def)
  have req: "lo_request (client_calls sample_links) h e t w = (Inr (), w)" for h e t and w :: "(string, unit) client_world"
    by (simp add: client_calls_def lift_env_def lift_call_def sample_links_def net_env.defs sample_network_def)
  have sz: "cb_size (circ_new (\<lambda>_. 0) 1024) = 1024" by (simp add: circ_new_def)
  have room: "header_size + length (net_body (N_request now)) \<le> circ_room (so_write ?s)"
    by (simp add: so circ_room_def header_size_def sz)
  have request: "stands_for (out_time_sync_request now) (N_request now)" by (simp add: out_defs)
  have fits: "net_small (N_request now)" "length (net_body (N_request now)) \<le> writer_buffer_size"
    "linear_sized writer_buffer_size (mq_serializer ?q)"
    by (simp_all add: assms message_queue_new_def writer_buffer_size_def [symmetric])
      (simp add: writer_buffer_size_def)
  from write_message_fits [OF request fits, of ?dest "(?s, w)"]
  obtain s' where 1: "write_message ?dest (out_time_sync_request now) (mq_serializer ?q) (?s, w) =
    (case ?dest (mt_byte mt_time_sync_request) (net_body (N_request now)) (?s, w) of (r, w) \<Rightarrow> (r, s', w))"
    unfolding net_type.simps by blast
  have ok: "circ_ok (so_write ?s)" by (simp only: so circ_new_ok)
  from io_write_room [OF ok room, where env = "client_calls sample_links" and t = "mt_byte mt_time_sync_request" and w = w]
  obtain s1 where "io_write (client_calls sample_links) (mt_byte mt_time_sync_request) (net_body (N_request now)) ?s w = (Inr True, s1, w)"
    by (auto simp: io_defs req)
  then show ?thesis by (auto simp: client_enqueue_def enqueue_def 1 io_destination_def flag_immediate_def)
qed

lemma run_reaches_handshake: "\<exists>s w. io_event (client_env sample_links) event_out (fst run_connecting) (snd run_connecting) = Some (Inr (), s, w) \<and>
   nc_state (cw_client w) = cs_in_handshake_time_sync"
proof -
  define c where "c = cw_client (snd run_connecting)"
  have q: "mq_clear (nc_queue c) = message_queue_new (\<lambda>_. 0)" "nc_locked c = False"
    by (simp_all add: c_def run_connecting_eq run_started_eq net_client_new_def mq_clear_def message_queue_new_def)
  let ?w = "(snd run_connecting)\<lparr>cw_client := c\<lparr>nc_locked := True, nc_queue := message_queue_new (\<lambda>_. 0)\<rparr>, cw_out := ()\<rparr>"
  have "nc_queue (cw_client ?w) = message_queue_new (\<lambda>_. 0)" by simp
  from request_is_written [OF this] obtain s q' where e: "client_enqueue sample_links (out_time_sync_request (clock_now (st_clock (cw_storage (snd run_connecting))) 5000)) flag_immediate
     ((fst run_connecting)\<lparr>so_state := io_connected\<rparr>) ?w = (Inr (), s, ?w\<lparr>cw_client := (cw_client ?w)\<lparr>nc_queue := q'\<rparr>\<rparr>)" by blast
  have ev: "event_out AND (event_hung OR event_error) = 0" "event_out AND event_in = 0" "event_out AND event_out \<noteq> 0"
    by (simp_all add: event_out_def event_in_def event_hung_def event_error_def)
  have st: "so_state (fst run_connecting) = io_connecting" "so_socket (fst run_connecting) = Some 3" by (simp_all add: run_connecting_eq)
  have w: "(snd run_connecting)\<lparr>cw_out := ()\<rparr> = snd run_connecting" by simp
  have net: "sk_finalize sample_links k () = (Inr (), ())" "lo_request sample_links h t u () = (Inr (), ())" "ne_times sample_links () = (\<lambda>_. 5000, ())" for k h t u
    by (simp_all add: sample_links_def net_env.defs sample_network_def)
  obtain s0 w0 where sw: "run_connecting = (s0, w0)" by (cases run_connecting)
  note c_def' = c_def [unfolded sw, simplified, symmetric]
  show ?thesis using e st w unfolding sw
   by (simp add: io_event_def ev(1,2) on_write_ready_def client_env_def client_on_connect_def 
     client_lock_def with_lock_def io_defs client_helpers world_defs net lift_env_def client_now_def c_def' q)
    (simp add: event_out_def)
qed

section \<open>The handshake\<close>

text \<open>What the interface and the looper call.\<close>

lemma client_ops_silent:
  shows "io_to silent (client_start ne) silent"
    and "io_to silent (client_stop_request ne) silent"
    and "io_to silent (client_lock (set_client_state cs_idle)) silent"
    and "io_to silent (client_tick ne) silent"
    and "io_to silent (client_attach_storage present) silent"
    and "io_to silent (configure_target info) silent"
proof -
  have set: "io_to silent (on_client f) silent"
    if "\<And>c. nc_state (f c) = nc_state c" "\<And>c. quiet c \<Longrightarrow> quiet (f c)" for f
    by (rule to_client) (use that in \<open>auto simp: silent_def\<close>)
  show "io_to silent (client_start ne) silent"
    unfolding client_start_def
    by (intro io_rules to_ask set set_state_silent) (simp_all add: quiet_def mq_clear_def silent_def)
  show "io_to silent (client_stop_request ne) silent"
    unfolding client_stop_request_def
    by (intro io_rules to_ask set calls.io_stop_to) (simp_all add: quiet_def)
  show "io_to silent (client_lock (set_client_state cs_idle)) silent"
    by (intro io_rules set_state_silent) simp_all
  show "io_to silent (client_tick ne) silent"
    unfolding client_tick_def by (intro io_rules update_silent) simp_all
  show "io_to silent (client_attach_storage present) silent"
    unfolding client_attach_storage_def by (intro io_rules to_ask set) (simp_all add: quiet_def)
  show "io_to silent (configure_target info) silent"
    unfolding configure_target_def by (intro io_rules to_ask set) (simp_all add: quiet_def)
qed

lemma client_reach_silent: "client_reach ne s w \<Longrightarrow> silent w"
proof (induction rule: client_reach.induct)
  case (constructed junk block block' parse mem st k)
  show ?case by (simp add: silent_def net_client_new_def)
next
  case (attaches s w b r s' w')
  show ?case by (rule io_toD [OF client_ops_silent(5) attaches.IH attaches.hyps(2)])
next
  case (configures s w info r s' w')
  show ?case by (rule io_toD [OF client_ops_silent(6) configures.IH configures.hyps(2)])
next
  case (starts s w r s' w')
  show ?case by (rule io_toD [OF client_ops_silent(1) starts.IH starts.hyps(2)])
next
  case (ticks s w r s' w')
  show ?case by (rule io_toD [OF client_ops_silent(4) ticks.IH ticks.hyps(2)])
next
  case (stops s w r s' w')
  show ?case by (rule io_toD [OF client_ops_silent(2) stops.IH stops.hyps(2)])
next
  case (rests s w r s' w')
  show ?case by (rule io_toD [OF client_ops_silent(3) rests.IH rests.hyps(2)])
next
  case (event_comes s w ev r s' w')
  show ?case by (rule events.io_event_to [OF event_comes.hyps(2) event_comes.IH])
qed simp_all

text \<open>
  C17 In every run of a client, whatever the network and the server do and however the user's thread
  changes the storage meanwhile: as long as the client is in its handshake, nothing of the storage is in
  its queue, only requests for the time and the message that it is ready. What was queued for the
  server of an earlier connection is gone.
\<close>

theorem handshake_is_silent:
  fixes ne :: "('s, 'o) net_env" and w :: "('c, 'o) client_world"
  assumes "client_reach ne s w"
    and "nc_state (cw_client w) = cs_in_handshake_time_sync \<or> nc_state (cw_client w) = cs_in_handshake"
  shows "\<forall>m\<in>set (queued w). om_type m = mt_time_sync_request \<or> om_type m = mt_handshake_ready"
  using client_reach_silent [OF assms(1)] assms(2)
  by (auto simp: silent_def quiet_def queued_def handshake_message_def)

lemma handshake_is_silent_witness:
  "\<exists>s w. client_reach sample_links s (w :: (string, unit) client_world) \<and> nc_state (cw_client w) = cs_in_handshake_time_sync \<and>
     (\<forall>m\<in>set (queued w). om_type m = mt_time_sync_request \<or> om_type m = mt_handshake_ready)"
proof -
  have "client_reach sample_links (fst run_constructed) (snd run_constructed)" by (simp add: run_constructed_def client_reach.constructed)
  from client_reach.attaches [OF this, of True] have "client_reach sample_links (fst run_attached) (snd run_attached)"
    unfolding run_attached_def by (metis prod.collapse)
  from client_reach.configures [OF this] have "client_reach sample_links (fst run_configured) (snd run_configured)"
    unfolding run_configured_def by (metis prod.collapse)
  from client_reach.starts [OF this] have "client_reach sample_links (fst run_started) (snd run_started)"
    unfolding run_started_def by (metis prod.collapse)
  from client_reach.ticks [OF this] have "client_reach sample_links (fst run_connecting) (snd run_connecting)"
    unfolding run_connecting_def by (metis prod.collapse)
  note reach4 = this
  obtain s w where 5: "io_event (client_env sample_links) event_out (fst run_connecting) (snd run_connecting) = Some (Inr (), s, w)"
    "nc_state (cw_client w) = cs_in_handshake_time_sync" using run_reaches_handshake by blast
  from client_reach.event_comes [OF reach4 5(1)] have "client_reach sample_links s w" .
  with 5(2) handshake_is_silent [of sample_links s w] show ?thesis by blast
qed

end
