(* ===== verification/Obsr_Reconnect.thy ===== *)
theory Obsr_Reconnect
  imports Obsr_Join Obsr_Handshake
begin

text \<open>
  A connection that is lost and made again: the client forgets the identifiers of the earlier connection only
  when it is started, so that a server that has started anew finds them still in use.
\<close>

section \<open>From the loss of a connection to the next handshake\<close>

inductive reconnects ::
  "('s, 'o) net_env \<Rightarrow> ('c, 'o) client_world \<Rightarrow> 's socket_io \<Rightarrow> ('c, 'o) client_world \<Rightarrow> bool" for ne w0 where
  closes: "client_on_close ne s w0 = (r, s', w') \<Longrightarrow> reconnects ne w0 s' w'"
| ticks: "reconnects ne w0 s w \<Longrightarrow> client_tick ne s w = (r, s', w') \<Longrightarrow> reconnects ne w0 s' w'"
| connects: "reconnects ne w0 s w \<Longrightarrow> client_on_connect ne s w = (r, s', w') \<Longrightarrow> reconnects ne w0 s' w'"

text \<open>What stays: the storage; and the client is not in use.\<close>

definition keeps_storage :: "'c storage \<Rightarrow> bool \<Rightarrow> ('c, 'o) client_world \<Rightarrow> bool" where
  "keeps_storage st a w \<longleftrightarrow> cw_storage w = st \<and> nc_attached (cw_client w) = a \<and> nc_state (cw_client w) \<noteq> cs_in_use"

lemma keeps_storage_simps [simp]:
  "keeps_storage st a (w\<lparr>cw_out := k\<rparr>) = keeps_storage st a w"
  "keeps_storage st a (w\<lparr>cw_client := (cw_client w)\<lparr>nc_locked := l\<rparr>\<rparr>) = keeps_storage st a w"
  "keeps_storage st a (w\<lparr>cw_client := (cw_client w)\<lparr>nc_queue := q\<rparr>\<rparr>) = keeps_storage st a w"
  "keeps_storage st a (w\<lparr>cw_client := (cw_client w)\<lparr>nc_retry := t\<rparr>\<rparr>) = keeps_storage st a w"
  "keeps_storage st a (w\<lparr>cw_client := (cw_client w)\<lparr>nc_sync := t\<rparr>\<rparr>) = keeps_storage st a w"
  "keeps_storage st a (w\<lparr>cw_client := (cw_client w)\<lparr>nc_retry := t, nc_sync := u\<rparr>\<rparr>) = keeps_storage st a w"
  by (simp_all add: keeps_storage_def)

lemma set_state_keeps_storage:
  "cst \<noteq> cs_in_use \<Longrightarrow> io_to (keeps_storage st a) (set_client_state cst) (keeps_storage st a)"
  unfolding set_client_state_def by (rule to_client) (simp add: keeps_storage_def)

lemma close_keeps_storage: "io_to (keeps_storage st a) (client_on_close ne) (keeps_storage st a)"
  unfolding client_on_close_def by (intro io_rules set_state_keeps_storage) simp_all

interpretation lost: io_invariant "client_calls ne" "keeps_storage st a" for ne :: "('s, 'o) net_env" and st a
proof unfold_locales
  show "io_to (keeps_storage st a) (cb_close (client_calls ne)) (keeps_storage st a)"
    by (simp add: client_calls_def lift_env_def close_keeps_storage)
qed (simp_all add: client_calls_def lift_env_def lift_call_keeps to_return)

lemma destination_keeps_storage:
  "keeps_storage st a (snd sw) \<Longrightarrow> keeps_storage st a (snd (snd (io_destination (client_calls ne) t xs sw)))"
  using lost.io_write_to [of st a ne t xs] by (cases sw) (auto simp: io_to_def io_destination_def split: prod.split)

lemma enqueue_keeps_storage: "io_to (keeps_storage st a) (client_enqueue ne m flags) (keeps_storage st a)"
proof (rule io_toI)
  fix s w r s' w'
  assume w: "keeps_storage st a w" and e: "client_enqueue ne m flags s w = (r, s', w')"
  obtain r1 q s1 w1 where 1: "enqueue (io_destination (client_calls ne)) m flags (nc_queue (cw_client w)) (s, w) =
      (r1, q, (s1, w1))" by (metis prod_cases3 surj_pair)
  from enqueue_keeps [where I = "\<lambda>sw. keeps_storage st a (snd sw)", OF destination_keeps_storage _ 1] w 1 e
  show "keeps_storage st a w'" by (auto simp: client_enqueue_def)
qed

lemma process_queue_keeps_storage: "io_to (keeps_storage st a) (client_process_queue ne) (keeps_storage st a)"
proof (rule io_toI)
  fix s w r s' w'
  assume w: "keeps_storage st a w" and e: "client_process_queue ne s w = (r, s', w')"
  let ?q = "nc_queue (cw_client w)" and ?dest = "io_destination (client_calls ne)"
  obtain r1 ms u s1 w1 where 1: "drain ?dest (mq_outgoing ?q) (mq_serializer ?q) (s, w) = (r1, ms, u, (s1, w1))"
    by (metis prod_cases4 surj_pair)
  from drain_keeps [where I = "\<lambda>sw. keeps_storage st a (snd sw)", OF destination_keeps_storage _ 1] w 1 e
  show "keeps_storage st a w'" by (auto simp: client_process_queue_def mq_process_def)
qed

lemma connect_keeps_storage: "io_to (keeps_storage st a) (client_on_connect ne) (keeps_storage st a)"
  unfolding client_on_connect_def by (intro io_rules set_state_keeps_storage enqueue_keeps_storage) simp_all

lemma update_keeps_storage:
  "io_to (keeps_storage st a :: ('c, 'o) client_world \<Rightarrow> bool) (client_update ne) (keeps_storage st a)"
proof -
  let ?I = "keeps_storage st a :: ('c, 'o) client_world \<Rightarrow> bool"
  have open_it: "io_to ?I (do_open_and_connect ne) ?I"
    unfolding do_open_and_connect_def
    by (intro io_rules to_ask lost.io_start_to lost.io_connect_to lost.io_stop_to set_state_keeps_storage) simp
  have retry: "io_to ?I (on_client (\<lambda>c. c\<lparr>nc_retry := f c\<rparr>)) ?I" for f
    by (rule to_client) (simp add: keeps_storage_def)
  have sync: "io_to ?I (client_sync_request ne tm) ?I" for tm
    unfolding client_sync_request_def
    by (intro io_rules enqueue_keeps_storage) simp_all
  have keep: "io_to (\<lambda>w. ?I w \<and> nc_state (cw_client w) = cst) p ?I"
    if "cst \<noteq> cs_in_use \<Longrightarrow> io_to ?I p ?I" for cst and p :: "('s, 'c, 'o, unit) client_op"
    using that by (auto simp: io_to_def keeps_storage_def)
  show ?thesis
    unfolding client_update_def
    by (intro to_then to_ask to_if_const to_return to_times sync to_asked keep)
      (auto split: client_state.split intro!: process_queue_keeps_storage io_rules open_it retry)
qed

lemma lock_unlocked: "\<not> nc_locked (cw_client w) \<Longrightarrow> client_lock p s w = (r, s', w') \<Longrightarrow> \<not> nc_locked (cw_client w')"
  by (auto simp: client_lock_def with_lock_def split: prod.splits)

lemma close_leaves_use:
  assumes "\<not> nc_locked (cw_client w)" and "client_on_close ne s w = (r, s', w')"
  shows "keeps_storage (cw_storage w) (nc_attached (cw_client w)) w'"
  using assms by (cases "ne_times ne (cw_out w)")
    (auto simp: client_on_close_def client_lock_def with_lock_def io_defs client_helpers world_defs
      keeps_storage_def lift_call_def)

text \<open>All the way the client holds on to its storage, identifiers and all.\<close>

lemma reconnects_keeps:
  assumes "reconnects ne w0 s w" and "\<not> nc_locked (cw_client w0)"
  shows "keeps_storage (cw_storage w0) (nc_attached (cw_client w0)) w \<and> \<not> nc_locked (cw_client w)"
  using assms(1)
proof (induction rule: reconnects.induct)
  case (closes s r s' w')
  show ?case
    using close_leaves_use [OF assms(2) closes] lock_unlocked [OF assms(2) closes [unfolded client_on_close_def]] by blast
next
  case (ticks s w r s' w')
  let ?I = "keeps_storage (cw_storage w0) (nc_attached (cw_client w0))"
  have "io_to ?I (client_tick ne) ?I" unfolding client_tick_def by (rule to_lock [OF update_keeps_storage]) simp_all
  from io_toD [OF this _ ticks(2)] ticks(3) lock_unlocked [OF _ ticks(2) [unfolded client_tick_def]] show ?case by blast
next
  case (connects s w r s' w')
  from io_toD [OF connect_keeps_storage _ connects(2)] connects(3)
    lock_unlocked [OF _ connects(2) [unfolded client_on_connect_def]] show ?case by blast
qed

text \<open>
  C35 A client that reconnects mixes up entries. Between the loss of the connection and the next handshake
  nothing of the client clears the identifiers of its storage. When the server has started anew and introduces
  another entry under an identifier that the client has from before, the client writes the value into the old
  entry, and shows nothing for the one that it was told.
\<close>

theorem reconnecting_client_mixes_entries:
  assumes "reconnects ne w0 s w" and "\<not> nc_locked (cw_client w0)" and "nc_attached (cw_client w0)"
    and "storage_ok (cw_storage w0)" and "st_ids (cw_storage w0) i = Some h" and "st_paths (cw_storage w0) old = Some h"
    and "st_paths (cw_storage w0) n = None" and "card (dom (st_paths (cw_storage w0))) < entry_capacity"
    and "length n < 255" and "faithful c" and "length (wire_content c) < 1000"
    and "takes (Some c) (register_under old (cw_storage w0))" and "0 < now" and "now < 2 ^ 63"
  shows "\<exists>w'. client_receives ne' (map (frame_of index) (introduction now (Some c) (i, n))) s w = (Inr (), s, w') \<and>
     shown old (cw_storage w') = overwritten (now, c) (shown old (cw_storage w0)) \<and>
     st_paths (cw_storage w') n \<noteq> None \<and> shown n (cw_storage w') = (0, None)"
proof -
  let ?st = "cw_storage w0"
  have w: "cw_storage w = ?st" "nc_attached (cw_client w)" "\<not> nc_locked (cw_client w)"
    using reconnects_keeps [OF assms(1,2)] assms(3) by (simp_all add: keeps_storage_def)
  from assign_id [where n = n and i = i, OF assms(4,8)] obtain k r st1 where
    a: "on_entry_id_assigned i n ?st = (Inr (), st1)" "storage_ok st1" "st_paths st1 = (st_paths ?st)(n \<mapsto> k)"
      "st_ids st1 = st_ids ?st" "view k st1 = Some (0, None)"
      "\<forall>m. m \<noteq> n \<longrightarrow> register_under m st1 = register_under m ?st"
    using assms(5,7) by (auto simp: map_emplace_def register_under_def)
  have ne: "old \<noteq> n" using assms(6,7) by auto
  then have p: "st_paths st1 old = Some h" using a(3) assms(6) by simp
  have kh: "k \<noteq> h" using storage_okD(5) [OF a(2) p] storage_okD(5) [OF a(2), of n k] a(3) ne by auto
  obtain d where "ht_lookup (st_entries st1) h = Some d" using storage_okD(5) [OF a(2) p] by blast
  then obtain q where q: "view h st1 = Some q" by (simp add: view_def)
  have "register_under old ?st = register_under old st1" using a(6) ne by simp
  then have reg: "register_under old ?st = Some q" using p q by (simp add: register_under_def)
  have k1: "net_clean (N_assign i n)" "length (net_body (N_assign i n)) < 1024"
    and k2: "net_clean (N_update now i c)" "length (net_body (N_update now i c)) < 1024"
    using assms(9-11,13,14) by (simp_all add: wire_str_def ms_ok_def)
  from client_receives_message [OF k1 w(3,2), of ne' index "[frame_of index (N_update now i c)]" s] obtain w1 where
    w1: "client_receives ne' [frame_of index (N_assign i n), frame_of index (N_update now i c)] s w =
        client_receives ne' [frame_of index (N_update now i c)] s w1"
    "cw_storage w1 = st1" "\<not> nc_locked (cw_client w1)" "nc_attached (cw_client w1)" using a(1) w(1) by auto
  from client_receives_message [OF k2 w1(3,4), of ne' index "[]" s] obtain v tm w2 where
    w2: "client_receives ne' [frame_of index (N_update now i c)] s w1 = (Inr (), s, w2)" "content_of v = Some c"
      "cw_storage w2 = snd (on_entry_updated tm i v now st1)" using w1(2) by auto
  have "accepts_type (v_type v) q"
    using assms(12) reg content_type_of [OF w2(2)] by (simp add: takes_def value_get_type_def)
  from set_entry_view [OF a(2) q _ this, of now tm i False] assms(13) obtain st2 where
    st2: "set_entry_internal tm h v False i False now st1 = (Inr (), st2)"
      "view h st2 = Some (lww_write (now, v) q)" "\<forall>k. k \<noteq> h \<longrightarrow> view k st2 = view k st1" by auto
  have p2: "st_paths st2 = st_paths st1"
    using set_entry_internal_paths [of tm h v False i False now st1] st2(1) by simp
  have cw: "cw_storage w2 = st2" using w2(3) a(4) assms(5) st2(1) by (simp add: on_entry_updated_def)
  have "shown old st2 = overwritten (now, c) (shown old ?st)"
    using p p2 st2(2) reg by (simp add: shown_def register_under_def seen_write [OF w2(2)])
  moreover have "shown n st2 = (0, None)" "st_paths st2 n \<noteq> None"
    using a(3,5) p2 st2(3) kh by (simp_all add: shown_def register_under_def seen_def)
  ultimately show ?thesis using w1(1) w2(1) cw by (intro exI [of _ w2]) (simp add: introduction_def)
qed

lemma networked_paths: "st_paths networked_storage = [''/a/x'' \<mapsto> 0]"
  by (simp add: networked_storage_def on_entry_id_assigned_def find_or_create_def ht_get_lookup
      one_entry_storage_eq put_entry_def)

theorem reconnecting_client_mixes_entries_witness:
  "\<exists>s1 w1 s2 w2 s w w'.
     client_on_close closed_network idle_io \<lparr>cw_client = opening_client\<lparr>nc_state := cs_in_use\<rparr>,
        cw_storage = networked_storage, cw_out = ()\<rparr> = (Inr (), s1, w1) \<and>
     client_tick closed_network s1 w1 = (fst (client_tick closed_network s1 w1), s2, w2) \<and>
     client_on_connect closed_network s2 w2 = (fst (client_on_connect closed_network s2 w2), s, w) \<and>
     client_receives closed_network (map (frame_of 1) (introduction 5000 (Some (C_int32 9)) (3, ''/b''))) s w = (Inr (), s, w') \<and>
     shown ''/a/x'' (cw_storage w') = (5000, Some (C_int32 9)) \<and> shown ''/b'' (cw_storage w') = (0, None)"
proof -
  let ?w0 = "\<lparr>cw_client = opening_client\<lparr>nc_state := cs_in_use\<rparr>, cw_storage = networked_storage, cw_out = ()\<rparr>
     :: (string, unit) client_world"
  have w0: "\<not> nc_locked (cw_client ?w0)" "nc_attached (cw_client ?w0)" "cw_storage ?w0 = networked_storage"
    by (simp_all add: opening_client_def net_client_new_def)
  obtain s1 w1 where 1: "client_on_close closed_network idle_io ?w0 = (Inr (), s1, w1)"
    by (simp add: client_on_close_def client_lock_def with_lock_def io_defs client_helpers world_defs lift_call_def
        closed_network_def opening_client_def net_client_new_def)
  obtain r2 s2 w2 where 2: "client_tick closed_network s1 w1 = (r2, s2, w2)" by (rule prod_cases3)
  obtain r3 s w where 3: "client_on_connect closed_network s2 w2 = (r3, s, w)" by (rule prod_cases3)
  have run: "reconnects closed_network ?w0 s w"
    by (rule reconnects.connects [OF reconnects.ticks [OF reconnects.closes [OF 1] 2] 3])
  have r: "register_under ''/a/x'' networked_storage = Some (0, None)"
    by (simp add: register_under_def networked_paths networked_simps)
  then have sh: "takes (Some (C_int32 9)) (register_under ''/a/x'' networked_storage)"
    "overwritten (5000, C_int32 9) (shown ''/a/x'' networked_storage) = (5000, Some (C_int32 9))"
    by (simp_all add: takes_def accepts_type_def shown_def overwritten_def seen_def)
  have c: "faithful (C_int32 9)" "length (wire_content (C_int32 9)) < 1000"
    by (simp_all add: faithful_def)
  from reconnecting_client_mixes_entries [where n = "''/b''" and old = "''/a/x''" and i = 3 and h = 0 and now = 5000
      and ne' = closed_network and index = 1, OF run w0(1,2) _ _ _ _ _ _ c]
    1 2 3 sh networked_ok networked_simps(1) show ?thesis by (auto simp: networked_paths entry_capacity_def)
qed

end
