(* ===== verification/Obsr_Transport.thy ===== *)
theory Obsr_Transport
  imports Obsr_Join
begin

text \<open>
  From a queue to the other side: the messages that a queue sends through its connection are a stream of frames,
  and a client that the stream reaches does what the messages say, one after the other.
\<close>

section \<open>Sending\<close>

text \<open>The frames of messages that a connection sends, from an index on.\<close>

fun frames_from :: "u32 \<Rightarrow> net_message list \<Rightarrow> (message_header \<times> bytes) list" where
  "frames_from i [] = []"
| "frames_from i (k # ks) = frame_of i k # frames_from (i + 1) ks"

definition frames_length :: "net_message list \<Rightarrow> nat" where
  "frames_length ks = (\<Sum>k\<leftarrow>ks. header_size + length (net_body k))"

lemma frames_length_simps [simp]:
  "frames_length [] = 0" "frames_length (k # ks) = header_size + length (net_body k) + frames_length ks"
  by (simp_all add: frames_length_def)

text \<open>A looper that takes every request.\<close>

definition willing :: "('s, 'w) io_env \<Rightarrow> bool" where
  "willing env \<longleftrightarrow> (\<forall>h ev t w. fst (lo_request env h ev t w) = Inr ())"

lemma message_is_written:
  assumes "willing env" and "circ_ok (so_write s)" and "header_size + length (net_body k) \<le> circ_room (so_write s)"
  shows "\<exists>s' w'. io_destination env (mt_byte (net_type k)) (net_body k) (s, w) = (Inr True, (s', w')) \<and>
     circ_ok (so_write s') \<and> cb_size (so_write s') = cb_size (so_write s) \<and> so_next_index s' = so_next_index s + 1 \<and>
     circ_content (so_write s') = circ_content (so_write s) @ stream_of [frame_of (so_next_index s) k]"
proof -
  obtain w' where w': "lo_request env (so_handle s) event_out eu_append w = (Inr (), w')"
    using assms(1) by (metis prod.collapse willing_def)
  from io_write_room [OF assms(2,3), where env = env and t = "mt_byte (net_type k)" and w = w] obtain b where
    "circ_ok b" "cb_size b = cb_size (so_write s)"
    "circ_content b = circ_content (so_write s) @ frame_bytes (next_header (so_next_index s) (mt_byte (net_type k)) (length (net_body k))) (net_body k)"
    "io_write env (mt_byte (net_type k)) (net_body k) s w =
       io_then (on_handle (\<lambda>h. lo_request env h event_out eu_append)) (\<lambda>_. io_return True)
         (s\<lparr>so_write := b, so_next_index := so_next_index s + 1\<rparr>) w" by blast
  with w' show ?thesis
    by (simp add: io_destination_def io_defs stream_of_def frame_of_def message_frame_def)
qed

lemma drain_sends:
  assumes "willing env"
  shows "list_all2 stands_for ms ks \<Longrightarrow> \<forall>k\<in>set ks. net_clean k \<and> length (net_body k) \<le> writer_buffer_size \<Longrightarrow>
     linear_sized writer_buffer_size u \<Longrightarrow> circ_ok (so_write s) \<Longrightarrow> frames_length ks \<le> circ_room (so_write s) \<Longrightarrow>
     \<exists>u' s' w'. drain (io_destination env) ms u (s, w) = (Inr (), [], u', (s', w')) \<and>
       circ_ok (so_write s') \<and> cb_size (so_write s') = cb_size (so_write s) \<and>
       circ_content (so_write s') = circ_content (so_write s) @ stream_of (frames_from (so_next_index s) ks)"
proof (induction arbitrary: u s w rule: list_all2_induct)
  case Nil
  then show ?case by (simp add: stream_of_def)
next
  case (Cons m ms k ks)
  have k: "net_small k" "length (net_body k) \<le> writer_buffer_size" using Cons.prems(1) net_clean_small by simp_all
  from write_message_fits [OF Cons(1) k Cons.prems(2), of "io_destination env" "(s, w)"] obtain u1 where
    u1: "linear_sized writer_buffer_size u1" "write_message (io_destination env) m u (s, w) =
       (case io_destination env (mt_byte (net_type k)) (net_body k) (s, w) of (r, sw) \<Rightarrow> (r, u1, sw))" by blast
  have "header_size + length (net_body k) \<le> circ_room (so_write s)" using Cons.prems(4) by simp
  from message_is_written [OF assms Cons.prems(3) this] obtain s1 w1 where
    1: "io_destination env (mt_byte (net_type k)) (net_body k) (s, w) = (Inr True, (s1, w1))" "circ_ok (so_write s1)"
      "cb_size (so_write s1) = cb_size (so_write s)" "so_next_index s1 = so_next_index s + 1"
      "circ_content (so_write s1) = circ_content (so_write s) @ stream_of [frame_of (so_next_index s) k]" by blast
  have "length (stream_of [frame_of (so_next_index s) k]) = header_size + length (net_body k)"
    by (simp add: stream_of_def frame_bytes_def frame_of_def message_frame_def)
  then have "frames_length ks \<le> circ_room (so_write s1)"
    using Cons.prems(4) 1(3,5) by (simp add: circ_room_def)
  from Cons.IH [OF _ u1(1) 1(2) this, of w1] Cons.prems(1) obtain u' s' w' where
    "drain (io_destination env) ms u1 (s1, w1) = (Inr (), [], u', (s', w'))"
    "circ_ok (so_write s')" "cb_size (so_write s') = cb_size (so_write s1)"
    "circ_content (so_write s') = circ_content (so_write s1) @ stream_of (frames_from (so_next_index s1) ks)" by auto
  with u1(2) 1 show ?case by (simp add: stream_of_def)
qed

section \<open>Receiving\<close>

text \<open>The effect of messages on a storage, one after the other, each with a value that it carries and a time.\<close>

fun applied :: "net_message list \<Rightarrow> 'c storage \<Rightarrow> 'c storage \<Rightarrow> bool" where
  "applied [] st st' \<longleftrightarrow> st' = st"
| "applied (k # ks) st st' \<longleftrightarrow> (\<exists>v tm. valued k v \<and> applied ks (storage_after k v tm st) st')"

lemma reader_ok_message: "reader_ok m \<Longrightarrow> length (rd_message (sm_data m)) = 1024"
  by (simp add: reader_ok_def message_buffer_size_def)

lemma client_gets_message:
  assumes r: "reading (so_reader s)" "undelivered (so_reader s) = stream_of [frame_of i k] @ rest"
    and k: "net_clean k" "length (net_body k) < 1024" and w: "\<not> nc_locked (cw_client w)" "nc_attached (cw_client w)"
  shows "\<exists>m v tm w'. process_new_data (client_env ne) s w = process_new_data (client_env ne) (s\<lparr>so_reader := m\<rparr>) w' \<and>
     reading m \<and> undelivered m = rest \<and> valued k v \<and> cw_storage w' = storage_after k v tm (cw_storage w) \<and>
     \<not> nc_locked (cw_client w') \<and> nc_attached (cw_client w') \<and>
     nc_state (cw_client w') = client_state_after k (nc_state (cw_client w))"
proof -
  let ?h = "fst (frame_of i k)"
  have frame: "frame_of i k = (?h, net_body k)" using frame_message(1) [OF k(2), of i] by (metis prod.collapse)
  have good: "good_frame (?h, net_body k)"
    using message_frame_good [OF k(2), of i "mt_byte (net_type k)"] by (simp add: frame_of_def [symmetric] frame [symmetric])
  have "undelivered (so_reader s) = frame_bytes ?h (net_body k) @ rest"
    using r(2) frame_message(1) [OF k(2), of i] by (simp add: stream_of_def)
  from reader_whole_frame [OF r(1) this good] obtain m where m: "reader_process (so_reader s) = Some (Inr (), m)"
    "is_finished m" "\<not> is_errored m" "rd_header (sm_data m) = ?h" "take (length (net_body k)) (rd_message (sm_data m)) = net_body k"
    "circ_content (rr_buffer m) = rest" "reader_ok m" by blast
  have "length (net_body k) \<le> length (rd_message (sm_data m))" using reader_ok_message [OF m(7)] k(2) by simp
  from client_does_message [OF k(1) m(5) this frame_message(3) [OF k(2)] w, of ne i "s\<lparr>so_reader := m\<rparr>"] obtain v tm w' where
    w': "client_on_message ne ?h (rd_message (sm_data m)) (length (net_body k)) (s\<lparr>so_reader := m\<rparr>) w =
        (Inr (), s\<lparr>so_reader := m\<rparr>, w')" "valued k v" "cw_storage w' = storage_after k v tm (cw_storage w)"
      "\<not> nc_locked (cw_client w')" "nc_attached (cw_client w')"
      "nc_state (cw_client w') = client_state_after k (nc_state (cw_client w))" by blast
  have "process_new_data (client_env ne) s w = process_new_data (client_env ne) (s\<lparr>so_reader := reader_reset m\<rparr>) w'"
    using m frame_message(2) [OF k(2), of i] w'(1)
    by (subst process_new_data.simps) (simp add: io_defs client_env_def lift_env_def)
  with reader_reset_reading [OF m(7)] m(6) w' show ?thesis by blast
qed

lemma client_gets_stream:
  "reading (so_reader s) \<Longrightarrow> undelivered (so_reader s) = stream_of (frames_from i ks) \<Longrightarrow>
   \<forall>k\<in>set ks. net_clean k \<and> length (net_body k) < 1024 \<Longrightarrow> \<not> nc_locked (cw_client w) \<Longrightarrow> nc_attached (cw_client w) \<Longrightarrow>
   \<exists>m w'. process_new_data (client_env ne) s w = Some (Inr (), s\<lparr>so_reader := m\<rparr>, w') \<and>
     reading m \<and> undelivered m = [] \<and> applied ks (cw_storage w) (cw_storage w') \<and>
     nc_state (cw_client w') = fold client_state_after ks (nc_state (cw_client w))"
proof (induction ks arbitrary: s w i)
  case Nil
  have "good_frame (message_frame 0 0 [])" by (rule message_frame_good) simp
  then have f: "good_frame (fst (message_frame 0 0 []), snd (message_frame 0 0 []))" by simp
  have "undelivered (so_reader s) @ frame_bytes (fst (message_frame 0 0 [])) (snd (message_frame 0 0 [])) =
      frame_bytes (fst (message_frame 0 0 [])) (snd (message_frame 0 0 []))" using Nil(2) by (simp add: stream_of_def)
  from reader_part_of_frame [OF Nil(1) this frame_not_empty f] obtain m where
    "reader_process (so_reader s) = Some (Inr (), m)" "\<not> is_finished m" "\<not> is_errored m" "reading m"
    "undelivered m = undelivered (so_reader s)" by blast
  then show ?case using Nil(2) by (subst process_new_data.simps) (auto simp: stream_of_def)
next
  case (Cons k ks)
  have "undelivered (so_reader s) = stream_of [frame_of i k] @ stream_of (frames_from (i + 1) ks)"
    using Cons.prems(2) by (simp add: stream_of_def)
  from client_gets_message [OF Cons.prems(1) this _ _ Cons.prems(4,5), of ne] Cons.prems(3) obtain m v tm w1 where
    1: "process_new_data (client_env ne) s w = process_new_data (client_env ne) (s\<lparr>so_reader := m\<rparr>) w1"
      "reading m" "undelivered m = stream_of (frames_from (i + 1) ks)" "valued k v"
      "cw_storage w1 = storage_after k v tm (cw_storage w)" "\<not> nc_locked (cw_client w1)" "nc_attached (cw_client w1)"
      "nc_state (cw_client w1) = client_state_after k (nc_state (cw_client w))" by auto
  from Cons.IH [of "s\<lparr>so_reader := m\<rparr>" "i + 1" w1] 1 Cons.prems(3) show ?case by force
qed


text \<open>A queue with a name and a value, sent by a fresh connection and received over another.\<close>

definition greeting :: message_queue where
  "greeting = \<lparr>mq_serializer = message_serializer_new (\<lambda>_. 0),
     mq_outgoing = [out_entry_id_assign 3 ''/a/x'', out_entry_update 50 3 (make_int32 9)]\<rparr>"


end
