(* ===== verification/Obsr_Dialogue.thy ===== *)
theory Obsr_Dialogue
  imports Obsr_Transport
begin

text \<open>
  The dialogue of the handshake, from the answer to the client's question for the time to the point where both
  sides count the connection as in use.
\<close>

lemma client_receives_all:
  "\<forall>k\<in>set ks. net_clean k \<and> length (net_body k) < 1024 \<Longrightarrow> \<not> nc_locked (cw_client w) \<Longrightarrow> nc_attached (cw_client w) \<Longrightarrow>
   \<exists>w'. client_receives ne (map (frame_of index) ks) s w = (Inr (), s, w') \<and>
     nc_state (cw_client w') = fold client_state_after ks (nc_state (cw_client w))"
proof (induction ks arbitrary: w)
  case (Cons k ks)
  from client_receives_message [of k w ne index "map (frame_of index) ks" s] Cons.prems obtain w1 where
    "client_receives ne (map (frame_of index) (k # ks)) s w = client_receives ne (map (frame_of index) ks) s w1"
    "\<not> nc_locked (cw_client w1)" "nc_attached (cw_client w1)"
    "nc_state (cw_client w1) = client_state_after k (nc_state (cw_client w))" by auto
  with Cons.IH [of w1] Cons.prems(1) show ?case by simp
qed simp

lemma introduction_messages:
  assumes "transferable st e" and "0 < now" and "now < 2 ^ 63" and "k \<in> set (introduction now (content_at st (fst e)) e)"
  shows "net_clean k \<and> length (net_body k) < 1024 \<and> client_state_after k = id"
proof -
  have "length (snd e) < 255" using assms(1) by (simp add: transferable_def)
  with assms(2-4) transferable_content [OF assms(1)] show ?thesis
    by (cases "content_at st (fst e)") (auto simp: introduction_def ms_ok_def wire_str_def fun_eq_iff)
qed

lemma fold_same: "\<forall>k\<in>set ks. f k = id \<Longrightarrow> fold f ks x = x"
  by (induction ks) auto

text \<open>
  C6 The handshake comes to its end. A client that waits for the time and is answered asks the server for what there
  is; the server, when that message gets to it, counts the client as in use and queues for it messages of
  the protocol, the last of which says that this is all; and when the client has got them it is in use as well.
\<close>

theorem handshake_completes:
  assumes "nc_state (cw_client cw) = cs_in_handshake_time_sync" and "\<not> nc_locked (cw_client cw)" and "nc_attached (cw_client cw)"
    and "ms_ok t" and "ms_ok u"
    and "map_of (ns_clients (sw_server w)) j = Some c" and "sc_outgoing c = []" and "sc_published c = {}"
    and "\<not> ns_locked (sw_server w)" and "ns_attached (sw_server w)"
    and "distinct (map fst (ns_ids (sw_server w)))" and "\<forall>e\<in>set (ns_ids (sw_server w)). transferable (sw_storage w) e"
    and "ne_times ne (sw_out w) = (tm, out')" and "now = clock_now (st_clock (sw_storage w)) (tm 0)"
    and "0 < now" and "now < 2 ^ 63"
  shows "\<exists>cw1 m w' c' ks cw2.
     client_receives ne' [frame_of index (N_response t u)] s cw = (Inr (), s, cw1) \<and>
     nc_state (cw_client cw1) = cs_in_handshake \<and> queued cw1 = queued cw @ [m] \<and> stands_for m N_ready \<and>
     server_on_message ne block j (fst (frame_of index N_ready)) (snd (frame_of index N_ready))
       (unat (mh_size (fst (frame_of index N_ready)))) w = (Inr (), w') \<and>
     map_of (ns_clients (sw_server w')) j = Some c' \<and> sc_state c' = sc_in_use \<and>
     list_all2 stands_for (sc_outgoing c') (ks @ [N_finished]) \<and>
     client_receives ne' (map (frame_of index) (ks @ [N_finished])) s cw1 = (Inr (), s, cw2) \<and>
     nc_state (cw_client cw2) = cs_in_use"
proof -
  let ?ids = "ns_ids (sw_server w)" and ?st = "sw_storage w"
  let ?ks = "concat (map (\<lambda>e. introduction now (content_at ?st (fst e)) e) ?ids)"
  have k: "net_clean (N_response t u)" "length (net_body (N_response t u)) < 1024" using assms(4,5) by simp_all
  from client_does_message [OF k(1) _ _ frame_message(3) [OF k(2)] assms(2,3), of _ "net_body (N_response t u)" ne' index s]
  obtain cw1 where 1: "client_receives ne' [frame_of index (N_response t u)] s cw = (Inr (), s, cw1)"
    "nc_state (cw_client cw1) = cs_in_handshake" "queued cw1 = queued cw @ [out_handshake_ready]"
    "\<not> nc_locked (cw_client cw1)" "nc_attached (cw_client cw1)"
    using assms(1) frame_message(1,2) [OF k(2), of index] by (auto simp del: net_body.simps)
  have r: "length (net_body N_ready) < 1024" "net_clean N_ready" by simp_all
  from server_on_message_dispatches [OF r(2) _ _ frame_message(3) [OF r(1)] assms(9), of _ "net_body N_ready" ne block j index]
  obtain p where p: "server_on_message ne block j (fst (frame_of index N_ready)) (snd (frame_of index N_ready))
       (unat (mh_size (fst (frame_of index N_ready)))) w =
      (case handle_do_handshake_for_client ne j (w\<lparr>sw_server := (sw_server w)\<lparr>ns_locked := True, ns_parser := p\<rparr>\<rparr>) of
         (r, w) \<Rightarrow> (r, w\<lparr>sw_server := (sw_server w)\<lparr>ns_locked := False\<rparr>\<rparr>))"
    using frame_message(1,2) [OF r(1), of index] by (auto simp: server_dispatch_def)
  let ?w = "w\<lparr>sw_server := (sw_server w)\<lparr>ns_locked := True, ns_parser := p\<rparr>\<rparr>"
  have known: "\<not> is_known i c" for i using assms(8) by (simp add: is_known_def)
  have "map_of (ns_clients (sw_server ?w)) j = Some c" "ns_attached (sw_server ?w)" "distinct (map fst (ns_ids (sw_server ?w)))"
    "ne_times ne (sw_out ?w) = (tm, out')" "now = clock_now (st_clock (sw_storage ?w)) (tm 0)" using assms by simp_all
  from handshake_effect [OF this] known assms(7) obtain w1 c' where
    2: "handle_do_handshake_for_client ne j ?w = (Inr (), w1)" "map_of (ns_clients (sw_server w1)) j = Some c'"
      "sc_outgoing c' = concat (map (introduces now ?st) ?ids) @ [out_handshake_finished]" "sc_state c' = sc_in_use" by auto
  have 3: "list_all2 stands_for (sc_outgoing c') (?ks @ [N_finished])"
    using introductions_stand [OF assms(12)]
    by (auto simp: 2(3) out_handshake_finished_def out_message_new_def intro: list_all2_appendI)
  have ks: "net_clean k \<and> length (net_body k) < 1024 \<and> client_state_after k = id" if "k \<in> set ?ks" for k
  proof -
    from that obtain e where "e \<in> set ?ids" "k \<in> set (introduction now (content_at ?st (fst e)) e)" by auto
    with introduction_messages [OF _ assms(15,16)] assms(12) show ?thesis by blast
  qed
  then have "\<forall>k\<in>set (?ks @ [N_finished]). net_clean k \<and> length (net_body k) < 1024" by auto
  from client_receives_all [OF this 1(4,5), of ne' index s] obtain cw2 where
    4: "client_receives ne' (map (frame_of index) (?ks @ [N_finished])) s cw1 = (Inr (), s, cw2)"
      "nc_state (cw_client cw2) = fold client_state_after (?ks @ [N_finished]) (nc_state (cw_client cw1))" by blast
  have "nc_state (cw_client cw2) = cs_in_use" using 4(2) by simp
  moreover have "stands_for out_handshake_ready N_ready" by (simp add: out_handshake_ready_def out_message_new_def)
  ultimately show ?thesis using 1(1-3) p 2 3 4(1)
    by (intro exI [of _ cw1] exI [of _ out_handshake_ready] exI [of _ "w1\<lparr>sw_server := (sw_server w1)\<lparr>ns_locked := False\<rparr>\<rparr>"]
        exI [of _ c'] exI [of _ ?ks] exI [of _ cw2]) (simp del: map_append)
qed

theorem handshake_completes_witness:
  "\<exists>cw1 m w' c' ks cw2.
     client_receives closed_network [frame_of 7 (N_response 5000 4000)] idle_io
       \<lparr>cw_client = opening_client\<lparr>nc_state := cs_in_handshake_time_sync\<rparr>, cw_storage = no_entries, cw_out = ()\<rparr> =
       (Inr (), idle_io, cw1) \<and> queued cw1 = [m] \<and> stands_for m N_ready \<and>
     server_on_message sample_network (\<lambda>_. 0) 1 (fst (frame_of 7 N_ready)) (snd (frame_of 7 N_ready))
       (unat (mh_size (fst (frame_of 7 N_ready))))
       (sample_world\<lparr>sw_storage := served_storage, sw_server := sample_server\<lparr>ns_ids := [(3, ''/a/x'')]\<rparr>\<rparr>) = (Inr (), w') \<and>
     map_of (ns_clients (sw_server w')) 1 = Some c' \<and> sc_state c' = sc_in_use \<and>
     list_all2 stands_for (sc_outgoing c') (ks @ [N_finished]) \<and>
     client_receives closed_network (map (frame_of 7) (ks @ [N_finished])) idle_io cw1 = (Inr (), idle_io, cw2) \<and>
     nc_state (cw_client cw2) = cs_in_use"
proof -
  let ?w = "sample_world\<lparr>sw_storage := served_storage, sw_server := sample_server\<lparr>ns_ids := [(3, ''/a/x'')]\<rparr>\<rparr>"
  let ?cw = "\<lparr>cw_client = opening_client\<lparr>nc_state := cs_in_handshake_time_sync\<rparr>, cw_storage = no_entries, cw_out = ()\<rparr>
     :: (string, unit) client_world"
  have v: "content_of (make_int32 9) = Some (C_int32 9)" by code_simp
  have send: "transferable served_storage (3, ''/a/x'')" by (simp add: transferable_def served_simps v faithful_def)
  have now: "clock_now clock_new 5000 = 5000" by (simp add: clock_now_def clock_new_def)
  have cw: "nc_state (cw_client ?cw) = cs_in_handshake_time_sync" "\<not> nc_locked (cw_client ?cw)" "nc_attached (cw_client ?cw)"
    "queued ?cw = []" by (simp_all add: opening_client_def net_client_new_def queued_def message_queue_new_def)
  have t: "ms_ok 5000" "ms_ok 4000" by (simp_all add: ms_ok_def)
  have w: "map_of (ns_clients (sw_server ?w)) 1 = Some (server_client_new (\<lambda>_. 0))" "\<not> ns_locked (sw_server ?w)"
    "ns_attached (sw_server ?w)" "ns_ids (sw_server ?w) = [(3, ''/a/x'')]" "sw_storage ?w = served_storage"
    "ne_times sample_network (sw_out ?w) = (\<lambda>_. 5000, ())"
    by (simp_all add: sample_network_def)
  have c: "sc_outgoing (server_client_new (\<lambda>_. 0)) = []" "sc_published (server_client_new (\<lambda>_. 0)) = {}" by simp_all
  have ids: "distinct (map fst (ns_ids (sw_server ?w)))" "\<forall>e\<in>set (ns_ids (sw_server ?w)). transferable (sw_storage ?w) e"
    using send by (simp_all add: w(4,5))
  have pos: "0 < clock_now (st_clock (sw_storage ?w)) ((\<lambda>_. 5000) (0 :: nat))"
    "clock_now (st_clock (sw_storage ?w)) ((\<lambda>_. 5000) (0 :: nat)) < 2 ^ 63" using now served_simps(1) by simp_all
  show ?thesis
    using handshake_completes [where index = 7 and ne' = closed_network and s = idle_io and block = "\<lambda>_. 0",
        OF cw(1-3) t w(1) c w(2,3) ids w(6) refl pos]
    unfolding cw(4) append_Nil by blast
qed

end
