(* ===== verification/Obsr_Cells.thy ===== *)
theory Obsr_Cells
  imports Obsr_Transport
begin

text \<open>
  The protocol on one entry, without the storages around it: a cell is what the entry shows and whether it is to
  be published. The server and its clients each have one, and a queue of updates goes from every client to the
  server and one back.
\<close>

type_synonym change = "milliseconds \<times> content"
type_synonym shown_value = "milliseconds \<times> content option"

text \<open>A client is named by its identifier, the server is \<open>None\<close>.\<close>

record cells =
  ce_reg :: "u16 option \<Rightarrow> shown_value"
  ce_dirty :: "u16 option \<Rightarrow> bool"
  ce_up :: "u16 \<Rightarrow> change list"
  ce_down :: "u16 \<Rightarrow> change list"

definition nodes :: "u16 set \<Rightarrow> u16 option set" where
  "nodes J = insert None (Some ` J)"

definition queued_changes :: "u16 set \<Rightarrow> cells \<Rightarrow> change set" where
  "queued_changes J s = (\<Union>j\<in>J. set (ce_up s j) \<union> set (ce_down s j))"

definition whole :: "change \<Rightarrow> shown_value" where
  "whole u = (fst u, Some (snd u))"

text \<open>What there is of the entry anywhere.\<close>

definition copies :: "u16 set \<Rightarrow> cells \<Rightarrow> shown_value set" where
  "copies J s = ce_reg s ` nodes J \<union> whole ` queued_changes J s"

text \<open>What happens to a cell and the queues.\<close>

definition user_set :: "u16 option \<Rightarrow> shown_value \<Rightarrow> cells \<Rightarrow> cells" where
  [simp]: "user_set x a s = s\<lparr>ce_reg := (ce_reg s)(x := a), ce_dirty := (ce_dirty s)(x := True)\<rparr>"

definition client_published :: "u16 \<Rightarrow> change \<Rightarrow> cells \<Rightarrow> cells" where
  [simp]: "client_published j u s =
     s\<lparr>ce_dirty := (ce_dirty s)(Some j := False), ce_up := (ce_up s)(j := ce_up s j @ [u])\<rparr>"

definition server_published :: "u16 set \<Rightarrow> change \<Rightarrow> cells \<Rightarrow> cells" where
  [simp]: "server_published J u s =
     s\<lparr>ce_dirty := (ce_dirty s)(None := False),
       ce_down := (\<lambda>k. if k \<in> J then ce_down s k @ [u] else ce_down s k)\<rparr>"

definition takes_change :: "u16 option \<Rightarrow> change \<Rightarrow> cells \<Rightarrow> cells" where
  [simp]: "takes_change x u s =
     s\<lparr>ce_reg := (ce_reg s)(x := overwritten u (ce_reg s x)),
       ce_dirty := (ce_dirty s)(x := ce_dirty s x \<and> fst (ce_reg s x) > fst u)\<rparr>"

definition server_got :: "u16 set \<Rightarrow> u16 \<Rightarrow> change \<Rightarrow> change list \<Rightarrow> cells \<Rightarrow> cells" where
  [simp]: "server_got J j u us s =
     (takes_change None u s)\<lparr>ce_up := (ce_up s)(j := us),
       ce_down := (\<lambda>k. if k \<in> J \<and> k \<noteq> j then ce_down s k @ [u] else ce_down s k)\<rparr>"

definition client_got :: "u16 \<Rightarrow> change \<Rightarrow> change list \<Rightarrow> cells \<Rightarrow> cells" where
  [simp]: "client_got j u us s = (takes_change (Some j) u s)\<lparr>ce_down := (ce_down s)(j := us)\<rparr>"

text \<open>A side publishes the entry, or takes a change from a queue; the server passes it on.\<close>

inductive cell_step :: "u16 set \<Rightarrow> cells \<Rightarrow> cells \<Rightarrow> bool" for J where
  client_publishes: "j \<in> J \<Longrightarrow> ce_dirty s (Some j) \<Longrightarrow> ce_reg s (Some j) = whole u \<Longrightarrow>
    cell_step J s (client_published j u s)"
| server_publishes: "ce_dirty s None \<Longrightarrow> ce_reg s None = whole u \<Longrightarrow>
    cell_step J s (server_published J u s)"
| server_gets: "j \<in> J \<Longrightarrow> ce_up s j = u # us \<Longrightarrow>
    cell_step J s (server_got J j u us s)"
| client_gets: "j \<in> J \<Longrightarrow> ce_down s j = u # us \<Longrightarrow>
    cell_step J s (client_got j u us s)"

text \<open>The change that is on its way to a side.\<close>

definition coming :: "u16 set \<Rightarrow> cells \<Rightarrow> u16 option \<Rightarrow> change set" where
  "coming J s x =
     (case x of
        None \<Rightarrow> (\<Union>j\<in>J. set (ce_up s j))
      | Some i \<Rightarrow> set (ce_down s i) \<union> (\<Union>j\<in>J - {i}. set (ce_up s j)))"

text \<open>
  The invariant: time stamps tell the changes apart; what is not yet published is nowhere else; and the latest
  change is known to every side, or on its way to it, or still to be published by the side that made it.
\<close>

definition told_apart :: "u16 set \<Rightarrow> cells \<Rightarrow> bool" where
  "told_apart J s \<longleftrightarrow> inj_on fst (copies J s)"

definition unpublished :: "u16 set \<Rightarrow> cells \<Rightarrow> bool" where
  "unpublished J s \<longleftrightarrow> (\<forall>x\<in>nodes J. ce_dirty s x \<longrightarrow>
     (\<exists>u. ce_reg s x = whole u \<and> u \<notin> queued_changes J s) \<and> (\<forall>y\<in>nodes J. y \<noteq> x \<longrightarrow> ce_reg s y \<noteq> ce_reg s x))"

definition latest :: "u16 set \<Rightarrow> cells \<Rightarrow> shown_value \<Rightarrow> bool" where
  "latest J s a \<longleftrightarrow> (\<forall>b\<in>copies J s. fst b \<le> fst a) \<and>
     (\<forall>x\<in>nodes J. ce_reg s x = a \<or> a \<in> whole ` coming J s x \<or> (\<exists>y\<in>nodes J. ce_dirty s y \<and> ce_reg s y = a))"

definition cells_ok :: "u16 set \<Rightarrow> cells \<Rightarrow> bool" where
  "cells_ok J s \<longleftrightarrow> told_apart J s \<and> unpublished J s \<and> (\<exists>a. latest J s a)"

lemma queues_only [simp]:
  "queued_changes J (s\<lparr>ce_reg := r\<rparr>) = queued_changes J s" "queued_changes J (s\<lparr>ce_dirty := d\<rparr>) = queued_changes J s"
  "coming J (s\<lparr>ce_reg := r\<rparr>) x = coming J s x" "coming J (s\<lparr>ce_dirty := d\<rparr>) x = coming J s x"
  by (simp_all add: queued_changes_def coming_def split: option.split)

lemma whole_inj [simp]: "whole u = whole v \<longleftrightarrow> u = v"
  by (cases u; cases v) (auto simp: whole_def)

lemma fst_whole [simp]: "fst (whole u) = fst u"
  by (simp add: whole_def)

lemma overwritten_cases: "overwritten u a = (if fst a > fst u then a else whole u)"
  by (simp add: overwritten_def whole_def)

text \<open>When nothing is left to do, all sides show the same.\<close>

lemma settled:
  assumes a: "latest J s a" and q: "\<forall>j\<in>J. ce_up s j = [] \<and> ce_down s j = []" "\<forall>x\<in>nodes J. \<not> ce_dirty s x"
    and x: "x \<in> nodes J"
  shows "ce_reg s x = a"
proof -
  have "coming J s x = {}" using x q(1) by (auto simp: coming_def nodes_def)
  with a q(2) x show ?thesis by (auto simp: latest_def)
qed

section \<open>The invariant is kept\<close>

lemma copies_reg: "x \<in> nodes J \<Longrightarrow> ce_reg s x \<in> copies J s"
  by (simp add: copies_def)

lemma copies_queued: "u \<in> queued_changes J s \<Longrightarrow> whole u \<in> copies J s"
  by (simp add: copies_def)

lemma coming_queued: "x \<in> nodes J \<Longrightarrow> u \<in> coming J s x \<Longrightarrow> u \<in> queued_changes J s"
  by (auto simp: coming_def queued_changes_def nodes_def)

lemma latest_copy:
  assumes "latest J s a"
  shows "a \<in> copies J s"
proof -
  have "None \<in> nodes J" by (simp add: nodes_def)
  with assms have "ce_reg s None = a \<or> a \<in> whole ` coming J s None \<or> (\<exists>y\<in>nodes J. ce_dirty s y \<and> ce_reg s y = a)"
    by (auto simp: latest_def)
  then show ?thesis using coming_queued [of None J] copies_reg copies_queued \<open>None \<in> nodes J\<close> by blast
qed

lemma latest_bound: "latest J s a \<Longrightarrow> b \<in> copies J s \<Longrightarrow> fst b \<le> fst a"
  by (simp add: latest_def)

lemma told_apartD: "told_apart J s \<Longrightarrow> a \<in> copies J s \<Longrightarrow> b \<in> copies J s \<Longrightarrow> fst a = fst b \<Longrightarrow> a = b"
  unfolding told_apart_def by (rule inj_onD)

lemma overwritten_latest:
  assumes "latest J s a" and "told_apart J s" and "u \<in> queued_changes J s"
  shows "overwritten u a = a"
proof (cases "fst u < fst a")
  case False
  have u: "whole u \<in> copies J s" using assms(3) by (rule copies_queued)
  with False latest_bound [OF assms(1) u] have "fst (whole u) = fst a" by simp
  then have "whole u = a" by (rule told_apartD [OF assms(2) u latest_copy [OF assms(1)]])
  with False show ?thesis by (simp add: overwritten_cases)
qed (simp add: overwritten_cases)

lemma overwritten_by_latest:
  assumes "latest J s (whole u)" and "b \<in> copies J s"
  shows "overwritten u b = whole u"
  using latest_bound [OF assms] by (simp add: overwritten_cases)

lemma overwritten_copy:
  "u \<in> queued_changes J s \<Longrightarrow> b \<in> copies J s \<Longrightarrow> overwritten u b \<in> copies J s"
  using copies_queued by (auto simp: overwritten_cases)

text \<open>Setting the entry.\<close>

lemma sets_ok:
  assumes ok: "cells_ok J s" and x: "x \<in> nodes J" and t: "fst (ce_reg s x) < t" "t \<notin> fst ` copies J s"
  shows "cells_ok J (user_set x (t, Some c) s)" (is "cells_ok J ?s")
proof -
  have q: "queued_changes J ?s = queued_changes J s" "coming J ?s z = coming J s z" for z by simp_all
  have new: "b \<noteq> (t, Some c)" if "b \<in> copies J s" for b using t(2) that by force
  have sub: "copies J ?s \<subseteq> insert (t, Some c) (copies J s)" by (auto simp: copies_def q)
  have "inj_on fst (insert (t, Some c) (copies J s))"
    using ok t(2) by (auto simp: cells_ok_def told_apart_def)
  then have apart: "told_apart J ?s" using sub inj_on_subset unfolding told_apart_def by blast
  have fresh: "(t, c) \<notin> queued_changes J s" using new copies_queued by (force simp: whole_def)
  have "unpublished J ?s"
    unfolding unpublished_def q
  proof (intro ballI impI)
    fix y
    assume y: "y \<in> nodes J" "ce_dirty ?s y"
    show "(\<exists>u. ce_reg ?s y = whole u \<and> u \<notin> queued_changes J s) \<and> (\<forall>z\<in>nodes J. z \<noteq> y \<longrightarrow> ce_reg ?s z \<noteq> ce_reg ?s y)"
    proof (cases "y = x")
      case True
      then show ?thesis using fresh new copies_reg [of _ J s] by (auto simp: whole_def)
    next
      case False
      with y ok have "(\<exists>u. ce_reg s y = whole u \<and> u \<notin> queued_changes J s) \<and> (\<forall>z\<in>nodes J. z \<noteq> y \<longrightarrow> ce_reg s z \<noteq> ce_reg s y)"
        by (simp add: cells_ok_def unpublished_def)
      with False new [OF copies_reg [OF y(1)]] show ?thesis by auto
    qed
  qed
  moreover have "\<exists>a. latest J ?s a"
  proof -
    obtain a where a: "latest J s a" using ok by (auto simp: cells_ok_def)
    then have le: "fst b \<le> fst a" if "b \<in> copies J s" for b using that by (simp add: latest_def)
    show ?thesis
    proof (cases "fst a < t")
      case True
      have "fst b \<le> t" if "b \<in> copies J ?s" for b using that sub le True by fastforce
      then have "latest J ?s (t, Some c)" using x by (auto simp: latest_def)
      then show ?thesis ..
    next
      case False
      have "t \<noteq> fst a" using t(2) latest_copy [OF a] by auto
      then have lt: "t < fst a" using False by simp
      have nx: "ce_reg s x \<noteq> a" using t(1) lt by auto
      have "fst b \<le> fst a" if "b \<in> copies J ?s" for b using that sub le lt by fastforce
      moreover have "ce_reg ?s z = a \<or> a \<in> whole ` coming J ?s z \<or> (\<exists>y\<in>nodes J. ce_dirty ?s y \<and> ce_reg ?s y = a)"
        if z: "z \<in> nodes J" for z
      proof -
        from a z consider "ce_reg s z = a" | "a \<in> whole ` coming J s z" | y where "y \<in> nodes J" "ce_dirty s y" "ce_reg s y = a"
          unfolding latest_def by blast
        then show ?thesis
        proof cases
          case 3
          then have "y \<noteq> x" using nx by auto
          with 3 show ?thesis by auto
        qed (use nx q in auto)
      qed
      ultimately have "latest J ?s a" by (simp add: latest_def)
      then show ?thesis ..
    qed
  qed
  ultimately show ?thesis using apart by (simp add: cells_ok_def)
qed

text \<open>A side publishes what it has set.\<close>

definition publishing :: "u16 set \<Rightarrow> u16 option \<Rightarrow> change \<Rightarrow> cells \<Rightarrow> cells \<Rightarrow> bool" where
  "publishing J x u s s' \<longleftrightarrow> x \<in> nodes J \<and> ce_dirty s x \<and> ce_reg s x = whole u \<and>
     ce_reg s' = ce_reg s \<and> ce_dirty s' = (ce_dirty s)(x := False) \<and>
     queued_changes J s' \<subseteq> insert u (queued_changes J s) \<and>
     (\<forall>z\<in>nodes J. coming J s z \<subseteq> coming J s' z \<and> (z \<noteq> x \<longrightarrow> u \<in> coming J s' z))"

lemma publishing_copies: "publishing J x u s s' \<Longrightarrow> copies J s' \<subseteq> copies J s"
  using copies_reg [of x J s] by (auto simp: publishing_def copies_def)

lemma publishing_unpublished:
  assumes p: "publishing J x u s s'" and ok: "unpublished J s"
  shows "unpublished J s'"
  unfolding unpublished_def
proof (intro ballI impI)
  fix y
  assume y: "y \<in> nodes J" "ce_dirty s' y"
  then have "y \<noteq> x" "ce_dirty s y" using p by (auto simp: publishing_def split: if_splits)
  then obtain v where v: "ce_reg s y = whole v" "v \<notin> queued_changes J s"
      "\<forall>z\<in>nodes J. z \<noteq> y \<longrightarrow> ce_reg s z \<noteq> ce_reg s y"
    using ok y(1) by (auto simp: unpublished_def)
  then have "v \<noteq> u" using p \<open>y \<noteq> x\<close> by (auto simp: publishing_def)
  with v p show "(\<exists>v. ce_reg s' y = whole v \<and> v \<notin> queued_changes J s') \<and>
      (\<forall>z\<in>nodes J. z \<noteq> y \<longrightarrow> ce_reg s' z \<noteq> ce_reg s' y)" by (auto simp: publishing_def)
qed

lemma latest_cases:
  assumes "latest J s a" and "z \<in> nodes J"
  obtains "ce_reg s z = a" | v where "v \<in> coming J s z" "a = whole v" | y where "y \<in> nodes J" "ce_dirty s y" "ce_reg s y = a"
  using assms unfolding latest_def by blast

lemma publishing_latest:
  assumes p: "publishing J x u s s'" and a: "latest J s a"
  shows "latest J s' a"
  unfolding latest_def
proof (intro conjI ballI)
  fix z
  assume z: "z \<in> nodes J"
  with p have c: "coming J s z \<subseteq> coming J s' z" "z \<noteq> x \<longrightarrow> u \<in> coming J s' z" by (auto simp: publishing_def)
  from a z show "ce_reg s' z = a \<or> a \<in> whole ` coming J s' z \<or> (\<exists>y\<in>nodes J. ce_dirty s' y \<and> ce_reg s' y = a)"
  proof (cases rule: latest_cases)
    case (3 y)
    then show ?thesis using c p by (cases "y = x"; cases "z = x") (auto simp: publishing_def)
  qed (use c p in \<open>auto simp: publishing_def\<close>)
qed (use publishing_copies [OF p] latest_bound [OF a] in auto)

lemma publishing_ok:
  assumes "publishing J x u s s'" and "cells_ok J s"
  shows "cells_ok J s'"
  using assms publishing_copies [OF assms(1)] publishing_unpublished [OF assms(1)] publishing_latest [OF assms(1)] inj_on_subset
  unfolding cells_ok_def told_apart_def by blast

text \<open>A side takes a change from a queue.\<close>

definition taking :: "u16 set \<Rightarrow> u16 option \<Rightarrow> change \<Rightarrow> cells \<Rightarrow> cells \<Rightarrow> bool" where
  "taking J x u s s' \<longleftrightarrow> x \<in> nodes J \<and> u \<in> queued_changes J s \<and>
     ce_reg s' = (ce_reg s)(x := overwritten u (ce_reg s x)) \<and>
     ce_dirty s' = (ce_dirty s)(x := ce_dirty s x \<and> fst (ce_reg s x) > fst u) \<and>
     queued_changes J s' \<subseteq> queued_changes J s \<and>
     (\<forall>z\<in>nodes J. coming J s z \<subseteq> coming J s' z \<union> (if z = x then {u} else {}))"

lemma taking_copies:
  assumes "taking J x u s s'"
  shows "copies J s' \<subseteq> copies J s"
proof -
  have "overwritten u (ce_reg s x) \<in> copies J s"
    using assms overwritten_copy [OF _ copies_reg] by (simp add: taking_def)
  with assms show ?thesis by (auto simp: copies_def taking_def)
qed

lemma taking_unpublished:
  assumes t: "taking J x u s s'" and ok: "unpublished J s"
  shows "unpublished J s'"
  unfolding unpublished_def
proof (intro ballI impI)
  fix y
  assume y: "y \<in> nodes J" "ce_dirty s' y"
  then have dy: "ce_dirty s y" and same: "ce_reg s' y = ce_reg s y"
    using t by (auto simp: taking_def overwritten_cases split: if_splits)
  from dy y(1) ok obtain v where v: "ce_reg s y = whole v" "v \<notin> queued_changes J s"
      "\<forall>z\<in>nodes J. z \<noteq> y \<longrightarrow> ce_reg s z \<noteq> ce_reg s y"
    by (auto simp: unpublished_def)
  then have "v \<noteq> u" using t by (auto simp: taking_def)
  then have "ce_reg s' z \<noteq> ce_reg s' y" if z: "z \<in> nodes J" "z \<noteq> y" for z
    using v(1,3) z same t by (auto simp: taking_def overwritten_cases)
  then show "(\<exists>v. ce_reg s' y = whole v \<and> v \<notin> queued_changes J s') \<and>
      (\<forall>z\<in>nodes J. z \<noteq> y \<longrightarrow> ce_reg s' z \<noteq> ce_reg s' y)"
    using v same t by (auto simp: taking_def)
qed

lemma taking_latest:
  assumes t: "taking J x u s s'" and ok: "told_apart J s" "unpublished J s" and a: "latest J s a"
  shows "latest J s' a"
  unfolding latest_def
proof (intro conjI ballI)
  fix z
  assume z: "z \<in> nodes J"
  have u: "u \<in> queued_changes J s" and x: "x \<in> nodes J" using t by (simp_all add: taking_def)
  have stays: "overwritten u a = a" by (rule overwritten_latest [OF a ok(1) u])
  from a z show "ce_reg s' z = a \<or> a \<in> whole ` coming J s' z \<or> (\<exists>y\<in>nodes J. ce_dirty s' y \<and> ce_reg s' y = a)"
  proof (cases rule: latest_cases)
    case 1
    then show ?thesis using stays t by (auto simp: taking_def)
  next
    case (2 v)
    show ?thesis
    proof (cases "v \<in> coming J s' z")
      case False
      then have "z = x" "v = u" using 2(1) t z by (auto simp: taking_def split: if_splits)
      then show ?thesis using 2(2) a overwritten_by_latest [of J s u] copies_reg [OF x] t by (auto simp: taking_def)
    qed (use 2 in auto)
  next
    case (3 y)
    then have "a \<noteq> whole u" using ok(2) u by (auto simp: unpublished_def)
    then have "fst u < fst a" using stays by (auto simp: overwritten_cases split: if_splits)
    then have "ce_dirty s' y \<and> ce_reg s' y = a" using 3 stays t by (auto simp: taking_def)
    then show ?thesis using 3(1) by blast
  qed
qed (use taking_copies [OF t] latest_bound [OF a] in auto)

lemma taking_ok:
  assumes "taking J x u s s'" and "cells_ok J s"
  shows "cells_ok J s'"
  using assms taking_copies [OF assms(1)] taking_unpublished [OF assms(1)] taking_latest [OF assms(1)] inj_on_subset
  unfolding cells_ok_def told_apart_def by blast

lemma coming_simps:
  "coming J s None = (\<Union>j\<in>J. set (ce_up s j))"
  "coming J s (Some i) = set (ce_down s i) \<union> (\<Union>j\<in>J - {i}. set (ce_up s j))"
  by (simp_all add: coming_def)

lemma in_nodes: "None \<in> nodes J" "Some i \<in> nodes J \<longleftrightarrow> i \<in> J"
  by (auto simp: nodes_def)

lemma in_queued: "u \<in> queued_changes J s \<longleftrightarrow> (\<exists>j\<in>J. u \<in> set (ce_up s j) \<or> u \<in> set (ce_down s j))"
  by (auto simp: queued_changes_def)

lemma client_publishes_publishing:
  assumes "j \<in> J" and "ce_dirty s (Some j)" and "ce_reg s (Some j) = whole u"
  shows "publishing J (Some j) u s (client_published j u s)" (is "publishing J _ u s ?s")
proof -
  have "coming J s z \<subseteq> coming J ?s z \<and> (z \<noteq> Some j \<longrightarrow> u \<in> coming J ?s z)" if "z \<in> nodes J" for z
    using that assms(1) by (cases z) (auto simp: coming_simps)
  moreover have "queued_changes J ?s \<subseteq> insert u (queued_changes J s)" by (auto simp: in_queued split: if_splits)
  ultimately show ?thesis using assms by (simp add: publishing_def in_nodes)
qed

lemma server_publishes_publishing:
  assumes "ce_dirty s None" and "ce_reg s None = whole u"
  shows "publishing J None u s (server_published J u s)" (is "publishing J _ u s ?s")
proof -
  have "coming J s z \<subseteq> coming J ?s z \<and> (z \<noteq> None \<longrightarrow> u \<in> coming J ?s z)" if "z \<in> nodes J" for z
    using that by (cases z) (auto simp: coming_simps in_nodes)
  moreover have "queued_changes J ?s \<subseteq> insert u (queued_changes J s)" by (auto simp: in_queued)
  ultimately show ?thesis using assms by (simp add: publishing_def in_nodes)
qed

lemma server_got_queues:
  assumes j: "j \<in> J" "ce_up s j = u # us" and u: "u \<in> queued_changes J s"
  shows "queued_changes J (server_got J j u us s) \<subseteq> queued_changes J s"
proof
  fix v
  assume "v \<in> queued_changes J (server_got J j u us s)"
  then obtain k where k: "k \<in> J" "v \<in> set (ce_up (server_got J j u us s) k) \<or> v \<in> set (ce_down (server_got J j u us s) k)"
    unfolding in_queued by blast
  then have "v = u \<or> v \<in> set (ce_up s k) \<or> v \<in> set (ce_down s k)" using j(2) by (cases "k = j") auto
  then show "v \<in> queued_changes J s" using u k(1) by (auto simp: in_queued)
qed

lemma server_got_coming:
  assumes j: "j \<in> J" "ce_up s j = u # us" and z: "z \<in> nodes J" and v: "v \<in> coming J s z"
  shows "v \<in> coming J (server_got J j u us s) z \<union> (if z = None then {u} else {})"
proof (cases z)
  case None
  then obtain k where "k \<in> J" "v \<in> set (ce_up s k)" using v by (auto simp: coming_simps)
  then show ?thesis using None j by (cases "k = j") (auto simp: coming_simps)
next
  case (Some i)
  then consider "v \<in> set (ce_down s i)" | k where "k \<in> J" "k \<noteq> i" "v \<in> set (ce_up s k)"
    using v by (auto simp: coming_simps)
  then show ?thesis
  proof cases
    case 2
    then show ?thesis using j Some z by (cases "k = j") (auto simp: coming_simps in_nodes)
  qed (use Some in \<open>auto simp: coming_simps\<close>)
qed

lemma server_gets_taking:
  assumes j: "j \<in> J" "ce_up s j = u # us"
  shows "taking J None u s (server_got J j u us s)"
proof -
  have u: "u \<in> queued_changes J s" using j by (force simp: in_queued)
  have "\<forall>z\<in>nodes J. coming J s z \<subseteq> coming J (server_got J j u us s) z \<union> (if z = None then {u} else {})"
    using server_got_coming [OF j] by blast
  with u server_got_queues [OF j u] show ?thesis by (simp add: taking_def in_nodes)
qed

lemma client_gets_taking:
  assumes j: "j \<in> J" "ce_down s j = u # us"
  shows "taking J (Some j) u s (client_got j u us s)" (is "taking J _ u s ?s")
proof -
  have "u \<in> queued_changes J s" using j by (force simp: in_queued)
  moreover have "set (ce_down ?s k) \<subseteq> set (ce_down s k)" for k using j(2) by auto
  then have "queued_changes J ?s \<subseteq> queued_changes J s" unfolding queued_changes_def by (intro UN_mono Un_mono) auto
  moreover have "coming J s z \<subseteq> coming J ?s z \<union> (if z = Some j then {u} else {})" for z
    using j(2) by (cases z) (auto simp: coming_simps)
  ultimately show ?thesis using j(1) by (simp add: taking_def in_nodes)
qed

lemma cell_step_cases:
  assumes "cell_step J s s'"
  obtains (publishing) x u where "publishing J x u s s'" | (taking) x u where "taking J x u s s'"
  using assms
proof cases
  case (client_publishes j u)
  with client_publishes_publishing show ?thesis by (intro publishing) simp
next
  case (server_publishes u)
  with server_publishes_publishing show ?thesis by (intro publishing) simp
next
  case (server_gets j u us)
  with server_gets_taking show ?thesis by (intro taking) simp
next
  case (client_gets j u us)
  with client_gets_taking show ?thesis by (intro taking) simp
qed

lemma cell_step_ok:
  assumes "cell_step J s s'" and ok: "cells_ok J s"
  shows "cells_ok J s' \<and> (latest J s a \<longrightarrow> latest J s' a)"
proof -
  have "told_apart J s" "unpublished J s" using ok by (simp_all add: cells_ok_def)
  with assms(1) show ?thesis
    using publishing_ok [OF _ ok] publishing_latest taking_ok [OF _ ok] taking_latest
    by (cases rule: cell_step_cases) blast+
qed

lemma cell_steps_ok:
  "(cell_step J)\<^sup>*\<^sup>* s s' \<Longrightarrow> cells_ok J s \<Longrightarrow> cells_ok J s' \<and> (latest J s a \<longrightarrow> latest J s' a)"
proof (induction rule: rtranclp_induct)
  case (step s1 s2)
  with cell_step_ok [OF step(2), of a] show ?case by blast
qed simp

text \<open>Where everyone shows the same and nothing is to be done, the invariant holds.\<close>

lemma agreed_ok:
  assumes "\<forall>x\<in>nodes J. ce_reg s x = a \<and> \<not> ce_dirty s x" and "\<forall>j\<in>J. ce_up s j = [] \<and> ce_down s j = []"
  shows "cells_ok J s"
proof -
  have "queued_changes J s = {}" using assms(2) by (auto simp: queued_changes_def)
  then have c: "copies J s \<subseteq> {a}" using assms(1) by (auto simp: copies_def)
  then have "latest J s a" using assms(1) by (auto simp: latest_def)
  moreover have "told_apart J s" using c by (auto simp: told_apart_def inj_on_def)
  moreover have "unpublished J s" using assms(1) by (simp add: unpublished_def)
  ultimately show ?thesis unfolding cells_ok_def by blast
qed

section \<open>Coming to rest\<close>

text \<open>How much is left to do: what is to be published, then what is to reach the server, then the clients.\<close>

definition cell_work :: "u16 set \<Rightarrow> cells \<Rightarrow> nat \<times> nat \<times> nat" where
  "cell_work J s = (card {x\<in>nodes J. ce_dirty s x}, (\<Sum>j\<in>J. length (ce_up s j)), (\<Sum>j\<in>J. length (ce_down s j)))"

definition less_work :: "((nat \<times> nat \<times> nat) \<times> (nat \<times> nat \<times> nat)) set" where
  "less_work = less_than <*lex*> less_than <*lex*> less_than"

lemma less_work_wf: "wf less_work"
  by (auto simp: less_work_def)

lemma less_workI:
  "a' \<le> a \<Longrightarrow> b' < b \<Longrightarrow> ((a', b', c'), (a, b, c)) \<in> less_work"
  "a' \<le> a \<Longrightarrow> c' < c \<Longrightarrow> ((a', b, c'), (a, b, c)) \<in> less_work"
  by (auto simp: less_work_def)

lemma finite_nodes: "finite J \<Longrightarrow> finite {x\<in>nodes J. P x}"
  by (simp add: nodes_def)

lemma publishing_less:
  assumes "finite J" and "publishing J x u s s'"
  shows "(cell_work J s', cell_work J s) \<in> less_work"
proof -
  have "{y\<in>nodes J. ce_dirty s' y} \<subset> {y\<in>nodes J. ce_dirty s y}" using assms(2) by (auto simp: publishing_def)
  then show ?thesis using psubset_card_mono [OF finite_nodes [OF assms(1)]] by (simp add: cell_work_def less_work_def)
qed

lemma sum_shorter:
  fixes f g :: "u16 \<Rightarrow> nat"
  assumes "finite J" and "j \<in> J" and "g j < f j" and "\<And>k. k \<noteq> j \<Longrightarrow> g k = f k"
  shows "(\<Sum>k\<in>J. g k) < (\<Sum>k\<in>J. f k)"
  using assms by (intro sum_strict_mono_ex1) (auto intro: order.strict_implies_order, metis order.refl order.strict_implies_order)

lemma taking_dirty:
  assumes "finite J" and "taking J x u s s'"
  shows "card {y\<in>nodes J. ce_dirty s' y} \<le> card {y\<in>nodes J. ce_dirty s y}"
  using assms(2) by (intro card_mono [OF finite_nodes [OF assms(1)]]) (auto simp: taking_def split: if_splits)

lemma server_got_less:
  assumes "finite J" and "j \<in> J" and "ce_up s j = u # us"
  shows "(cell_work J (server_got J j u us s), cell_work J s) \<in> less_work"
proof -
  have "(\<Sum>k\<in>J. length (ce_up (server_got J j u us s) k)) < (\<Sum>k\<in>J. length (ce_up s k))"
    by (rule sum_shorter [OF assms(1,2)]) (use assms(3) in auto)
  with taking_dirty [OF assms(1) server_gets_taking [OF assms(2,3)]] show ?thesis
    unfolding cell_work_def by (intro less_workI)
qed

lemma client_got_less:
  assumes "finite J" and "j \<in> J" and "ce_down s j = u # us"
  shows "(cell_work J (client_got j u us s), cell_work J s) \<in> less_work"
proof -
  have "(\<Sum>k\<in>J. length (ce_down (client_got j u us s) k)) < (\<Sum>k\<in>J. length (ce_down s k))"
    by (rule sum_shorter [OF assms(1,2)]) (use assms(3) in auto)
  moreover have "ce_up (client_got j u us s) = ce_up s" by simp
  ultimately show ?thesis
    using taking_dirty [OF assms(1) client_gets_taking [OF assms(2,3)]]
    unfolding cell_work_def by (simp only: less_workI(2))
qed

end
