(* ===== verification/Obsr_Convergence.thy ===== *)
theory Obsr_Convergence
  imports Obsr_Cells
begin

text \<open>
  Convergence: the server and its clients as the cells of the protocol, for each of the entries they share. What the
  operations of the storages, the client and the server do with an entry are steps of its cells, and leave the cells of
  the others alone; so what holds for the cells holds for the storages. The entries that are shared are those whose
  identifiers are in \<open>I\<close>, and \<open>ty\<close> is the type of their values.
\<close>

section \<open>A storage that takes part\<close>

text \<open>A change that the messages carry unharmed.\<close>

definition wire_change :: "value_type \<Rightarrow> change \<Rightarrow> bool" where
  "wire_change ty u \<longleftrightarrow> 0 < fst u \<and> fst u < 2 ^ 63 \<and> faithful (snd u) \<and> length (wire_content (snd u)) < 1000 \<and>
     content_type (snd u) = ty"

text \<open>The entry has the identifier, and is new or has a value of the type; it is not deleted.\<close>

definition tracked :: "u16 \<Rightarrow> value_type \<Rightarrow> storage_entry \<Rightarrow> bool" where
  "tracked i ty d \<longleftrightarrow> se_net_id d = i \<and> \<not> has_flags flag_internal_deleted d \<and>
     (if does_entry_have_value d
      then \<exists>c. content_of (se_value d) = Some c \<and> wire_change ty (se_last_update d, c)
      else \<not> has_flags flag_internal_dirty d)"

text \<open>No entry waits to be published but those with an identifier of the set.\<close>

definition only_dirty :: "u16 set \<Rightarrow> 'c storage \<Rightarrow> bool" where
  "only_dirty I st \<longleftrightarrow> (\<forall>h d. ht_lookup (st_entries st) h = Some d \<longrightarrow> has_flags flag_internal_dirty d \<longrightarrow>
     (\<exists>i\<in>I. st_ids st i = Some h))"

definition entry_of :: "u16 \<Rightarrow> 'c storage \<Rightarrow> storage_entry" where
  "entry_of i st = the (ht_lookup (st_entries st) (the (st_ids st i)))"

definition replica :: "u16 set \<Rightarrow> (u16 \<Rightarrow> value_type) \<Rightarrow> 'c storage \<Rightarrow> bool" where
  "replica I ty st \<longleftrightarrow> storage_ok st \<and> only_dirty I st \<and>
     (\<forall>i\<in>I. \<exists>h d. st_ids st i = Some h \<and> ht_lookup (st_entries st) h = Some d \<and> tracked i (ty i) d)"

definition shows_at :: "u16 \<Rightarrow> 'c storage \<Rightarrow> shown_value" where
  "shows_at i st = seen (entry_register (entry_of i st))"

definition dirty_at :: "u16 \<Rightarrow> 'c storage \<Rightarrow> bool" where
  "dirty_at i st \<longleftrightarrow> has_flags flag_internal_dirty (entry_of i st)"

text \<open>What the other entries are is untouched.\<close>

definition same_others :: "u16 set \<Rightarrow> u16 \<Rightarrow> 'c storage \<Rightarrow> 'c storage \<Rightarrow> bool" where
  "same_others I i st st' \<longleftrightarrow> (\<forall>k\<in>I. k \<noteq> i \<longrightarrow> shows_at k st' = shows_at k st \<and> dirty_at k st' = dirty_at k st)"

lemma replicaE:
  assumes "replica I ty st" and "i \<in> I"
  obtains h d where "storage_ok st" "st_ids st i = Some h" "ht_lookup (st_entries st) h = Some d" "tracked i (ty i) d"
    "entry_of i st = d"
  using assms by (auto simp: replica_def entry_of_def)

lemma replica_dirty:
  "replica I ty st \<Longrightarrow> ht_lookup (st_entries st) h = Some d \<Longrightarrow> has_flags flag_internal_dirty d \<Longrightarrow> \<exists>i\<in>I. st_ids st i = Some h"
  unfolding replica_def only_dirty_def by blast

lemma replica_net_id:
  "replica I ty st \<Longrightarrow> i \<in> I \<Longrightarrow> st_ids st i = Some h \<Longrightarrow> ht_lookup (st_entries st) h = Some d \<Longrightarrow> se_net_id d = i"
  by (erule (1) replicaE) (simp add: tracked_def)

text \<open>Different identifiers are of different entries.\<close>

lemma replica_apart:
  assumes "replica I ty st" and "i \<in> I" and "k \<in> I" and "st_ids st i = Some h" and "st_ids st k = Some h"
  shows "i = k"
proof -
  obtain d where "ht_lookup (st_entries st) h = Some d" using replicaE [OF assms(1,2)] assms(4) by (metis option.inject)
  with replica_net_id [OF assms(1)] assms(2-5) show ?thesis by metis
qed

lemma tracked_type:
  assumes "tracked i ty d" and "entry_ok h d" and "content_of v = Some c" and "content_type c = ty"
  shows "type_fits v d"
proof (cases "does_entry_have_value d")
  case True
  then obtain c' where "content_of (se_value d) = Some c'" "content_type c' = ty"
    using assms(1) by (auto simp: tracked_def wire_change_def)
  with assms(3,4) content_type_of show ?thesis by (metis type_fits_def value_get_type_def)
qed (use assms(2) in \<open>simp add: type_fits_def entry_ok_def value_make_def new_value_def\<close>)

lemma written_tracked:
  "wire_change ty (t, c) \<Longrightarrow> content_of v = Some c \<Longrightarrow> se_net_id (written v j dirty t d) = i \<Longrightarrow> tracked i ty (written v j dirty t d)"
  by (simp add: tracked_def has_value_bits bit_change_flags flag_bits has_one_flag)

lemma written_dirty: "has_flags flag_internal_dirty (written v j dirty t d) = dirty"
  by (simp add: has_one_flag bit_change_flags flag_bits)

lemma written_shows: "content_of v = Some c \<Longrightarrow> seen (entry_register (written v j dirty t d)) = (t, Some c)"
  by (simp add: seen_def entry_register_def)

text \<open>One entry of a storage is replaced.\<close>

lemma replica_replace:
  assumes r: "replica I ty st" "i \<in> I" "st_ids st i = Some h" and st': "storage_ok st'" "st_ids st' = st_ids st"
    "ht_lookup (st_entries st') = (ht_lookup (st_entries st))(h \<mapsto> d)" and d: "tracked i (ty i) d"
  shows "replica I ty st'" "entry_of i st' = d" "same_others I i st st'"
proof -
  have other: "st_ids st k \<noteq> Some h" if "k \<in> I" "k \<noteq> i" for k using replica_apart [OF r(1,2) that(1) r(3)] that(2) by blast
  have "entry_of k st' = entry_of k st" if k: "k \<in> I" "k \<noteq> i" for k
  proof -
    obtain g where "st_ids st k = Some g" by (rule replicaE [OF r(1) k(1)])
    with other [OF k] show ?thesis by (simp add: entry_of_def st'(2,3))
  qed
  then show "same_others I i st st'" by (simp add: same_others_def shows_at_def dirty_at_def)
  show "entry_of i st' = d" using r(3) by (simp add: entry_of_def st'(2,3))
  have "\<exists>h d. st_ids st' k = Some h \<and> ht_lookup (st_entries st') h = Some d \<and> tracked k (ty k) d" if "k \<in> I" for k
  proof (cases "k = i")
    case False
    with r(1) other [OF that False] that show ?thesis by (fastforce simp: replica_def st'(2,3))
  qed (use r(3) d in \<open>simp add: st'(2,3)\<close>)
  moreover have "only_dirty I st'" using r by (auto simp: replica_def only_dirty_def st'(2,3))
  ultimately show "replica I ty st'" using st'(1) by (simp add: replica_def)
qed

text \<open>A write of the entry, by the user or the network.\<close>

lemma replica_write:
  assumes r: "replica I ty st" "i \<in> I" "st_ids st i = Some h" and t: "\<not> stale t (entry_of i st)"
    and v: "content_of v = Some c" "wire_change (ty i) (stamp (st_clock st) (tm 1) t, c)"
    and j: "j = i \<or> j = id_not_assigned"
  shows "\<exists>st'. set_entry_internal tm h v False j dirty t st = (Inr (), st') \<and> replica I ty st' \<and> same_others I i st st' \<and>
     shows_at i st' = (stamp (st_clock st) (tm 1) t, Some c) \<and> dirty_at i st' = dirty"
proof -
  let ?d = "written v j dirty (stamp (st_clock st) (tm 1) t) (entry_of i st)"
  have d: "storage_ok st" "ht_lookup (st_entries st) h = Some (entry_of i st)" "tracked i (ty i) (entry_of i st)"
    using r(3) by (auto intro: replicaE [OF r(1,2)])
  have "type_fits v (entry_of i st)"
    using tracked_type [OF d(3) storage_okD(3) [OF d(1,2)] v(1)] v(2) by (simp add: wire_change_def)
  with set_entry_written [OF d(2) t, of False v tm j dirty] obtain st' where st':
    "set_entry_internal tm h v False j dirty t st = (Inr (), st')"
    "st_ids st' = st_ids st" "ht_lookup (st_entries st') = (ht_lookup (st_entries st))(h \<mapsto> ?d)"
    using d(2) by (auto simp: put_entry_def ht_update_lookup)
  have "storage_ok st'" using set_entry_internal_ok [OF d(1), of tm h v False j dirty t] st'(1) by simp
  moreover have "tracked i (ty i) ?d" using v j d(3) by (intro written_tracked) (auto simp: tracked_def)
  ultimately show ?thesis
    using st'(1) replica_replace [OF r _ st'(2,3)] written_dirty written_shows [OF v(1)]
    by (auto simp: shows_at_def dirty_at_def)
qed

lemma replica_set:
  assumes r: "replica I ty st" "i \<in> I" and v: "content_of v = Some c" "wire_change (ty i) (t, c)"
    and t: "clock_now (st_clock st) (tm 1) = t"
  shows "\<exists>st'. set_entry_value tm (the (st_ids st i)) v st = (Inr (), st') \<and> replica I ty st' \<and> same_others I i st st' \<and>
     shows_at i st' = (t, Some c) \<and> dirty_at i st'"
proof -
  obtain h where h: "st_ids st i = Some h" using r by (rule replicaE)
  have s: "stamp (st_clock st) (tm (Suc 0)) 0 = t" using t by (simp add: stamp_def)
  have "\<not> stale 0 (entry_of i st)" by (simp add: stale_def)
  from replica_write [OF r h this v(1), of tm id_not_assigned True] v(2) h show ?thesis
    by (simp add: set_entry_value_def s)
qed

lemma replica_update:
  assumes r: "replica I ty st" "i \<in> I" and v: "content_of v = Some c" "wire_change (ty i) (t, c)" and i: "i \<noteq> id_not_assigned"
  shows "replica I ty (storage_after (N_update t i c) v tm st) \<and> same_others I i st (storage_after (N_update t i c) v tm st) \<and>
     shows_at i (storage_after (N_update t i c) v tm st) = overwritten (t, c) (shows_at i st) \<and>
     dirty_at i (storage_after (N_update t i c) v tm st) = (dirty_at i st \<and> fst (shows_at i st) > t)"
proof -
  obtain h d where d: "st_ids st i = Some h" "ht_lookup (st_entries st) h = Some d" "entry_of i st = d"
    using r by (rule replicaE)
  have f: "fst (shows_at i st) = se_last_update d" by (simp add: shows_at_def d(3) seen_def entry_register_def)
  have t: "t \<noteq> 0" using v(2) by (auto simp: wire_change_def)
  show ?thesis
  proof (cases "stale t d")
    case True
    with set_entry_stale [OF d(2) True, of tm v False i False] r d(1) f show ?thesis
      by (simp add: on_entry_updated_def stale_def overwritten_def same_others_def)
  next
    case False
    have "stamp (st_clock st) (tm 1) t = t" using t by (simp add: stamp_def)
    with replica_write [OF r d(1) _ v(1), of t tm i False] v(2) d(1,3) f False t show ?thesis
      by (auto simp: on_entry_updated_def stale_def overwritten_def)
  qed
qed

text \<open>A new entry with an identifier of its own.\<close>

lemma replica_assign:
  assumes r: "replica I ty st" and new: "st_ids st i = None" "st_paths st n = None"
    and room: "card (dom (st_paths st)) < entry_capacity"
  shows "\<exists>st'. on_entry_id_assigned i n st = (Inr (), st') \<and> replica (insert i I) ty st' \<and> st_clock st' = st_clock st \<and>
     shows_at i st' = (0, None) \<and> \<not> dirty_at i st' \<and> same_others I i st st'"
proof -
  have ok: "storage_ok st" and i: "i \<notin> I" using r new(1) by (auto simp: replica_def)
  obtain r1 s1 where f: "create_new_entry n st = (r1, s1)" by fastforce
  then obtain h where h: "r1 = Inr h" using create_with_room [OF ok room f] new(2) by (cases r1) auto
  from create_new_entry_cases [OF storage_okD(1) [OF ok] f] h obtain t where t:
    "s1 = st\<lparr>st_paths := map_emplace n h (st_paths st), st_entries := t\<rparr>"
    "ht_lookup t = (ht_lookup (st_entries st))(h \<mapsto> created_entry h n)" "ht_lookup (st_entries st) h = None" by auto
  let ?d = "set_net_id i (created_entry h n)"
  let ?st = "(put_entry h ?d s1)\<lparr>st_ids := map_emplace i h (st_ids s1)\<rparr>"
  have a: "on_entry_id_assigned i n st = (Inr (), ?st)"
    using f h t new(2) by (simp add: on_entry_id_assigned_def find_or_create_def ht_get_lookup)
  have l: "ht_lookup (st_entries ?st) = (ht_lookup (st_entries st))(h \<mapsto> ?d)" "st_ids ?st = (st_ids st)(i \<mapsto> h)"
    using t new(1) by (auto simp: put_entry_def ht_update_lookup map_emplace_def)
  have "storage_ok ?st" using on_entry_id_assigned_ok [OF ok, of i n] a by simp
  moreover have d: "tracked i (ty i) ?d" "\<not> has_flags flag_internal_dirty ?d" "seen (entry_register ?d) = (0, None)"
    by (simp_all add: tracked_def set_net_id_def has_value_bits has_one_flag flag_bits entry_defs seen_def entry_register_def)
  have other: "\<exists>g d. st_ids st k = Some g \<and> ht_lookup (st_entries st) g = Some d \<and> g \<noteq> h \<and> tracked k (ty k) d" if "k \<in> I" for k
    by (rule replicaE [OF r that]) (metis t(3) option.simps(3))
  then have "\<exists>g d. st_ids ?st k = Some g \<and> ht_lookup (st_entries ?st) g = Some d \<and> tracked k (ty k) d" if "k \<in> insert i I" for k
    using that i d(1) unfolding l by fastforce
  moreover have "only_dirty (insert i I) ?st"
    unfolding only_dirty_def l using replica_dirty [OF r] d(2) i by (fastforce split: if_splits)
  ultimately have "replica (insert i I) ty ?st" by (simp add: replica_def)
  moreover have "entry_of i ?st = ?d" unfolding entry_of_def l by simp
  moreover have "entry_of k ?st = entry_of k st" if "k \<in> I" for k
    using other [OF that] i that unfolding entry_of_def l by auto
  moreover have "st_clock ?st = st_clock st" using t(1) by simp
  ultimately show ?thesis using a d(2,3) by (auto simp: shows_at_def dirty_at_def same_others_def)
qed

section \<open>Publishing\<close>

lemma clear_dirty_fields [simp]:
  "se_net_id (clear_dirty d) = se_net_id d" "se_value (clear_dirty d) = se_value d"
  "se_last_update (clear_dirty d) = se_last_update d"
  by (simp_all add: clear_dirty_def remove_flags_def)

lemma clear_dirty_flags:
  "does_entry_have_value (clear_dirty d) = does_entry_have_value d" "\<not> has_flags flag_internal_dirty (clear_dirty d)"
  "has_flags flag_internal_deleted (clear_dirty d) = has_flags flag_internal_deleted d"
  by (simp_all add: has_value_bits bit_change_flags flag_bits has_one_flag)

definition cleaned :: "storage_entry \<Rightarrow> storage_entry" where
  "cleaned d = (if has_flags flag_internal_dirty d then clear_dirty d else d)"

lemma cleaned_simps [simp]:
  "\<not> has_flags flag_internal_dirty (cleaned d)" "seen (entry_register (cleaned d)) = seen (entry_register d)"
  "tracked i ty d \<Longrightarrow> tracked i ty (cleaned d)"
  by (auto simp: cleaned_def clear_dirty_flags seen_def entry_register_def tracked_def split: if_splits)

text \<open>
  The loop over the dirty entries, with an action that publishes them: \<open>out\<close> is what the action works on, and \<open>f\<close> what
  it does to it with an entry.
\<close>

definition dirty_entries :: "'c storage \<Rightarrow> handle list \<Rightarrow> storage_entry list" where
  "dirty_entries st hs = filter (has_flags flag_internal_dirty) (map (\<lambda>h. the (ht_lookup (st_entries st) h)) hs)"

lemma act_on_all:
  assumes "\<And>d st w. good d \<Longrightarrow> \<exists>w'. action d (st, w) = (Inr True, st, w') \<and> out w' = f d (out w)"
  shows "storage_ok st \<Longrightarrow> distinct hs \<Longrightarrow> \<forall>h\<in>set hs. ht_lookup (st_entries st) h \<noteq> None \<Longrightarrow>
     \<forall>d\<in>set (dirty_entries st hs). good d \<Longrightarrow>
     \<exists>st' w'. act_on action hs (st, w) = (Inr (), st', w') \<and> out w' = fold f (dirty_entries st hs) (out w) \<and>
       storage_ok st' \<and> st_ids st' = st_ids st \<and>
       ht_lookup (st_entries st') = (\<lambda>h. if h \<in> set hs then map_option cleaned (ht_lookup (st_entries st) h)
          else ht_lookup (st_entries st) h)"
proof (induction hs arbitrary: st w)
  case (Cons h hs)
  then obtain d where d: "ht_lookup (st_entries st) h = Some d" by auto
  show ?case
  proof (cases "has_flags flag_internal_dirty d")
    case True
    let ?st = "st\<lparr>st_entries := ht_update h clear_dirty (st_entries st)\<rparr>"
    have l: "ht_lookup (st_entries ?st) = (ht_lookup (st_entries st))(h \<mapsto> clear_dirty d)"
      using d by (auto simp: ht_update_lookup)
    have e: "dirty_entries st (h # hs) = d # dirty_entries ?st hs"
      using True d l Cons.prems(2) by (auto simp: dirty_entries_def intro!: arg_cong [where f = "filter _"])
    then have "good d" using Cons.prems(4) by simp
    then obtain w1 where w1: "action d (st, w) = (Inr True, st, w1)" "out w1 = f d (out w)" using assms by blast
    have "\<forall>d\<in>set (dirty_entries ?st hs). good d" using Cons.prems(4) unfolding e by simp
    moreover have "\<forall>k\<in>set hs. ht_lookup (st_entries ?st) k \<noteq> None" using Cons.prems(3) l by auto
    ultimately obtain st' w' where st': "act_on action hs (?st, w1) = (Inr (), st', w')"
      "out w' = fold f (dirty_entries ?st hs) (out w1)" "storage_ok st'" "st_ids st' = st_ids st"
      "ht_lookup (st_entries st') = (\<lambda>h. if h \<in> set hs then map_option cleaned (ht_lookup (st_entries ?st) h)
          else ht_lookup (st_entries ?st) h)"
      using Cons.IH [OF clear_dirty_ok [OF Cons.prems(1)], of h w1] Cons.prems(2) by auto
    have "act_on action (h # hs) (st, w) = (Inr (), st', w')" using st'(1) w1(1) d True by (simp add: ht_get_lookup)
    moreover have "out w' = fold f (dirty_entries st (h # hs)) (out w)" unfolding e using st'(2) w1(2) by simp
    moreover have "ht_lookup (st_entries st') = (\<lambda>k. if k \<in> set (h # hs) then map_option cleaned (ht_lookup (st_entries st) k)
          else ht_lookup (st_entries st) k)"
      unfolding st'(5) l using Cons.prems(2) d True by (auto simp: cleaned_def fun_eq_iff)
    ultimately show ?thesis using st'(3,4) by blast
  next
    case False
    then have e: "dirty_entries st (h # hs) = dirty_entries st hs" using d by (simp add: dirty_entries_def)
    from Cons.IH [OF Cons.prems(1), of w] Cons.prems(2-4) obtain st' w' where st': "act_on action hs (st, w) = (Inr (), st', w')"
      "out w' = fold f (dirty_entries st hs) (out w)" "storage_ok st'" "st_ids st' = st_ids st"
      "ht_lookup (st_entries st') = (\<lambda>h. if h \<in> set hs then map_option cleaned (ht_lookup (st_entries st) h)
          else ht_lookup (st_entries st) h)"
      unfolding e by auto
    have "act_on action (h # hs) (st, w) = (Inr (), st', w')" using st'(1) d False by (simp add: ht_get_lookup)
    moreover have "ht_lookup (st_entries st') = (\<lambda>k. if k \<in> set (h # hs) then map_option cleaned (ht_lookup (st_entries st) k)
          else ht_lookup (st_entries st) k)"
      unfolding st'(5) using d False by (auto simp: cleaned_def fun_eq_iff)
    ultimately show ?thesis using st'(2-4) unfolding e by blast
  qed
qed (simp add: dirty_entries_def)

lemma filter_single:
  assumes "distinct xs" and "a \<in> set xs" and "\<forall>x\<in>set xs. P x \<longrightarrow> x = a"
  shows "filter P xs = (if P a then [a] else [])"
proof -
  obtain ys zs where xs: "xs = ys @ a # zs" using assms(2) by (metis split_list)
  then have "a \<notin> set ys" "a \<notin> set zs" using assms(1) by simp_all
  then have "filter P ys = []" "filter P zs = []" using assms(3) unfolding filter_empty_conv xs by auto
  then show ?thesis by (simp add: xs)
qed

definition to_publish :: "'c storage \<Rightarrow> storage_entry list" where
  "to_publish st = dirty_entries st (ht_handles (st_entries st))"

lemma to_publish_at:
  assumes "replica I ty st" and "d \<in> set (to_publish st)"
  shows "\<exists>i\<in>I. dirty_at i st \<and> d = entry_of i st"
proof -
  have "ht_ok (st_entries st)" using assms(1) by (simp add: replica_def storage_ok_def)
  with assms(2) obtain h where h: "ht_lookup (st_entries st) h = Some d" "has_flags flag_internal_dirty d"
    by (auto simp: to_publish_def dirty_entries_def set_ht_handles)
  then obtain i where i: "i \<in> I" "st_ids st i = Some h" using replica_dirty [OF assms(1)] by blast
  with h show ?thesis by (intro bexI [of _ i]) (simp_all add: dirty_at_def entry_of_def)
qed

lemma to_publish_of:
  assumes r: "replica I ty st" and i: "i \<in> I"
  shows "filter (\<lambda>d. se_net_id d = i) (to_publish st) = (if dirty_at i st then [entry_of i st] else [])"
proof -
  obtain h d where d: "storage_ok st" "st_ids st i = Some h" "ht_lookup (st_entries st) h = Some d" "tracked i (ty i) d"
    "entry_of i st = d" using r i by (rule replicaE)
  let ?e = "\<lambda>h. the (ht_lookup (st_entries st) h)" and ?hs = "ht_handles (st_entries st)"
  let ?P = "\<lambda>h. has_flags flag_internal_dirty (?e h) \<and> se_net_id (?e h) = i"
  have hs: "distinct ?hs" "set ?hs = dom (ht_lookup (st_entries st))"
    using distinct_ht_handles [OF storage_okD(1) [OF d(1)]] set_ht_handles [OF storage_okD(1) [OF d(1)]] by auto
  have only: "\<forall>k\<in>set ?hs. ?P k \<longrightarrow> k = h"
  proof (intro ballI impI)
    fix k
    assume k: "k \<in> set ?hs" "?P k"
    then obtain e where e: "ht_lookup (st_entries st) k = Some e" using hs(2) by auto
    then obtain m where m: "m \<in> I" "st_ids st m = Some k" using k(2) replica_dirty [OF r e] by auto
    then have "se_net_id e = m" using replica_net_id [OF r _ _ e] by blast
    with k(2) e m(2) d(2) show "k = h" by simp
  qed
  have "h \<in> set ?hs" using hs(2) d(3) by blast
  from filter_single [OF hs(1) this only] have "map ?e (filter ?P ?hs) = (if dirty_at i st then [entry_of i st] else [])"
    using d(3-5) by (auto simp: tracked_def dirty_at_def)
  then show ?thesis by (simp add: to_publish_def dirty_entries_def filter_map o_def split del: if_split)
qed

lemma replica_publish:
  assumes r: "replica I ty st"
    and a: "\<And>d st w. \<exists>i\<in>I. tracked i (ty i) d \<Longrightarrow> \<exists>w'. action d (st, w) = (Inr True, st, w') \<and> out w' = f d (out w)"
  shows "\<exists>st' w'. act_on_dirty_entries action (st, w) = (Inr (), st', w') \<and> out w' = fold f (to_publish st) (out w) \<and>
     replica I ty st' \<and> (\<forall>i\<in>I. shows_at i st' = shows_at i st \<and> \<not> dirty_at i st')"
proof -
  let ?hs = "ht_handles (st_entries st)"
  have ok: "storage_ok st" using r by (simp add: replica_def)
  have hs: "set ?hs = dom (ht_lookup (st_entries st))" "distinct ?hs"
    using set_ht_handles [OF storage_okD(1) [OF ok]] distinct_ht_handles [OF storage_okD(1) [OF ok]] by auto
  have "\<exists>i\<in>I. tracked i (ty i) d" if d: "d \<in> set (to_publish st)" for d
  proof -
    obtain i where "i \<in> I" "d = entry_of i st" using to_publish_at [OF r d] by blast
    with replicaE [OF r] show ?thesis by metis
  qed
  then have good: "\<forall>d\<in>set (dirty_entries st ?hs). \<exists>i\<in>I. tracked i (ty i) d" by (simp add: to_publish_def)
  from act_on_all [where good = "\<lambda>d. \<exists>i\<in>I. tracked i (ty i) d" and action = action and out = out and f = f, OF a ok hs(2) _ good, of w] hs(1)
  obtain st' w' where st': "act_on action ?hs (st, w) = (Inr (), st', w')" "out w' = fold f (to_publish st) (out w)"
    "storage_ok st'" "st_ids st' = st_ids st"
    "ht_lookup (st_entries st') = (\<lambda>h. if h \<in> set ?hs then map_option cleaned (ht_lookup (st_entries st) h)
       else ht_lookup (st_entries st) h)"
    unfolding to_publish_def by auto
  have l: "ht_lookup (st_entries st') h = map_option cleaned (ht_lookup (st_entries st) h)" for h
    unfolding st'(5) hs(1) by (cases "ht_lookup (st_entries st) h") auto
  have e: "entry_of i st' = cleaned (entry_of i st)" if i: "i \<in> I" for i
    by (rule replicaE [OF r i]) (simp add: entry_of_def st'(4) l)
  have "\<exists>h d. st_ids st' i = Some h \<and> ht_lookup (st_entries st') h = Some d \<and> tracked i (ty i) d" if i: "i \<in> I" for i
    by (rule replicaE [OF r i]) (simp add: st'(4) l)
  moreover have "only_dirty I st'" by (auto simp: only_dirty_def l)
  ultimately have "replica I ty st'" using st'(3) by (simp add: replica_def)
  with e have "replica I ty st' \<and> (\<forall>i\<in>I. shows_at i st' = shows_at i st \<and> \<not> dirty_at i st')"
    by (simp add: shows_at_def dirty_at_def)
  with st'(1,2) show ?thesis by (simp add: act_on_dirty_entries_def)
qed

text \<open>The change that a dirty entry makes.\<close>

definition update_of :: "storage_entry \<Rightarrow> out_message" where
  "update_of d = out_entry_update (se_last_update d) (se_net_id d) (se_value d)"

definition change_of :: "out_message \<Rightarrow> change" where
  "change_of m = (om_send_time m, the (content_of (om_value m)))"

text \<open>The messages that are in the queues, and those that are about an entry.\<close>

definition update_message_ok :: "u16 set \<Rightarrow> (u16 \<Rightarrow> value_type) \<Rightarrow> out_message \<Rightarrow> bool" where
  "update_message_ok I ty m \<longleftrightarrow> (\<exists>i\<in>I. \<exists>t c. stands_for m (N_update t i c) \<and> wire_change (ty i) (t, c))"

definition changes_of :: "u16 \<Rightarrow> out_message list \<Rightarrow> change list" where
  "changes_of i ms = map change_of (filter (\<lambda>m. om_id m = i) ms)"

lemma changes_of_simps [simp]:
  "changes_of i [] = []" "changes_of i (m # ms) = (if om_id m = i then change_of m # changes_of i ms else changes_of i ms)"
  "changes_of i (ms @ ms') = changes_of i ms @ changes_of i ms'"
  by (simp_all add: changes_of_def)

lemma update_of_id [simp]: "om_id (update_of d) = se_net_id d"
  by (simp add: update_of_def out_entry_update_def out_message_new_def)

lemma changes_of_published:
  assumes "replica I ty st" and "i \<in> I"
  shows "changes_of i (map update_of (to_publish st)) = (if dirty_at i st then [change_of (update_of (entry_of i st))] else [])"
  using to_publish_of [OF assms] by (simp add: changes_of_def filter_map o_def)

lemma dirty_update:
  assumes "replica I ty st" and "i \<in> I" and "dirty_at i st"
  shows "update_message_ok I ty (update_of (entry_of i st))" and "shows_at i st = whole (change_of (update_of (entry_of i st)))"
proof -
  obtain d where d: "tracked i (ty i) d" "entry_of i st = d" using assms(1,2) by (rule replicaE)
  with assms(3) obtain c where c: "content_of (se_value d) = Some c" "wire_change (ty i) (se_last_update d, c)" "se_net_id d = i"
    by (auto simp: tracked_def dirty_at_def split: if_splits)
  then show "update_message_ok I ty (update_of (entry_of i st))"
    using assms(2) d(2) by (auto simp: update_message_ok_def update_of_def out_entry_update_def out_message_new_def)
  show "shows_at i st = whole (change_of (update_of (entry_of i st)))"
    using c d assms(3) by (auto simp: update_of_def change_of_def shows_at_def whole_def out_entry_update_def out_message_new_def
        seen_def entry_register_def tracked_def dirty_at_def split: if_splits)
qed

lemma published_ok:
  "replica I ty st \<Longrightarrow> m \<in> set (map update_of (to_publish st)) \<Longrightarrow> update_message_ok I ty m"
  using to_publish_at dirty_update(1) by fastforce

lemma wire_change_frame:
  assumes "wire_change ty (t, c)"
  shows "net_clean (N_update t i c)" "length (net_body (N_update t i c)) < 1024" "changes_entry (N_update t i c)"
  using assms by (simp_all add: wire_change_def ms_ok_def)

section \<open>The network\<close>

text \<open>A server and its clients.\<close>

record ('s, 'l, 'c, 'o) sides =
  nt_server :: "('s, 'l, 'c, 'o) server_world"
  nt_clients :: "u16 \<Rightarrow> ('c, 'o) client_world"

definition server_storage_of :: "('s, 'l, 'c, 'o) sides \<Rightarrow> 'c storage" where
  "server_storage_of n = sw_storage (nt_server n)"

definition client_storage_of :: "u16 \<Rightarrow> ('s, 'l, 'c, 'o) sides \<Rightarrow> 'c storage" where
  "client_storage_of j n = cw_storage (nt_clients n j)"

definition queue_for :: "u16 \<Rightarrow> ('s, 'l, 'c, 'o) sides \<Rightarrow> out_message list" where
  "queue_for j n = (case map_of (ns_clients (sw_server (nt_server n))) j of None \<Rightarrow> [] | Some c \<Rightarrow> sc_outgoing c)"

text \<open>The first message of a queue is gone.\<close>

definition sent_first :: "message_queue \<Rightarrow> message_queue" where
  "sent_first q = q\<lparr>mq_outgoing := tl (mq_outgoing q)\<rparr>"

definition cells_of :: "u16 \<Rightarrow> ('s, 'l, 'c, 'o) sides \<Rightarrow> cells" where
  "cells_of i n =
     \<lparr>ce_reg = case_option (shows_at i (server_storage_of n)) (\<lambda>j. shows_at i (client_storage_of j n)),
      ce_dirty = case_option (dirty_at i (server_storage_of n)) (\<lambda>j. dirty_at i (client_storage_of j n)),
      ce_up = (\<lambda>j. changes_of i (queued (nt_clients n j))),
      ce_down = (\<lambda>j. changes_of i (queue_for j n))\<rparr>"

text \<open>The storage of a side, and what there is of an entry in the network: what the sides show, and what is in the queues.\<close>

definition side_storage :: "u16 option \<Rightarrow> ('s, 'l, 'c, 'o) sides \<Rightarrow> 'c storage" where
  "side_storage x n = (case x of None \<Rightarrow> server_storage_of n | Some j \<Rightarrow> client_storage_of j n)"

definition around :: "u16 \<Rightarrow> u16 set \<Rightarrow> ('s, 'l, 'c, 'o) sides \<Rightarrow> shown_value set" where
  "around i J n = (\<lambda>x. shows_at i (side_storage x n)) ` nodes J \<union>
     (\<Union>j\<in>J. whole ` set (changes_of i (queued (nt_clients n j)) @ changes_of i (queue_for j n)))"

lemma around_copies: "around i J n = copies J (cells_of i n)"
proof -
  have "ce_reg (cells_of i n) = (\<lambda>x. shows_at i (side_storage x n))"
    by (rule ext) (simp add: cells_of_def side_storage_def split: option.split)
  then show ?thesis
    by (auto simp: around_def copies_def queued_changes_def cells_of_def)
qed

text \<open>
  The users work with some entries: a user of the server or of a client sets one, when the clock there is past the
  entry's time stamp and reads what no other change of it has.
\<close>

inductive user_step ::
  "u16 set \<Rightarrow> (u16 \<Rightarrow> value_type) \<Rightarrow> u16 set \<Rightarrow> ('s, 'l, 'c, 'o) sides \<Rightarrow> ('s, 'l, 'c, 'o) sides \<Rightarrow> bool" for I ty J where
  server_sets: "i \<in> I \<Longrightarrow> st = server_storage_of n \<Longrightarrow> content_of v = Some c \<Longrightarrow> t = clock_now (st_clock st) (tm 1) \<Longrightarrow>
    wire_change (ty i) (t, c) \<Longrightarrow> fst (shows_at i st) < t \<Longrightarrow> t \<notin> fst ` around i J n \<Longrightarrow>
    set_entry_value tm (the (st_ids st i)) v st = (r, st') \<Longrightarrow>
    user_step I ty J n (n\<lparr>nt_server := (nt_server n)\<lparr>sw_storage := st'\<rparr>\<rparr>)"
| client_sets: "i \<in> I \<Longrightarrow> j \<in> J \<Longrightarrow> st = client_storage_of j n \<Longrightarrow> content_of v = Some c \<Longrightarrow>
    t = clock_now (st_clock st) (tm 1) \<Longrightarrow>
    wire_change (ty i) (t, c) \<Longrightarrow> fst (shows_at i st) < t \<Longrightarrow> t \<notin> fst ` around i J n \<Longrightarrow>
    set_entry_value tm (the (st_ids st i)) v st = (r, st') \<Longrightarrow>
    user_step I ty J n (n\<lparr>nt_clients := (nt_clients n)(j := (nt_clients n j)\<lparr>cw_storage := st'\<rparr>)\<rparr>)"

text \<open>
  The sides exchange what they have: the server or a client publishes what is dirty; the server or a client gets the
  first message that is queued for it.
\<close>

inductive exchange_step ::
  "('s, 'l, 'o) net_server_env \<Rightarrow> (nat \<Rightarrow> u8) \<Rightarrow> ('k, 'o) net_env \<Rightarrow> u16 set \<Rightarrow>
   ('s, 'l, 'c, 'o) sides \<Rightarrow> ('s, 'l, 'c, 'o) sides \<Rightarrow> bool"
  for sne block cne J where
  server_publishes: "process_dirty sne (nt_server n) = (r, w) \<Longrightarrow>
    exchange_step sne block cne J n (n\<lparr>nt_server := w\<rparr>)"
| client_publishes: "j \<in> J \<Longrightarrow> process_storage cne s (nt_clients n j) = (r, s', w) \<Longrightarrow>
    exchange_step sne block cne J n (n\<lparr>nt_clients := (nt_clients n)(j := w)\<rparr>)"
| server_gets: "j \<in> J \<Longrightarrow> queued (nt_clients n j) = m # ms \<Longrightarrow> stands_for m k \<Longrightarrow>
    server_on_message sne block j (fst (frame_of index k)) (snd (frame_of index k)) (unat (mh_size (fst (frame_of index k))))
      (nt_server n) = (r, w) \<Longrightarrow>
    exchange_step sne block cne J n
      (n\<lparr>nt_server := w, nt_clients := (nt_clients n)
         (j := (nt_clients n j)\<lparr>cw_client := (cw_client (nt_clients n j))
            \<lparr>nc_queue := sent_first (nc_queue (cw_client (nt_clients n j)))\<rparr>\<rparr>)\<rparr>)"
| client_gets: "j \<in> J \<Longrightarrow> queue_for j n = m # ms \<Longrightarrow> stands_for m k \<Longrightarrow>
    client_receives cne [frame_of index k] s (nt_clients n j) = (r, s', w) \<Longrightarrow>
    exchange_step sne block cne J n
      (n\<lparr>nt_server := (nt_server n)\<lparr>sw_server := update_client j (\<lambda>c. c\<lparr>sc_queue := sent_first (sc_queue c)\<rparr>)
            (sw_server (nt_server n))\<rparr>,
         nt_clients := (nt_clients n)(j := w)\<rparr>)"

text \<open>
  Everyone has the entries, the clients are those of the server and know the entries' identifiers, and only changes of
  the entries are queued.
\<close>

definition server_part :: "u16 set \<Rightarrow> (u16 \<Rightarrow> value_type) \<Rightarrow> u16 set \<Rightarrow> ('s, 'l, 'c, 'o) server_world \<Rightarrow> bool" where
  "server_part I ty J w \<longleftrightarrow> replica I ty (sw_storage w) \<and> \<not> ns_locked (sw_server w) \<and> ns_attached (sw_server w) \<and>
     dom (map_of (ns_clients (sw_server w))) = J \<and>
     (\<forall>j c. map_of (ns_clients (sw_server w)) j = Some c \<longrightarrow>
        (\<forall>i\<in>I. is_known i c) \<and> (\<forall>m\<in>set (sc_outgoing c). update_message_ok I ty m))"

definition client_part :: "u16 set \<Rightarrow> (u16 \<Rightarrow> value_type) \<Rightarrow> ('c, 'o) client_world \<Rightarrow> bool" where
  "client_part I ty w \<longleftrightarrow> replica I ty (cw_storage w) \<and> \<not> nc_locked (cw_client w) \<and> nc_attached (cw_client w) \<and>
     (\<forall>m\<in>set (queued w). update_message_ok I ty m)"

definition network_ok :: "u16 set \<Rightarrow> (u16 \<Rightarrow> value_type) \<Rightarrow> u16 set \<Rightarrow> ('s, 'l, 'c, 'o) sides \<Rightarrow> bool" where
  "network_ok I ty J n \<longleftrightarrow> id_not_assigned \<notin> I \<and> server_part I ty J (nt_server n) \<and> (\<forall>j\<in>J. client_part I ty (nt_clients n j))"

lemma cells_eqI:
  fixes s s' :: cells
  assumes "ce_reg s = ce_reg s'" "ce_dirty s = ce_dirty s'" "ce_up s = ce_up s'" "ce_down s = ce_down s'"
  shows "s = s'"
  using assms by simp

lemmas network_defs = server_storage_of_def client_storage_of_def queue_for_def queued_def

lemma cells_of_simps [simp]:
  "ce_reg (cells_of i n) None = shows_at i (server_storage_of n)"
  "ce_reg (cells_of i n) (Some j) = shows_at i (client_storage_of j n)"
  "ce_dirty (cells_of i n) None = dirty_at i (server_storage_of n)"
  "ce_dirty (cells_of i n) (Some j) = dirty_at i (client_storage_of j n)"
  "ce_up (cells_of i n) j = changes_of i (queued (nt_clients n j))"
  "ce_down (cells_of i n) j = changes_of i (queue_for j n)"
  by (simp_all add: cells_of_def)

lemma update_client_rest [simp]:
  "ns_locked (update_client j f w) = ns_locked w" "ns_attached (update_client j f w) = ns_attached w"
  by (simp_all add: update_client_def)

lemma sent_first_queue [simp]: "mq_outgoing (sent_first q) = tl (mq_outgoing q)"
  by (simp add: sent_first_def)

lemma same_othersD:
  "same_others I i st st' \<Longrightarrow> k \<in> I \<Longrightarrow> k \<noteq> i \<Longrightarrow> shows_at k st' = shows_at k st \<and> dirty_at k st' = dirty_at k st"
  by (simp add: same_others_def)

text \<open>A user sets an entry; nothing happens to the others.\<close>

lemma client_sets_effect:
  assumes ok: "network_ok I ty J n" and j: "i \<in> I" "j \<in> J" "st = client_storage_of j n"
    and v: "content_of v = Some c" "t = clock_now (st_clock st) (tm 1)" "wire_change (ty i) (t, c)"
    and s: "set_entry_value tm (the (st_ids st i)) v st = (r, st')"
    and n': "n' = n\<lparr>nt_clients := (nt_clients n)(j := (nt_clients n j)\<lparr>cw_storage := st'\<rparr>)\<rparr>"
  shows "network_ok I ty J n'" and "cells_of i n' = user_set (Some j) (t, Some c) (cells_of i n)"
    and "\<forall>k\<in>I. k \<noteq> i \<longrightarrow> cells_of k n' = cells_of k n"
proof -
  have "replica I ty st" using ok j by (simp add: network_ok_def client_part_def client_storage_of_def)
  from replica_set [where tm = tm, OF this j(1) v(1,3) v(2) [symmetric]] s
  have st': "replica I ty st'" "same_others I i st st'" "shows_at i st' = (t, Some c)" "dirty_at i st'" by auto
  show "network_ok I ty J n'" using ok st'(1) by (simp add: network_ok_def client_part_def n' queued_def)
  show "cells_of i n' = user_set (Some j) (t, Some c) (cells_of i n)"
    using st'(3,4) by (intro cells_eqI) (auto simp: cells_of_def network_defs n' fun_eq_iff split: option.split)
  show "\<forall>k\<in>I. k \<noteq> i \<longrightarrow> cells_of k n' = cells_of k n"
    using same_othersD [OF st'(2)] j(3)
    by (intro ballI impI cells_eqI) (auto simp: cells_of_def network_defs n' fun_eq_iff split: option.split)
qed

lemma server_sets_effect:
  assumes ok: "network_ok I ty J n" and j: "i \<in> I" "st = server_storage_of n"
    and v: "content_of v = Some c" "t = clock_now (st_clock st) (tm 1)" "wire_change (ty i) (t, c)"
    and s: "set_entry_value tm (the (st_ids st i)) v st = (r, st')"
    and n': "n' = n\<lparr>nt_server := (nt_server n)\<lparr>sw_storage := st'\<rparr>\<rparr>"
  shows "network_ok I ty J n'" and "cells_of i n' = user_set None (t, Some c) (cells_of i n)"
    and "\<forall>k\<in>I. k \<noteq> i \<longrightarrow> cells_of k n' = cells_of k n"
proof -
  have "replica I ty st" using ok j by (simp add: network_ok_def server_part_def server_storage_of_def)
  from replica_set [where tm = tm, OF this j(1) v(1,3) v(2) [symmetric]] s
  have st': "replica I ty st'" "same_others I i st st'" "shows_at i st' = (t, Some c)" "dirty_at i st'" by auto
  show "network_ok I ty J n'" using ok st'(1) by (simp add: network_ok_def server_part_def n')
  show "cells_of i n' = user_set None (t, Some c) (cells_of i n)"
    using st'(3,4) by (intro cells_eqI) (auto simp: cells_of_def network_defs n' fun_eq_iff split: option.split)
  show "\<forall>k\<in>I. k \<noteq> i \<longrightarrow> cells_of k n' = cells_of k n"
    using same_othersD [OF st'(2)] j(2)
    by (intro ballI impI cells_eqI) (auto simp: cells_of_def network_defs n' fun_eq_iff split: option.split)
qed

text \<open>A client publishes.\<close>

lemma published_cells:
  assumes "replica I ty st" and "i \<in> I"
  obtains "dirty_at i st" "changes_of i (map update_of (to_publish st)) = [change_of (update_of (entry_of i st))]"
  | "\<not> dirty_at i st" "changes_of i (map update_of (to_publish st)) = []"
  using changes_of_published [OF assms] by (cases "dirty_at i st") auto

text \<open>What a client has for the server, and what the publishing of an entry does to it.\<close>

definition for_server :: "'s \<times> ('c, 'o) client_world \<Rightarrow> out_message list \<times> bool \<times> bool" where
  "for_server = (\<lambda>(s, w). (queued w, nc_locked (cw_client w), nc_attached (cw_client w)))"

definition tell_server :: "storage_entry \<Rightarrow> out_message list \<times> bool \<times> bool \<Rightarrow> out_message list \<times> bool \<times> bool" where
  "tell_server d = (\<lambda>(q, r). (q @ [update_of d], r))"

lemma tell_server_all: "fold tell_server ds (q, r) = (q @ map update_of ds, r)"
  by (induction ds arbitrary: q) (auto simp: tell_server_def)

lemma client_publishes_cells:
  assumes ok: "network_ok I ty J n" and j: "j \<in> J"
    and p: "process_storage cne s (nt_clients n j) = (r, s', w)"
    and n': "n' = n\<lparr>nt_clients := (nt_clients n)(j := w)\<rparr>"
  shows "r = Inr ()" and "network_ok I ty J n'" and "\<forall>i\<in>I. cells_of i n' =
     (if dirty_at i (client_storage_of j n) then client_published j (change_of (update_of (entry_of i (client_storage_of j n)))) (cells_of i n)
      else cells_of i n)"
proof -
  let ?cw = "nt_clients n j" and ?st = "client_storage_of j n"
  have i: "id_not_assigned \<notin> I" and c: "client_part I ty ?cw" using ok j by (simp_all add: network_ok_def)
  have rep: "replica I ty ?st" using c by (simp add: client_part_def client_storage_of_def)
  have "\<exists>w'. publish_entry cne d (st, w) = (Inr True, st, w') \<and> for_server w' = tell_server d (for_server w)"
    if "\<exists>i\<in>I. tracked i (ty i) d" for d st w
    using that i
    by (cases w) (auto simp: tracked_def publish_entry_def client_enqueue_later update_of_def Let_def queued_def
        for_server_def tell_server_def)
  from replica_publish [where action = "publish_entry cne" and out = for_server and w = "(s, ?cw)", OF rep this] obtain st' w' where st':
    "act_on_dirty_entries (publish_entry cne) (?st, (s, ?cw)) = (Inr (), st', w')"
    "for_server w' = fold tell_server (to_publish ?st) (for_server (s, ?cw))"
    "replica I ty st'" "\<forall>i\<in>I. shows_at i st' = shows_at i ?st \<and> \<not> dirty_at i st'" by blast
  have w': "queued (snd w') = queued ?cw @ map update_of (to_publish ?st)"
    "\<not> nc_locked (cw_client (snd w'))" "nc_attached (cw_client (snd w'))"
    using st'(2) c by (auto simp: for_server_def tell_server_all client_part_def split: prod.splits)
  have "nc_attached (cw_client ?cw)" using c by (simp add: client_part_def)
  then have "process_storage cne s ?cw = (Inr (), fst w', (snd w')\<lparr>cw_storage := st'\<rparr>)"
    using st'(1) by (simp add: process_storage_def client_storage_of_def split: prod.split)
  with p have w: "r = Inr ()" "w = (snd w')\<lparr>cw_storage := st'\<rparr>" by auto
  have q: "queued w = queued ?cw @ map update_of (to_publish ?st)" using w'(1) by (simp add: w(2) queued_def)
  have "client_part I ty w"
    using c st'(3) published_ok [OF rep] q w'(2,3) by (auto simp: client_part_def w)
  then show "network_ok I ty J n'" using ok by (simp add: network_ok_def n')
  show "\<forall>i\<in>I. cells_of i n' =
     (if dirty_at i ?st then client_published j (change_of (update_of (entry_of i ?st))) (cells_of i n) else cells_of i n)"
  proof
    fix i
    assume i: "i \<in> I"
    with rep show "cells_of i n' =
       (if dirty_at i ?st then client_published j (change_of (update_of (entry_of i ?st))) (cells_of i n) else cells_of i n)"
    proof (cases rule: published_cells)
      case 1
      then show ?thesis using st'(4) i q by (simp, intro cells_eqI)
        (auto simp: cells_of_def server_storage_of_def client_storage_of_def queue_for_def n' w(2) fun_eq_iff split: option.split)
    next
      case 2
      then show ?thesis using st'(4) i q by (simp, intro cells_eqI)
        (auto simp: cells_of_def server_storage_of_def client_storage_of_def queue_for_def n' w(2) fun_eq_iff split: option.split)
    qed
  qed
  show "r = Inr ()" by (fact w(1))
qed

text \<open>The server publishes.\<close>

lemma update_entry_known:
  assumes "tracked i ty d" and "i \<noteq> id_not_assigned"
  shows "\<exists>w'. update_entry sne d (st, w) = (Inr True, (st, w')) \<and>
     sw_server w' = (sw_server w)\<lparr>ns_clients :=
       map (\<lambda>(j, c). (j, send_update i (se_path d) (update_of d) c)) (ns_clients (sw_server w))\<rparr>"
  using assms
  by (simp add: update_entry_def w_then_def w_return_def server_now_def w_ask_def on_server_def w_modify_def
      update_message_def update_of_def tracked_def)

text \<open>What the server has for its clients, and what the publishing of an entry does to it.\<close>

definition for_clients :: "('s, 'l, 'c, 'o) server_world \<Rightarrow> (u16 \<Rightarrow> server_client option) \<times> bool \<times> bool" where
  "for_clients w = (map_of (ns_clients (sw_server w)), ns_locked (sw_server w), ns_attached (sw_server w))"

definition tell_clients :: "storage_entry \<Rightarrow> (u16 \<Rightarrow> server_client option) \<times> bool \<times> bool \<Rightarrow> (u16 \<Rightarrow> server_client option) \<times> bool \<times> bool" where
  "tell_clients d = (\<lambda>(cl, r). (\<lambda>j. map_option (send_update (se_net_id d) (se_path d) (update_of d)) (cl j), r))"

lemma sc_enqueue_all [simp]:
  "sc_outgoing (fold sc_enqueue ms c) = sc_outgoing c @ ms" "is_known i (fold sc_enqueue ms c) = is_known i c"
  by (induction ms arbitrary: c) (simp_all add: sc_enqueue_def is_known_def)

lemma tell_known: "is_known (se_net_id d) c \<Longrightarrow> send_update (se_net_id d) (se_path d) (update_of d) c = sc_enqueue (update_of d) c"
  by (simp add: send_update_def update_of_def out_entry_update_def out_message_new_def)

lemma tell_all:
  "\<forall>d\<in>set ds. \<forall>j c. cl j = Some c \<longrightarrow> is_known (se_net_id d) c \<Longrightarrow>
   fold tell_clients ds (cl, r) = (\<lambda>j. map_option (fold sc_enqueue (map update_of ds)) (cl j), r)"
proof (induction ds arbitrary: cl)
  case (Cons d ds)
  let ?cl = "\<lambda>j. map_option (sc_enqueue (update_of d)) (cl j)"
  have "tell_clients d (cl, r) = (?cl, r)"
    using Cons.prems by (auto simp: tell_clients_def fun_eq_iff tell_known intro!: option.map_cong)
  moreover have "\<forall>d\<in>set ds. \<forall>j c. ?cl j = Some c \<longrightarrow> is_known (se_net_id d) c"
    using Cons.prems by (auto simp: is_known_def sc_enqueue_def)
  ultimately show ?case using Cons.IH [of ?cl] by (simp add: option.map_comp o_def)
qed (simp add: option.map_id0 id_def [symmetric])

lemma server_publishes_cells:
  assumes ok: "network_ok I ty J n" and p: "process_dirty sne (nt_server n) = (r, w)"
    and n': "n' = n\<lparr>nt_server := w\<rparr>"
  shows "r = Inr ()" and "network_ok I ty J n'" and "\<forall>i\<in>I. cells_of i n' =
     (if dirty_at i (server_storage_of n) then server_published J (change_of (update_of (entry_of i (server_storage_of n)))) (cells_of i n)
      else cells_of i n)"
proof -
  let ?sw = "nt_server n" and ?st = "server_storage_of n"
  let ?ms = "map update_of (to_publish ?st)"
  let ?cl = "map_of (ns_clients (sw_server ?sw))"
  have i: "id_not_assigned \<notin> I" and c: "server_part I ty J ?sw" using ok by (simp_all add: network_ok_def)
  have rep: "replica I ty ?st" using c by (simp add: server_part_def server_storage_of_def)
  have "\<exists>w'. update_entry sne d (st, w) = (Inr True, st, w') \<and> for_clients w' = tell_clients d (for_clients w)"
    if d: "\<exists>i\<in>I. tracked i (ty i) d" for d st w
  proof -
    obtain k where k: "tracked k (ty k) d" "k \<noteq> id_not_assigned" using i d by blast
    then have "se_net_id d = k" by (simp add: tracked_def)
    with update_entry_known [OF k, of sne st w] show ?thesis
      by (auto simp: for_clients_def tell_clients_def map_of_map_clients fun_eq_iff)
  qed
  from replica_publish [where action = "update_entry sne" and out = for_clients and w = ?sw, OF rep this] obtain st' w' where st':
    "act_on_dirty_entries (update_entry sne) (?st, ?sw) = (Inr (), st', w')"
    "for_clients w' = fold tell_clients (to_publish ?st) (for_clients ?sw)"
    "replica I ty st'" "\<forall>i\<in>I. shows_at i st' = shows_at i ?st \<and> \<not> dirty_at i st'" by blast
  have "is_known (se_net_id d) c'" if d: "d \<in> set (to_publish ?st)" "?cl k = Some c'" for d k c'
  proof -
    obtain i where "i \<in> I" "d = entry_of i ?st" using to_publish_at [OF rep d(1)] by blast
    then have "i \<in> I" "se_net_id d = i" using replicaE [OF rep] by (metis tracked_def)+
    with c d(2) show ?thesis by (simp add: server_part_def)
  qed
  then have w': "map_of (ns_clients (sw_server w')) = (\<lambda>k. map_option (fold sc_enqueue ?ms) (?cl k))"
    "\<not> ns_locked (sw_server w')" "ns_attached (sw_server w')"
    using st'(2) c tell_all [of "to_publish ?st" ?cl] by (auto simp: for_clients_def server_part_def)
  have "ns_attached (sw_server ?sw)" using c by (simp add: server_part_def)
  then have "process_dirty sne ?sw = (Inr (), w'\<lparr>sw_storage := st'\<rparr>)"
    using st'(1) by (simp add: process_dirty_def server_storage_of_def)
  with p have w: "r = Inr ()" "w = w'\<lparr>sw_storage := st'\<rparr>" by auto
  have q: "queue_for k n' = queue_for k n @ (if k \<in> J then ?ms else [])" for k
    using c w'(1) by (auto simp: queue_for_def n' w(2) server_part_def split: option.split)
  have "dom (map_of (ns_clients (sw_server w))) = J"
    using c w'(1) by (auto simp: server_part_def dom_def w(2))
  moreover have "(\<forall>i\<in>I. is_known i c') \<and> (\<forall>m\<in>set (sc_outgoing c'). update_message_ok I ty m)"
    if "map_of (ns_clients (sw_server w)) k = Some c'" for k c'
    using that c published_ok [OF rep] by (auto simp: w'(1) w(2) server_part_def)
  ultimately have "server_part I ty J w"
    using w'(2,3) st'(3) by (simp add: server_part_def w(2))
  then show "network_ok I ty J n'" using ok by (simp add: network_ok_def n')
  show "\<forall>i\<in>I. cells_of i n' =
     (if dirty_at i ?st then server_published J (change_of (update_of (entry_of i ?st))) (cells_of i n) else cells_of i n)"
  proof
    fix i
    assume i: "i \<in> I"
    with rep show "cells_of i n' =
       (if dirty_at i ?st then server_published J (change_of (update_of (entry_of i ?st))) (cells_of i n) else cells_of i n)"
    proof (cases rule: published_cells)
      case 1
      then show ?thesis using st'(4) i q by (simp, intro cells_eqI)
        (auto simp: cells_of_def server_storage_of_def client_storage_of_def queued_def n' w(2) fun_eq_iff split: option.split)
    next
      case 2
      then show ?thesis using st'(4) i q by (simp, intro cells_eqI)
        (auto simp: cells_of_def server_storage_of_def client_storage_of_def queued_def n' w(2) fun_eq_iff split: option.split)
    qed
  qed
  show "r = Inr ()" by (fact w(1))
qed

text \<open>A message from a queue, and its frame.\<close>

lemma queued_change:
  assumes "update_message_ok I ty m" and "stands_for m k"
  shows "k = N_update (fst (change_of m)) (om_id m) (snd (change_of m))" and "om_id m \<in> I"
    and "wire_change (ty (om_id m)) (change_of m)"
  using assms by (cases k; force simp: update_message_ok_def change_of_def)+

lemma update_stands_ok:
  "stands_for m (N_update t i c) \<Longrightarrow> i \<in> I \<Longrightarrow> wire_change (ty i) (t, c) \<Longrightarrow>
   update_message_ok I ty m \<and> change_of m = (t, c) \<and> om_id m = i"
  by (auto simp: update_message_ok_def change_of_def)

text \<open>The server gets a message.\<close>

lemma server_part_gets:
  assumes c: "server_part I ty J sw" and n: "id_not_assigned \<notin> I" and m: "update_message_ok I ty m" "stands_for m k"
    and g: "server_on_message sne block j (fst (frame_of index k)) (snd (frame_of index k))
      (unat (mh_size (fst (frame_of index k)))) sw = (r, w)"
  shows "\<exists>m'. r = Inr () \<and> server_part I ty J w \<and> change_of m' = change_of m \<and> om_id m' = om_id m \<and>
     same_others I (om_id m) (sw_storage sw) (sw_storage w) \<and>
     shows_at (om_id m) (sw_storage w) = overwritten (change_of m) (shows_at (om_id m) (sw_storage sw)) \<and>
     dirty_at (om_id m) (sw_storage w) =
       (dirty_at (om_id m) (sw_storage sw) \<and> fst (shows_at (om_id m) (sw_storage sw)) > fst (change_of m)) \<and>
     (\<forall>l. map_of (ns_clients (sw_server w)) l =
        map_option (\<lambda>c. if l = j then c else sc_enqueue m' c) (map_of (ns_clients (sw_server sw)) l))"
proof -
  obtain t ct where u: "change_of m = (t, ct)" by fastforce
  let ?i = "om_id m"
  from queued_change [OF m] u have k: "k = N_update t ?i ct" "?i \<in> I" "wire_change (ty ?i) (t, ct)" by simp_all
  have i: "?i \<noteq> id_not_assigned" using n k(2) by metis
  note fr = wire_change_frame [OF k(3), of ?i, folded k(1)]
  have "\<exists>v tm w' m'. server_on_message sne block j (fst (frame_of index k)) (snd (frame_of index k))
       (unat (mh_size (fst (frame_of index k)))) sw = (Inr (), w') \<and> valued k v \<and>
     sw_storage w' = storage_after k v tm (sw_storage sw) \<and> stands_for m' k \<and>
     ns_clients (sw_server w') =
       map (\<lambda>(l, c). (l, if l = j then c else sc_enqueue m' c)) (ns_clients (sw_server sw)) \<and>
     \<not> ns_locked (sw_server w') \<and> ns_attached (sw_server w')"
    unfolding frame_message(1,2) [OF fr(2)]
    by (rule server_on_message_effect)
      (use fr frame_message(3) [OF fr(2)] c in \<open>simp_all only: order_refl take_all not_False_eq_True simp_thms server_part_def\<close>)
  then obtain v tm m' where e: "r = Inr ()" "valued k v" "sw_storage w = storage_after k v tm (sw_storage sw)" "stands_for m' k"
    "ns_clients (sw_server w) = map (\<lambda>(l, c). (l, if l = j then c else sc_enqueue m' c)) (ns_clients (sw_server sw))"
    "\<not> ns_locked (sw_server w)" "ns_attached (sw_server w)" unfolding g by blast
  have m': "update_message_ok I ty m'" "change_of m' = (t, ct)" "om_id m' = ?i"
    using update_stands_ok [where ty = ty and i = ?i, OF e(4) [unfolded k(1)] k(2,3)] by simp_all
  have "replica I ty (sw_storage sw)" using c by (simp add: server_part_def)
  from replica_update [OF this k(2) _ k(3) i, of v tm] e(2,3) k(1) have st: "replica I ty (sw_storage w)"
    "same_others I ?i (sw_storage sw) (sw_storage w)"
    "shows_at ?i (sw_storage w) = overwritten (t, ct) (shows_at ?i (sw_storage sw))"
    "dirty_at ?i (sw_storage w) = (dirty_at ?i (sw_storage sw) \<and> fst (shows_at ?i (sw_storage sw)) > t)" by simp_all
  have cl: "map_of (ns_clients (sw_server w)) l =
      map_option (\<lambda>c. if l = j then c else sc_enqueue m' c) (map_of (ns_clients (sw_server sw)) l)" for l
    unfolding e(5) by (rule map_of_map_clients)
  then have "(\<forall>i\<in>I. is_known i c') \<and> (\<forall>m\<in>set (sc_outgoing c'). update_message_ok I ty m)"
    if "map_of (ns_clients (sw_server w)) l = Some c'" for l c'
    using that c m'(1) by (auto simp: server_part_def sc_enqueue_def is_known_def split: if_splits)
  moreover have "dom (map_of (ns_clients (sw_server w))) = J" using c cl by (auto simp: server_part_def dom_def)
  ultimately have "server_part I ty J w" using st(1) e(6,7) by (simp add: server_part_def)
  with e(1) st(2-4) cl m'(2,3) u show ?thesis by auto
qed

lemma server_gets_cells:
  assumes ok: "network_ok I ty J n" and j: "j \<in> J" "queued (nt_clients n j) = m # ms" "stands_for m k"
    and g: "server_on_message sne block j (fst (frame_of index k)) (snd (frame_of index k))
      (unat (mh_size (fst (frame_of index k)))) (nt_server n) = (r, w)"
    and n': "n' = n\<lparr>nt_server := w, nt_clients := (nt_clients n)
         (j := (nt_clients n j)\<lparr>cw_client := (cw_client (nt_clients n j))
            \<lparr>nc_queue := sent_first (nc_queue (cw_client (nt_clients n j)))\<rparr>\<rparr>)\<rparr>"
  shows "r = Inr ()" and "network_ok I ty J n'" and "om_id m \<in> I"
    and "\<forall>i\<in>I. cells_of i n' = (if i = om_id m then server_got J j (change_of m) (changes_of i ms) (cells_of i n) else cells_of i n)"
proof -
  have i: "id_not_assigned \<notin> I" and c: "server_part I ty J (nt_server n)" and cj: "client_part I ty (nt_clients n j)"
    using ok j(1) by (simp_all add: network_ok_def)
  have m: "update_message_ok I ty m" using cj j(2) by (simp add: client_part_def)
  from server_part_gets [OF c i m j(3) g] obtain m' where w: "r = Inr ()" "server_part I ty J w" "change_of m' = change_of m"
    "om_id m' = om_id m" "same_others I (om_id m) (server_storage_of n) (sw_storage w)"
    "shows_at (om_id m) (sw_storage w) = overwritten (change_of m) (shows_at (om_id m) (server_storage_of n))"
    "dirty_at (om_id m) (sw_storage w) =
       (dirty_at (om_id m) (server_storage_of n) \<and> fst (shows_at (om_id m) (server_storage_of n)) > fst (change_of m))"
    "\<forall>l. map_of (ns_clients (sw_server w)) l =
        map_option (\<lambda>c. if l = j then c else sc_enqueue m' c) (map_of (ns_clients (sw_server (nt_server n))) l)"
    unfolding server_storage_of_def by blast
  have qj: "queued (nt_clients n' l) = (if l = j then ms else queued (nt_clients n l))" for l
    using j(2) by (simp add: n' queued_def)
  have "client_part I ty (nt_clients n' l)" if "l \<in> J" for l
    using ok j(2) that by (auto simp: network_ok_def client_part_def n' queued_def)
  then show "network_ok I ty J n'" using i w(2) by (simp add: network_ok_def n')
  have q: "queue_for l n' = queue_for l n @ (if l \<in> J \<and> l \<noteq> j then [m'] else [])" for l
    using c w(8) by (auto simp: queue_for_def n' server_part_def sc_enqueue_def split: option.split)
  have "server_storage_of n' = sw_storage w" "client_storage_of l n' = client_storage_of l n" for l
    by (simp_all add: server_storage_of_def client_storage_of_def n')
  then show "\<forall>i\<in>I. cells_of i n' = (if i = om_id m then server_got J j (change_of m) (changes_of i ms) (cells_of i n) else cells_of i n)"
    using w(3,4,6,7) same_othersD [OF w(5)] qj q j(2)
    by (intro ballI cells_eqI) (auto simp: fun_eq_iff cells_of_def split: option.split)
  show "r = Inr ()" "om_id m \<in> I" using w(1) queued_change(2) [OF m j(3)] by simp_all
qed

text \<open>A client gets a message.\<close>

lemma client_part_gets:
  assumes c: "client_part I ty cw" and n: "id_not_assigned \<notin> I" and m: "update_message_ok I ty m" "stands_for m k"
    and g: "client_receives cne [frame_of index k] s cw = (r, s', w)"
  shows "r = Inr () \<and> client_part I ty w \<and> queued w = queued cw \<and> same_others I (om_id m) (cw_storage cw) (cw_storage w) \<and>
     shows_at (om_id m) (cw_storage w) = overwritten (change_of m) (shows_at (om_id m) (cw_storage cw)) \<and>
     dirty_at (om_id m) (cw_storage w) =
       (dirty_at (om_id m) (cw_storage cw) \<and> fst (shows_at (om_id m) (cw_storage cw)) > fst (change_of m))"
proof -
  obtain t ct where u: "change_of m = (t, ct)" by fastforce
  let ?i = "om_id m"
  from queued_change [OF m] u have k: "k = N_update t ?i ct" "?i \<in> I" "wire_change (ty ?i) (t, ct)" by simp_all
  have i: "?i \<noteq> id_not_assigned" using n k(2) by metis
  note fr = wire_change_frame [OF k(3), of ?i, folded k(1)]
  have a: "\<not> nc_locked (cw_client cw)" "nc_attached (cw_client cw)" "replica I ty (cw_storage cw)"
    using c by (simp_all add: client_part_def)
  from client_receives_message [OF fr(1,2) a(1,2), of cne index "[]" s] g k(1) obtain v tm where e: "r = Inr ()" "valued k v"
    "cw_storage w = storage_after k v tm (cw_storage cw)" "\<not> nc_locked (cw_client w)" "nc_attached (cw_client w)"
    "queued w = queued cw" by auto
  from replica_update [OF a(3) k(2) _ k(3) i, of v tm] e(2,3) k(1) have
    "replica I ty (cw_storage w)" "same_others I ?i (cw_storage cw) (cw_storage w)"
    "shows_at ?i (cw_storage w) = overwritten (t, ct) (shows_at ?i (cw_storage cw))"
    "dirty_at ?i (cw_storage w) = (dirty_at ?i (cw_storage cw) \<and> fst (shows_at ?i (cw_storage cw)) > t)" by simp_all
  with c e u show ?thesis by (simp add: client_part_def)
qed

lemma server_part_sends:
  assumes "server_part I ty J w"
  shows "server_part I ty J (w\<lparr>sw_server := update_client j (\<lambda>c. c\<lparr>sc_queue := sent_first (sc_queue c)\<rparr>) (sw_server w)\<rparr>)"
proof -
  have "update_message_ok I ty m" if "map_of (ns_clients (sw_server w)) k = Some c" "m \<in> set (tl (sc_outgoing c))" for k c m
    using that assms list.set_sel(2) [of "sc_outgoing c" m] by (cases "sc_outgoing c") (auto simp: server_part_def)
  with assms show ?thesis
    by (auto simp: server_part_def dom_def map_of_update_client is_known_def split: if_splits)
qed

lemma client_gets_cells:
  assumes ok: "network_ok I ty J n" and j: "j \<in> J" "queue_for j n = m # ms" "stands_for m k"
    and g: "client_receives cne [frame_of index k] s (nt_clients n j) = (r, s', w)"
    and n': "n' = n\<lparr>nt_server := (nt_server n)\<lparr>sw_server := update_client j (\<lambda>c. c\<lparr>sc_queue := sent_first (sc_queue c)\<rparr>)
            (sw_server (nt_server n))\<rparr>,
         nt_clients := (nt_clients n)(j := w)\<rparr>"
  shows "r = Inr ()" and "network_ok I ty J n'" and "om_id m \<in> I"
    and "\<forall>i\<in>I. cells_of i n' = (if i = om_id m then client_got j (change_of m) (changes_of i ms) (cells_of i n) else cells_of i n)"
proof -
  have i: "id_not_assigned \<notin> I" and c: "server_part I ty J (nt_server n)" and cj: "client_part I ty (nt_clients n j)"
    using ok j(1) by (simp_all add: network_ok_def)
  have m: "update_message_ok I ty m"
    using c j(2) by (auto simp: server_part_def queue_for_def split: option.splits)
  from client_part_gets [OF cj i m j(3) g] have w: "r = Inr ()" "client_part I ty w" "queued w = queued (nt_clients n j)"
     "same_others I (om_id m) (client_storage_of j n) (cw_storage w)"
     "shows_at (om_id m) (cw_storage w) = overwritten (change_of m) (shows_at (om_id m) (client_storage_of j n))"
     "dirty_at (om_id m) (cw_storage w) =
        (dirty_at (om_id m) (client_storage_of j n) \<and> fst (shows_at (om_id m) (client_storage_of j n)) > fst (change_of m))"
    by (simp_all add: client_storage_of_def)
  show "network_ok I ty J n'"
    using ok w(2) server_part_sends [OF c, of j] by (simp add: network_ok_def n')
  have q: "queue_for k n' = (if k = j then ms else queue_for k n)" for k
    using j(2) by (auto simp: queue_for_def n' map_of_update_client split: option.splits)
  have "server_storage_of n' = server_storage_of n"
    "client_storage_of l n' = (if l = j then cw_storage w else client_storage_of l n)" for l
    by (simp_all add: server_storage_of_def client_storage_of_def n')
  then show "\<forall>i\<in>I. cells_of i n' = (if i = om_id m then client_got j (change_of m) (changes_of i ms) (cells_of i n) else cells_of i n)"
    using w(3,5,6) same_othersD [OF w(4)] q n' j(2)
    by (intro ballI cells_eqI) (auto simp: fun_eq_iff cells_of_def split: option.split)
  show "r = Inr ()" "om_id m \<in> I" using w(1) queued_change(2) [OF m j(3)] by simp_all
qed

section \<open>Convergence\<close>

lemma published_step:
  assumes "network_ok I ty J n" and "i \<in> I"
  shows "j \<in> J \<Longrightarrow> dirty_at i (client_storage_of j n) \<Longrightarrow>
      cell_step J (cells_of i n) (client_published j (change_of (update_of (entry_of i (client_storage_of j n)))) (cells_of i n))"
    and "dirty_at i (server_storage_of n) \<Longrightarrow>
      cell_step J (cells_of i n) (server_published J (change_of (update_of (entry_of i (server_storage_of n)))) (cells_of i n))"
proof -
  have r: "replica I ty (server_storage_of n)" "j \<in> J \<Longrightarrow> replica I ty (client_storage_of j n)"
    using assms by (simp_all add: network_ok_def server_part_def client_part_def server_storage_of_def client_storage_of_def)
  show "cell_step J (cells_of i n) (client_published j (change_of (update_of (entry_of i (client_storage_of j n)))) (cells_of i n))"
    if "j \<in> J" "dirty_at i (client_storage_of j n)"
    by (rule cell_step.client_publishes) (use that dirty_update(2) [OF r(2) assms(2)] in simp_all)
  show "cell_step J (cells_of i n) (server_published J (change_of (update_of (entry_of i (server_storage_of n)))) (cells_of i n))"
    if "dirty_at i (server_storage_of n)"
    by (rule cell_step.server_publishes) (use that dirty_update(2) [OF r(1) assms(2)] in simp_all)
qed

text \<open>The entries are independent: the cells of one make a step of their own, or nothing happens to them.\<close>

definition all_cells_ok :: "u16 set \<Rightarrow> u16 set \<Rightarrow> ('s, 'l, 'c, 'o) sides \<Rightarrow> bool" where
  "all_cells_ok I J n \<longleftrightarrow> (\<forall>i\<in>I. cells_ok J (cells_of i n))"

lemma user_step_cells:
  "user_step I ty J n n' \<Longrightarrow> network_ok I ty J n \<Longrightarrow> network_ok I ty J n' \<and> (all_cells_ok I J n \<longrightarrow> all_cells_ok I J n')"
proof (induction rule: user_step.induct)
  case (server_sets i st n v c t tm r st')
  note e = server_sets_effect [where tm = tm, OF server_sets(9,1-5,8) refl]
  have "None \<in> nodes J" by (simp add: nodes_def)
  from sets_ok [OF _ this, of "cells_of i n" t c] server_sets(2,6,7) e show ?case
    unfolding all_cells_ok_def around_copies by (metis cells_of_simps(1))
next
  case (client_sets i j st n v c t tm r st')
  note e = client_sets_effect [where tm = tm, OF client_sets(10,1-6,9) refl]
  have "Some j \<in> nodes J" using client_sets(2) by (simp add: nodes_def)
  from sets_ok [OF _ this, of "cells_of i n" t c] client_sets(3,7,8) e show ?case
    unfolding all_cells_ok_def around_copies by (metis cells_of_simps(2))
qed

lemma exchange_step_cells:
  "exchange_step sne block cne J n n' \<Longrightarrow> network_ok I ty J n \<Longrightarrow>
   network_ok I ty J n' \<and> (\<forall>i\<in>I. (cell_step J)\<^sup>=\<^sup>= (cells_of i n) (cells_of i n'))"
proof (induction rule: exchange_step.induct)
  case (server_publishes n r w)
  from server_publishes_cells [OF server_publishes(2,1) refl] published_step(2) [OF server_publishes(2)]
  show ?case by auto
next
  case (client_publishes j s n r s' w)
  from client_publishes_cells [OF client_publishes(3,1,2) refl] published_step(1) [OF client_publishes(3) _ client_publishes(1)]
  show ?case by auto
next
  case (server_gets j n m ms k index r w)
  have "ce_up (cells_of (om_id m) n) j = change_of m # changes_of (om_id m) ms" using server_gets(2) by simp
  from cell_step.server_gets [OF server_gets(1) this] server_gets_cells [OF server_gets(5,1-4) refl]
  show ?case by auto
next
  case (client_gets j n m ms k index s r s' w)
  have "ce_down (cells_of (om_id m) n) j = change_of m # changes_of (om_id m) ms" using client_gets(2) by simp
  from cell_step.client_gets [OF client_gets(1) this] client_gets_cells [OF client_gets(5,1-4) refl]
  show ?case by auto
qed

lemma exchange_steps_cells:
  "(exchange_step sne block cne J)\<^sup>*\<^sup>* n n' \<Longrightarrow> network_ok I ty J n \<Longrightarrow>
   network_ok I ty J n' \<and> (\<forall>i\<in>I. (cell_step J)\<^sup>*\<^sup>* (cells_of i n) (cells_of i n'))"
proof (induction rule: rtranclp_induct)
  case (step n1 n2)
  then have n1: "network_ok I ty J n1" "\<forall>i\<in>I. (cell_step J)\<^sup>*\<^sup>* (cells_of i n) (cells_of i n1)" by simp_all
  note n2 = exchange_step_cells [OF step(2) n1(1)]
  have "(cell_step J)\<^sup>*\<^sup>* (cells_of i n) (cells_of i n2)" if "i \<in> I" for i
    using bspec [OF n1(2) that] bspec [OF conjunct2 [OF n2] that] by (auto intro: rtranclp.rtrancl_into_rtrancl)
  with n2 show ?case by blast
qed simp

definition network_step ::
  "('s, 'l, 'o) net_server_env \<Rightarrow> (nat \<Rightarrow> u8) \<Rightarrow> ('k, 'o) net_env \<Rightarrow> u16 set \<Rightarrow> (u16 \<Rightarrow> value_type) \<Rightarrow> u16 set \<Rightarrow>
   ('s, 'l, 'c, 'o) sides \<Rightarrow> ('s, 'l, 'c, 'o) sides \<Rightarrow> bool" where
  "network_step sne block cne I ty J n n' \<longleftrightarrow> user_step I ty J n n' \<or> exchange_step sne block cne J n n'"

lemma network_steps_ok:
  "(network_step sne block cne I ty J)\<^sup>*\<^sup>* n n' \<Longrightarrow> network_ok I ty J n \<Longrightarrow>
   network_ok I ty J n' \<and> (all_cells_ok I J n \<longrightarrow> all_cells_ok I J n')"
proof (induction rule: rtranclp_induct)
  case (step n1 n2)
  then have n1: "network_ok I ty J n1" by simp
  have "network_ok I ty J n2 \<and> (all_cells_ok I J n1 \<longrightarrow> all_cells_ok I J n2)"
  proof (cases "user_step I ty J n1 n2")
    case False
    then have "exchange_step sne block cne J n1 n2" using step(2) by (simp add: network_step_def)
    from exchange_steps_cells [OF r_into_rtranclp [of "exchange_step sne block cne J", OF this] n1] show ?thesis
      unfolding all_cells_ok_def using cell_steps_ok by blast
  qed (rule user_step_cells [OF _ n1])
  with step show ?case by blast
qed simp

text \<open>A network in which nothing is left to do.\<close>

definition at_rest :: "u16 set \<Rightarrow> u16 set \<Rightarrow> ('s, 'l, 'c, 'o) sides \<Rightarrow> bool" where
  "at_rest I J n \<longleftrightarrow> (\<forall>i\<in>I. \<forall>x\<in>nodes J. \<not> dirty_at i (side_storage x n)) \<and>
     (\<forall>j\<in>J. queued (nt_clients n j) = [] \<and> queue_for j n = [])"

lemma cells_of_side:
  "ce_reg (cells_of i n) x = shows_at i (side_storage x n)" "ce_dirty (cells_of i n) x = dirty_at i (side_storage x n)"
  by (cases x; simp add: side_storage_def)+

lemma network_ok_replica: "network_ok I ty J n \<Longrightarrow> x \<in> nodes J \<Longrightarrow> replica I ty (side_storage x n)"
  by (cases x) (auto simp: network_ok_def server_part_def client_part_def side_storage_def server_storage_of_def
      client_storage_of_def in_nodes)

lemma replica_seen: "replica I ty st \<Longrightarrow> i \<in> I \<Longrightarrow> seen_at i st = Some (shows_at i st)"
  by (erule (1) replicaE) (simp add: seen_at_def view_def shows_at_def)


section \<open>Coming to rest\<close>

lemma rest_cases:
  assumes "\<not> at_rest I J n"
  obtains i where "i \<in> I" "dirty_at i (server_storage_of n)" | i j where "i \<in> I" "j \<in> J" "dirty_at i (client_storage_of j n)"
    | j m ms where "j \<in> J" "queued (nt_clients n j) = m # ms" | j m ms where "j \<in> J" "queue_for j n = m # ms"
  using assms unfolding at_rest_def nodes_def side_storage_def by (auto simp: neq_Nil_conv)

text \<open>The work that is left on all the entries.\<close>

definition all_work :: "u16 set \<Rightarrow> (u16 \<Rightarrow> nat \<times> nat \<times> nat) \<Rightarrow> nat \<times> nat \<times> nat" where
  "all_work I f = (\<Sum>i\<in>I. fst (f i), \<Sum>i\<in>I. fst (snd (f i)), \<Sum>i\<in>I. snd (snd (f i)))"

definition work_on :: "u16 set \<Rightarrow> u16 set \<Rightarrow> ('s, 'l, 'c, 'o) sides \<Rightarrow> nat \<times> nat \<times> nat" where
  "work_on I J n = all_work I (\<lambda>i. cell_work J (cells_of i n))"

lemma sum_less_or_same:
  fixes f g :: "u16 \<Rightarrow> nat"
  assumes "\<forall>i\<in>I. f i \<le> g i"
  obtains "(\<Sum>i\<in>I. f i) < (\<Sum>i\<in>I. g i)" | "\<forall>i\<in>I. f i = g i"
proof (cases "\<exists>i\<in>I. f i < g i")
  case True
  then have "(\<Sum>i\<in>I. f i) < (\<Sum>i\<in>I. g i)" using assms by (intro sum_strict_mono_ex1) auto
  then show thesis by (rule that(1))
next
  case False
  then have "\<forall>i\<in>I. f i = g i" using assms by (meson le_neq_implies_less)
  then show thesis by (rule that(2))
qed

lemma less_work_cases: "(p, q) \<in> less_work \<longleftrightarrow> fst p < fst q \<or> fst p = fst q \<and>
    (fst (snd p) < fst (snd q) \<or> fst (snd p) = fst (snd q) \<and> snd (snd p) < snd (snd q))"
  by (cases p; cases q) (auto simp: less_work_def)

lemma all_work_less:
  assumes f: "\<forall>i\<in>I. f i = g i \<or> (f i, g i) \<in> less_work" and k: "k \<in> I" "(f k, g k) \<in> less_work"
  shows "(all_work I f, all_work I g) \<in> less_work"
proof -
  have "\<forall>i\<in>I. fst (f i) \<le> fst (g i)" using f by (auto simp: less_work_cases)
  then show ?thesis
  proof (cases rule: sum_less_or_same)
    case 1
    then show ?thesis by (simp add: less_work_cases all_work_def)
  next
    case 2
    then have f2: "\<forall>i\<in>I. fst (snd (f i)) \<le> fst (snd (g i))" using f by (fastforce simp: less_work_cases)
    have s: "(\<Sum>i\<in>I. fst (f i)) = (\<Sum>i\<in>I. fst (g i))" using 2 by simp
    from f2 show ?thesis
    proof (cases rule: sum_less_or_same)
      case 1
      with s show ?thesis by (simp add: less_work_cases all_work_def)
    next
      case 2
      then have s2: "(\<Sum>i\<in>I. fst (snd (f i))) = (\<Sum>i\<in>I. fst (snd (g i)))" by simp
      have "\<forall>i\<in>I. snd (snd (f i)) \<le> snd (snd (g i))"
        using f 2 \<open>\<forall>i\<in>I. fst (f i) = fst (g i)\<close> by (fastforce simp: less_work_cases)
      then show ?thesis
      proof (cases rule: sum_less_or_same)
        case 1
        with s s2 show ?thesis by (simp add: less_work_cases all_work_def)
      next
        case 3: 2
        then have "f k = g k" using 2 \<open>\<forall>i\<in>I. fst (f i) = fst (g i)\<close> k(1) by (simp add: prod_eq_iff)
        with k(2) show ?thesis by (simp add: less_work_cases)
      qed
    qed
  qed
qed

lemma server_publishing_less:
  assumes ok: "network_ok I ty J n" and i: "i \<in> I" "dirty_at i (server_storage_of n)"
  shows "(cell_work J (server_published J (change_of (update_of (entry_of i (server_storage_of n)))) (cells_of i n)),
    cell_work J (cells_of i n)) \<in> less_work"
proof -
  have fin: "finite J" using ok by (auto simp: network_ok_def server_part_def)
  have "replica I ty (server_storage_of n)" using ok by (simp add: network_ok_def server_part_def server_storage_of_def)
  from dirty_update(2) [OF this i] i(2) show ?thesis
    by (intro publishing_less [OF fin server_publishes_publishing]) simp_all
qed

lemma client_publishing_less:
  assumes ok: "network_ok I ty J n" and j: "j \<in> J" and i: "i \<in> I" "dirty_at i (client_storage_of j n)"
  shows "(cell_work J (client_published j (change_of (update_of (entry_of i (client_storage_of j n)))) (cells_of i n)),
    cell_work J (cells_of i n)) \<in> less_work"
proof -
  have fin: "finite J" using ok by (auto simp: network_ok_def server_part_def)
  have "replica I ty (client_storage_of j n)" using ok j by (simp add: network_ok_def client_part_def client_storage_of_def)
  from dirty_update(2) [OF this i] i(2) show ?thesis
    by (intro publishing_less [OF fin client_publishes_publishing [OF j]]) simp_all
qed

lemma network_works:
  fixes sne :: "('s, 'l, 'o) net_server_env" and cne :: "('k, 'o) net_env" and n :: "('s, 'l, 'c, 'o) sides"
  assumes ok: "network_ok I ty J n" and r: "\<not> at_rest I J n"
  shows "\<exists>n'. exchange_step sne block cne J n n' \<and> (work_on I J n', work_on I J n) \<in> less_work"
proof -
  have fin: "finite J" using ok by (auto simp: network_ok_def server_part_def)
  show ?thesis
    using r
  proof (cases rule: rest_cases)
    case (1 i)
    obtain r w where p: "process_dirty sne (nt_server n) = (r, w)" by fastforce
    have "(work_on I J (n\<lparr>nt_server := w\<rparr>), work_on I J n) \<in> less_work"
      unfolding work_on_def
      by (rule all_work_less [OF _ 1(1)])
        (use server_publishes_cells(3) [OF ok p refl] server_publishing_less [OF ok] 1 in \<open>auto simp only: if_True if_False simp_thms split: if_split\<close>)
    with exchange_step.server_publishes [OF p] show ?thesis by blast
  next
    case (2 i j)
    obtain r s' w where p: "process_storage cne undefined (nt_clients n j) = (r, s', w)" by (metis prod_cases3)
    have "(work_on I J (n\<lparr>nt_clients := (nt_clients n)(j := w)\<rparr>), work_on I J n) \<in> less_work"
      unfolding work_on_def
      by (rule all_work_less [OF _ 2(1)])
        (use client_publishes_cells(3) [OF ok 2(2) p refl] client_publishing_less [OF ok 2(2)] 2(1,3) in \<open>auto simp only: if_True if_False simp_thms split: if_split\<close>)
    with exchange_step.client_publishes [OF 2(2) p] show ?thesis by blast
  next
    case (3 j m ms)
    have "update_message_ok I ty m" using ok 3 by (simp add: network_ok_def client_part_def)
    then obtain k where k: "stands_for m k" unfolding update_message_ok_def by blast
    obtain r w where g: "server_on_message sne block j (fst (frame_of 0 k)) (snd (frame_of 0 k))
        (unat (mh_size (fst (frame_of 0 k)))) (nt_server n) = (r, w)" by fastforce
    let ?n = "n\<lparr>nt_server := w, nt_clients := (nt_clients n)
         (j := (nt_clients n j)\<lparr>cw_client := (cw_client (nt_clients n j))
            \<lparr>nc_queue := sent_first (nc_queue (cw_client (nt_clients n j)))\<rparr>\<rparr>)\<rparr>"
    note e = server_gets_cells [OF ok 3 k g refl]
    have "ce_up (cells_of (om_id m) n) j = change_of m # changes_of (om_id m) ms" using 3(2) by simp
    note l = server_got_less [OF fin 3(1) this]
    have "(work_on I J ?n, work_on I J n) \<in> less_work"
      unfolding work_on_def by (rule all_work_less [OF _ e(3)]) (use e(3,4) l in \<open>auto simp only: if_True if_False simp_thms split: if_split\<close>)
    with exchange_step.server_gets [OF 3 k g] show ?thesis by blast
  next
    case (4 j m ms)
    have "update_message_ok I ty m" using ok 4 by (auto simp: network_ok_def server_part_def queue_for_def split: option.splits)
    then obtain k where k: "stands_for m k" unfolding update_message_ok_def by blast
    obtain r s' w where g: "client_receives cne [frame_of 0 k] undefined (nt_clients n j) = (r, s', w)" by (metis prod_cases3)
    let ?n = "n\<lparr>nt_server := (nt_server n)\<lparr>sw_server := update_client j (\<lambda>c. c\<lparr>sc_queue := sent_first (sc_queue c)\<rparr>)
            (sw_server (nt_server n))\<rparr>,
         nt_clients := (nt_clients n)(j := w)\<rparr>"
    note e = client_gets_cells [OF ok 4 k g refl]
    have "ce_down (cells_of (om_id m) n) j = change_of m # changes_of (om_id m) ms" using 4(2) by simp
    note l = client_got_less [OF fin 4(1) this]
    have "(work_on I J ?n, work_on I J n) \<in> less_work"
      unfolding work_on_def by (rule all_work_less [OF _ e(3)]) (use e(3,4) l in \<open>auto simp only: if_True if_False simp_thms split: if_split\<close>)
    with exchange_step.client_gets [OF 4 k g] show ?thesis by blast
  qed
qed

lemma exchange_rests:
  fixes sne :: "('s, 'l, 'o) net_server_env" and cne :: "('k, 'o) net_env" and n :: "('s, 'l, 'c, 'o) sides"
  shows "network_ok I ty J n \<Longrightarrow> \<exists>n'. (exchange_step sne block cne J)\<^sup>*\<^sup>* n n' \<and> at_rest I J n'"
proof (induction "work_on I J n" arbitrary: n rule: wf_induct_rule [OF less_work_wf])
  case (1 n)
  show ?case
  proof (cases "at_rest I J n")
    case False
    from network_works [OF 1(2) this, of sne block cne] obtain n1 where
      n1: "exchange_step sne block cne J n n1" "(work_on I J n1, work_on I J n) \<in> less_work" by blast
    with exchange_step_cells [OF n1(1) 1(2)] 1(1) [OF n1(2)] show ?thesis by (meson converse_rtranclp_into_rtranclp)
  qed blast
qed

text \<open>A server with one client, which have entries with the identifiers 3 and 4.\<close>

definition numbered_storage :: "string storage" where
  "numbered_storage = snd (on_entry_id_assigned 4 ''/b'' networked_storage)"

definition net_of :: "string storage \<Rightarrow> (nat, nat, string, unit) sides" where
  "net_of st =
     \<lparr>nt_server = sample_world\<lparr>sw_storage := st,
        sw_server := sample_server\<lparr>ns_clients := [(1, (server_client_new (\<lambda>_. 0))\<lparr>sc_published := {3, 4}\<rparr>)]\<rparr>\<rparr>,
      nt_clients = (\<lambda>_. \<lparr>cw_client = opening_client, cw_storage = st, cw_out = ()\<rparr>)\<rparr>"

abbreviation sample_net :: "(nat, nat, string, unit) sides" where
  "sample_net \<equiv> net_of numbered_storage"

lemma networked_replica: "replica {3} ty networked_storage" "shows_at 3 networked_storage = (0, None)"
  "\<not> dirty_at 3 networked_storage" "st_clock networked_storage = clock_new"
  "st_paths networked_storage = [''/a/x'' \<mapsto> 0]" "st_ids networked_storage = [3 \<mapsto> 0]"
proof -
  have n: "networked_storage =
      (put_entry 0 (set_net_id 3 (created_entry 0 ''/a/x'')) one_entry_storage)\<lparr>st_ids := [3 \<mapsto> 0]\<rparr>"
    by (simp add: networked_storage_def on_entry_id_assigned_def find_or_create_def ht_get_lookup
        one_entry_storage_eq map_emplace_def)
  have "ht_lookup one_entry_table k = None" if "k \<noteq> 0" for k
    using that by (auto simp: ht_lookup_eq one_entry_table_def ht_capacity_def nth_Cons' unat_eq_0 split: if_splits)
  then have "only_dirty {3} networked_storage"
    by (auto simp: only_dirty_def n put_entry_def ht_update_lookup one_entry_storage_eq split: if_splits)
  then show "replica {3} ty networked_storage"
    using networked_ok networked_simps(1,2)
    by (auto simp: replica_def tracked_def set_net_id_def has_value_bits has_one_flag flag_bits entry_defs)
  show "shows_at 3 networked_storage = (0, None)" "\<not> dirty_at 3 networked_storage"
    using networked_simps
    by (simp_all add: shows_at_def dirty_at_def entry_of_def view_def seen_def set_net_id_def has_one_flag flag_bits entry_defs)
  show "st_clock networked_storage = clock_new" "st_paths networked_storage = [''/a/x'' \<mapsto> 0]" "st_ids networked_storage = [3 \<mapsto> 0]"
    by (simp_all add: n one_entry_storage_eq)
qed

lemma numbered_replica: "replica {3, 4} ty numbered_storage" "i \<in> {3, 4} \<Longrightarrow> shows_at i numbered_storage = (0, None)"
  "i \<in> {3, 4} \<Longrightarrow> \<not> dirty_at i numbered_storage" "clock_now (st_clock numbered_storage) 50 = 50"
proof -
  have "card (dom (st_paths networked_storage)) < entry_capacity" by (simp add: networked_replica(5) entry_capacity_def)
  from replica_assign [where ty = ty and i = 4 and n = "''/b''", OF networked_replica(1) _ _ this] networked_replica(5,6)
  have r: "replica {4, 3} ty numbered_storage" "st_clock numbered_storage = clock_new" "shows_at 4 numbered_storage = (0, None)"
    "\<not> dirty_at 4 numbered_storage" "same_others {3} 4 networked_storage numbered_storage"
    by (auto simp: numbered_storage_def networked_replica(4))
  from r(1) show "replica {3, 4} ty numbered_storage" by (simp add: insert_commute)
  from r(2) show "clock_now (st_clock numbered_storage) 50 = 50" by (simp add: clock_now_def clock_new_def)
  show "shows_at i numbered_storage = (0, None)" "\<not> dirty_at i numbered_storage" if "i \<in> {3, 4}"
    using that r(3-5) networked_replica(2,3) by (auto simp: same_others_def)
qed

lemma net_of_storage [simp]: "server_storage_of (net_of st) = st" "client_storage_of j (net_of st) = st"
  by (simp_all add: net_of_def server_storage_of_def client_storage_of_def)

lemma net_of_ok:
  assumes "replica {3, 4} ty st" and "\<forall>i\<in>{3, 4}. \<not> dirty_at i st"
  shows "network_ok {3, 4} ty {1} (net_of st)" "at_rest {3, 4} {1} (net_of st)"
proof -
  have q: "queued \<lparr>cw_client = opening_client, cw_storage = st, cw_out = ()\<rparr> = []"
    by (simp add: queued_def opening_client_def net_client_new_def message_queue_new_def)
  have sc: "mq_outgoing (sc_queue (server_client_new (\<lambda>_. 0))) = []" by simp
  show "network_ok {3, 4} ty {1} (net_of st)"
    using assms q sc
    by (auto simp: network_ok_def server_part_def client_part_def net_of_def sample_world_def id_not_assigned_def
        is_known_def opening_client_def net_client_new_def)
  show "at_rest {3, 4} {1} (net_of st)"
    using assms q sc by (auto simp: at_rest_def side_storage_def queue_for_def nodes_def) (simp_all add: net_of_def)
qed

lemmas sample_net_ok = net_of_ok [OF numbered_replica(1) ballI [OF numbered_replica(3)]]




text \<open>A server with one client, of which the client shows an older change that it has published or is about to.\<close>

definition cut_off :: "u16 \<Rightarrow> shown_value \<Rightarrow> change \<Rightarrow> cells \<Rightarrow> bool" where
  "cut_off j a u s \<longleftrightarrow> ce_reg s None = a \<and> ce_reg s (Some j) = whole u \<and> \<not> ce_dirty s None \<and> ce_down s j = [] \<and>
     set (ce_up s j) \<subseteq> {u}"

lemma cut_off_stays:
  "cell_step {j} s s' \<Longrightarrow> fst u < fst a \<Longrightarrow> cut_off j a u s \<Longrightarrow> cut_off j a u s'"
  by (induction rule: cell_step.induct) (auto simp: cut_off_def overwritten_cases)

lemma cut_off_remains:
  "(cell_step {j})\<^sup>*\<^sup>* s s' \<Longrightarrow> fst u < fst a \<Longrightarrow> cut_off j a u s \<Longrightarrow> cut_off j a u s'"
  by (induction rule: rtranclp_induct) (auto intro: cut_off_stays)

text \<open>
  C34 A user whose clock is behind cuts his storage off. A local change is made whatever the entry's time stamp is, and
  stamped with the clock; when the clock is behind the stamp, the server takes the published change as
  outdated and ignores it, and nothing is sent in return. Everything is at rest then, but the user's storage shows his
  change and the server's the one before.
\<close>

theorem late_clock_diverges:
  fixes sne :: "('s, 'l, 'o) net_server_env" and cne :: "('k, 'o) net_env" and n :: "('s, 'l, 'c, 'o) sides"
  assumes "network_ok I ty {j} n" and "at_rest I {j} n" and "i \<in> I"
    and "seen_at i (client_storage_of j n) = Some a" and "seen_at i (server_storage_of n) = Some a"
    and "content_of v = Some c" and "t = clock_now (st_clock (client_storage_of j n)) (tm 1)" and "wire_change (ty i) (t, c)"
    and "t < fst a" and "set_entry_value tm (the (st_ids (client_storage_of j n) i)) v (client_storage_of j n) = (r, st')"
  shows "\<exists>n'. (exchange_step sne block cne {j})\<^sup>*\<^sup>*
       (n\<lparr>nt_clients := (nt_clients n)(j := (nt_clients n j)\<lparr>cw_storage := st'\<rparr>)\<rparr>) n' \<and> at_rest I {j} n' \<and>
     seen_at i (client_storage_of j n') = Some (t, Some c) \<and> seen_at i (server_storage_of n') = Some a"
proof -
  let ?n = "n\<lparr>nt_clients := (nt_clients n)(j := (nt_clients n j)\<lparr>cw_storage := st'\<rparr>)\<rparr>"
  have seen: "seen_at i (side_storage x n) = Some (ce_reg (cells_of i n) x)"
    if "network_ok I ty {j} n" "x \<in> {None, Some j}" for x and n :: "('s, 'l, 'c, 'o) sides"
    using replica_seen [OF network_ok_replica [OF that(1)] assms(3)] that(2) by (auto simp: nodes_def cells_of_side)
  have n: "network_ok I ty {j} ?n" "cells_of i ?n = user_set (Some j) (t, Some c) (cells_of i n)"
    using client_sets_effect(1,2) [where tm = tm, OF assms(1,3) _ refl assms(6,7,8,10) refl] by simp_all
  have "cut_off j a (t, c) (cells_of i ?n)"
    unfolding n(2) using assms(2,3,5) seen [OF assms(1), of None]
    by (auto simp: cut_off_def at_rest_def side_storage_def nodes_def whole_def)
  moreover from exchange_rests [OF n(1), of sne block cne] obtain n' where
    n': "(exchange_step sne block cne {j})\<^sup>*\<^sup>* ?n n'" "at_rest I {j} n'" by blast
  ultimately have "cut_off j a (t, c) (cells_of i n')"
    using cut_off_remains [OF bspec [OF conjunct2 [OF exchange_steps_cells [OF n'(1) n(1)]] assms(3)], of "(t, c)" a] assms(9) by simp
  then have "ce_reg (cells_of i n') None = a" "ce_reg (cells_of i n') (Some j) = (t, Some c)" by (simp_all add: cut_off_def whole_def)
  moreover have "network_ok I ty {j} n'" using exchange_steps_cells [OF n'(1) n(1)] by blast
  ultimately show ?thesis
    using n' seen [of n' None] seen [of n' "Some j"] by (auto simp: side_storage_def)
qed

theorem late_clock_diverges_witness:
  "\<exists>st r st' n'. seen_at 3 st = Some (100, Some (C_int32 7)) \<and>
     set_entry_value (\<lambda>_. 50) (the (st_ids st 3)) (make_int32 9) st = (r, st') \<and>
     (exchange_step sample_network (\<lambda>_. 0) closed_network {1})\<^sup>*\<^sup>*
       ((net_of st)\<lparr>nt_clients := (nt_clients (net_of st))(1 := (nt_clients (net_of st) 1)\<lparr>cw_storage := st'\<rparr>)\<rparr>) n' \<and>
     at_rest {3, 4} {1} n' \<and> seen_at 3 (client_storage_of 1 n') = Some (50, Some (C_int32 9)) \<and>
     seen_at 3 (server_storage_of n') = Some (100, Some (C_int32 7))"
proof -
  let ?st = "storage_after (N_update 100 3 (C_int32 7)) (make_int32 7) (\<lambda>_. 0) numbered_storage"
  have v: "content_of (make_int32 7) = Some (C_int32 7)" "content_of (make_int32 9) = Some (C_int32 9)" by code_simp+
  have c: "wire_change vt_integer32 (100, C_int32 7)" "wire_change vt_integer32 (50, C_int32 9)"
    by (simp_all add: wire_change_def faithful_def)
  have i: "(3 :: u16) \<noteq> id_not_assigned" by (simp add: id_not_assigned_def)
  from replica_update [where ty = "\<lambda>_. vt_integer32", OF numbered_replica(1) insertI1 v(1) c(1) i, of "\<lambda>_. 0"]
    numbered_replica(2) [of 3] numbered_replica(3) [of 3] numbered_replica(3) [of 4] have
    st: "replica {3, 4} (\<lambda>_. vt_integer32) ?st" "\<forall>i\<in>{3, 4}. \<not> dirty_at i ?st" "shows_at 3 ?st = (100, Some (C_int32 7))"
    by (simp_all add: overwritten_def same_others_def)
  have clock: "50 = clock_now (st_clock ?st) ((\<lambda>_. 50) 1)"
    using numbered_replica(4) by (simp add: on_entry_updated_def set_entry_internal_clock split: option.split)
  have seen: "seen_at 3 (client_storage_of 1 (net_of ?st)) = Some (100, Some (C_int32 7))"
    "seen_at 3 (server_storage_of (net_of ?st)) = Some (100, Some (C_int32 7))"
    unfolding net_of_storage using replica_seen [OF st(1) insertI1] st(3) by simp_all
  obtain r st' where s: "set_entry_value (\<lambda>_. 50) (the (st_ids ?st 3)) (make_int32 9) ?st = (r, st')" by fastforce
  from late_clock_diverges [where tm = "\<lambda>_. 50" and r = r and st' = st' and t = 50 and sne = sample_network and block = "\<lambda>_. 0"
      and cne = closed_network, OF net_of_ok [OF st(1,2)] insertI1 seen v(2) _ c(2)] clock s seen(1) show ?thesis
    unfolding net_of_storage by (intro exI [of _ ?st] exI [of _ r] exI [of _ st']) (simp only: fst_conv, simp)
qed

end
