(* ===== verification/Obsr_Os_Socket.thy ===== *)
theory Obsr_Os_Socket
  imports Obsr_Socket_Io
begin

text \<open>
  Descriptors and sockets (\<open>resource\<close> in \<open>src/os/io.h\<close> and \<open>src/os/io.cpp\<close>, the classes of
  \<open>src/os/socket.h\<close> and \<open>src/os/socket.cpp\<close>): which calls they make in which state, and what becomes
  of the errors. The system calls are a parameter, over the state of the kernel.
\<close>

section \<open>State and system calls\<close>

text \<open>\<open>bs_waiting\<close> belongs to \<open>socket\<close>; a server socket has it always false.\<close>

record os_socket =
  bs_descriptor :: int
  bs_blocking :: bool
  bs_disabled :: bool
  bs_waiting :: bool

text \<open>A call gives a result or the value of \<open>errno\<close>.\<close>

record 'o syscalls =
  sys_socket :: "'o \<Rightarrow> (int + int) \<times> 'o"
  sys_setsockopt :: "int \<Rightarrow> int \<Rightarrow> int \<Rightarrow> 'o \<Rightarrow> (int + unit) \<times> 'o"
  sys_get_flags :: "int \<Rightarrow> 'o \<Rightarrow> (int + u32) \<times> 'o"
  sys_set_flags :: "int \<Rightarrow> u32 \<Rightarrow> 'o \<Rightarrow> (int + unit) \<times> 'o"
  sys_bind :: "int \<Rightarrow> string option \<Rightarrow> u16 \<Rightarrow> 'o \<Rightarrow> (int + unit) \<times> 'o"
  sys_listen :: "int \<Rightarrow> nat \<Rightarrow> 'o \<Rightarrow> (int + unit) \<times> 'o"
  sys_accept :: "int \<Rightarrow> 'o \<Rightarrow> (int + int) \<times> 'o"
  sys_connect :: "int \<Rightarrow> string \<Rightarrow> u16 \<Rightarrow> 'o \<Rightarrow> (int + unit) \<times> 'o"
  sys_socket_error :: "int \<Rightarrow> 'o \<Rightarrow> (int + int) \<times> 'o"
  sys_read :: "int \<Rightarrow> nat \<Rightarrow> 'o \<Rightarrow> (int + bytes) \<times> 'o"
  sys_write :: "int \<Rightarrow> bytes \<Rightarrow> 'o \<Rightarrow> (int + nat) \<times> 'o"
  sys_close :: "int \<Rightarrow> 'o \<Rightarrow> 'o"

definition econnreset :: int where "econnreset = 104"
definition einprogress :: int where "einprogress = 115"
definition eagain :: int where "eagain = 11"
definition o_nonblock :: u32 where "o_nonblock = 0x800"

datatype sockopt_type = reuse_port | keep_alive

text \<open>The index into the table \<open>sockopt_natives\<close> stands for the native option.\<close>

fun sockopt_native :: "sockopt_type \<Rightarrow> int" where
  "sockopt_native reuse_port = 0"
| "sockopt_native keep_alive = 1"

type_synonym ('o, 'x) socket_op = "os_socket \<Rightarrow> 'o \<Rightarrow> (exn + 'x) \<times> os_socket \<times> 'o"

section \<open>Descriptors\<close>

definition sock_close :: "'o syscalls \<Rightarrow> ('o, unit) socket_op" where
  "sock_close sys k w =
     (if bs_descriptor k \<ge> 0 then (Inr (), k\<lparr>bs_descriptor := - 1\<rparr>, sys_close sys (bs_descriptor k) w)
      else (Inr (), k, w))"

definition throw_if_closed :: "('o, 'x) socket_op \<Rightarrow> ('o, 'x) socket_op" where
  "throw_if_closed p k w = (if bs_descriptor k < 0 then (Inl Closed_fd, k, w) else p k w)"

definition throw_if_disabled :: "('o, 'x) socket_op \<Rightarrow> ('o, 'x) socket_op" where
  "throw_if_disabled p k w =
     (if bs_disabled k then (Inl (Illegal_state ''socket disabled''), k, w) else p k w)"

definition when_usable :: "('o, 'x) socket_op \<Rightarrow> ('o, 'x) socket_op" where
  "when_usable p = throw_if_closed (throw_if_disabled p)"

section \<open>Errors\<close>

text \<open>\<open>handle_call_error\<close>; its default argument 0 stands for \<open>errno\<close>, which the callers here pass.\<close>

definition handle_call_error :: "'o syscalls \<Rightarrow> int \<Rightarrow> ('o, 'x) socket_op" where
  "handle_call_error sys code k w =
     (case (if code = econnreset then sock_close sys k w else (Inr (), k, w)) of
        (_, k, w) \<Rightarrow> (Inl (Io_exception code), k, w))"

text \<open>A system call on the descriptor whose failure is passed to \<open>handle_call_error\<close>.\<close>

definition sock_call :: "'o syscalls \<Rightarrow> (int \<Rightarrow> 'o \<Rightarrow> (int + 'x) \<times> 'o) \<Rightarrow> ('o, 'x) socket_op" where
  "sock_call sys call k w =
     (case call (bs_descriptor k) w of
        (Inl code, w) \<Rightarrow> handle_call_error sys code k w
      | (Inr x, w) \<Rightarrow> (Inr x, k, w))"

definition get_internal_error :: "'o syscalls \<Rightarrow> ('o, int) socket_op" where
  "get_internal_error sys = sock_call sys (sys_socket_error sys)"

definition check_internal_error :: "'o syscalls \<Rightarrow> ('o, unit) socket_op" where
  "check_internal_error sys k w =
     (case get_internal_error sys k w of
        (Inl e, k, w) \<Rightarrow> (Inl e, k, w)
      | (Inr code, k, w) \<Rightarrow> (if code \<noteq> 0 then Inl (Io_exception code) else Inr (), k, w))"

section \<open>Operations of all sockets\<close>

definition setoption :: "'o syscalls \<Rightarrow> sockopt_type \<Rightarrow> bool \<Rightarrow> ('o, unit) socket_op" where
  "setoption sys opt v =
     when_usable (sock_call sys (\<lambda>fd. sys_setsockopt sys fd (sockopt_native opt) (of_bool v)))"

text \<open>There is no check that the socket is open.\<close>

definition configure_blocking :: "'o syscalls \<Rightarrow> bool \<Rightarrow> ('o, unit) socket_op" where
  "configure_blocking sys blocking = throw_if_disabled (\<lambda>k w.
     case sock_call sys (sys_get_flags sys) k w of
       (Inl e, k, w) \<Rightarrow> (Inl e, k, w)
     | (Inr flags, k, w) \<Rightarrow>
         (case sock_call sys (\<lambda>fd. sys_set_flags sys fd
                   (if blocking then flags AND NOT o_nonblock else flags OR o_nonblock)) k w of
            (Inl e, k, w) \<Rightarrow> (Inl e, k, w)
          | (Inr _, k, w) \<Rightarrow> (Inr (), k\<lparr>bs_blocking := blocking\<rparr>, w)))"

text \<open>The two forms of \<open>bind\<close>: to an address, and to any address of the host.\<close>

definition sock_bind :: "'o syscalls \<Rightarrow> string \<Rightarrow> u16 \<Rightarrow> ('o, unit) socket_op" where
  "sock_bind sys ip port = when_usable (sock_call sys (\<lambda>fd. sys_bind sys fd (Some ip) port))"

definition sock_bind_any :: "'o syscalls \<Rightarrow> u16 \<Rightarrow> ('o, unit) socket_op" where
  "sock_bind_any sys port = when_usable (sock_call sys (\<lambda>fd. sys_bind sys fd None port))"

section \<open>Server sockets\<close>

definition sock_listen :: "'o syscalls \<Rightarrow> nat \<Rightarrow> ('o, unit) socket_op" where
  "sock_listen sys backlog = when_usable (sock_call sys (\<lambda>fd. sys_listen sys fd backlog))"

text \<open>A socket made of an accepted descriptor counts as blocking.\<close>

definition socket_of :: "int \<Rightarrow> os_socket" where
  "socket_of fd = \<lparr>bs_descriptor = fd, bs_blocking = True, bs_disabled = False, bs_waiting = False\<rparr>"

definition sock_accept :: "'o syscalls \<Rightarrow> ('o, os_socket) socket_op" where
  "sock_accept sys = when_usable (\<lambda>k w.
     case sock_call sys (sys_accept sys) k w of
       (Inl e, k, w) \<Rightarrow> (Inl e, k, w)
     | (Inr fd, k, w) \<Rightarrow> (Inr (socket_of fd), k, w))"

definition open_socket :: "'o syscalls \<Rightarrow> 'o \<Rightarrow> (exn + int) \<times> 'o" where
  "open_socket sys w =
     (case sys_socket sys w of
        (Inl code, w) \<Rightarrow> (Inl (Io_exception code), w)
      | (Inr fd, w) \<Rightarrow> (Inr fd, w))"

text \<open>The constructor: a failure to make it blocking destroys the descriptor again.\<close>

definition base_socket_new :: "'o syscalls \<Rightarrow> 'o \<Rightarrow> (exn + os_socket) \<times> 'o" where
  "base_socket_new sys w =
     (case open_socket sys w of
        (Inl e, w) \<Rightarrow> (Inl e, w)
      | (Inr fd, w) \<Rightarrow>
          (case configure_blocking sys True (socket_of fd) w of
             (Inl e, k, w) \<Rightarrow> (Inl e, snd (snd (sock_close sys k w)))
           | (Inr _, k, w) \<Rightarrow> (Inr k, w)))"

section \<open>Client sockets\<close>

definition sock_connect :: "'o syscalls \<Rightarrow> string \<Rightarrow> u16 \<Rightarrow> ('o, unit) socket_op" where
  "sock_connect sys ip port = when_usable (\<lambda>k w.
     case sys_connect sys (bs_descriptor k) ip port w of
       (Inr _, w) \<Rightarrow> (Inr (), k, w)
     | (Inl code, w) \<Rightarrow>
         (if code = einprogress \<and> \<not> bs_blocking k then (Inr (), k\<lparr>bs_waiting := True, bs_disabled := True\<rparr>, w)
          else handle_call_error sys code k w))"

definition finalize_connect :: "'o syscalls \<Rightarrow> ('o, unit) socket_op" where
  "finalize_connect sys = throw_if_closed (\<lambda>k w.
     if \<not> bs_waiting k then (Inr (), k, w)
     else check_internal_error sys (k\<lparr>bs_waiting := False, bs_disabled := False\<rparr>) w)"

definition sock_read :: "'o syscalls \<Rightarrow> nat \<Rightarrow> ('o, bytes) socket_op" where
  "sock_read sys n = when_usable (\<lambda>k w.
     if n = 0 then (Inr [], k, w)
     else
       (case sys_read sys (bs_descriptor k) n w of
          (Inr xs, w) \<Rightarrow> (if xs = [] then Inl Eof else Inr xs, k, w)
        | (Inl code, w) \<Rightarrow>
            (if code = eagain \<and> \<not> bs_blocking k then (Inr [], k, w) else handle_call_error sys code k w)))"

definition sock_write :: "'o syscalls \<Rightarrow> bytes \<Rightarrow> ('o, nat) socket_op" where
  "sock_write sys xs = when_usable (sock_call sys (\<lambda>fd. sys_write sys fd xs))"

lemmas sock_defs = when_usable_def throw_if_closed_def throw_if_disabled_def sock_call_def handle_call_error_def
  sock_close_def check_internal_error_def get_internal_error_def

section \<open>Connecting\<close>

text \<open>
  The state machine of a socket: closed, waiting for its connection (and then disabled), or ready. A
  relation of the steps that the operations make, whatever the system calls answer.
\<close>

inductive socket_step :: "'o syscalls \<Rightarrow> os_socket \<Rightarrow> os_socket \<Rightarrow> bool" for sys where
  closes: "sock_close sys k w = (r, k', w') \<Longrightarrow> socket_step sys k k'"
| sets_option: "setoption sys opt v k w = (r, k', w') \<Longrightarrow> socket_step sys k k'"
| configures: "configure_blocking sys b k w = (r, k', w') \<Longrightarrow> socket_step sys k k'"
| binds: "sock_bind sys ip port k w = (r, k', w') \<Longrightarrow> socket_step sys k k'"
| binds_any: "sock_bind_any sys port k w = (r, k', w') \<Longrightarrow> socket_step sys k k'"
| listens: "sock_listen sys n k w = (r, k', w') \<Longrightarrow> socket_step sys k k'"
| accepts_one: "sock_accept sys k w = (ra, k', w') \<Longrightarrow> socket_step sys k k'"
| connects: "sock_connect sys ip port k w = (r, k', w') \<Longrightarrow> socket_step sys k k'"
| finalizes: "finalize_connect sys k w = (r, k', w') \<Longrightarrow> socket_step sys k k'"
| reads: "sock_read sys n k w = (rr, k', w') \<Longrightarrow> socket_step sys k k'"
| writes: "sock_write sys xs k w = (rw, k', w') \<Longrightarrow> socket_step sys k k'"

inductive socket_reach :: "'o syscalls \<Rightarrow> os_socket \<Rightarrow> bool" for sys where
  fresh: "base_socket_new sys w = (Inr k, w') \<Longrightarrow> socket_reach sys k"
| accepted: "socket_reach sys (socket_of fd)"
| step: "socket_reach sys k \<Longrightarrow> socket_step sys k k' \<Longrightarrow> socket_reach sys k'"

definition socket_ok :: "os_socket \<Rightarrow> bool" where
  "socket_ok k \<longleftrightarrow> bs_disabled k = bs_waiting k \<and> (bs_waiting k \<longrightarrow> \<not> bs_blocking k)"

lemma socket_of_ok [simp]: "socket_ok (socket_of fd)"
  by (simp add: socket_ok_def socket_of_def)

lemma handle_call_error_ok:
  "handle_call_error sys code k w = (r, k', w') \<Longrightarrow>
     bs_disabled k' = bs_disabled k \<and> bs_waiting k' = bs_waiting k \<and> bs_blocking k' = bs_blocking k"
  by (auto simp: handle_call_error_def sock_close_def split: if_splits)

lemma sock_call_ok:
  "sock_call sys call k w = (r, k', w') \<Longrightarrow>
     bs_disabled k' = bs_disabled k \<and> bs_waiting k' = bs_waiting k \<and> bs_blocking k' = bs_blocking k"
  by (auto simp: sock_call_def dest!: handle_call_error_ok split: prod.splits sum.splits)

lemma when_usable_keeps:
  assumes "when_usable p k w = (r, k', w')" "socket_ok k"
    and "\<And>k w r k' w'. p k w = (r, k', w') \<Longrightarrow> socket_ok k \<Longrightarrow> socket_ok k'"
  shows "socket_ok k'"
  using assms by (auto simp: when_usable_def throw_if_closed_def throw_if_disabled_def split: if_splits)

lemma when_usable_call_keeps:
  "when_usable (sock_call sys call) k w = (r, k', w') \<Longrightarrow> socket_ok k \<Longrightarrow> socket_ok k'"
  by (erule when_usable_keeps) (auto simp: socket_ok_def dest!: sock_call_ok)

lemma configure_blocking_ok:
  "configure_blocking sys b k w = (r, k', w') \<Longrightarrow> socket_ok k \<Longrightarrow> socket_ok k'"
  by (auto simp: configure_blocking_def throw_if_disabled_def socket_ok_def dest!: sock_call_ok
      split: prod.splits sum.splits if_splits)

lemma socket_step_ok: "socket_step sys k k' \<Longrightarrow> socket_ok k \<Longrightarrow> socket_ok k'"
proof (induction rule: socket_step.induct)
  case (closes k w r k' w')
  then show ?case by (auto simp: sock_close_def socket_ok_def split: if_splits)
next
  case (configures b k w r k' w')
  then show ?case by (rule configure_blocking_ok)
next
  case (accepts_one k w ra k' w')
  then show ?case unfolding sock_accept_def
    by (rule when_usable_keeps) (auto simp: socket_ok_def dest!: sock_call_ok split: prod.splits sum.splits)
next
  case (connects ip port k w r k' w')
  then show ?case
    by (auto simp: sock_connect_def when_usable_def throw_if_closed_def throw_if_disabled_def socket_ok_def
        dest!: handle_call_error_ok split: prod.splits sum.splits if_splits)
next
  case (finalizes k w r k' w')
  then show ?case
    by (auto simp: finalize_connect_def throw_if_closed_def check_internal_error_def get_internal_error_def
        socket_ok_def dest!: sock_call_ok split: prod.splits sum.splits if_splits)
next
  case (reads n k w rr k' w')
  then show ?case unfolding sock_read_def
    by (rule when_usable_keeps)
      (auto simp: socket_ok_def dest!: handle_call_error_ok split: prod.splits sum.splits if_splits)
qed (auto simp: setoption_def sock_bind_def sock_bind_any_def sock_listen_def sock_write_def dest: when_usable_call_keeps)

lemma base_socket_new_ok: "base_socket_new sys w = (Inr k, w') \<Longrightarrow> socket_ok k"
  by (auto simp: base_socket_new_def dest!: configure_blocking_ok split: prod.splits sum.splits)

lemma reached_socket:
  assumes "socket_reach sys k"
  shows "bs_disabled k = bs_waiting k" "bs_waiting k \<Longrightarrow> \<not> bs_blocking k"
    "bs_waiting k \<Longrightarrow> bs_descriptor k \<ge> 0 \<Longrightarrow>
       sock_read sys n k w = (Inl (Illegal_state ''socket disabled''), k, w) \<and>
       sock_write sys xs k w = (Inl (Illegal_state ''socket disabled''), k, w) \<and>
       sock_connect sys ip port k w = (Inl (Illegal_state ''socket disabled''), k, w) \<and>
       configure_blocking sys b k w = (Inl (Illegal_state ''socket disabled''), k, w)"
    "bs_waiting k \<Longrightarrow> bs_descriptor k \<ge> 0 \<Longrightarrow> sys_socket_error sys (bs_descriptor k) w = (Inr code, w') \<Longrightarrow>
       finalize_connect sys k w =
         (if code = 0 then Inr () else Inl (Io_exception code),
          k\<lparr>bs_waiting := False, bs_disabled := False\<rparr>, w')"
proof -
  have ok: "socket_ok k"
    using assms by (induction rule: socket_reach.induct) (auto dest: base_socket_new_ok socket_step_ok)
  then show "bs_disabled k = bs_waiting k" "bs_waiting k \<Longrightarrow> \<not> bs_blocking k"
    by (auto simp: socket_ok_def)
  then show "bs_waiting k \<Longrightarrow> bs_descriptor k \<ge> 0 \<Longrightarrow>
       sock_read sys n k w = (Inl (Illegal_state ''socket disabled''), k, w) \<and>
       sock_write sys xs k w = (Inl (Illegal_state ''socket disabled''), k, w) \<and>
       sock_connect sys ip port k w = (Inl (Illegal_state ''socket disabled''), k, w) \<and>
       configure_blocking sys b k w = (Inl (Illegal_state ''socket disabled''), k, w)"
    by (simp add: sock_read_def sock_write_def sock_connect_def configure_blocking_def when_usable_def
        throw_if_closed_def throw_if_disabled_def)
  show "bs_waiting k \<Longrightarrow> bs_descriptor k \<ge> 0 \<Longrightarrow> sys_socket_error sys (bs_descriptor k) w = (Inr code, w') \<Longrightarrow>
       finalize_connect sys k w =
         (if code = 0 then Inr () else Inl (Io_exception code),
          k\<lparr>bs_waiting := False, bs_disabled := False\<rparr>, w')"
    by (simp add: finalize_connect_def throw_if_closed_def check_internal_error_def get_internal_error_def
        sock_call_def)
qed

text \<open>
  C30 Of every socket the program makes, whatever the system calls answer: it is disabled exactly while a
  connection is under way, and then it is non-blocking. Until \<open>finalize_connect\<close> an open socket of this
  kind refuses to read, to write, to connect again and to change its mode, without a system call; the
  finalisation succeeds exactly if the kernel has no error for the socket, and enables it either way.
\<close>

theorem connecting_socket_is_disabled:
  assumes "socket_reach sys k"
  shows "bs_disabled k = bs_waiting k \<and> (bs_waiting k \<longrightarrow> \<not> bs_blocking k) \<and>
     (bs_waiting k \<and> bs_descriptor k \<ge> 0 \<longrightarrow>
       sock_read sys n k w = (Inl (Illegal_state ''socket disabled''), k, w) \<and>
       sock_write sys xs k w = (Inl (Illegal_state ''socket disabled''), k, w) \<and>
       sock_connect sys ip port k w = (Inl (Illegal_state ''socket disabled''), k, w) \<and>
       configure_blocking sys b k w = (Inl (Illegal_state ''socket disabled''), k, w) \<and>
       (\<forall>code w'. sys_socket_error sys (bs_descriptor k) w = (Inr code, w') \<longrightarrow>
          finalize_connect sys k w =
            (if code = 0 then Inr () else Inl (Io_exception code),
             k\<lparr>bs_waiting := False, bs_disabled := False\<rparr>, w')))"
  using reached_socket [OF assms] by blast

text \<open>A kernel whose answers never change.\<close>

definition steady_kernel :: "unit syscalls" where
  "steady_kernel =
     \<lparr>sys_socket = \<lambda>w. (Inr 3, w), sys_setsockopt = \<lambda>fd opt v w. (Inr (), w),
      sys_get_flags = \<lambda>fd w. (Inr 2, w), sys_set_flags = \<lambda>fd flags w. (Inr (), w),
      sys_bind = \<lambda>fd ip port w. (Inr (), w), sys_listen = \<lambda>fd n w. (Inr (), w),
      sys_accept = \<lambda>fd w. (Inl eagain, w), sys_connect = \<lambda>fd ip port w. (Inl einprogress, w),
      sys_socket_error = \<lambda>fd w. (Inr 111, w), sys_read = \<lambda>fd n w. (Inl eagain, w),
      sys_write = \<lambda>fd xs w. (Inl eagain, w), sys_close = \<lambda>fd w. w\<rparr>"

definition waiting_socket :: os_socket where
  "waiting_socket = \<lparr>bs_descriptor = 3, bs_blocking = False, bs_disabled = True, bs_waiting = True\<rparr>"

lemma waiting_socket_reached: "socket_reach steady_kernel waiting_socket"
proof (rule socket_reach.step)
  show "socket_reach steady_kernel (socket_of 3\<lparr>bs_blocking := False\<rparr>)"
    by (rule socket_reach.step [OF socket_reach.accepted [where fd = 3]], rule socket_step.configures [where b = False])
      (simp add: configure_blocking_def throw_if_disabled_def sock_call_def steady_kernel_def socket_of_def)
  show "socket_step steady_kernel (socket_of 3\<lparr>bs_blocking := False\<rparr>) waiting_socket"
    by (rule socket_step.connects [where ip = "''10.0.0.2''" and port = 5000])
      (simp add: sock_connect_def when_usable_def throw_if_closed_def throw_if_disabled_def steady_kernel_def
        socket_of_def waiting_socket_def)
qed

theorem connecting_socket_is_disabled_witness:
  "sock_write steady_kernel [1] waiting_socket () = (Inl (Illegal_state ''socket disabled''), waiting_socket, ()) \<and>
   finalize_connect steady_kernel waiting_socket () =
     (Inl (Io_exception 111), socket_of 3\<lparr>bs_blocking := False\<rparr>, ())"
  using connecting_socket_is_disabled [OF waiting_socket_reached, of _ "()" "[1]"]
  by (simp add: waiting_socket_def socket_of_def steady_kernel_def)

section \<open>A connection over such a socket\<close>

text \<open>
  The methods that \<open>socket_io\<close> calls, on the one socket it holds: the world of the connection is that
  socket and the kernel. The looper and the callbacks are those of \<open>env\<close>.
\<close>

definition socket_method :: "('o, 'x) socket_op \<Rightarrow> os_socket \<times> 'o \<Rightarrow> (exn + 'x) \<times> (os_socket \<times> 'o)" where
  "socket_method p w = (case p (fst w) (snd w) of (r, k, v) \<Rightarrow> (r, (k, v)))"

definition over_socket ::
  "'o syscalls \<Rightarrow> (unit, os_socket \<times> 'o) io_env \<Rightarrow> (unit, os_socket \<times> 'o) io_env" where
  "over_socket sys env = env
     \<lparr>sk_reuseport := \<lambda>_. socket_method (setoption sys reuse_port True),
      sk_nonblocking := \<lambda>_. socket_method (configure_blocking sys False),
      sk_close := \<lambda>_. socket_method (sock_close sys),
      sk_connect := \<lambda>_ info. socket_method (sock_connect sys (ci_ip info) (ci_port info)),
      sk_finalize := \<lambda>_. socket_method (finalize_connect sys),
      sk_read := \<lambda>_ w n. socket_method (sock_read sys n) w,
      sk_write := \<lambda>_ w xs. socket_method (sock_write sys xs) w\<rparr>"

lemma write_into_calls:
  assumes "circ_ok b" "circ_content b \<noteq> []" "\<And>xs. wrf w xs = (Inl e, w')"
  shows "circ_write_into wrf b w = (Inl e, b, w')"
  using assms by (auto simp: circ_write_into_def circ_ok_def circ_content_def size_sub_def Let_def split: if_splits)

lemma full_buffer:
  assumes "so_state s = io_connected" "so_socket s = Some ()" "so_handle s \<noteq> empty_handle"
    and "bs_descriptor k \<ge> 0" "\<not> bs_disabled k" "\<not> bs_blocking k"
    and "circ_ok (so_write s)" "circ_content (so_write s) \<noteq> []"
    and "\<And>xs. sys_write sys (bs_descriptor k) xs v = (Inl eagain, v')"
    and "lo_remove env (so_handle s) (k, v') = (Inr (), (k, v''))" and "n > 0" "sys_read sys (bs_descriptor k) n v = (Inl eagain, v')"
  shows "sk_read (over_socket sys env) () (k, v) n = (Inr [], (k, v'))"
    and "on_write_ready (over_socket sys env) s (k, v) =
           invoke_func (cb_close env) (s\<lparr>so_handle := empty_handle, so_socket := None, so_state := io_idle\<rparr>)
             (k\<lparr>bs_descriptor := - 1\<rparr>, sys_close sys (bs_descriptor k) v'')"
proof -
  show "sk_read (over_socket sys env) () (k, v) n = (Inr [], (k, v'))"
    using assms by (simp add: over_socket_def socket_method_def sock_read_def when_usable_def throw_if_closed_def
        throw_if_disabled_def)
  have "circ_write_into (sk_write (over_socket sys env) ()) (so_write s) (k, v) =
      (Inl (Io_exception eagain), so_write s, (k, v'))"
    using assms by (intro write_into_calls)
      (simp_all add: over_socket_def socket_method_def sock_write_def when_usable_def throw_if_closed_def
        throw_if_disabled_def sock_call_def handle_call_error_def eagain_def econnreset_def)
  then show "on_write_ready (over_socket sys env) s (k, v) =
      invoke_func (cb_close env) (s\<lparr>so_handle := empty_handle, so_socket := None, so_state := io_idle\<rparr>)
        (k\<lparr>bs_descriptor := - 1\<rparr>, sys_close sys (bs_descriptor k) v'')"
    using assms by (simp add: on_write_ready_def io_catch_def io_then_def stop_internal_def io_try_def
        on_socket_def io_modify_def io_call_def io_return_def on_handle_def over_socket_def socket_method_def sock_close_def)
qed

text \<open>
  C37 When the kernel has no room for more bytes, \<open>write\<close> answers \<open>EAGAIN\<close>. A non-blocking socket takes
  this on the reading side for "nothing now", but on the writing side it is an error: the connection,
  which still holds unsent bytes, is stopped and its socket closed, and the owner is told.
\<close>

theorem full_kernel_buffer_closes_connection:
  assumes "so_state s = io_connected" "so_socket s = Some ()" "so_handle s \<noteq> empty_handle"
    and "bs_descriptor k \<ge> 0" "\<not> bs_disabled k" "\<not> bs_blocking k"
    and "circ_ok (so_write s)" "circ_content (so_write s) \<noteq> []"
    and "\<And>xs. sys_write sys (bs_descriptor k) xs v = (Inl eagain, v')"
    and "lo_remove env (so_handle s) (k, v') = (Inr (), (k, v''))" and "n > 0"
    and "sys_read sys (bs_descriptor k) n v = (Inl eagain, v')"
  shows "sk_read (over_socket sys env) () (k, v) n = (Inr [], (k, v')) \<and>
     on_write_ready (over_socket sys env) s (k, v) =
       invoke_func (cb_close env) (s\<lparr>so_handle := empty_handle, so_socket := None, so_state := io_idle\<rparr>)
         (k\<lparr>bs_descriptor := - 1\<rparr>, sys_close sys (bs_descriptor k) v'')"
  using full_buffer [OF assms] by blast

definition quiet_owner :: "(unit, os_socket \<times> unit) io_env" where
  "quiet_owner =
     \<lparr>sk_new = \<lambda>w. (Inr (), w), sk_reuseport = \<lambda>_ w. (Inr (), w), sk_nonblocking = \<lambda>_ w. (Inr (), w),
      sk_close = \<lambda>_ w. (Inr (), w), sk_connect = \<lambda>_ _ w. (Inr (), w), sk_finalize = \<lambda>_ w. (Inr (), w),
      sk_read = \<lambda>_ w n. (Inr [], w), sk_write = \<lambda>_ w xs. (Inr 0, w), lo_add = \<lambda>_ _ w. (Inr 1, w),
      lo_remove = \<lambda>_ w. (Inr (), w), lo_request = \<lambda>_ _ _ w. (Inr (), w), cb_connect = io_return (),
      cb_close = io_return (), cb_message = \<lambda>_ _ _. io_return ()\<rparr>"

definition sending_io :: "unit socket_io" where
  "sending_io = (socket_io_new \<lparr>rd_header = next_header 0 0 0, rd_message = replicate 1024 0\<rparr> (\<lambda>_. 0) (\<lambda>_. 0))
     \<lparr>so_state := io_connected, so_socket := Some (), so_handle := 1,
      so_write := (circ_new (\<lambda>_. 7) 1024)\<lparr>cb_write_pos := 3\<rparr>\<rparr>"

lemma sending_io_facts: "so_state sending_io = io_connected" "so_socket sending_io = Some ()"
  "so_handle sending_io \<noteq> empty_handle" "circ_ok (so_write sending_io)"
  "circ_content (so_write sending_io) \<noteq> []"
  by (simp_all add: sending_io_def circ_new_def circ_ok_def circ_content_def empty_handle_def)

theorem full_kernel_buffer_closes_connection_witness:
  "fst (on_write_ready (over_socket steady_kernel quiet_owner) sending_io (socket_of 3\<lparr>bs_blocking := False\<rparr>, ()))
     = Inr () \<and>
   bs_descriptor (fst (snd (snd (on_write_ready (over_socket steady_kernel quiet_owner) sending_io
     (socket_of 3\<lparr>bs_blocking := False\<rparr>, ()))))) = - 1"
proof -
  let ?k = "socket_of 3\<lparr>bs_blocking := False\<rparr>"
  have "on_write_ready (over_socket steady_kernel quiet_owner) sending_io (?k, ()) =
      invoke_func (cb_close quiet_owner)
        (sending_io\<lparr>so_handle := empty_handle, so_socket := None, so_state := io_idle\<rparr>)
        (?k\<lparr>bs_descriptor := - 1\<rparr>, sys_close steady_kernel (bs_descriptor ?k) ())"
    by (rule full_kernel_buffer_closes_connection [where n = 1 and v' = "()", THEN conjunct2])
      (simp_all add: sending_io_facts socket_of_def steady_kernel_def quiet_owner_def)
  then show ?thesis
    by (simp add: quiet_owner_def invoke_func_def io_try_def io_catch_def io_return_def)
qed

end
