(* ===== verification/Obsr_Instance_Net.thy ===== *)
theory Obsr_Instance_Net
  imports Obsr_Sync
begin

text \<open>
  The network of an instance (\<open>start_server\<close>, \<open>start_client\<close> and \<open>stop_network\<close> in
  \<open>src/instance.cpp\<close>, \<open>network_interface\<close> in \<open>src/net/net.h\<close>): an instance has at most one network
  object, a client or a server, behind a virtual class. The contract of that class is a locale.
\<close>

section \<open>State\<close>

text \<open>An object of a class derived from \<open>network_interface\<close>, with the connection it owns.\<close>

datatype ('s, 'l) network = nw_client "'s socket_io" net_client | nw_server "('s, 'l) server_io" net_server

text \<open>The part of the instance that the network uses: the storage, the outside, \<open>m_net_interface\<close>.\<close>

record ('s, 'l, 'c, 'o) net_host =
  nh_storage :: "'c storage"
  nh_out :: 'o
  nh_network :: "('s, 'l) network option"

type_synonym ('s, 'l, 'c, 'o, 'x) network_op =
  "('s, 'l) network \<Rightarrow> ('s, 'l, 'c, 'o) net_host \<Rightarrow> (exn + 'x) \<times> ('s, 'l) network \<times> ('s, 'l, 'c, 'o) net_host"

type_synonym ('s, 'l, 'c, 'o, 'x) host_op =
  "('s, 'l, 'c, 'o) net_host \<Rightarrow> (exn + 'x) \<times> ('s, 'l, 'c, 'o) net_host"

text \<open>
  What the constructors find in memory, the outside, and what the looper's thread does while \<open>stop\<close> waits
  for it.
\<close>

record ('s, 'l, 'c, 'o) host_env =
  he_net :: "('s, 'l, 'o) net_server_env"
  he_parse :: parse_data
  he_read :: read_data
  he_block :: "nat \<Rightarrow> u8"
  he_client_meanwhile :: "('s, 'c, 'o, unit) client_op"
  he_server_meanwhile :: "('s, 'l, 'c, 'o, unit) server_op"

section \<open>Virtual methods\<close>

fun virtual_call ::
  "('s, 'c, 'o, 'x) client_op \<Rightarrow> ('s, 'l, 'c, 'o, 'x) server_op \<Rightarrow> ('s, 'l, 'c, 'o, 'x) network_op" where
  "virtual_call cop sop (nw_client io n) h =
     (case cop io \<lparr>cw_client = n, cw_storage = nh_storage h, cw_out = nh_out h\<rparr> of
        (r, io, w) \<Rightarrow> (r, nw_client io (cw_client w), h\<lparr>nh_storage := cw_storage w, nh_out := cw_out w\<rparr>))"
| "virtual_call cop sop (nw_server io n) h =
     (case sop \<lparr>iw_io = io, sw_server = n, sw_storage = nh_storage h, sw_out = nh_out h\<rparr> of
        (r, w) \<Rightarrow> (r, nw_server (iw_io w) (sw_server w), h\<lparr>nh_storage := sw_storage w, nh_out := sw_out w\<rparr>))"

definition ni_attach_storage :: "('s, 'l, 'c, 'o, unit) network_op" where
  "ni_attach_storage = virtual_call (client_attach_storage True) (server_attach_storage True)"

definition ni_start :: "('s, 'l, 'c, 'o) host_env \<Rightarrow> ('s, 'l, 'c, 'o, unit) network_op" where
  "ni_start env = virtual_call (client_start (net_env.truncate (he_net env))) (server_start (he_net env))"

definition ni_stop :: "('s, 'l, 'c, 'o) host_env \<Rightarrow> ('s, 'l, 'c, 'o, unit) network_op" where
  "ni_stop env = virtual_call
     (client_stop (net_env.truncate (he_net env)) (he_client_meanwhile env))
     (server_stop (he_net env) (he_block env) (he_server_meanwhile env))"

text \<open>The destructor of the object: that of its connection.\<close>

fun network_destroy :: "('s, 'l) network \<Rightarrow> exn + unit" where
  "network_destroy (nw_client io n) = socket_io_destroy io"
| "network_destroy (nw_server io n) = server_io_destroy io"

section \<open>The instance\<close>

definition start_net :: "('s, 'l, 'c, 'o) host_env \<Rightarrow> ('s, 'l, 'c, 'o, unit) network_op" where
  "start_net env n h =
     (case ni_attach_storage n h of
        (Inl e, n, h) \<Rightarrow> (Inl e, n, h)
      | (Inr _, n, h) \<Rightarrow> ni_start env n h)"

definition stop_net :: "('s, 'l, 'c, 'o) host_env \<Rightarrow> ('s, 'l, 'c, 'o, unit) network_op" where
  "stop_net env = ni_stop env"

text \<open>The end of a function, with its result, when the last reference to the object is dropped there.\<close>

definition destroyed ::
  "('s, 'l) network \<Rightarrow> exn + 'x \<Rightarrow> ('s, 'l, 'c, 'o) net_host \<Rightarrow> (exn + 'x) \<times> ('s, 'l, 'c, 'o) net_host" where
  "destroyed n r h = (case network_destroy n of Inl e \<Rightarrow> (Inl e, h) | Inr _ \<Rightarrow> (r, h))"

text \<open>
  The common shape of \<open>start_server\<close> and \<open>start_client\<close>, given the new object and its configuration. When
  stopping throws as well, its exception is the one that leaves. The object, which nobody else refers to, is
  destroyed when an exception leaves the function; a destructor that aborts ends the process.
\<close>

definition start_network ::
  "('s, 'l, 'c, 'o) host_env \<Rightarrow> ('s, 'l) network \<Rightarrow> ('s, 'l, 'c, 'o, unit) network_op \<Rightarrow>
   ('s, 'l, 'c, 'o, unit) host_op" where
  "start_network env n configure h =
     (if nh_network h \<noteq> None then (Inl (Illegal_state ''network interface already open''), h)
      else
        (case (case configure n h of
                 (Inl e, n, h) \<Rightarrow> (Inl e, n, h)
               | (Inr _, n, h) \<Rightarrow> start_net env n h) of
           (Inr _, n, h) \<Rightarrow> (Inr (), h\<lparr>nh_network := Some n\<rparr>)
         | (Inl e, n, h) \<Rightarrow>
             (if catchable e
              then (case stop_net env n h of
                  (Inl e', n, h) \<Rightarrow> if catchable e' then destroyed n (Inl e') h else (Inl e', h)
                | (Inr _, n, h) \<Rightarrow> destroyed n (Inl e) h)
              else (Inl e, h))))"

definition start_server :: "('s, 'l, 'c, 'o) host_env \<Rightarrow> u16 \<Rightarrow> ('s, 'l, 'c, 'o, unit) host_op" where
  "start_server env port =
     start_network env (nw_server server_io_new (net_server_new (he_parse env)))
       (virtual_call (\<lambda>io w. (Inl Undefined_behaviour, io, w)) (configure_bind port))"

definition start_client :: "('s, 'l, 'c, 'o) host_env \<Rightarrow> string \<Rightarrow> u16 \<Rightarrow> ('s, 'l, 'c, 'o, unit) host_op" where
  "start_client env address port =
     start_network env
       (nw_client (socket_io_new (he_read env) (he_block env) (he_block env))
          (net_client_new (he_parse env) (he_block env)))
       (virtual_call (configure_target \<lparr>ci_ip = address, ci_port = port\<rparr>) (\<lambda>w. (Inl Undefined_behaviour, w)))"

definition stop_network :: "('s, 'l, 'c, 'o) host_env \<Rightarrow> ('s, 'l, 'c, 'o, unit) host_op" where
  "stop_network env h =
     (case nh_network h of
        None \<Rightarrow> (Inr (), h)
      | Some n \<Rightarrow>
          (case stop_net env n h of
             (Inl e, n, h) \<Rightarrow> (Inl e, h\<lparr>nh_network := Some n\<rparr>)
           | (Inr _, n, h) \<Rightarrow> destroyed n (Inr ()) (h\<lparr>nh_network := None\<rparr>)))"

text \<open>
  The destructor of the instance, as far as the network goes; an exception that leaves a destructor ends the
  process as well.
\<close>

definition end_network :: "('s, 'l, 'c, 'o) host_env \<Rightarrow> ('s, 'l, 'c, 'o, unit) host_op" where
  "end_network env h = (case stop_network env h of (Inl e, h) \<Rightarrow> (Inl Assertion_failed, h) | (Inr _, h) \<Rightarrow> (Inr (), h))"

section \<open>The contract of a network object\<close>

locale network_interface =
  fixes attach start stop :: "'n \<Rightarrow> 'h \<Rightarrow> (exn + unit) \<times> 'n \<times> 'h"
    and destroy :: "'n \<Rightarrow> exn + unit"
    and resting configured :: "'n \<Rightarrow> bool"
  assumes attach_resting: "resting n \<Longrightarrow>
      \<exists>n'. attach n h = (Inr (), n', h) \<and> resting n' \<and> configured n' = configured n"
    and start_unconfigured: "resting n \<Longrightarrow> \<not> configured n \<Longrightarrow>
      \<exists>m n'. start n h = (Inl (Illegal_state m), n', h) \<and> resting n'"
    and stop_resting: "resting n \<Longrightarrow> \<exists>n'. stop n h = (Inl (Illegal_state ''not running''), n', h) \<and> resting n'"
    and destroy_resting: "resting n \<Longrightarrow> destroy n = Inr ()"
begin

text \<open>Attached and started without a configuration, then stopped and destroyed: the two refusals.\<close>

lemma start_then_stop:
  assumes "resting n" "\<not> configured n"
  obtains n1 m n2 n3 where "attach n h = (Inr (), n1, h)" "start n1 h = (Inl (Illegal_state m), n2, h)"
    "stop n2 h = (Inl (Illegal_state ''not running''), n3, h)" "destroy n3 = Inr ()"
  using attach_resting [OF assms(1), of h] start_unconfigured stop_resting destroy_resting assms(2) by metis

end

fun resting_network :: "('s, 'l) network \<Rightarrow> bool" where
  "resting_network (nw_client io n) \<longleftrightarrow> \<not> nc_locked n \<and> nc_state n = cs_idle \<and> so_state io = io_idle"
| "resting_network (nw_server io n) \<longleftrightarrow>
     \<not> ns_locked n \<and> ns_state n = ss_idle \<and> si_state io = sio_idle \<and> si_clients io = []"

fun has_target :: "('s, 'l) network \<Rightarrow> bool" where
  "has_target (nw_client io n) \<longleftrightarrow> ci_port (nc_conn_info n) \<noteq> 0"
| "has_target (nw_server io n) \<longleftrightarrow> ns_port n \<noteq> 0"

lemmas client_run = client_lock_def with_lock_def io_then_def io_call_def io_throw_def io_return_def client_helpers world_defs
lemmas server_run = server_lock_def w_then_def w_throw_def w_return_def server_helpers w_ask_def w_modify_def
  lift_call_def

lemma attach_network: "resting_network n \<Longrightarrow>
    \<exists>n'. ni_attach_storage n h = (Inr (), n', h) \<and> resting_network n' \<and> has_target n' = has_target n"
  by (cases n) (simp_all add: ni_attach_storage_def client_attach_storage_def server_attach_storage_def
      client_run server_run)

lemma start_network_unconfigured: "resting_network n \<Longrightarrow> \<not> has_target n \<Longrightarrow>
    \<exists>m n'. ni_start env n h = (Inl (Illegal_state m), n', h) \<and> resting_network n'"
  by (cases n) (simp_all add: ni_start_def client_start_def server_start_def client_run server_run)

lemma stop_network_resting: "resting_network n \<Longrightarrow>
    \<exists>n'. ni_stop env n h = (Inl (Illegal_state ''not running''), n', h) \<and> resting_network n'"
  by (cases n) (simp_all add: ni_stop_def client_stop_def server_stop_def client_run server_run)

lemma destroy_resting_network: "resting_network n \<Longrightarrow> network_destroy n = Inr ()"
  by (cases n) (simp_all add: socket_io_destroy_def server_io_destroy_def)

interpretation nw: network_interface ni_attach_storage "ni_start env" "ni_stop env" network_destroy resting_network has_target
  by unfold_locales (rule attach_network start_network_unconfigured stop_network_resting destroy_resting_network;
    assumption)+

section \<open>A failed start\<close>

lemma start_network_hides:
  assumes "nh_network h = None" "configure n h = (Inr (), n', h)" "resting_network n'" "\<not> has_target n'"
  shows "start_network env n configure h = (Inl (Illegal_state ''not running''), h)"
proof -
  from nw.start_then_stop [OF assms(3,4), of h env] obtain n1 m n2 n3 where
    "ni_attach_storage n' h = (Inr (), n1, h)" "ni_start env n1 h = (Inl (Illegal_state m), n2, h)"
    "ni_stop env n2 h = (Inl (Illegal_state ''not running''), n3, h)" "network_destroy n3 = Inr ()" .
  with assms(1,2) show ?thesis
    by (simp add: start_network_def start_net_def stop_net_def catchable_def destroyed_def)
qed

lemma refused_starts:
  assumes "nh_network h = None"
  shows "start_server env 0 h = (Inl (Illegal_state ''not running''), h)"
    and "start_client env address 0 h = (Inl (Illegal_state ''not running''), h)"
proof -
  show "start_server env 0 h = (Inl (Illegal_state ''not running''), h)"
    unfolding start_server_def using assms
    by (rule start_network_hides) (simp add: configure_bind_def server_run net_server_new_def server_io_new_def)+
  show "start_client env address 0 h = (Inl (Illegal_state ''not running''), h)"
    unfolding start_client_def using assms
    by (rule start_network_hides) (simp add: configure_target_def client_run net_client_new_def socket_io_new_def)+
qed

text \<open>
  An instance without a network that is asked to listen on port 0, or to connect to port 0, is as before,
  and the caller gets the exception "not running": the handler stops the network object that has just
  refused to start, which throws on its own, so that what was wrong never gets out.
\<close>

theorem failed_start_hides_cause:
  assumes "nh_network h = None"
  shows "start_server env 0 h = (Inl (Illegal_state ''not running''), h) \<and>
     start_client env address 0 h = (Inl (Illegal_state ''not running''), h)"
  using refused_starts [OF assms] by blast

section \<open>A network that runs\<close>

text \<open>A client started on an instance without a network, and stopped before the looper did anything.\<close>

definition started_client ::
  "('s, 'l, 'c, 'o) host_env \<Rightarrow> string \<Rightarrow> u16 \<Rightarrow> handle \<Rightarrow> 'o \<Rightarrow> ('s, 'l, 'c, 'o) net_host \<Rightarrow> ('s, 'l, 'c, 'o) net_host"
where
  "started_client env address port t k h =
     h\<lparr>nh_storage := clear_net_ids (nh_storage h), nh_out := k,
       nh_network := Some (nw_client (socket_io_new (he_read env) (he_block env) (he_block env))
         ((net_client_new (he_parse env) (he_block env))
            \<lparr>nc_conn_info := \<lparr>ci_ip = address, ci_port = port\<rparr>, nc_attached := True,
             nc_queue := mq_clear (message_queue_new (he_block env)), nc_state := cs_opening,
             nc_retry := timer_stop timer_new, nc_sync := timer_stop timer_new, nc_timer_handle := t\<rparr>))\<rparr>"

lemma start_client_starts:
  assumes "nh_network h = None" "port \<noteq> 0" "ne_create_timer (he_net env) 200 (nh_out h) = (Inr t, k)"
  shows "start_client env address port h = (Inr (), started_client env address port t k h)"
  using assms by (simp add: started_client_def start_client_def start_network_def start_net_def
      ni_attach_storage_def ni_start_def configure_target_def client_attach_storage_def client_start_def client_run
      net_client_new_def client_update_time_def net_env.defs)

lemma started_client_stops:
  assumes "t \<noteq> empty_handle" "he_client_meanwhile env = io_return ()"
    "ne_stop_timer (he_net env) t k = (Inr (), k')"
  shows "stop_network env (started_client env address port t k h) =
     (Inr (), (started_client env address port t k h)\<lparr>nh_network := None, nh_out := k'\<rparr>)"
  using assms by (simp add: started_client_def stop_network_def stop_net_def ni_stop_def client_stop_def
      client_stop_request_def client_run io_try_def io_catch_def net_client_new_def net_env.defs io_stop_def
      socket_io_new_def destroyed_def socket_io_destroy_def)

text \<open>
  Starting a client with a target, when the looper has a timer left, makes it the network of the
  instance: it is opening, with the storage attached and all identifiers of the entries forgotten. A
  second network, of either kind, is refused and changes nothing. Stopping it, with nothing going on in
  between, stops the timer and leaves the instance without a network, so that one can be started anew.
\<close>

theorem client_network_lifecycle:
  assumes "nh_network h = None" "port \<noteq> 0" "t \<noteq> empty_handle" "he_client_meanwhile env = io_return ()"
    and "ne_create_timer (he_net env) 200 (nh_out h) = (Inr t, k)"
    and "ne_stop_timer (he_net env) t k = (Inr (), k')"
  obtains io n h' where "start_client env address port h = (Inr (), h')"
    "nh_network h' = Some (nw_client io n)" "nc_state n = cs_opening" "nc_attached n"
    "nc_conn_info n = \<lparr>ci_ip = address, ci_port = port\<rparr>" "nh_storage h' = clear_net_ids (nh_storage h)"
    "start_client env address' port' h' = (Inl (Illegal_state ''network interface already open''), h')"
    "start_server env port' h' = (Inl (Illegal_state ''network interface already open''), h')"
    "stop_network env h' = (Inr (), h'\<lparr>nh_network := None, nh_out := k'\<rparr>)"
proof -
  let ?h = "started_client env address port t k h"
  show ?thesis
  proof (rule that [of ?h])
    show "start_client env address port h = (Inr (), ?h)" by (rule start_client_starts [OF assms(1,2,5)])
    show "stop_network env ?h = (Inr (), ?h\<lparr>nh_network := None, nh_out := k'\<rparr>)"
      by (rule started_client_stops [OF assms(3,4,6)])
    show "nh_network ?h = Some (nw_client (socket_io_new (he_read env) (he_block env) (he_block env))
        ((net_client_new (he_parse env) (he_block env))
            \<lparr>nc_conn_info := \<lparr>ci_ip = address, ci_port = port\<rparr>, nc_attached := True,
             nc_queue := mq_clear (message_queue_new (he_block env)), nc_state := cs_opening,
             nc_retry := timer_stop timer_new, nc_sync := timer_stop timer_new, nc_timer_handle := t\<rparr>))"
      by (simp add: started_client_def)
  qed (simp_all add: started_client_def start_client_def start_server_def start_network_def)
qed

text \<open>An instance over the sample network, with nothing stored yet.\<close>

definition sample_host_env :: "(nat, nat, string, unit) host_env" where
  "sample_host_env =
     \<lparr>he_net = sample_network, he_parse = blank_parse_data,
      he_read = \<lparr>rd_header = next_header 0 0 0, rd_message = replicate 1024 0\<rparr>, he_block = (\<lambda>_. 0),
      he_client_meanwhile = io_return (), he_server_meanwhile = w_return ()\<rparr>"

definition sample_host :: "(nat, nat, string, unit) net_host" where
  "sample_host = \<lparr>nh_storage = no_entries, nh_out = (), nh_network = None\<rparr>"

theorem failed_start_hides_cause_witness:
  "start_server sample_host_env 0 sample_host = (Inl (Illegal_state ''not running''), sample_host) \<and>
   start_client sample_host_env ''10.0.0.2'' 0 sample_host = (Inl (Illegal_state ''not running''), sample_host)"
  using failed_start_hides_cause [of sample_host] by (simp add: sample_host_def)

theorem client_network_lifecycle_witness:
  "\<exists>h'. start_client sample_host_env ''10.0.0.2'' 5000 sample_host = (Inr (), h') \<and>
     start_server sample_host_env 5000 h' = (Inl (Illegal_state ''network interface already open''), h') \<and>
     fst (stop_network sample_host_env h') = Inr ()"
proof (rule client_network_lifecycle [of sample_host 5000 0 sample_host_env "()" "()" "''10.0.0.2''" "''10.0.0.2''" 5000])
qed (simp_all add: sample_host_def sample_host_env_def sample_network_def empty_handle_def)

end
