(* ===== verification/Obsr_Type_Props.thy ===== *)
theory Obsr_Type_Props
  imports Obsr_Storage_Props Obsr_IO_Props
begin

text \<open>
  Types: what the deserializer makes of any bytes at all has the tag that was asked for and is read
  under it, and no operation of the storage but clearing and deleting changes the type of an entry.
\<close>

section \<open>Values read from the wire\<close>

lemma make_raw_content: "make_raw xs = Inr v \<Longrightarrow> content_of v = Some (C_raw xs)"
  and make_string_content: "make_string s = Inr v \<Longrightarrow> content_of v = Some (C_string s)"
  and make_int32_array_content: "make_int32_array is = Inr v \<Longrightarrow> content_of v = Some (C_int32_array is)"
  and make_int64_array_content: "make_int64_array ls = Inr v \<Longrightarrow> content_of v = Some (C_int64_array ls)"
  using set_array_content
  by (auto simp: make_raw_def make_string_def make_int32_array_def make_int64_array_def made_def
      split: prod.splits sum.splits)

lemma make_floating_array_type:
  "make_float_array xs = Inr v \<Longrightarrow> v_type v = vt_integer64_array"
  "make_double_array ys = Inr v \<Longrightarrow> v_type v = vt_integer64_array"
  by (auto simp: make_float_array_def make_double_array_def made_def set_float_array_def set_double_array_def
      array_value_def dest: set_array_Inr split: prod.splits sum.splits)

lemma make_scalar_content:
  "content_of (make_boolean b) = Some (C_boolean b)" "content_of (make_int32 x) = Some (C_int32 x)"
  "content_of (make_int64 y) = Some (C_int64 y)" "content_of (make_float x) = Some (C_float x)"
  "content_of (make_double y) = Some (C_double y)"
  by (simp_all add: make_defs set_scalar_content)

lemma made_value_Inr: "made_value f r = (Inr (Some v), d) \<longleftrightarrow> (\<exists>x. r = (Some x, d) \<and> f x = Inr v)"
  by (cases r; cases "fst r"; cases "f (the (fst r))") (auto simp: made_value_def)

lemma read_value_typed:
  assumes "read_value rd t d = (Inr (Some v), d')"
  shows "t \<noteq> vt_floating_point32_array \<Longrightarrow> t \<noteq> vt_floating_point64_array \<Longrightarrow>
           value_get_type v = t \<and> (\<exists>c. content_of v = Some c \<and> content_type c = t)"
    and "t = vt_floating_point32_array \<or> t = vt_floating_point64_array \<Longrightarrow> value_get_type v = vt_integer64_array"
proof -
  assume t: "t \<noteq> vt_floating_point32_array" "t \<noteq> vt_floating_point64_array"
  have "\<exists>c. content_of v = Some c \<and> content_type c = t"
    using assms t
    by (cases t) (auto simp: read_value_def made_value_Inr make_scalar_content content_of_make
        dest!: make_raw_content make_string_content make_int32_array_content make_int64_array_content)
  then show "value_get_type v = t \<and> (\<exists>c. content_of v = Some c \<and> content_type c = t)"
    by (auto simp: value_get_type_def dest: content_type_of)
next
  assume "t = vt_floating_point32_array \<or> t = vt_floating_point64_array"
  then show "value_get_type v = vt_integer64_array"
    using assms by (auto simp: read_value_def made_value_Inr value_get_type_def dest: make_floating_array_type)
qed

text \<open>
  C29 Whatever the bytes and however the buffer hands them out, a value that \<open>read_value\<close> returns has the
  type that was asked for, and its getter succeeds: no message makes the program read a union under a
  wrong tag. The exception are the arrays of floating point numbers, which never come out under their
  own type.
\<close>

theorem read_value_is_well_typed:
  assumes "read_value rd t d = (Inr (Some v), d')"
  shows "if t = vt_floating_point32_array \<or> t = vt_floating_point64_array then value_get_type v = vt_integer64_array
         else value_get_type v = t \<and> (\<exists>c. content_of v = Some c \<and> content_type c = t)"
  using read_value_typed [OF assms] by auto

theorem read_value_is_well_typed_witness:
  "\<exists>v d'. read_value ro_view_read vt_boolean (deserializer_new (ro_view_reset [1] 1 ro_view_new)) =
     (Inr (Some v), d') \<and> value_get_type v = vt_boolean"
proof -
  let ?d = "deserializer_new (ro_view_reset [1] 1 ro_view_new)"
  have "ro_view_ok (ds_buffer ?d)" "ro_view_unread (ds_buffer ?d) = wire_content (C_boolean True) @ []"
    by (simp_all add: deserializer_new_def)
  from rov.read_value_made [OF this] obtain d' where
    r: "read_value ro_view_read vt_boolean ?d = (Inr (Some (make_boolean True)), d')" by auto
  with read_value_is_well_typed [OF r] show ?thesis by auto
qed

section \<open>The types of the entries\<close>

definition entry_type :: "handle \<Rightarrow> 'c storage \<Rightarrow> value_type option" where
  "entry_type h s = map_option (\<lambda>d. value_get_type (se_value d)) (ht_lookup (st_entries s) h)"

lemma entry_type_simps [simp]:
  "entry_type h (add_events es s) = entry_type h s"
  "entry_type h (s\<lparr>st_ids := ids\<rparr>) = entry_type h s"
  "entry_type h (s\<lparr>st_listeners := ls\<rparr>) = entry_type h s"
  by (simp_all add: entry_type_def)

lemma set_entry_type:
  assumes "entry_type h s = Some t" "t \<noteq> vt_empty"
  shows "entry_type h (snd (set_entry_internal tm k v False i dirty ts s)) = Some t"
proof (cases "ht_lookup (st_entries s) k")
  case None
  with assms show ?thesis by (simp add: set_entry_missing)
next
  case (Some d)
  consider "stale ts d" | "\<not> stale ts d" "type_fits v d" | "\<not> stale ts d" "\<not> type_fits v d" by auto
  then show ?thesis
  proof cases
    case 1
    with Some assms show ?thesis by (simp add: set_entry_stale)
  next
    case 2
    with Some assms show ?thesis
      by (auto simp: set_entry_written entry_type_def type_fits_def value_get_type_def)
  next
    case 3
    with Some assms show ?thesis
      by (auto simp: set_entry_mismatch entry_type_def value_get_type_def)
  qed
qed

lemma find_or_create_type:
  assumes "storage_ok s" "entry_type h s = Some t" "find_or_create path s = (r, s')"
  shows "entry_type h s' = Some t"
proof (cases "st_paths s path")
  case None
  with assms(3) have "create_new_entry path s = (r, s')" by (simp add: find_or_create_def)
  from create_new_entry_cases [OF storage_okD(1) [OF assms(1)] this] assms(2) show ?thesis
    by (auto simp: entry_type_def)
next
  case (Some k)
  with assms show ?thesis by (simp add: find_or_create_def)
qed

lemma update_all_type:
  assumes "storage_ok s" "\<And>d. se_value (f d) = se_value d"
  shows "entry_type h (s\<lparr>st_entries := fold (\<lambda>h t. ht_update h f t) (ht_handles (st_entries s)) (st_entries s)\<rparr>) =
    entry_type h s"
  using update_all_lookup [OF storage_okD(1) [OF assms(1)], of f]
  by (simp add: entry_type_def option.map_comp comp_def assms(2))

lemma entry_type_steps:
  assumes "storage_ok s" and "entry_type h s = Some t" and "t \<noteq> vt_empty"
  shows "entry_type h (snd (set_entry_value tm k v s)) = Some t"
    and "entry_type h (snd (on_entry_updated tm i v ts s)) = Some t"
    and "entry_type h (snd (on_entry_created tm i path v ts s)) = Some t"
    and "entry_type h (snd (on_entry_id_assigned i path s)) = Some t"
    and "entry_type h (snd (get_or_create_entry path s)) = Some t"
    and "entry_type h (on_clock_resync s) = Some t" and "entry_type h (clear_net_ids s) = Some t"
    and "entry_type h (snd (clear_entry tm k s)) \<in> {Some t, Some vt_empty}"
    and "entry_type h (snd (delete_entry tm k s)) \<in> {Some t, Some vt_empty}"
    and "entry_type h (snd (on_entry_deleted tm i ts s)) \<in> {Some t, Some vt_empty}"
proof -
  note set_type = set_entry_type [OF _ assms(3)]
  show "entry_type h (snd (set_entry_value tm k v s)) = Some t"
    and "entry_type h (snd (on_entry_updated tm i v ts s)) = Some t"
    using assms(2) by (simp_all add: set_entry_value_def on_entry_updated_def set_type split: option.split)
  show "entry_type h (snd (on_entry_created tm i path v ts s)) = Some t"
    using find_or_create_type [OF assms(1,2), of path]
    by (cases "find_or_create path s") (auto simp: on_entry_created_def set_type split: sum.split)
  show "entry_type h (snd (on_entry_id_assigned i path s)) = Some t"
    using find_or_create_type [OF assms(1,2), of path]
    by (cases "find_or_create path s")
      (auto simp: on_entry_id_assigned_def entry_type_def ht_get_lookup split: sum.split option.split)
  show "entry_type h (snd (get_or_create_entry path s)) = Some t"
    using find_or_create_type [OF assms(1,2), of path] assms(2)
    by (cases "find_or_create path s") (auto simp: get_or_create_entry_def find_or_create_def split: option.splits)
  show "entry_type h (on_clock_resync s) = Some t" "entry_type h (clear_net_ids s) = Some t"
    using assms(2) update_all_type [OF assms(1), of "adjust_entry (st_clock s)" h]
      update_all_type [OF assms(1), of clear_net_id h]
    by (simp_all add: on_clock_resync_def clear_net_ids_def Let_def adjust_entry_def entry_type_def
        set_last_update_def clear_net_id_def)
  have del: "entry_type h (snd (delete_entry_internal tm k dirty ts s)) \<in> {Some t, Some vt_empty}" for k dirty ts
    using assms(2)
    by (cases "ht_lookup (st_entries s) k";
        cases "stale ts (the (ht_lookup (st_entries s) k)) \<or> \<not> does_entry_have_value (the (ht_lookup (st_entries s) k))")
      (auto simp: delete_entry_missing delete_entry_skipped delete_entry_removed entry_type_def value_get_type_def)
  then show "entry_type h (snd (delete_entry tm k s)) \<in> {Some t, Some vt_empty}"
    and "entry_type h (snd (on_entry_deleted tm i ts s)) \<in> {Some t, Some vt_empty}"
    using assms(2) by (auto simp: delete_entry_def on_entry_deleted_def split: option.split)
  show "entry_type h (snd (clear_entry tm k s)) \<in> {Some t, Some vt_empty}"
    using assms(2)
    by (cases "ht_lookup (st_entries s) k"; cases "stale 0 (the (ht_lookup (st_entries s) k))")
      (auto simp: clear_entry_def set_entry_missing set_entry_stale set_entry_written entry_type_def value_get_type_def)
qed

text \<open>
  C21 An entry that has a type keeps it: whatever value of whatever type a client sets or the network
  delivers for it, and whatever else is created, renamed or resynchronised. Only clearing and deleting
  the entry take the type away, and leave the entry empty.
\<close>

theorem entry_type_is_kept:
  assumes "storage_ok s" and "entry_type h s = Some t" and "t \<noteq> vt_empty"
  shows "entry_type h (snd (set_entry_value tm k v s)) = Some t \<and>
     entry_type h (snd (on_entry_updated tm i v ts s)) = Some t \<and>
     entry_type h (snd (on_entry_created tm i path v ts s)) = Some t \<and>
     entry_type h (snd (on_entry_id_assigned i path s)) = Some t \<and>
     entry_type h (snd (get_or_create_entry path s)) = Some t \<and>
     entry_type h (on_clock_resync s) = Some t \<and> entry_type h (clear_net_ids s) = Some t \<and>
     entry_type h (snd (clear_entry tm k s)) \<in> {Some t, Some vt_empty} \<and>
     entry_type h (snd (delete_entry tm k s)) \<in> {Some t, Some vt_empty} \<and>
     entry_type h (snd (on_entry_deleted tm i ts s)) \<in> {Some t, Some vt_empty}"
  by (intro conjI entry_type_steps [OF assms])

theorem entry_type_is_kept_witness:
  "entry_type 0 (snd (set_entry_value (\<lambda>_. 9) 0 (make_boolean True) valued_storage)) = Some vt_integer32"
  using entry_type_is_kept [OF valued_ok, of 0 vt_integer32]
  by (simp add: entry_type_def valued_lookup value_get_type_def)

end
