(* ===== verification/Obsr_World_Invariant.thy ===== *)
theory Obsr_World_Invariant
  imports Obsr_Io_Invariant Obsr_Server_Io
begin

text \<open>
  Invariants of the world of a server: a predicate that does not look at the connections, and that the
  system calls, the looper and the callbacks of the owner keep, is kept by every operation of
  \<open>server_io\<close> and by every event of the listening socket or of the connection of a client.
\<close>

section \<open>Rules\<close>

definition w_keeps :: "('w \<Rightarrow> bool) \<Rightarrow> ('w, 'x) world_op \<Rightarrow> bool" where
  "w_keeps I p \<longleftrightarrow> (\<forall>w. I w \<longrightarrow> I (snd (p w)))"

named_theorems w_rules

lemma w_keepsI: "(\<And>w r w'. I w \<Longrightarrow> p w = (r, w') \<Longrightarrow> I w') \<Longrightarrow> w_keeps I p"
  unfolding w_keeps_def by (metis prod.collapse)

lemma w_keepsD: "w_keeps I p \<Longrightarrow> I w \<Longrightarrow> p w = (r, w') \<Longrightarrow> I w'"
  unfolding w_keeps_def by (metis snd_conv)

lemma w_keeps_snd: "w_keeps I p \<Longrightarrow> I w \<Longrightarrow> I (snd (p w))"
  by (simp add: w_keeps_def)

lemma w_keeps_return [w_rules]: "w_keeps I (w_return x)"
  by (simp add: w_keeps_def w_return_def)

lemma w_keeps_done [w_rules]: "w_keeps I (\<lambda>w. (r, w))"
  by (simp add: w_keeps_def)

lemma w_keeps_throw [w_rules]: "w_keeps I (w_throw e)"
  by (simp add: w_keeps_def w_throw_def)

lemma keeps_ask [w_rules]: "w_keeps I (w_ask f)"
  by (simp add: w_keeps_def w_ask_def)

lemma keeps_ask_io [w_rules]: "w_keeps I (ask_io f)"
  by (simp add: ask_io_def keeps_ask)

lemma w_keeps_modify [w_rules]: "(\<And>w. I w \<Longrightarrow> I (f w)) \<Longrightarrow> w_keeps I (w_modify f)"
  by (simp add: w_keeps_def w_modify_def)

lemma w_keeps_then [w_rules]:
  assumes "w_keeps I p" "\<And>x. w_keeps I (f x)"
  shows "w_keeps I (w_then p f)"
proof (rule w_keepsI)
  fix w r w'
  assume w: "I w" and e: "w_then p f w = (r, w')"
  obtain r1 w1 where 1: "p w = (r1, w1)" by (cases "p w")
  from w_keepsD [OF assms(1) w 1] e 1 w_keepsD [OF assms(2)] show "I w'"
    by (cases r1) (auto simp: w_then_def)
qed

lemma w_keeps_catch [w_rules]:
  assumes "w_keeps I p" "\<And>e. w_keeps I (h e)"
  shows "w_keeps I (w_catch handled p h)"
proof (rule w_keepsI)
  fix w r w'
  assume w: "I w" and e: "w_catch handled p h w = (r, w')"
  obtain r1 w1 where 1: "p w = (r1, w1)" by (cases "p w")
  from w_keepsD [OF assms(1) w 1] e 1 w_keepsD [OF assms(2)] show "I w'"
    by (cases r1) (auto simp: w_catch_def split: if_splits)
qed

lemma w_keeps_try [w_rules]: "w_keeps I p \<Longrightarrow> w_keeps I (w_try p)"
  by (simp add: w_try_def w_keeps_catch w_keeps_return)

lemma w_keeps_if [w_rules]: "w_keeps I p \<Longrightarrow> w_keeps I q \<Longrightarrow> w_keeps I (if b then p else q)"
  by simp

lemma keeps_if_world [w_rules]:
  "w_keeps I p \<Longrightarrow> w_keeps I q \<Longrightarrow> w_keeps I (\<lambda>w. if c w then p w else q w)"
  by (simp add: w_keeps_def)

lemma keeps_sum [w_rules]:
  "(\<And>e. w_keeps I (f e)) \<Longrightarrow> (\<And>x. w_keeps I (g x)) \<Longrightarrow>
   w_keeps I (\<lambda>w. case c of Inl e \<Rightarrow> f e w | Inr x \<Rightarrow> g x w)"
  by (cases c) simp_all

section \<open>The listening side\<close>

locale world_invariant =
  fixes env :: "('s, 'l, ('s, 'l, 'z) io_world_scheme) server_env" and I :: "('s, 'l, 'z) io_world_scheme \<Rightarrow> bool"
  assumes connections_free: "I w \<Longrightarrow> I (w\<lparr>iw_io := x\<rparr>)"
    and os_calls: "w_keeps I (sk_new env)" "w_keeps I (sk_reuseport env k)" "w_keeps I (sk_nonblocking env k)"
      "w_keeps I (sk_close env k)" "w_keeps I (sk_connect env k info)" "w_keeps I (sk_finalize env k)"
      "I w \<Longrightarrow> I (snd (sk_read env k w n))" "I w \<Longrightarrow> I (snd (sk_write env k w xs))"
      "w_keeps I (lo_add env k ev)" "w_keeps I (lo_remove env h)" "w_keeps I (lo_request env h ev t)"
    and server_calls: "w_keeps I (ss_new env)" "w_keeps I (ss_reuseport env l)" "w_keeps I (ss_nonblocking env l)"
      "w_keeps I (ss_bind env l port)" "w_keeps I (ss_listen env l m)" "w_keeps I (ss_accept env l)"
      "w_keeps I (ss_close env l)" "w_keeps I (sl_add env l ev)"
    and callbacks: "w_keeps I (scb_connect env i)" "w_keeps I (scb_disconnect env i)" "w_keeps I (scb_close env)"
      "w_keeps I (scb_message env i header buf sz)"
begin

lemma put_io_keeps: "I w \<Longrightarrow> I (put_io i s w)"
  by (simp add: put_io_def connections_free)

lemma on_io_keeps: "w_keeps I (on_io f)"
  by (simp add: on_io_def w_keeps_modify connections_free)

lemma owner_callback_to:
  assumes "w_keeps I op"
  shows "io_to I (owner_callback i op) I"
proof (rule io_toI)
  fix s w r s' w'
  assume w: "I w" and e: "owner_callback i op s w = (r, s', w')"
  from w_keepsD [OF assms put_io_keeps [OF w]] e show "I w'"
    by (auto simp: owner_callback_def split: prod.splits option.splits)
qed

lemma connection: "io_invariant (io_client_env env i) I"
  by unfold_locales
    (simp_all add: io_client_env_def owner_callback_to w_keeps_try callbacks os_calls(7,8)
      os_calls(1-6,9-11) [THEN w_keeps_snd])

lemma with_client_keeps:
  assumes "io_to I op I"
  shows "w_keeps I (with_client i op)"
proof (rule w_keepsI)
  fix w r w'
  assume w: "I w" and e: "with_client i op w = (r, w')"
  from w io_toD [OF assms w] e put_io_keeps show "I w'"
    by (auto simp: with_client_def split: option.splits prod.splits)
qed

lemma socket_keeps: "(\<And>k. w_keeps I (g k)) \<Longrightarrow> w_keeps I (on_server_socket g)"
  by (auto simp: w_keeps_def on_server_socket_def split: option.split)

lemma clients_keep: "w_keeps I clear_clients" "w_keeps I (erase_client i)"
  by (auto simp: w_keeps_def clear_clients_def erase_client_def connections_free split: option.split)

lemmas pieces = on_io_keeps with_client_keeps socket_keeps clients_keep os_calls server_calls callbacks

lemma sio_start_keeps: "w_keeps I (sio_start env port)"
  unfolding sio_start_def by (intro w_rules pieces)

lemma stop_clients_keep: "w_keeps I (stop_clients env is)"
  by (induction "is") (auto intro!: w_rules pieces io_invariant.io_stop_to [OF connection])

lemma sio_stop_internal_keeps: "w_keeps I (sio_stop_internal env notify_owner)"
  unfolding sio_stop_internal_def by (intro w_rules pieces stop_clients_keep)

lemma sio_stop_keeps: "w_keeps I (sio_stop env)"
  unfolding sio_stop_def by (intro w_rules sio_stop_internal_keeps)

lemma write_to_keeps: "w_keeps I (write_to env i t buffer)"
  unfolding write_to_def [abs_def]
  by (intro w_rules pieces io_invariant.io_write_to [OF connection])

lemma sio_on_read_ready_keeps: "w_keeps I (sio_on_read_ready env fresh)"
proof (rule w_keepsI)
  fix w r w'
  assume w: "I w" and e: "sio_on_read_ready env fresh w = (r, w')"
  have accepted: "w_keeps I (w_catch is_io_exception
      (w_then (on_io (\<lambda>x. x\<lparr>si_next := i + 1\<rparr>)) (\<lambda>_.
       w_then (w_ask (find_client i)) (\<lambda>old.
       if old \<noteq> None then sk_close env socket
       else
         w_then (on_io (\<lambda>x. x\<lparr>si_clients := si_clients x @ [(i, fresh)]\<rparr>)) (\<lambda>_.
         w_then (with_client i (start_with (io_client_env env i) socket True)) (\<lambda>_.
         w_try (scb_connect env i))))))
      (\<lambda>e. if i \<noteq> invalid_client_id then erase_client i else w_return ()))" for i socket
    by (intro w_rules pieces io_invariant.start_with_to [OF connection])
  have "w_keeps I (on_server_socket (ss_accept env))" by (intro pieces)
  note accept = w_keepsD [OF this w]
  from e accept w_keepsD [OF accepted] show "I w'"
    by (auto simp: sio_on_read_ready_def Let_def split: prod.splits sum.splits)
qed

lemma sio_event_keeps: "w_keeps I (sio_event env fresh ev)"
  unfolding sio_event_def [abs_def] sio_on_hung_or_error_def by (intro w_rules sio_stop_internal_keeps sio_on_read_ready_keeps)

lemma sio_client_event_keeps:
  "sio_client_event env i ev w = Some (r, w') \<Longrightarrow> I w \<Longrightarrow> I w'"
  using io_invariant.io_event_to [OF connection, of i ev _ w]
  by (auto simp: sio_client_event_def put_io_keeps split: option.splits)

end

end
