(* ===== verification/Obsr_Consistency.thy ===== *)
theory Obsr_Consistency
  imports Obsr_Handshake Obsr_World_Invariant
begin

text \<open>
  The network and the storage: whatever a client or a server does, on its own or because of what its
  connections bring, the storage it is attached to stays well formed, and the maps of the server hold
  every key once.
\<close>

section \<open>A client\<close>

definition stored :: "('c, 'o) client_world \<Rightarrow> bool" where
  "stored w \<longleftrightarrow> storage_ok (cw_storage w)"

lemma stored_simps [simp]:
  "stored (w\<lparr>cw_client := c\<rparr>) = stored w" "stored (w\<lparr>cw_out := k\<rparr>) = stored w"
  "stored (w\<lparr>cw_storage := st\<rparr>) = storage_ok st"
  by (simp_all add: stored_def)

lemma storage_ok_clock [simp]: "storage_ok (s\<lparr>st_clock := c\<rparr>) = storage_ok s"
  by (simp add: storage_ok_def)

named_theorems stored_rules

lemma stored_on_client [stored_rules]: "io_to stored (on_client f) stored"
  by (rule to_client) simp

lemma stored_ask [stored_rules]: "io_to stored (ask_client f) stored"
  by (rule to_ask)

lemma stored_set_state [stored_rules]: "io_to stored (set_client_state st) stored"
  by (simp add: set_client_state_def stored_on_client)

lemma stored_out [stored_rules]: "io_to stored (client_out g) stored"
  by (rule to_out) simp

lemma stored_times [stored_rules]: "io_to stored (client_times ne) stored"
  by (rule to_times) simp

lemma stored_lock [stored_rules]: "io_to stored p stored \<Longrightarrow> io_to stored (client_lock p) stored"
  by (rule to_lock) simp_all

lemma stored_storage [stored_rules]:
  "(\<And>st. storage_ok st \<Longrightarrow> storage_ok (snd (op st))) \<Longrightarrow> io_to stored (client_storage op) stored"
  unfolding io_to_def client_storage_def io_call_def stored_def
  by (auto split: prod.split) (metis snd_conv)

lemma stored_invoke [stored_rules]:
  "(\<And>st. storage_ok st \<Longrightarrow> storage_ok (snd (op st))) \<Longrightarrow> io_to stored (invoke_storage op) stored"
  unfolding invoke_storage_def [abs_def] by (intro io_rules stored_storage)

lemma stored_close [stored_rules]: "io_to stored (client_on_close ne) stored"
  by (rule on_close_to) simp_all

interpretation client_own: io_invariant "client_calls ne" stored for ne :: "('s, 'o) net_env"
  by unfold_locales (simp_all add: client_calls_def lift_env_def lift_call_keeps to_return stored_close)

lemma stored_destination:
  "stored (snd sw) \<Longrightarrow> stored (snd (snd (io_destination (client_calls ne) t b sw)))"
  using client_own.io_write_to [of ne t b]
  by (cases sw) (auto simp: io_to_def io_destination_def split: prod.split)

lemmas stored_queue = enqueue_keeps [where I = "\<lambda>sw. stored (snd sw)", OF stored_destination]
  drain_keeps [where I = "\<lambda>sw. stored (snd sw)", OF stored_destination]

lemma stored_enqueue [stored_rules]: "io_to stored (client_enqueue ne m flags) stored"
  by (rule io_toI) (auto simp: client_enqueue_def split: prod.splits dest!: stored_queue(1) [rotated 2])

lemma stored_process_queue [stored_rules]: "io_to stored (client_process_queue ne) stored"
  by (rule io_toI)
    (auto simp: client_process_queue_def mq_process_def split: prod.splits dest!: stored_queue(2) [rotated 2])

lemma stored_connect [stored_rules]: "io_to stored (client_on_connect ne) stored"
  unfolding client_on_connect_def by (intro stored_rules io_rules) 

lemma stored_sync [stored_rules]: "io_to stored (client_sync r d) stored"
  by (auto simp: io_to_def client_sync_def stored_def Let_def storage_op_ok split: prod.split)

lemma stored_dispatch [stored_rules]: "io_to stored (client_dispatch ne t d) stored"
  unfolding client_dispatch_def
  by (cases t; simp only: message_type.case; intro stored_rules io_rules storage_op_ok)

lemma stored_message [stored_rules]: "io_to stored (client_on_message ne header buffer sz) stored"
proof -
  have "io_to stored (client_parse t buffer sz) stored" for t
    by (simp add: io_to_def client_parse_def split: prod.split)
  then show ?thesis unfolding client_on_message_def Let_def by (intro stored_rules io_rules)
qed

interpretation client_run: io_invariant "client_env ne" stored for ne :: "('s, 'o) net_env"
  by unfold_locales (simp_all add: client_env_def lift_env_def lift_call_keeps stored_rules)

lemma stored_process_storage [stored_rules]:
  fixes ne :: "('s, 'o) net_env"
  shows "io_to (stored :: ('c, 'o) client_world \<Rightarrow> bool) (process_storage ne) stored"
proof -
  have "fst (snd (publish_entry ne d (st, x))) = st"
    for d st and x :: "'s socket_io \<times> ('c, 'o) client_world"
    by (auto simp: publish_entry_def Let_def split: prod.split)
  then have "storage_ok (fst (snd (act_on_dirty_entries (publish_entry ne) (st, x))))"
    if "storage_ok st" for st and x :: "'s socket_io \<times> ('c, 'o) client_world"
    using that unfolding act_on_dirty_entries_def by (intro act_on_ok) simp_all
  then show ?thesis
    by (auto simp: io_to_def process_storage_def stored_def split: prod.split) (metis fst_conv snd_conv)
qed

lemma stored_update [stored_rules]: "io_to stored (client_update ne) stored"
proof -
  have "io_to stored (do_open_and_connect ne) stored"
    unfolding do_open_and_connect_def
    by (intro stored_rules io_rules client_own.io_start_to client_own.io_connect_to client_own.io_stop_to)
  moreover have "io_to stored (client_sync_request ne tm) stored" for tm
    unfolding client_sync_request_def by (intro stored_rules io_rules)
  ultimately show ?thesis
    unfolding client_update_def
    by (intro to_then to_if_const stored_rules to_return) (auto split: client_state.split intro!: stored_rules io_rules)
qed

text \<open>What the interface and the looper call.\<close>

lemma client_ops_stored:
  shows "io_to stored (client_attach_storage present) stored"
    and "io_to stored (configure_target info) stored"
    and "io_to stored (client_start ne) stored"
    and "io_to stored (client_stop_request ne) stored"
    and "io_to stored (client_tick ne) stored"
    and "io_to stored meanwhile stored \<Longrightarrow> io_to stored (client_stop ne meanwhile) stored"
proof -
  show "io_to stored (client_attach_storage present) stored" "io_to stored (configure_target info) stored"
    unfolding client_attach_storage_def configure_target_def by (intro stored_rules io_rules)+
  show "io_to stored (client_start ne) stored"
    unfolding client_start_def by (intro stored_rules io_rules) (simp add: storage_op_ok)
  show stop: "io_to stored (client_stop_request ne) stored"
    unfolding client_stop_request_def by (intro stored_rules io_rules client_own.io_stop_to)
  show "io_to stored (client_tick ne) stored"
    unfolding client_tick_def by (intro stored_rules)
  show "io_to stored meanwhile stored \<Longrightarrow> io_to stored (client_stop ne meanwhile) stored"
    unfolding client_stop_def by (intro stored_rules io_rules stop)
qed

section \<open>A server\<close>

text \<open>A \<open>std::map\<close>: every key once, in ascending order.\<close>

definition keyed :: "('k :: linorder \<times> 'v) list \<Rightarrow> bool" where
  "keyed xs \<longleftrightarrow> sorted_wrt (<) (map fst xs)"

definition server_ok :: "net_server \<Rightarrow> bool" where
  "server_ok n \<longleftrightarrow> keyed (ns_clients n) \<and> keyed (ns_ids n)"

definition kept :: "('s, 'l, 'c, 'o) server_world \<Rightarrow> bool" where
  "kept w \<longleftrightarrow> storage_ok (sw_storage w) \<and> server_ok (sw_server w)"

lemma sorted_emplace_keys: "set (map fst (sorted_emplace k v xs)) = insert k (set (map fst xs))"
  by (induction k v xs rule: sorted_emplace.induct) auto

lemma keyed_simps [simp]: "keyed []" "keyed (map (\<lambda>(i, c). (i, f i c)) xs) = keyed xs"
  by (simp_all add: keyed_def comp_def case_prod_beta)

lemma keyed_filter: "keyed xs \<Longrightarrow> keyed (filter P xs)"
  unfolding keyed_def by (induction xs) auto

lemma keyed_emplace: "keyed xs \<Longrightarrow> keyed (sorted_emplace k v xs)"
proof (induction k v xs rule: sorted_emplace.induct)
  case (2 k v j x xs)
  then show ?case using sorted_emplace_keys [of k v xs] by (auto simp: keyed_def)
qed (simp add: keyed_def)

lemma keyed_map_of: "keyed xs \<Longrightarrow> (k, v) \<in> set xs \<longleftrightarrow> map_of xs k = Some v"
  by (simp add: keyed_def strict_sorted_iff)

lemma server_ok_simps [simp]:
  "server_ok (n\<lparr>ns_locked := b\<rparr>) = server_ok n" "server_ok (n\<lparr>ns_state := st\<rparr>) = server_ok n"
  "server_ok (n\<lparr>ns_attached := b\<rparr>) = server_ok n" "server_ok (n\<lparr>ns_port := port\<rparr>) = server_ok n"
  "server_ok (n\<lparr>ns_timer_handle := h\<rparr>) = server_ok n" "server_ok (n\<lparr>ns_parser := p\<rparr>) = server_ok n"
  "server_ok (n\<lparr>ns_next_id := i\<rparr>) = server_ok n" "server_ok (n\<lparr>ns_retry := t\<rparr>) = server_ok n"
  "server_ok (update_client j f n) = server_ok n"
  "server_ok (n\<lparr>ns_clients := cs\<rparr>) \<longleftrightarrow> keyed cs \<and> keyed (ns_ids n)"
  "server_ok (n\<lparr>ns_ids := ids\<rparr>) \<longleftrightarrow> keyed (ns_clients n) \<and> keyed ids"
  by (simp_all add: server_ok_def update_client_def)

lemma kept_simps [simp]:
  "kept (w\<lparr>iw_io := x\<rparr>) = kept w" "kept (w\<lparr>sw_out := k\<rparr>) = kept w"
  "kept (w\<lparr>sw_storage := st\<rparr>) \<longleftrightarrow> storage_ok st \<and> server_ok (sw_server w)"
  "kept (w\<lparr>sw_server := n\<rparr>) \<longleftrightarrow> storage_ok (sw_storage w) \<and> server_ok n"
  by (simp_all add: kept_def)

lemma kept_parts: "kept w \<Longrightarrow> storage_ok (sw_storage w)" "kept w \<Longrightarrow> server_ok (sw_server w)"
  by (simp_all add: kept_def)

lemma server_ok_parts: "server_ok n \<Longrightarrow> keyed (ns_clients n)" "server_ok n \<Longrightarrow> keyed (ns_ids n)"
  by (simp_all add: server_ok_def)

named_theorems kept_rules

lemma kept_on_server [kept_rules]: "(\<And>n. server_ok n \<Longrightarrow> server_ok (f n)) \<Longrightarrow> w_keeps kept (on_server f)"
  unfolding on_server_def by (rule w_keeps_modify) (simp add: kept_parts)

lemma kept_ask [kept_rules]: "w_keeps kept (ask_server f)" "w_keeps kept (server_now r)"
  by (simp_all add: ask_server_def server_now_def keeps_ask)

lemma kept_out [kept_rules]: "w_keeps kept (server_out g)"
  by (simp add: w_keeps_def server_out_def lift_call_def split: prod.split)

lemma kept_times [kept_rules]: "w_keeps kept (server_times ne)"
  by (simp add: server_times_def kept_out)

lemma kept_storage:
  "(\<And>st. storage_ok st \<Longrightarrow> storage_ok (snd (op st))) \<Longrightarrow> w_keeps kept (server_storage op)"
  by (simp add: w_keeps_def server_storage_def kept_parts split: prod.split) (metis kept_parts(1) snd_conv)

lemma kept_store [kept_rules]:
  "(\<And>st. storage_ok st \<Longrightarrow> storage_ok (snd (op st))) \<Longrightarrow> w_keeps kept (on_store op)"
  "(\<And>st. storage_ok st \<Longrightarrow> storage_ok (snd (op' st))) \<Longrightarrow> w_keeps kept (invoke_store op')"
  unfolding on_store_def [abs_def] invoke_store_def [abs_def] by (intro w_rules kept_storage; simp)+

lemma kept_lock [kept_rules]:
  assumes "w_keeps kept p"
  shows "w_keeps kept (server_lock p)"
proof (rule w_keepsI)
  fix w r w'
  assume w: "kept w" and e: "server_lock p w = (r, w')"
  let ?w = "w\<lparr>sw_server := (sw_server w)\<lparr>ns_locked := True\<rparr>\<rparr>"
  obtain r1 w1 where 1: "p ?w = (r1, w1)" by (cases "p ?w")
  from w_keepsD [OF assms _ 1] w e 1 show "kept w'"
    by (auto simp: server_lock_def kept_parts split: if_splits)
qed

lemma kept_assign [kept_rules]: "w_keeps kept (assign_id_to_entry name)"
  unfolding assign_id_to_entry_def
  by (intro w_rules kept_rules storage_op_ok; simp add: server_ok_parts keyed_emplace)

lemma kept_enqueue_all [kept_rules]: "w_keeps kept (enqueue_message_for_clients m i)"
  "w_keeps kept (publish_and_update_entry_for_clients e name v t i)"
  unfolding enqueue_message_for_clients_def publish_and_update_entry_for_clients_def Let_def
  by (intro kept_rules; simp add: server_ok_parts)+

lemma kept_handshake [kept_rules]: "w_keeps kept (handle_do_handshake_for_client ne i)"
  unfolding handle_do_handshake_for_client_def by (intro w_rules kept_rules; simp)

lemma kept_callbacks [kept_rules]: "w_keeps kept (server_on_connect block i)"
  "w_keeps kept (server_on_disconnect i)" "w_keeps kept server_on_close"
  unfolding server_on_connect_def server_on_disconnect_def server_on_close_def
  by (intro kept_rules; simp add: server_ok_parts keyed_filter keyed_emplace)+

lemma server_world: "(\<And>i header buf sz. w_keeps kept (on_message i header buf sz)) \<Longrightarrow>
    world_invariant (server_calls ne block on_message) kept"
  by unfold_locales
    (auto simp: server_calls_def kept_rules kept_out [THEN w_keeps_snd])

interpretation server_own: world_invariant "server_calls ne block (\<lambda>_ _ _ _. w_return ())" kept
  for ne :: "('s, 'l, 'o) net_server_env" and block
  by (rule server_world) (rule w_keeps_return)

text \<open>The queue of a client.\<close>

lemma kept_destination: "kept w \<Longrightarrow> kept (snd (client_destination ne block i t b w))"
  unfolding client_destination_def by (rule w_keeps_snd [OF server_own.write_to_keeps])

lemma kept_on_queue:
  assumes "\<And>q w. kept w \<Longrightarrow> kept (snd (snd (f q w)))"
  shows "w_keeps kept (on_client_queue i f)"
proof (rule w_keepsI)
  fix w r w'
  assume w: "kept w" and e: "on_client_queue i f w = (r, w')"
  show "kept w'"
  proof (cases "map_of (ns_clients (sw_server w)) i")
    case (Some c)
    obtain r1 q w1 where 1: "f (sc_queue c) w = (r1, q, w1)" by (metis prod_cases3)
    have "kept w1" using assms [OF w, of "sc_queue c"] 1 by simp
    with e Some 1 show ?thesis by (auto simp: on_client_queue_def kept_parts split: if_splits)
  qed (use w e in \<open>simp add: on_client_queue_def\<close>)
qed

lemma kept_queue_ops [kept_rules]:
  "w_keeps kept (enqueue_message_for_client ne block i m flags)"
  "w_keeps kept (on_client_queue i (mq_process (client_destination ne block i)))"
proof -
  have "kept (snd (snd (enqueue (client_destination ne block i) m flags q w)))" if "kept w" for q w
  proof -
    obtain r q' w' where "enqueue (client_destination ne block i) m flags q w = (r, q', w')" by (metis prod_cases3)
    with enqueue_keeps [where I = kept, OF kept_destination that this] show ?thesis by simp
  qed
  then show "w_keeps kept (enqueue_message_for_client ne block i m flags)"
    unfolding enqueue_message_for_client_def by (rule kept_on_queue)
  have "kept (snd (snd (mq_process (client_destination ne block i) q w)))" if "kept w" for q w
    using drain_keeps [where I = kept, OF kept_destination that]
    by (auto simp: mq_process_def split: prod.split)
  then show "w_keeps kept (on_client_queue i (mq_process (client_destination ne block i)))"
    by (rule kept_on_queue)
qed

lemma kept_dispatch [kept_rules]: "w_keeps kept (server_dispatch ne block i t d)"
  unfolding server_dispatch_def
  by (cases t; simp only: message_type.case; intro w_rules kept_rules storage_op_ok)

lemma kept_message [kept_rules]: "w_keeps kept (server_on_message ne block i header buf sz)"
proof -
  have "w_keeps kept (server_parse t buf sz)" for t
    by (simp add: w_keeps_def server_parse_def kept_parts split: prod.split)
  then show ?thesis unfolding server_on_message_def Let_def by (intro w_rules kept_rules)
qed

interpretation server_run: world_invariant "server_env_of ne block" kept
  for ne :: "('s, 'l, 'o) net_server_env" and block
  unfolding server_env_of_def by (rule server_world) (rule kept_message)

lemma kept_update_entry:
  assumes "storage_ok st" "kept w"
  shows "storage_ok (fst (snd (update_entry ne d (st, w)))) \<and> kept (snd (snd (update_entry ne d (st, w))))"
proof -
  let ?p = "w_then
      (if se_net_id d = id_not_assigned then assign_id_to_entry (se_path d) else w_return (se_net_id d)) (\<lambda>i.
    w_then (if has_flags flag_internal_deleted d then server_times ne else w_return (\<lambda>_. 0)) (\<lambda>tm.
    w_then (server_now (tm 0)) (\<lambda>now.
    w_then (on_server (\<lambda>n. n\<lparr>ns_clients :=
        map (\<lambda>(j, c). (j, send_update i (se_path d) (update_message now i d) c)) (ns_clients n)\<rparr>)) (\<lambda>_.
    w_return True))))"
  have "w_keeps kept ?p"
    by (intro w_rules kept_rules; simp add: server_ok_parts)
  from w_keeps_snd [OF this, of "w\<lparr>sw_storage := st\<rparr>"] assms
  have "kept (snd (?p (w\<lparr>sw_storage := st\<rparr>)))" by (simp add: kept_parts)
  then show ?thesis
    by (auto simp: update_entry_def kept_parts split: prod.split)
qed

lemma kept_process_dirty [kept_rules]: "w_keeps kept (process_dirty ne)"
proof (rule w_keepsI)
  fix w r w'
  assume w: "kept w" and e: "process_dirty ne w = (r, w')"
  let ?J = "\<lambda>sw. storage_ok (fst sw) \<and> kept (snd sw)"
  have "?J (snd (act_on_dirty_entries (update_entry ne) (sw_storage w, w)))"
    unfolding act_on_dirty_entries_def
  proof (rule act_on_keeps)
    show "?J (snd (update_entry ne d sw))" if "?J sw" for d sw
      using kept_update_entry [of "fst sw" "snd sw" ne d] that by simp
    show "?J (s\<lparr>st_entries := ht_update h clear_dirty (st_entries s)\<rparr>, w)" if "?J (s, w)" for h s w
      using that clear_dirty_ok by auto
    show "?J (sw_storage w, w)" using w by (simp add: kept_parts)
  qed
  with w e show "kept w'"
    by (auto simp: process_dirty_def kept_parts split: if_splits prod.splits)
qed

lemma kept_update_clients [kept_rules]: "w_keeps kept (update_clients ne block is)"
  by (induction "is") (auto intro!: w_rules kept_rules)

lemma kept_process_updates [kept_rules]: "w_keeps kept (server_process_updates ne block)"
  unfolding server_process_updates_def by (intro w_rules kept_rules)

lemma kept_open [kept_rules]: "w_keeps kept (do_open ne block)"
  unfolding do_open_def
  by (intro w_rules kept_rules server_run.sio_start_keeps server_run.sio_stop_keeps; simp)

text \<open>What the interface and the looper call.\<close>

lemma server_ops_kept:
  shows "w_keeps kept (server_attach_storage present)"
    and "w_keeps kept (configure_bind port)"
    and "w_keeps kept (server_start ne)"
    and "w_keeps kept (server_stop_request ne block)"
    and "w_keeps kept (server_update ne block)"
    and "w_keeps kept meanwhile \<Longrightarrow> w_keeps kept (server_stop ne block meanwhile)"
proof -
  show "w_keeps kept (server_attach_storage present)" "w_keeps kept (configure_bind port)"
    unfolding server_attach_storage_def configure_bind_def by (intro w_rules kept_rules; simp)+
  show "w_keeps kept (server_start ne)"
    unfolding server_start_def
    by (intro w_rules kept_rules; simp add: server_ok_parts storage_op_ok)
  show stop: "w_keeps kept (server_stop_request ne block)"
    unfolding server_stop_request_def
    by (intro w_rules kept_rules server_run.sio_stop_keeps; simp)
  show "w_keeps kept (server_update ne block)"
    unfolding server_update_def
    by (rule w_keeps_then [OF kept_ask(1)], split server_state.split, intro conjI impI)
      (intro w_rules kept_rules; simp)+
  show "w_keeps kept meanwhile \<Longrightarrow> w_keeps kept (server_stop ne block meanwhile)"
    unfolding server_stop_def by (intro w_rules kept_rules stop; simp)
qed

end
