(* ===== verification/Obsr_Library.thy ===== *)
theory Obsr_Library
  imports Obsr_Instance_Net Obsr_Instance_Props Obsr_Consistency
begin

text \<open>
  The library as its users see it (\<open>src/obsr.cpp\<close>): the functions of the public interface on the one
  instance of the process, together with the threads that work behind it, the looper's and the one that
  delivers events. Every run of it keeps the storage, the objects and the server well formed.
\<close>

section \<open>The instance of the process\<close>

record ('s, 'l, 'c, 'o) library =
  lib_instance :: "'c instance_state"
  lib_network :: "('s, 'l) network option"
  lib_delivery :: delivery
  lib_out :: 'o

type_synonym ('s, 'l, 'c, 'o, 'x) library_op =
  "('s, 'l, 'c, 'o) library \<Rightarrow> (exn + 'x) \<times> ('s, 'l, 'c, 'o) library"

definition library_new :: "'o \<Rightarrow> ('s, 'l, 'c, 'o) library" where
  "library_new k =
     \<lparr>lib_instance = instance_new, lib_network = None, lib_delivery = D_wait, lib_out = k\<rparr>"

text \<open>A method of the instance on its objects and entries, and one on its network.\<close>

definition on_instance :: "('c, 'x) instance_op \<Rightarrow> ('s, 'l, 'c, 'o, 'x) library_op" where
  "on_instance op lib = (case op (lib_instance lib) of (r, n) \<Rightarrow> (r, lib\<lparr>lib_instance := n\<rparr>))"

definition host_of :: "('s, 'l, 'c, 'o) library \<Rightarrow> ('s, 'l, 'c, 'o) net_host" where
  "host_of lib =
     \<lparr>nh_storage = in_storage (lib_instance lib), nh_out = lib_out lib, nh_network = lib_network lib\<rparr>"

definition on_host :: "('s, 'l, 'c, 'o, 'x) host_op \<Rightarrow> ('s, 'l, 'c, 'o, 'x) library_op" where
  "on_host op lib =
     (case op (host_of lib) of
        (r, h) \<Rightarrow>
          (r, lib\<lparr>lib_instance := (lib_instance lib)\<lparr>in_storage := nh_storage h\<rparr>,
                  lib_network := nh_network h, lib_out := nh_out h\<rparr>))"

section \<open>The public interface\<close>

definition api_time :: "milliseconds \<Rightarrow> ('s, 'l, 'c, 'o) library \<Rightarrow> milliseconds" where
  "api_time r lib = instance_time r (lib_instance lib)"

definition api_get_root :: "('s, 'l, 'c, 'o) library \<Rightarrow> handle" where
  "api_get_root lib = get_root (lib_instance lib)"

definition api_get_object :: "string \<Rightarrow> ('s, 'l, 'c, 'o, handle) library_op" where
  "api_get_object path = on_instance (get_object path)"

definition api_get_entry :: "string \<Rightarrow> ('s, 'l, 'c, 'o, handle) library_op" where
  "api_get_entry path = on_instance (get_entry path)"

definition api_get_child :: "handle \<Rightarrow> string \<Rightarrow> ('s, 'l, 'c, 'o, handle) library_op" where
  "api_get_child obj name = on_instance (get_child obj name)"

definition api_get_entry_in :: "handle \<Rightarrow> string \<Rightarrow> ('s, 'l, 'c, 'o, handle) library_op" where
  "api_get_entry_in obj name = on_instance (get_entry_in obj name)"

definition api_get_parent_for_object :: "handle \<Rightarrow> ('s, 'l, 'c, 'o) library \<Rightarrow> exn + handle" where
  "api_get_parent_for_object obj lib = get_parent_for_object obj (lib_instance lib)"

definition api_get_parent_for_entry :: "handle \<Rightarrow> ('s, 'l, 'c, 'o) library \<Rightarrow> exn + handle" where
  "api_get_parent_for_entry entry lib = get_parent_for_entry entry (lib_instance lib)"

definition api_delete_object :: "readings \<Rightarrow> handle \<Rightarrow> ('s, 'l, 'c, 'o, unit) library_op" where
  "api_delete_object tm obj = on_instance (delete_object tm obj)"

definition api_delete_entry :: "readings \<Rightarrow> handle \<Rightarrow> ('s, 'l, 'c, 'o, unit) library_op" where
  "api_delete_entry tm entry = on_instance (instance_delete_entry tm entry)"

definition api_probe :: "handle \<Rightarrow> ('s, 'l, 'c, 'o) library \<Rightarrow> u32" where
  "api_probe entry lib = instance_probe entry (lib_instance lib)"

definition api_get_value :: "handle \<Rightarrow> ('s, 'l, 'c, 'o) library \<Rightarrow> exn + obsr_value" where
  "api_get_value entry lib = get_value entry (lib_instance lib)"

definition api_set_value :: "readings \<Rightarrow> handle \<Rightarrow> obsr_value \<Rightarrow> ('s, 'l, 'c, 'o, unit) library_op" where
  "api_set_value tm entry v = on_instance (set_value tm entry v)"

definition api_clear_value :: "readings \<Rightarrow> handle \<Rightarrow> ('s, 'l, 'c, 'o, unit) library_op" where
  "api_clear_value tm entry = on_instance (clear_value tm entry)"

definition api_listen_object :: "milliseconds \<Rightarrow> handle \<Rightarrow> 'c \<Rightarrow> ('s, 'l, 'c, 'o, handle) library_op" where
  "api_listen_object r obj callback = on_instance (listen_object r obj callback)"

definition api_listen_entry :: "milliseconds \<Rightarrow> handle \<Rightarrow> 'c \<Rightarrow> ('s, 'l, 'c, 'o, handle) library_op" where
  "api_listen_entry r entry callback = on_instance (instance_listen_entry r entry callback)"

definition api_delete_listener :: "handle \<Rightarrow> ('s, 'l, 'c, 'o, unit) library_op" where
  "api_delete_listener l = on_instance (delete_listener l)"

definition api_start_server :: "('s, 'l, 'c, 'o) host_env \<Rightarrow> u16 \<Rightarrow> ('s, 'l, 'c, 'o, unit) library_op" where
  "api_start_server env bind_port = on_host (start_server env bind_port)"

definition api_start_client ::
  "('s, 'l, 'c, 'o) host_env \<Rightarrow> string \<Rightarrow> u16 \<Rightarrow> ('s, 'l, 'c, 'o, unit) library_op" where
  "api_start_client env address server_port = on_host (start_client env address server_port)"

definition api_stop_network :: "('s, 'l, 'c, 'o) host_env \<Rightarrow> ('s, 'l, 'c, 'o, unit) library_op" where
  "api_stop_network env = on_host (stop_network env)"

section \<open>The threads behind it\<close>

text \<open>
  What the looper's thread does in a turn: the update of the network, an event of the client's
  connection or of the server's listening socket, or one of the connection of a client of the server.
  The looper catches what these throw. The handling of an event that never returned would be a deadlock.
\<close>

datatype turn = Update | Event event_types | Client_event u16 event_types

fun client_turn :: "('s, 'o) net_env \<Rightarrow> turn \<Rightarrow> ('s, 'c, 'o, unit) client_op" where
  "client_turn ne Update s w = client_tick ne s w"
| "client_turn ne (Event ev) s w =
     (case io_event (client_env ne) ev s w of None \<Rightarrow> (Inl Deadlock, s, w) | Some y \<Rightarrow> y)"
| "client_turn ne (Client_event i ev) s w = (Inr (), s, w)"

fun client_turns :: "('s, 'o) net_env \<Rightarrow> turn list \<Rightarrow> ('s, 'c, 'o, unit) client_op" where
  "client_turns ne [] s w = (Inr (), s, w)"
| "client_turns ne (t # ts) s w = (case client_turn ne t s w of (r, s, w) \<Rightarrow> client_turns ne ts s w)"

fun server_turn :: "('s, 'l, 'c, 'o) host_env \<Rightarrow> turn \<Rightarrow> ('s, 'l, 'c, 'o, unit) server_op" where
  "server_turn env Update w = server_update (he_net env) (he_block env) w"
| "server_turn env (Event ev) w =
     sio_event (server_env_of (he_net env) (he_block env))
       (io_client_new (he_read env) (he_block env) (he_block env)) ev w"
| "server_turn env (Client_event i ev) w =
     (case sio_client_event (server_env_of (he_net env) (he_block env)) i ev w of
        None \<Rightarrow> (Inl Deadlock, w) | Some y \<Rightarrow> y)"

fun server_turns :: "('s, 'l, 'c, 'o) host_env \<Rightarrow> turn list \<Rightarrow> ('s, 'l, 'c, 'o, unit) server_op" where
  "server_turns env [] w = (Inr (), w)"
| "server_turns env (t # ts) w = (case server_turn env t w of (r, w) \<Rightarrow> server_turns env ts w)"

definition looper_turn :: "('s, 'l, 'c, 'o) host_env \<Rightarrow> turn \<Rightarrow> ('s, 'l, 'c, 'o, unit) host_op" where
  "looper_turn env t h =
     (case nh_network h of
        None \<Rightarrow> (Inr (), h)
      | Some n \<Rightarrow>
          (case virtual_call (client_turn (net_env.truncate (he_net env)) t) (server_turn env t) n h of
             (r, n, h) \<Rightarrow> (r, h\<lparr>nh_network := Some n\<rparr>)))"

text \<open>The environment of a call that stops the network, while the looper goes through \<open>ts\<close>.\<close>

definition meanwhile :: "turn list \<Rightarrow> ('s, 'l, 'c, 'o) host_env \<Rightarrow> ('s, 'l, 'c, 'o) host_env" where
  "meanwhile ts env =
     env\<lparr>he_client_meanwhile := client_turns (net_env.truncate (he_net env)) ts,
         he_server_meanwhile := server_turns env ts\<rparr>"

text \<open>A step of the thread that delivers the events.\<close>

definition delivery_turn :: "bool \<Rightarrow> ('s, 'l, 'c, 'o, ('c \<times> event) option) library_op" where
  "delivery_turn oob lib =
     (let n = lib_instance lib; st = in_storage n in
      case thread_step oob (st_listeners st) (lib_delivery lib) of
        (r, ls, d) \<Rightarrow>
          (r, lib\<lparr>lib_instance := n\<lparr>in_storage := st\<lparr>st_listeners := ls\<rparr>\<rparr>, lib_delivery := d\<rparr>))"

text \<open>The runs: calls of the interface, from any thread, between the steps of the two others.\<close>

inductive library_reach :: "('s, 'l, 'c, 'o) host_env \<Rightarrow> ('s, 'l, 'c, 'o) library \<Rightarrow> bool" for env where
  loaded: "library_reach env (library_new k)"
| get_object: "library_reach env lib \<Longrightarrow> library_reach env (snd (api_get_object path lib))"
| get_entry: "library_reach env lib \<Longrightarrow> library_reach env (snd (api_get_entry path lib))"
| get_child: "library_reach env lib \<Longrightarrow> library_reach env (snd (api_get_child obj name lib))"
| get_entry_in: "library_reach env lib \<Longrightarrow> library_reach env (snd (api_get_entry_in obj name lib))"
| delete_object: "library_reach env lib \<Longrightarrow> library_reach env (snd (api_delete_object tm obj lib))"
| delete_entry: "library_reach env lib \<Longrightarrow> library_reach env (snd (api_delete_entry tm entry lib))"
| set_value: "library_reach env lib \<Longrightarrow> library_reach env (snd (api_set_value tm entry v lib))"
| clear_value: "library_reach env lib \<Longrightarrow> library_reach env (snd (api_clear_value tm entry lib))"
| listen_object: "library_reach env lib \<Longrightarrow> library_reach env (snd (api_listen_object r obj cb lib))"
| listen_entry: "library_reach env lib \<Longrightarrow> library_reach env (snd (api_listen_entry r entry cb lib))"
| delete_listener: "library_reach env lib \<Longrightarrow> library_reach env (snd (api_delete_listener l lib))"
| start_server: "library_reach env lib \<Longrightarrow> library_reach env (snd (api_start_server (meanwhile ts env) port lib))"
| start_client:
    "library_reach env lib \<Longrightarrow> library_reach env (snd (api_start_client (meanwhile ts env) address port lib))"
| stop_network: "library_reach env lib \<Longrightarrow> library_reach env (snd (api_stop_network (meanwhile ts env) lib))"
| looper: "library_reach env lib \<Longrightarrow> library_reach env (snd (on_host (looper_turn env t) lib))"
| delivery: "library_reach env lib \<Longrightarrow> library_reach env (snd (delivery_turn oob lib))"
| outside: "library_reach env lib \<Longrightarrow> library_reach env (lib\<lparr>lib_out := k\<rparr>)"

section \<open>The instance\<close>

definition instance_ok :: "'c instance_state \<Rightarrow> bool" where
  "instance_ok n \<longleftrightarrow>
     storage_ok (in_storage n) \<and> ht_ok (in_objects n) \<and>
     ht_lookup (in_objects n) (in_root n) = Some \<lparr>od_name = [], od_path = []\<rparr>"

lemma instance_ok_storage:
  "instance_ok n \<Longrightarrow> storage_ok (in_storage n)"
  "instance_ok n \<Longrightarrow> storage_ok s \<Longrightarrow> instance_ok (n\<lparr>in_storage := s\<rparr>)"
  by (simp_all add: instance_ok_def)

lemma instance_new_ok: "instance_ok instance_new"
proof -
  obtain r t where a: "allocate_new \<lparr>od_name = [], od_path = []\<rparr> (ht_new object_capacity) = (r, t)"
    by (metis prod.exhaust)
  have r: "replicate object_capacity None = None # replicate 255 (None :: object_data option)"
    by (simp add: object_capacity_def numeral_eq_Suc)
  have new: "ht_ok (ht_new object_capacity :: object_data handle_table)" by (simp add: object_capacity_def)
  from a have "r = Inr 0" by (auto simp: allocate_new_def ht_new_def r find_next_available_spot_def)
  with a tab.alloc_Inr [OF new, of "\<lambda>_. \<lparr>od_name = [], od_path = []\<rparr>" 0 t]
  show ?thesis by (simp add: instance_ok_def instance_new_def allocate_new_alt)
qed

lemma get_or_create_child_ok:
  assumes "instance_ok n"
  shows "instance_ok (snd (get_or_create_child parent name n))"
proof (cases "ht_get (in_objects n) parent")
  case (Inr pd)
  let ?path = "join_path (od_path pd) name"
  show ?thesis
  proof (cases "in_object_paths n ?path")
    case None
    let ?d = "\<lparr>od_name = name, od_path = ?path\<rparr>"
    have t: "ht_ok (in_objects n)" using assms by (simp add: instance_ok_def)
    obtain r t' where a: "allocate_new_with_handle (\<lambda>_. ?d) (in_objects n) = (r, t')" by fastforce
    show ?thesis
    proof (cases r)
      case (Inl e)
      with a tab.alloc_Inl [OF t, of "\<lambda>_. ?d" e t'] Inr None assms show ?thesis
        by (simp add: get_or_create_child_def Let_def allocate_new_alt instance_ok_def)
    next
      case (Inr h)
      from a tab.alloc_Inr [OF t, of "\<lambda>_. ?d" h t'] Inr
      have "ht_lookup (in_objects n) h = None" "ht_ok t'" "ht_lookup t' = (ht_lookup (in_objects n))(h \<mapsto> ?d)"
        by auto
      with a Inr \<open>ht_get (in_objects n) parent = Inr pd\<close> None assms show ?thesis
        by (auto simp: get_or_create_child_def Let_def allocate_new_alt instance_ok_def)
    qed
  qed (use Inr assms in \<open>simp add: get_or_create_child_def Let_def\<close>)
qed (use assms in \<open>simp add: get_or_create_child_def\<close>)

lemma create_objects_ok: "instance_ok n \<Longrightarrow> instance_ok (snd (create_objects path pos current n))"
proof (induction path pos current n rule: create_objects.induct)
  case (1 path pos current n)
  show ?case
  proof (cases "find_from slash path (pos + 1)")
    case None
    then show ?thesis
      using 1(2) get_or_create_child_ok [OF 1(2)]
      by (simp add: create_objects.simps [of path pos current n] split: sum.split)
  next
    case (Some index)
    show ?thesis
    proof (cases "substr path (pos + 1) (index - pos - 1)")
      case (Inl e)
      with Some 1(2) show ?thesis by (simp add: create_objects.simps [of path pos current n])
    next
      case (Inr name)
      obtain r n1 where c: "get_or_create_child current name n = (r, n1)" by fastforce
      have ok: "instance_ok n1" using get_or_create_child_ok [OF 1(2), of current name] c by simp
      show ?thesis
        using Some Inr c ok 1(1) [OF Some Inr c [symmetric]]
        by (cases r) (auto simp: create_objects.simps [of path pos current n])
    qed
  qed
qed

lemma on_storage_ok:
  "instance_ok n \<Longrightarrow> (\<And>s. storage_ok s \<Longrightarrow> storage_ok (snd (op s))) \<Longrightarrow> instance_ok (snd (on_storage op n))"
  by (auto simp: on_storage_def instance_ok_storage split: prod.split) (metis instance_ok_storage snd_conv)

lemma release_object_ok:
  assumes n: "instance_ok n" and "obj \<noteq> in_root n"
  shows "instance_ok (n\<lparr>in_objects := snd (ht_release obj (in_objects n))\<rparr>)"
proof -
  have t: "ht_ok (in_objects n)" using n by (simp add: instance_ok_def)
  show ?thesis
    using assms tab.release_Some [OF t, of obj] tab.release_None [OF t, of obj] release_ok [OF t, of obj]
    by (cases "ht_lookup (in_objects n) obj") (auto simp: instance_ok_def)
qed

lemma instance_ops_ok:
  assumes "instance_ok n"
  shows "instance_ok (snd (get_object path n))"
    and "instance_ok (snd (get_child obj name n))"
    and "instance_ok (snd (get_entry path n))"
    and "instance_ok (snd (get_entry_in obj name n))"
    and "instance_ok (snd (delete_object tm obj n))"
    and "instance_ok (snd (instance_delete_entry tm entry n))"
    and "instance_ok (snd (set_value tm entry v n))"
    and "instance_ok (snd (clear_value tm entry n))"
    and "instance_ok (snd (listen_object r obj cb n))"
    and "instance_ok (snd (instance_listen_entry r entry cb n))"
    and "instance_ok (snd (delete_listener l n))"
proof -
  show "instance_ok (snd (get_object path n))"
    using assms create_objects_ok [OF assms] by (simp add: get_object_def get_or_create_object_def)
  show "instance_ok (snd (get_child obj name n))"
    using assms get_or_create_child_ok [OF assms] by (simp add: get_child_def split: sum.split)
  show "instance_ok (snd (get_entry path n))"
  proof (cases "get_parent_path path")
    case (Some ppath)
    obtain r n1 where c: "get_or_create_object ppath n = (r, n1)" by fastforce
    then have "instance_ok n1" using create_objects_ok [OF assms] by (metis get_or_create_object_def snd_conv)
    with Some c show ?thesis by (cases r) (auto simp: get_entry_def intro!: on_storage_ok storage_op_ok)
  qed (use assms in \<open>simp add: get_entry_def\<close>)
  show "instance_ok (snd (get_entry_in obj name n))"
    using assms by (auto simp: get_entry_in_def intro!: on_storage_ok storage_op_ok split: sum.split)
  show "instance_ok (snd (delete_object tm obj n))"
  proof (cases "obj = in_root n")
    case False
    show ?thesis
    proof (cases "ht_get (in_objects n) obj")
      case (Inr d)
      obtain r n1 where c: "on_storage (delete_entries tm (od_path d)) n = (r, n1)" by fastforce
      then have n1: "instance_ok n1" "in_root n1 = in_root n"
        using on_storage_ok [OF assms, of "delete_entries tm (od_path d)"] storage_op_ok(3)
        by (auto simp: on_storage_def split: prod.splits)
      show ?thesis
        using c Inr False n1 release_object_ok [OF n1(1), of obj]
        by (cases r; cases "ht_release obj (in_objects n1)"; cases "fst (ht_release obj (in_objects n1))")
           (auto simp: delete_object_def)
    qed (use assms False in \<open>simp add: delete_object_def\<close>)
  qed (use assms in \<open>simp add: delete_object_def\<close>)
qed (use assms in \<open>auto simp: instance_delete_entry_def set_value_def clear_value_def listen_object_def
      instance_listen_entry_def delete_listener_def intro!: on_storage_ok storage_op_ok split: sum.split\<close>)

section \<open>The network\<close>

fun network_ok :: "('s, 'l) network \<Rightarrow> bool" where
  "network_ok (nw_client io n) = True"
| "network_ok (nw_server io n) = server_ok n"

definition host_ok :: "('s, 'l, 'c, 'o) net_host \<Rightarrow> bool" where
  "host_ok h \<longleftrightarrow> storage_ok (nh_storage h) \<and> (\<forall>n. nh_network h = Some n \<longrightarrow> network_ok n)"

lemma virtual_call_ok:
  assumes "io_to stored cop stored" "w_keeps kept sop" "network_ok n" "host_ok h"
    and "virtual_call cop sop n h = (r, n', h')"
  shows "network_ok n' \<and> host_ok h'"
proof (cases n)
  case (nw_client io c)
  let ?w = "\<lparr>cw_client = c, cw_storage = nh_storage h, cw_out = nh_out h\<rparr>"
  obtain r1 io1 w1 where 1: "cop io ?w = (r1, io1, w1)" by (metis prod_cases3)
  have "stored ?w" using assms(4) by (simp add: host_ok_def stored_def)
  from io_toD [OF assms(1) this 1] assms(4,5) nw_client 1 show ?thesis
    by (auto simp: host_ok_def stored_def)
next
  case (nw_server io c)
  let ?w = "\<lparr>iw_io = io, sw_server = c, sw_storage = nh_storage h, sw_out = nh_out h\<rparr>"
  obtain r1 w1 where 1: "sop ?w = (r1, w1)" by fastforce
  have "kept ?w" using assms(3,4) nw_server by (simp add: host_ok_def kept_def)
  from w_keepsD [OF assms(2) this 1] assms(4,5) nw_server 1 show ?thesis
    by (auto simp: host_ok_def kept_def)
qed

lemma client_turn_ok: "stored w \<Longrightarrow> stored (snd (snd (client_turn ne t s w)))"
proof (cases t)
  case (Event ev)
  assume "stored w"
  with Event client_run.io_event_to [of ne ev s w] show ?thesis by (auto split: option.split)
qed (simp_all add: io_to_def [THEN iffD1, OF client_ops_stored(5), rule_format])

lemma client_turns_ok: "stored w \<Longrightarrow> stored (snd (snd (client_turns ne ts s w)))"
proof (induction ts arbitrary: s w)
  case (Cons t ts)
  obtain r s1 w1 where "client_turn ne t s w = (r, s1, w1)" by (metis prod_cases3)
  with Cons client_turn_ok [OF Cons.prems, of ne t s] show ?case by simp
qed simp

lemma server_turn_ok: "kept w \<Longrightarrow> kept (snd (server_turn env t w))"
proof (cases t)
  case (Client_event i ev)
  assume "kept w"
  with Client_event server_run.sio_client_event_keeps [of _ _ i ev w] show ?thesis
    by (auto split: option.split)
qed (simp_all add: w_keeps_snd [OF server_ops_kept(5)] w_keeps_snd [OF server_run.sio_event_keeps])

lemma server_turns_ok: "kept w \<Longrightarrow> kept (snd (server_turns env ts w))"
proof (induction ts arbitrary: w)
  case (Cons t ts)
  obtain r w1 where "server_turn env t w = (r, w1)" by fastforce
  with Cons server_turn_ok [OF Cons.prems, of env t] show ?case by simp
qed simp

text \<open>The operations of the instance on its network.\<close>

lemma turns_keep:
  "io_to stored (client_turn ne t) stored" "io_to stored (client_turns ne ts) stored"
  "w_keeps kept (server_turn env t)" "w_keeps kept (server_turns env ts)"
  by (simp_all add: io_to_def w_keeps_def client_turn_ok client_turns_ok server_turn_ok server_turns_ok)

lemma network_calls_ok:
  assumes "network_ok n" "host_ok h"
  shows "ni_attach_storage n h = (r, n', h') \<Longrightarrow> network_ok n' \<and> host_ok h'"
    and "ni_start env n h = (r, n', h') \<Longrightarrow> network_ok n' \<and> host_ok h'"
    and "ni_stop (meanwhile ts env) n h = (r, n', h') \<Longrightarrow> network_ok n' \<and> host_ok h'"
    and "virtual_call (\<lambda>io w. (Inl e, io, w)) (configure_bind port) n h = (r, n', h') \<Longrightarrow> network_ok n' \<and> host_ok h'"
    and "virtual_call (configure_target info) (\<lambda>w. (Inl e, w)) n h = (r, n', h') \<Longrightarrow> network_ok n' \<and> host_ok h'"
    and "virtual_call (client_turn ne t) (server_turn env t) n h = (r, n', h') \<Longrightarrow> network_ok n' \<and> host_ok h'"
proof -
  note call = virtual_call_ok [OF _ _ assms]
  show "ni_attach_storage n h = (r, n', h') \<Longrightarrow> network_ok n' \<and> host_ok h'"
    "ni_start env n h = (r, n', h') \<Longrightarrow> network_ok n' \<and> host_ok h'"
    "ni_stop (meanwhile ts env) n h = (r, n', h') \<Longrightarrow> network_ok n' \<and> host_ok h'"
    unfolding ni_attach_storage_def ni_start_def ni_stop_def
    by (rule call; simp add: client_ops_stored server_ops_kept turns_keep meanwhile_def)+
  show "virtual_call (\<lambda>io w. (Inl e, io, w)) (configure_bind port) n h = (r, n', h') \<Longrightarrow> network_ok n' \<and> host_ok h'"
    "virtual_call (configure_target info) (\<lambda>w. (Inl e, w)) n h = (r, n', h') \<Longrightarrow> network_ok n' \<and> host_ok h'"
    "virtual_call (client_turn ne t) (server_turn env t) n h = (r, n', h') \<Longrightarrow> network_ok n' \<and> host_ok h'"
    by (rule call; simp add: client_ops_stored server_ops_kept turns_keep to_done w_keeps_done)+
qed

lemma start_network_ok:
  assumes "\<And>h r n' h'. host_ok h \<Longrightarrow> configure n h = (r, n', h') \<Longrightarrow> network_ok n' \<and> host_ok h'" "host_ok h"
  shows "host_ok (snd (start_network (meanwhile ts env) n configure h))"
proof -
  let ?env = "meanwhile ts env"
  have started: "network_ok n' \<and> host_ok h'"
    if "start_net ?env n h = (r, n', h')" "network_ok n" "host_ok h" for n h r n' h'
  proof -
    obtain r1 n1 h1 where 1: "ni_attach_storage n h = (r1, n1, h1)" by (metis prod_cases3)
    note ok1 = network_calls_ok(1) [OF that(2,3) 1]
    show ?thesis
    proof (cases r1)
      case (Inl e)
      with ok1 1 that(1) show ?thesis by (auto simp: start_net_def)
    next
      case (Inr u)
      with 1 that(1) have "ni_start ?env n1 h1 = (r, n', h')" by (simp add: start_net_def)
      with network_calls_ok(2) [OF conjunct1 [OF ok1] conjunct2 [OF ok1]] show ?thesis .
    qed
  qed
  obtain r1 n1 h1 where 1: "configure n h = (r1, n1, h1)" by (metis prod_cases3)
  note ok1 = assms(1) [OF assms(2) 1]
  obtain r2 n2 h2 where 2: "(case configure n h of (Inl e, n, h) \<Rightarrow> (Inl e, n, h)
      | (Inr _, n, h) \<Rightarrow> start_net ?env n h) = (r2, n2, h2)" by (rule prod_cases3)
  have ok2: "network_ok n2 \<and> host_ok h2"
    using ok1 started [OF _ conjunct1 [OF ok1] conjunct2 [OF ok1]] 2 unfolding 1 by (cases r1) auto
  obtain r3 n3 h3 where 3: "ni_stop ?env n2 h2 = (r3, n3, h3)" by (metis prod_cases3)
  have h3: "host_ok h3" using network_calls_ok(3) [OF conjunct1 [OF ok2] conjunct2 [OF ok2] 3] by (rule conjunct2)
  have "host_ok (h2\<lparr>nh_network := Some n2\<rparr>)" using ok2 by (simp add: host_ok_def)
  with assms(2) ok2 h3 show ?thesis
    unfolding start_network_def 2
    by (cases r2; cases r3; cases "network_destroy n3") (auto simp: stop_net_def 3 destroyed_def)
qed

lemma host_ops_ok:
  assumes "host_ok h"
  shows "host_ok (snd (start_server (meanwhile ts env) port h))"
    and "host_ok (snd (start_client (meanwhile ts env) address port h))"
    and "host_ok (snd (stop_network (meanwhile ts env) h))"
    and "host_ok (snd (looper_turn env t h))"
proof -
  have new: "network_ok (nw_server io (net_server_new parse))" for io parse
    by (simp add: net_server_new_def server_ok_def)
  show "host_ok (snd (start_server (meanwhile ts env) port h))"
    unfolding start_server_def by (rule start_network_ok [OF network_calls_ok(4) [OF new] assms])
  show "host_ok (snd (start_client (meanwhile ts env) address port h))"
    unfolding start_client_def
    by (rule start_network_ok [OF network_calls_ok(5) [OF network_ok.simps(1) [THEN iffD2, OF TrueI]] assms])
  show "host_ok (snd (stop_network (meanwhile ts env) h))"
  proof (cases "nh_network h")
    case (Some n)
    obtain r n' h' where 1: "ni_stop (meanwhile ts env) n h = (r, n', h')" by (metis prod_cases3)
    have "network_ok n' \<and> host_ok h'" using network_calls_ok(3) [OF _ assms 1] Some assms by (simp add: host_ok_def)
    with Some 1 show ?thesis
      by (cases r; cases "network_destroy n'") (auto simp: stop_network_def stop_net_def host_ok_def destroyed_def)
  qed (use assms in \<open>simp add: stop_network_def\<close>)
  show "host_ok (snd (looper_turn env t h))"
  proof (cases "nh_network h")
    case (Some n)
    obtain r n' h' where 1: "virtual_call (client_turn (net_env.truncate (he_net env)) t) (server_turn env t) n h =
        (r, n', h')" by (metis prod_cases3)
    have "network_ok n' \<and> host_ok h'" using network_calls_ok(6) [OF _ assms 1] Some assms by (simp add: host_ok_def)
    with Some 1 show ?thesis by (simp add: looper_turn_def host_ok_def)
  qed (use assms in \<open>simp add: looper_turn_def\<close>)
qed

section \<open>Every run is consistent\<close>

definition library_ok :: "('s, 'l, 'c, 'o) library \<Rightarrow> bool" where
  "library_ok lib \<longleftrightarrow>
     instance_ok (lib_instance lib) \<and> (\<forall>n. lib_network lib = Some n \<longrightarrow> network_ok n)"

lemma on_instance_ok:
  "library_ok lib \<Longrightarrow> instance_ok (snd (op (lib_instance lib))) \<Longrightarrow> library_ok (snd (on_instance op lib))"
  by (cases "op (lib_instance lib)") (simp add: library_ok_def on_instance_def)

lemma library_okD: "library_ok lib \<Longrightarrow> instance_ok (lib_instance lib)"
  by (simp add: library_ok_def)

lemma on_host_ok:
  assumes "library_ok lib" "\<And>h. host_ok h \<Longrightarrow> host_ok (snd (op h))"
  shows "library_ok (snd (on_host op lib))"
proof -
  have "host_ok (host_of lib)" using assms(1) by (simp add: library_ok_def host_ok_def host_of_def instance_ok_def)
  from assms(2) [OF this] assms(1) show ?thesis
    by (auto simp: library_ok_def host_ok_def on_host_def instance_ok_storage(2) split: prod.split)
qed

lemma delivery_turn_ok:
  assumes "library_ok lib"
  shows "library_ok (snd (delivery_turn oob lib))"
proof -
  let ?st = "in_storage (lib_instance lib)"
  obtain r ls d where 1: "thread_step oob (st_listeners ?st) (lib_delivery lib) = (r, ls, d)" by (metis prod_cases3)
  have st: "storage_ok ?st" using assms by (simp add: library_ok_def instance_ok_def)
  from listeners_ok [OF st thread_step_ok [OF 1 storage_okD(2) [OF st]]] assms 1 show ?thesis
    by (simp add: delivery_turn_def Let_def library_ok_def instance_ok_storage(2))
qed

lemma library_reach_ok: "library_reach env lib \<Longrightarrow> library_ok lib"
proof (induction rule: library_reach.induct)
  case (loaded k)
  show ?case by (simp add: library_ok_def library_new_def instance_new_ok)
next
  case (outside lib k)
  then show ?case by (simp add: library_ok_def)
qed (auto simp: api_get_object_def api_get_entry_def api_get_child_def api_get_entry_in_def api_delete_object_def
    api_delete_entry_def api_set_value_def api_clear_value_def api_listen_object_def api_listen_entry_def
    api_delete_listener_def api_start_server_def api_start_client_def api_stop_network_def
    intro!: on_instance_ok on_host_ok host_ops_ok delivery_turn_ok instance_ops_ok dest: library_okD)

text \<open>
  C9 In every run of the library, whatever functions of its interface the user's threads call and with which
  arguments, whatever the looper's thread and the thread that delivers events do in between, whatever the
  network brings, and whether calls return or throw: the storage is well formed, the table of the objects
  too, the root can still be found and has the empty path, and a server has every client and every
  identifier once.
\<close>

theorem library_stays_consistent:
  assumes "library_reach env lib"
  shows "storage_ok (in_storage (lib_instance lib)) \<and>
     ht_ok (in_objects (lib_instance lib)) \<and>
     ht_get (in_objects (lib_instance lib)) (api_get_root lib) = Inr \<lparr>od_name = [], od_path = []\<rparr> \<and>
     (\<forall>io n. lib_network lib = Some (nw_server io n) \<longrightarrow>
        sorted_wrt (<) (map fst (ns_clients n)) \<and> sorted_wrt (<) (map fst (ns_ids n)))"
  using library_reach_ok [OF assms]
  by (auto simp: library_ok_def instance_ok_def api_get_root_def get_root_def ht_get_lookup server_ok_def keyed_def)

theorem library_stays_consistent_witness:
  "\<exists>lib io n. library_reach sample_host_env lib \<and> lib_network lib = Some (nw_client io n) \<and>
     storage_ok (in_storage (lib_instance lib)) \<and>
     ht_get (in_objects (lib_instance lib)) (api_get_root lib) = Inr \<lparr>od_name = [], od_path = []\<rparr>"
proof -
  let ?env = "meanwhile [] sample_host_env"
  let ?lib = "snd (api_get_entry_in 0 ''x'' (library_new ()))"
  have "library_reach sample_host_env ?lib" by (intro library_reach.get_entry_in library_reach.loaded)
  from library_reach.start_client [OF this, of "[]" "''10.0.0.2''" 5000]
  have r: "library_reach sample_host_env (snd (api_start_client ?env ''10.0.0.2'' 5000 ?lib))" .
  have "nh_network (host_of ?lib) = None"
    by (simp add: host_of_def api_get_entry_in_def on_instance_def library_new_def split: prod.split)
  then have "start_client ?env ''10.0.0.2'' 5000 (host_of ?lib) =
      (Inr (), started_client ?env ''10.0.0.2'' 5000 0 () (host_of ?lib))"
    by (intro start_client_starts) (simp_all add: meanwhile_def sample_host_env_def sample_network_def)
  then have "\<exists>io n. lib_network (snd (api_start_client ?env ''10.0.0.2'' 5000 ?lib)) = Some (nw_client io n)"
    by (simp add: api_start_client_def on_host_def started_client_def)
  with r library_stays_consistent [OF r] show ?thesis by blast
qed

end
