(* ===== verification/Obsr_Print.thy ===== *)
theory Obsr_Print
  imports Obsr_Types
begin

text \<open>
  The output operators of \<open>src/obsr.cpp\<close>: values, their types, and events on a standard output stream. Of the
  stream's state they change the base in which integers are written, and they do not change it back.
\<close>

section \<open>The stream\<close>

text \<open>
  What has been written, and the base: decimal, or hexadecimal after \<open>std::hex\<close>. Width and fill are the
  initial ones. How the standard library writes a floating point number, given by its bits, and the address
  of a block of bytes are parameters.
\<close>

record out_stream =
  os_text :: string
  os_hex :: bool

record print_env =
  pe_float :: "u32 \<Rightarrow> string"
  pe_double :: "u64 \<Rightarrow> string"
  pe_address :: "obsr_value \<Rightarrow> u64"

type_synonym print_op = "out_stream \<Rightarrow> (exn + unit) \<times> out_stream"

definition digit :: "nat \<Rightarrow> char" where
  "digit d = ''0123456789abcdef'' ! (d mod 16)"

fun number :: "nat \<Rightarrow> nat \<Rightarrow> string" where
  "number base n =
     (if base < 2 \<or> n < base then [digit n] else number base (n div base) @ [digit (n mod base)])"

declare number.simps [simp del]

definition put_text :: "string \<Rightarrow> out_stream \<Rightarrow> out_stream" where
  "put_text t os = os\<lparr>os_text := os_text os @ t\<rparr>"

definition set_hex :: "out_stream \<Rightarrow> out_stream" where
  "set_hex os = os\<lparr>os_hex := True\<rparr>"

text \<open>An unsigned integer; a signed one, which in hexadecimal is written as the unsigned one of its bits.\<close>

definition put_unsigned :: "nat \<Rightarrow> out_stream \<Rightarrow> out_stream" where
  "put_unsigned n os = put_text (number (if os_hex os then 16 else 10) n) os"

definition put_signed :: "'a :: len word \<Rightarrow> out_stream \<Rightarrow> out_stream" where
  "put_signed x os =
     (if os_hex os then put_unsigned (unat x) os
      else if sint x < 0 then put_unsigned (nat (- sint x)) (put_text ''-'' os)
      else put_unsigned (nat (sint x)) os)"

section \<open>The operators\<close>

fun put_elements :: "('a \<Rightarrow> out_stream \<Rightarrow> out_stream) \<Rightarrow> nat \<Rightarrow> 'a list \<Rightarrow> out_stream \<Rightarrow> out_stream" where
  "put_elements put i [] os = os"
| "put_elements put i (x # xs) os =
     put_elements put (i + 1) xs (put x (if i > 0 then put_text '','' os else os))"

definition put_span :: "('a \<Rightarrow> out_stream \<Rightarrow> out_stream) \<Rightarrow> 'a list \<Rightarrow> out_stream \<Rightarrow> out_stream" where
  "put_span put xs os = put_text '']'' (put_elements put 0 xs (put_text ''['' os))"

definition put_value_type :: "value_type \<Rightarrow> out_stream \<Rightarrow> out_stream" where
  "put_value_type t =
     put_text (case t of
        vt_empty \<Rightarrow> ''empty''
      | vt_raw \<Rightarrow> ''raw''
      | vt_string \<Rightarrow> ''string''
      | vt_boolean \<Rightarrow> ''bool''
      | vt_integer32 \<Rightarrow> ''int32''
      | vt_integer64 \<Rightarrow> ''int64''
      | vt_floating_point32 \<Rightarrow> ''float''
      | vt_floating_point64 \<Rightarrow> ''double''
      | vt_integer32_array \<Rightarrow> ''int32_arr''
      | vt_integer64_array \<Rightarrow> ''int64_arr''
      | vt_floating_point32_array \<Rightarrow> ''float_arr''
      | vt_floating_point64_array \<Rightarrow> ''double_arr'')"

text \<open>What a getter gives, written; its exception leaves the operator.\<close>

definition put_got :: "exn + 'x \<Rightarrow> ('x \<Rightarrow> out_stream \<Rightarrow> out_stream) \<Rightarrow> print_op" where
  "put_got r put os = (case r of Inl e \<Rightarrow> (Inl e, os) | Inr x \<Rightarrow> (Inr (), put x os))"

definition put_raw :: "u64 \<Rightarrow> bytes \<Rightarrow> out_stream \<Rightarrow> out_stream" where
  "put_raw address bs os =
     put_text '')'' (put_unsigned (length bs) (put_text '', size='' (put_unsigned (unat address)
       (set_hex (put_text ''raw(ptr=0x'' os)))))"

definition put_value :: "print_env \<Rightarrow> obsr_value \<Rightarrow> print_op" where
  "put_value env v =
     (case value_get_type v of
        vt_empty \<Rightarrow> (\<lambda>os. (Inr (), os))
      | vt_raw \<Rightarrow> put_got (get_raw v) (put_raw (pe_address env v))
      | vt_string \<Rightarrow> put_got (get_string v) put_text
      | vt_boolean \<Rightarrow> put_got (get_boolean v) (\<lambda>b. put_text (if b then ''True'' else ''False''))
      | vt_integer32 \<Rightarrow> put_got (get_int32 v) put_signed
      | vt_integer64 \<Rightarrow> put_got (get_int64 v) put_signed
      | vt_floating_point32 \<Rightarrow> put_got (get_float v) (\<lambda>x. put_text (pe_float env x))
      | vt_floating_point64 \<Rightarrow> put_got (get_double v) (\<lambda>x. put_text (pe_double env x))
      | vt_integer32_array \<Rightarrow> put_got (get_int32_array v) (put_span put_signed)
      | vt_integer64_array \<Rightarrow> put_got (get_int64_array v) (put_span put_signed)
      | vt_floating_point32_array \<Rightarrow>
          put_got (get_float_array v) (put_span (\<lambda>x. put_text (pe_float env x)))
      | vt_floating_point64_array \<Rightarrow>
          put_got (get_double_array v) (put_span (\<lambda>x. put_text (pe_double env x))))"

definition put_event_type :: "event_type \<Rightarrow> out_stream \<Rightarrow> out_stream" where
  "put_event_type t =
     put_text (case t of
        ev_created \<Rightarrow> ''created''
      | ev_deleted \<Rightarrow> ''deleted''
      | ev_value_changed \<Rightarrow> ''value_changed'')"

definition put_event :: "event \<Rightarrow> out_stream \<Rightarrow> out_stream" where
  "put_event e os =
     put_text (ev_path e) (put_text '', path='' (put_signed (word_of_int (ev_timestamp e) :: u64)
       (put_text '', at='' (put_event_type (ev_type e) (put_text ''event type='' os)))))"

section \<open>Reading what was written\<close>

definition digit_value :: "char \<Rightarrow> nat" where
  "digit_value c = (let n = of_char c in if n < 58 then n - 48 else n - 87)"

definition number_value :: "nat \<Rightarrow> string \<Rightarrow> nat" where
  "number_value base = foldl (\<lambda>n c. n * base + digit_value c) 0"

definition read_signed :: "string \<Rightarrow> int" where
  "read_signed t =
     (case t of
        c # cs \<Rightarrow> (if c = CHR ''-'' then - int (number_value 10 cs) else int (number_value 10 t))
      | [] \<Rightarrow> 0)"

lemma digit_value_digit: "d < 16 \<Longrightarrow> digit_value (digit d) = d"
proof -
  have "\<forall>d\<in>set [0..<16]. digit_value (digit d) = d" by code_simp
  then show "d < 16 \<Longrightarrow> digit_value (digit d) = d" by simp
qed

lemma number_value_number: "2 \<le> base \<Longrightarrow> base \<le> 16 \<Longrightarrow> number_value base (number base n) = n"
proof (induction base n rule: number.induct)
  case (1 base n)
  show ?case
  proof (cases "n < base")
    case True
    with 1 show ?thesis by (simp add: number.simps [of base n] number_value_def digit_value_digit)
  next
    case False
    moreover have "n mod base < base" using 1(2) by simp
    then have "n mod base < 16" using 1(3) by linarith
    ultimately show ?thesis
      using 1 by (simp add: number.simps [of base n] number_value_def digit_value_digit)
  qed
qed

lemma number_not_minus: "2 \<le> base \<Longrightarrow> \<exists>c cs. number base n = c # cs \<and> c \<noteq> CHR ''-''"
proof (induction base n rule: number.induct)
  case (1 base n)
  have d: "digit n \<noteq> CHR ''-''" for n
  proof -
    have "\<forall>d\<in>set [0..<16]. digit d \<noteq> CHR ''-''" by code_simp
    then have "digit (n mod 16) \<noteq> CHR ''-''" by simp
    then show ?thesis by (simp add: digit_def)
  qed
  show ?case using 1 d by (cases "n < base") (auto simp: number.simps [of base n])
qed

section \<open>Properties\<close>

lemma put_text_put_text: "put_text t (put_text u os) = put_text (u @ t) os"
  by (simp add: put_text_def)

lemma os_hex_put_text [simp]: "os_hex (put_text t os) = os_hex os"
  by (simp add: put_text_def)

lemma checked_type: "checked t v r = Inr x \<Longrightarrow> v_type v = t \<and> r = Inr x"
  by (auto simp: checked_def split: if_splits)

text \<open>
  An integer value that is written to a stream in its initial, decimal state appends a text that reads as
  that integer again, the smallest integers included, whose absolute value has no signed representation.
\<close>

theorem printed_integer_reads_back:
  assumes "get_int32 v = Inr x" and "get_int64 w = Inr y" and "\<not> os_hex os"
  shows "\<exists>t u. put_value env v os = (Inr (), put_text t os) \<and> read_signed t = sint x \<and>
     put_value env w os = (Inr (), put_text u os) \<and> read_signed u = sint y"
proof -
  have signed: "\<exists>t. put_signed x os = put_text t os \<and> read_signed t = sint x" for x :: "'a :: len word"
  proof (cases "sint x < 0")
    case True
    with assms(3) show ?thesis
      by (intro exI [of _ "CHR ''-'' # number 10 (nat (- sint x))"])
        (simp add: put_signed_def put_unsigned_def put_text_put_text read_signed_def number_value_number)
  next
    case False
    from number_not_minus [of 10 "nat (sint x)"] obtain c cs where
      "number 10 (nat (sint x)) = c # cs" "c \<noteq> CHR ''-''" by auto
    with False assms(3) number_value_number [of 10 "nat (sint x)"] show ?thesis
      by (intro exI [of _ "number 10 (nat (sint x))"]) (simp add: put_signed_def put_unsigned_def read_signed_def)
  qed
  from assms(1,2) have "v_type v = vt_integer32" "v_type w = vt_integer64"
    by (simp_all add: get_int32_def get_int64_def checked_type)
  with signed [of x] signed [of y] assms(1,2) show ?thesis
    by (auto simp: put_value_def value_get_type_def put_got_def)
qed


text \<open>Sixteen bytes, then the number ten.\<close>

definition sixteen_bytes :: obsr_value where
  "sixteen_bytes = (case make_raw (replicate 16 7) of Inr v \<Rightarrow> v | Inl e \<Rightarrow> value_make)"


end
