(* ===== verification/Obsr_Os_Signal.thy ===== *)
theory Obsr_Os_Signal
  imports Obsr_Os_Socket
begin

text \<open>
  The signal that wakes the looper (\<open>src/os/signal.h\<close>, \<open>src/os/signal.cpp\<close>, behind the interface of
  \<open>src/events/signal.h\<close>): a descriptor of the kernel's event counters, which are a parameter. It implements the
  flag that the model of the looper keeps.
\<close>

section \<open>The signal\<close>

text \<open>Writing adds to the counter, or fails when it would overflow; reading resets it, or fails at zero.\<close>

record 'o eventfd_calls =
  ec_create :: "nat \<Rightarrow> 'o \<Rightarrow> (int + int) \<times> 'o"
  ec_write :: "int \<Rightarrow> nat \<Rightarrow> 'o \<Rightarrow> (int + unit) \<times> 'o"
  ec_read :: "int \<Rightarrow> 'o \<Rightarrow> (int + u64) \<times> 'o"

definition signal_new :: "'o eventfd_calls \<Rightarrow> 'o \<Rightarrow> (exn + int) \<times> 'o" where
  "signal_new calls w =
     (case ec_create calls 0 w of
        (Inl code, w) \<Rightarrow> (Inl (Io_exception code), w)
      | (Inr fd, w) \<Rightarrow> (Inr fd, w))"

text \<open>The results of the calls are not looked at.\<close>

definition signal_set :: "'o eventfd_calls \<Rightarrow> int \<Rightarrow> 'o \<Rightarrow> 'o" where
  "signal_set calls fd w = snd (ec_write calls fd 1 w)"

definition signal_clear :: "'o eventfd_calls \<Rightarrow> int \<Rightarrow> 'o \<Rightarrow> 'o" where
  "signal_clear calls fd w = snd (ec_read calls fd w)"

section \<open>It is a flag\<close>

text \<open>
  What the manual of the kernel says of the calls, with \<open>counter\<close> the value behind a descriptor: a write
  of one that does not fit leaves the counter, at its largest value, as it is.
\<close>

definition eventfd_manual :: "'o eventfd_calls \<Rightarrow> (int \<Rightarrow> 'o \<Rightarrow> nat) \<Rightarrow> bool" where
  "eventfd_manual calls counter \<longleftrightarrow>
     (\<forall>n fd w w'. ec_create calls n w = (Inr fd, w') \<longrightarrow> counter fd w' = n) \<and>
     (\<forall>fd n w. counter fd (snd (ec_write calls fd n w)) =
        (if counter fd w + n < 2 ^ 64 - 1 then counter fd w + n else counter fd w)) \<and>
     (\<forall>fd w. counter fd (snd (ec_read calls fd w)) = 0)"

datatype signal_use = Set_signal | Clear_signal

fun use_signal :: "'o eventfd_calls \<Rightarrow> int \<Rightarrow> signal_use \<Rightarrow> 'o \<Rightarrow> 'o" where
  "use_signal calls fd Set_signal w = signal_set calls fd w"
| "use_signal calls fd Clear_signal w = signal_clear calls fd w"

definition use_flag :: "signal_use \<Rightarrow> bool \<Rightarrow> bool" where
  "use_flag u b = (u = Set_signal)"

text \<open>
  A new signal is not readable, and after any uses it is readable if and only if the flag is set, however
  often it has been set.
\<close>

lemma signal_is_a_flag:
  assumes "eventfd_manual calls counter" and "signal_new calls w = (Inr fd, w')"
  shows "counter fd w' = 0 \<and> (0 < counter fd (fold (use_signal calls fd) us w') \<longleftrightarrow> fold use_flag us False)"
proof -
  have new: "counter fd w' = 0"
    using assms by (auto simp: eventfd_manual_def signal_new_def split: prod.splits sum.splits)
  have step: "0 < counter fd (use_signal calls fd u w) \<longleftrightarrow> use_flag u (0 < counter fd w)" for u w
    using assms(1) by (cases u) (auto simp: eventfd_manual_def signal_set_def signal_clear_def use_flag_def)
  have "0 < counter fd (fold (use_signal calls fd) us w) \<longleftrightarrow> fold use_flag us (0 < counter fd w)" for w
    by (induction us arbitrary: w) (simp_all add: step)
  with new show ?thesis by simp
qed

text \<open>One counter for every descriptor.\<close>

definition counters :: "(int \<Rightarrow> nat) eventfd_calls" where
  "counters =
     \<lparr>ec_create = (\<lambda>n w. (Inr 3, w(3 := n))),
      ec_write = (\<lambda>fd n w. if w fd + n < 2 ^ 64 - 1 then (Inr (), w(fd := w fd + n)) else (Inl eagain, w)),
      ec_read = (\<lambda>fd w. if w fd = 0 then (Inl eagain, w) else (Inr (of_nat (w fd)), w(fd := 0)))\<rparr>"

lemma counters_manual: "eventfd_manual counters (\<lambda>fd w. w fd)"
  by (simp add: eventfd_manual_def counters_def)

end
