(* ===== verification/Obsr_Poll.thy ===== *)
theory Obsr_Poll
  imports Obsr_Looper
begin

text \<open>
  The events of a poll as the code keeps them (\<open>polled_events\<close> and \<open>event_data\<close> in \<open>src/events/events.h\<close>, and the
  \<open>event_data\<close> of \<open>src/os/poller.cpp\<close>): an array that the kernel fills from its start, the number of its filled
  places, and iterators over it that are indexes. The model of the looper has the list of the events instead;
  they agree.
\<close>

section \<open>The array and its iterators\<close>

record event_data =
  ed_events :: "(descriptor \<times> u32) list"
  ed_count :: nat

text \<open>The memory of the array is as it was found.\<close>

definition event_data_new :: "(descriptor \<times> u32) list \<Rightarrow> event_data" where
  "event_data_new memory = \<lparr>ed_events = memory, ed_count = 0\<rparr>"

definition ed_set_count :: "nat \<Rightarrow> event_data \<Rightarrow> event_data" where
  "ed_set_count n d = d\<lparr>ed_count := n\<rparr>"

text \<open>Reading behind the end of the array is undefined.\<close>

definition ed_at :: "event_data \<Rightarrow> nat \<Rightarrow> exn + (descriptor \<times> u32)" where
  "ed_at d i = (if i < length (ed_events d) then Inr (ed_events d ! i) else Inl Undefined_behaviour)"

definition ed_get_descriptor :: "event_data \<Rightarrow> nat \<Rightarrow> exn + descriptor" where
  "ed_get_descriptor d i = map_sum id fst (ed_at d i)"

definition ed_get_events :: "event_data \<Rightarrow> nat \<Rightarrow> exn + event_types" where
  "ed_get_events d i = map_sum id (\<lambda>e. native_to_events (snd e)) (ed_at d i)"

definition pe_begin :: "event_data \<Rightarrow> nat" where "pe_begin d = 0"
definition pe_end :: "event_data \<Rightarrow> nat" where "pe_end d = ed_count d"

text \<open>\<open>operator*\<close> and \<open>operator++\<close> of the iterator.\<close>

definition pe_get :: "event_data \<Rightarrow> nat \<Rightarrow> exn + (descriptor \<times> event_types)" where
  "pe_get d i =
     (case ed_get_descriptor d i of
        Inl e \<Rightarrow> Inl e
      | Inr fd \<Rightarrow> (case ed_get_events d i of Inl e \<Rightarrow> Inl e | Inr events \<Rightarrow> Inr (fd, events)))"

definition pe_next :: "nat \<Rightarrow> nat" where "pe_next i = i + 1"

text \<open>A range loop over the events, with the pairs it sees.\<close>

function polled_from :: "event_data \<Rightarrow> nat \<Rightarrow> exn + (descriptor \<times> event_types) list" where
  "polled_from d i =
     (if i = pe_end d then Inr []
      else
        (case pe_get d i of
           Inl e \<Rightarrow> Inl e
         | Inr x \<Rightarrow> (case polled_from d (pe_next i) of Inl e \<Rightarrow> Inl e | Inr xs \<Rightarrow> Inr (x # xs))))"
  by pat_completeness auto
termination
  by (relation "measure (\<lambda>(d, i). length (ed_events d) - i)")
    (auto simp: pe_next_def pe_get_def ed_get_descriptor_def ed_at_def split: if_splits sum.splits)

declare polled_from.simps [simp del]

definition polled_events :: "event_data \<Rightarrow> exn + (descriptor \<times> event_types) list" where
  "polled_events d = polled_from d (pe_begin d)"

section \<open>Polling into the array\<close>

text \<open>\<open>resource_poller::poll\<close>, which hands out a reference to its array.\<close>

definition rp_poll_into ::
  "'k epoll_calls \<Rightarrow> nat \<Rightarrow> milliseconds \<Rightarrow> event_data \<Rightarrow> 'k \<Rightarrow> (exn + unit) \<times> event_data \<times> 'k" where
  "rp_poll_into calls max_events timeout d k =
     (if max_events > events_buffer_size
      then (Inl (Illegal_argument ''max events requested exceed support size''), d, k)
      else
        (case epoll_wait calls max_events timeout k of
           (Inl errno, k) \<Rightarrow>
             (if errno = eintr then (Inr (), ed_set_count 0 d, k) else (Inl (Io_exception errno), d, k))
         | (Inr events, k) \<Rightarrow>
             (Inr (), ed_set_count (length events)
                (d\<lparr>ed_events := events @ drop (length events) (ed_events d)\<rparr>), k)))"

lemma polled_from_filled:
  "i \<le> length events \<Longrightarrow> polled_from \<lparr>ed_events = events @ old, ed_count = length events\<rparr> i =
     Inr (map (\<lambda>(fd, native). (fd, native_to_events native)) (drop i events))"
proof (induction "length events - i" arbitrary: i)
  case 0
  then show ?case by (simp add: polled_from.simps pe_end_def)
next
  case (Suc n)
  then have i: "i < length events" by simp
  then have "polled_from \<lparr>ed_events = events @ old, ed_count = length events\<rparr> (pe_next i) =
     Inr (map (\<lambda>(fd, native). (fd, native_to_events native)) (drop (Suc i) events))"
    using Suc by (simp add: pe_next_def)
  with i show ?case
    by (subst polled_from.simps) (simp add: pe_end_def pe_get_def ed_get_descriptor_def ed_get_events_def ed_at_def
        nth_append Cons_nth_drop_Suc [symmetric] case_prod_beta)
qed

text \<open>
  The list that the model of the looper works on is what the loop over the array sees, whatever is behind the
  events; only the array's length bounds what the kernel may be asked for.
\<close>

lemma poll_agrees:
  "rp_poll calls max_events timeout k =
     (case rp_poll_into calls max_events timeout d k of
        (Inl e, d, k) \<Rightarrow> (Inl e, k)
      | (Inr _, d, k) \<Rightarrow> (polled_events d, k))"
proof -
  have "polled_events (ed_set_count (length events) (d\<lparr>ed_events := events @ drop (length events) (ed_events d)\<rparr>)) =
      Inr (map (\<lambda>(fd, native). (fd, native_to_events native)) events)" for events
  proof -
    have "ed_set_count (length events) (d\<lparr>ed_events := events @ old\<rparr>) =
        \<lparr>ed_events = events @ old, ed_count = length events\<rparr>" for old by (cases d) (simp add: ed_set_count_def)
    then show ?thesis by (simp only: polled_events_def pe_begin_def polled_from_filled [of 0] le0 drop_0)
  qed
  moreover have "polled_events (ed_set_count 0 d) = Inr []"
    by (simp add: polled_events_def polled_from.simps pe_begin_def pe_end_def ed_set_count_def)
  ultimately show ?thesis by (auto simp: rp_poll_def rp_poll_into_def split: sum.split prod.split)
qed

end
