(* ===== verification/Obsr_Trace.thy ===== *)
theory Obsr_Trace
  imports Obsr_Prelude
begin

text \<open>
  Tracing (\<open>src/debug.h\<close>, \<open>src/debug.cpp\<close>): what the preprocessor makes of the options of a build
  (\<open>CMakeLists.txt\<close>), and the calls that a process makes to \<open>vprintf\<close> or to the system log. The models of the
  other components leave their trace statements out; here a process is the list of those it runs through.
\<close>

section \<open>Levels\<close>

datatype log_level = log_level_debug | log_level_info | log_level_error

fun level_code :: "log_level \<Rightarrow> nat" where
  "level_code log_level_debug = 0"
| "level_code log_level_info = 1"
| "level_code log_level_error = 2"

text \<open>Enumerators compare as their numbers.\<close>

instantiation log_level :: linorder
begin

definition less_eq_log_level :: "log_level \<Rightarrow> log_level \<Rightarrow> bool" where
  "less_eq_log_level a b \<longleftrightarrow> level_code a \<le> level_code b"

definition less_log_level :: "log_level \<Rightarrow> log_level \<Rightarrow> bool" where
  "less_log_level a b \<longleftrightarrow> level_code a < level_code b"

instance
proof
  fix a b :: log_level
  show "a \<le> b \<Longrightarrow> b \<le> a \<Longrightarrow> a = b"
    by (cases a; cases b) (simp_all add: less_eq_log_level_def)
qed (auto simp: less_eq_log_level_def less_log_level_def)

end

section \<open>The build\<close>

datatype trace_sink = sink_stdout | sink_linux_syslog

text \<open>The macros \<open>DEBUG\<close>, \<open>TRACE_SINK\<close> and \<open>TRACE_LEVEL\<close>, when they are defined.\<close>

record trace_build =
  tb_debug :: bool
  tb_sink :: "int option"
  tb_level :: "int option"

text \<open>The definitions that \<open>CMakeLists.txt\<close> gives, from the type of the build and what the user defines.\<close>

definition cmake_build :: "string \<Rightarrow> bool \<Rightarrow> int option \<Rightarrow> int option \<Rightarrow> trace_build" where
  "cmake_build build_type unix level sink =
     (if build_type = ''Debug''
      then \<lparr>tb_debug = True,
            tb_sink = Some (case sink of Some k \<Rightarrow> k | None \<Rightarrow> if unix then 1 else 0),
            tb_level = Some (case level of Some k \<Rightarrow> k | None \<Rightarrow> 1)\<rparr>
      else \<lparr>tb_debug = False, tb_sink = None, tb_level = None\<rparr>)"

definition sink_of_code :: "int \<Rightarrow> string + trace_sink" where
  "sink_of_code k =
     (if k = 0 then Inr sink_stdout
      else if k = 1 then Inr sink_linux_syslog
      else Inl ''unknown trace sink'')"

definition base_level_of_code :: "int \<Rightarrow> string + log_level" where
  "base_level_of_code k =
     (if k = 0 then Inr log_level_error
      else if k = 1 then Inr log_level_info
      else if k = 2 then Inr log_level_debug
      else Inl ''unknown trace level'')"

text \<open>The sink and \<open>s_base_level\<close> of a build; nothing in a release; an \<open>#error\<close> is on the left.\<close>

definition compiled :: "trace_build \<Rightarrow> string + (trace_sink \<times> log_level) option" where
  "compiled b =
     (case map_option sink_of_code (tb_sink b) of
        Some (Inl e) \<Rightarrow> Inl e
      | sink \<Rightarrow>
          (if \<not> tb_debug b then Inr None
           else (case sink of
              Some (Inr s) \<Rightarrow>
                (case tb_level b of
                   None \<Rightarrow> Inl ''trace level not defined''
                 | Some k \<Rightarrow> map_sum id (\<lambda>l. Some (s, l)) (base_level_of_code k))
            | _ \<Rightarrow> Inl ''trace sink not defined'')))"

section \<open>Calls\<close>

datatype trace_arg = arg_string string | arg_int int

datatype sink_call =
    call_vprintf string "trace_arg list"
  | call_vsyslog int string "trace_arg list"
  | call_openlog string int int
  | call_closelog

text \<open>The priorities and options of \<open>sys/syslog.h\<close>.\<close>

abbreviation LOG_ERR :: int where "LOG_ERR \<equiv> 3"
abbreviation LOG_INFO :: int where "LOG_INFO \<equiv> 6"
abbreviation LOG_DEBUG :: int where "LOG_DEBUG \<equiv> 7"

definition log_options :: int where
  "log_options = 2 OR 1 OR 8"  \<comment> \<open>\<open>LOG_CONS | LOG_PID | LOG_NDELAY\<close>\<close>

fun level_to_pri :: "log_level \<Rightarrow> int" where
  "level_to_pri log_level_debug = LOG_DEBUG"
| "level_to_pri log_level_info = LOG_INFO"
| "level_to_pri log_level_error = LOG_ERR"

fun construct_trace :: "trace_sink \<Rightarrow> sink_call list" where
  "construct_trace sink_linux_syslog = [call_openlog ''obsr'' log_options 8]"
| "construct_trace sink_stdout = []"

fun destruct_trace :: "trace_sink \<Rightarrow> sink_call list" where
  "destruct_trace sink_linux_syslog = [call_closelog]"
| "destruct_trace sink_stdout = []"

definition can_log :: "log_level \<Rightarrow> log_level \<Rightarrow> bool" where
  "can_log base level \<longleftrightarrow> base \<le> level"

fun trace_impl :: "trace_sink \<Rightarrow> log_level \<Rightarrow> string \<Rightarrow> trace_arg list \<Rightarrow> sink_call list" where
  "trace_impl sink_stdout level format ap = [call_vprintf format ap]"
| "trace_impl sink_linux_syslog level format ap = [call_vsyslog (level_to_pri level) format ap]"

text \<open>A use of one of the macros, with the place it is at.\<close>

record trace_statement =
  ts_level :: log_level
  ts_module :: string
  ts_format :: string
  ts_args :: "trace_arg list"
  ts_file :: string
  ts_line :: int

definition trace_format :: "string \<Rightarrow> string \<Rightarrow> string" where
  "trace_format module format = ''(%s:%d) '' @ module @ '': '' @ format @ [CHR 0x0A]"

definition trace_statement_run :: "(trace_sink \<times> log_level) option \<Rightarrow> trace_statement \<Rightarrow> sink_call list" where
  "trace_statement_run build t =
     (case build of
        None \<Rightarrow> []
      | Some (sink, base) \<Rightarrow>
          (if can_log base (ts_level t)
           then trace_impl sink (ts_level t) (trace_format (ts_module t) (ts_format t))
                  ([arg_string (ts_file t), arg_int (ts_line t)] @ ts_args t)
           else []))"

text \<open>The calls of a process from its start to its end.\<close>

definition process_trace :: "(trace_sink \<times> log_level) option \<Rightarrow> trace_statement list \<Rightarrow> sink_call list" where
  "process_trace build ts =
     (case build of
        None \<Rightarrow> []
      | Some (sink, _) \<Rightarrow>
          construct_trace sink @ concat (map (trace_statement_run build) ts) @ destruct_trace sink)"

section \<open>Builds\<close>

lemma default_builds:
  "compiled (cmake_build ''Debug'' True None None) = Inr (Some (sink_linux_syslog, log_level_info))"
  "compiled (cmake_build ''Debug'' False None None) = Inr (Some (sink_stdout, log_level_info))"
  "build_type \<noteq> ''Debug'' \<Longrightarrow> compiled (cmake_build build_type unix level sink) = Inr None"
  by (simp_all add: compiled_def cmake_build_def sink_of_code_def base_level_of_code_def)

lemma build_fails_iff:
  "(\<exists>e. compiled (cmake_build ''Debug'' unix level sink) = Inl e) \<longleftrightarrow>
     (\<exists>k. sink = Some k \<and> k \<notin> {0, 1}) \<or> (\<exists>k. level = Some k \<and> k \<notin> {0, 1, 2})"
  by (auto simp: compiled_def cmake_build_def sink_of_code_def base_level_of_code_def split: option.splits)

section \<open>What is traced\<close>

lemma release_traces_nothing: "trace_statement_run None t = []" "process_trace None ts = []"
  by (simp_all add: trace_statement_run_def process_trace_def)

lemma traced_lines:
  "concat (map (trace_statement_run (Some (sink, base))) ts) =
   map (\<lambda>t. hd (trace_impl sink (ts_level t) (trace_format (ts_module t) (ts_format t))
                  ([arg_string (ts_file t), arg_int (ts_line t)] @ ts_args t)))
     (filter (\<lambda>t. base \<le> ts_level t) ts)"
  by (induction ts; cases sink) (simp_all add: trace_statement_run_def can_log_def)

text \<open>A higher level keeps, of the calls of a lower one, those of the statements that reach it.\<close>

lemma raising_the_level:
  assumes "base \<le> base'"
  shows "process_trace (Some (sink, base')) ts =
    process_trace (Some (sink, base)) (filter (\<lambda>t. base' \<le> ts_level t) ts)"
proof -
  have "filter (\<lambda>t. base \<le> ts_level t) (filter (\<lambda>t. base' \<le> ts_level t) ts) = filter (\<lambda>t. base' \<le> ts_level t) ts"
    using assms by (auto simp: filter_filter intro!: filter_cong)
  then show ?thesis by (simp add: process_trace_def traced_lines)
qed

text \<open>Errors are always traced, and the order of the levels is that of the priorities of the system log.\<close>

lemma errors_are_traced: "can_log base log_level_error"
  by (cases base) (simp_all add: can_log_def less_eq_log_level_def)

lemma level_to_pri_antimono: "level_to_pri b \<le> level_to_pri a \<longleftrightarrow> a \<le> b"
  by (cases a; cases b) (simp_all add: less_eq_log_level_def)

section \<open>Formats\<close>

text \<open>The conversions of a format, in their order; flags, width and length modifiers are skipped.\<close>

definition is_modifier :: "char \<Rightarrow> bool" where
  "is_modifier c \<longleftrightarrow> c \<in> set ''-+ #.0123456789hlzjt''"

function conversions :: "string \<Rightarrow> string" where
  "conversions [] = []"
| "conversions (c # cs) =
     (if c \<noteq> CHR ''%'' then conversions cs
      else (case dropWhile is_modifier cs of
              [] \<Rightarrow> []
            | d # ds \<Rightarrow> if d = CHR ''%'' then conversions ds else d # conversions ds))"
  by pat_completeness auto
termination
proof (relation "measure length")
  fix c d :: char and cs ds :: string
  assume "dropWhile is_modifier cs = d # ds"
  with length_dropWhile_le [of is_modifier cs] have "length ds < length cs" by simp
  then show "(ds, c # cs) \<in> measure length" "(ds, c # cs) \<in> measure length" by simp_all
qed simp_all

declare conversions.simps(2) [simp del]

lemma conversions_other: "c \<noteq> CHR ''%'' \<Longrightarrow> conversions (c # cs) = conversions cs"
  by (simp add: conversions.simps(2))

lemma conversions_directive:
  "\<not> is_modifier d \<Longrightarrow> d \<noteq> CHR ''%'' \<Longrightarrow> conversions (CHR ''%'' # d # ds) = d # conversions ds"
  by (simp add: conversions.simps(2))

lemma conversions_plain: "CHR ''%'' \<notin> set xs \<Longrightarrow> conversions (xs @ ys) = conversions ys"
  by (induction xs) (auto simp: conversions_other)

text \<open>
  The format that reaches the sink has the conversions of the statement, with the newline after it, behind two
  more: those that take the file and the line. So the arguments of the call line up when those of the
  statement do.
\<close>

lemma trace_format_conversions:
  assumes "CHR ''%'' \<notin> set module"
  shows "conversions (trace_format module format) = CHR ''s'' # CHR ''d'' # conversions (format @ [CHR 0x0A])"
proof -
  have mods: "\<not> is_modifier CHR ''s''" "\<not> is_modifier CHR ''d''" by (simp_all add: is_modifier_def)
  have "conversions (trace_format module format) =
      CHR ''s'' # CHR ''d'' # conversions (('') '' @ module @ '': '') @ format @ [CHR 0x0A])"
    by (simp add: trace_format_def conversions_other conversions_directive mods)
  also have "conversions (('') '' @ module @ '': '') @ format @ [CHR 0x0A]) = conversions (format @ [CHR 0x0A])"
    by (rule conversions_plain) (use assms in auto)
  finally show ?thesis .
qed

end
