(* ===== verification/Obsr_Io_Sound.thy ===== *)
theory Obsr_Io_Sound
  imports Obsr_Consistency
begin

text \<open>
  An invariant of the connections themselves: one that runs has a socket, and a listening side that is idle
  has neither a socket nor clients. The rules are triples over the state of a connection; the world beside it,
  where a server keeps the connections of its clients, has an invariant of its own.
\<close>

section \<open>Rules\<close>

definition connection_sound :: "'s socket_io \<Rightarrow> bool" where
  "connection_sound s \<longleftrightarrow> (so_state s \<noteq> io_idle \<longrightarrow> so_socket s \<noteq> None)"

text \<open>When the operation throws, the connection is sound whatever the postcondition.\<close>

definition triple ::
  "('w \<Rightarrow> bool) \<Rightarrow> ('s socket_io \<Rightarrow> bool) \<Rightarrow> ('s, 'w, 'x) io_op \<Rightarrow> ('s socket_io \<Rightarrow> bool) \<Rightarrow> bool" where
  "triple I A p B \<longleftrightarrow> (\<forall>s w. A s \<longrightarrow> I w \<longrightarrow>
     (case p s w of (r, s', w') \<Rightarrow> I w' \<and> (case r of Inl _ \<Rightarrow> connection_sound s' | Inr _ \<Rightarrow> B s')))"

abbreviation sound :: "('w \<Rightarrow> bool) \<Rightarrow> ('s, 'w, 'x) io_op \<Rightarrow> bool" where
  "sound I p \<equiv> triple I connection_sound p connection_sound"

named_theorems sound_rules

lemma tripleI:
  assumes "\<And>s w r s' w'. A s \<Longrightarrow> I w \<Longrightarrow> p s w = (r, s', w') \<Longrightarrow>
    I w' \<and> (case r of Inl _ \<Rightarrow> connection_sound s' | Inr _ \<Rightarrow> B s')"
  shows "triple I A p B"
  unfolding triple_def
proof (intro allI impI)
  fix s w
  assume "A s" "I w"
  then show "case p s w of (r, s', w') \<Rightarrow> I w' \<and> (case r of Inl _ \<Rightarrow> connection_sound s' | Inr _ \<Rightarrow> B s')"
    using assms [of s w "fst (p s w)"] by (cases "p s w") auto
qed

lemma tripleD:
  assumes "triple I A p B" "A s" "I w" "p s w = (r, s', w')"
  shows "I w' \<and> (case r of Inl _ \<Rightarrow> connection_sound s' | Inr _ \<Rightarrow> B s')"
  using assms(1) [unfolded triple_def, rule_format, OF assms(2,3)] assms(4) by simp

lemma soundD:
  assumes "sound I p" "connection_sound s" "I w" "p s w = (r, s', w')"
  shows "I w' \<and> connection_sound s'"
  using tripleD [OF assms] by (cases r) simp_all

lemma soundI:
  assumes "\<And>s w r s' w'. connection_sound s \<Longrightarrow> I w \<Longrightarrow> p s w = (r, s', w') \<Longrightarrow> I w' \<and> connection_sound s'"
  shows "sound I p"
proof (rule tripleI)
  fix s w r s' w'
  assume "connection_sound s" "I w" "p s w = (r, s', w')"
  from assms [OF this] show "I w' \<and> (case r of Inl _ \<Rightarrow> connection_sound s' | Inr _ \<Rightarrow> connection_sound s')"
    by (cases r) simp_all
qed

lemma triple_return [sound_rules]: "triple I A (io_return x) A"
  by (simp add: triple_def io_return_def)

lemma triple_throw [sound_rules]: "sound I (io_throw e)"
  by (simp add: triple_def io_throw_def)

lemma triple_done [sound_rules]: "sound I (\<lambda>s w. (r, s, w))"
  by (simp add: triple_def split: sum.split)

lemma triple_modify: "(\<And>s. A s \<Longrightarrow> B (f s)) \<Longrightarrow> triple I A (io_modify f) B"
  by (simp add: triple_def io_modify_def)

lemma triple_same:
  assumes "\<And>s w. fst (snd (p s w)) = s" "\<And>s w. I w \<Longrightarrow> I (snd (snd (p s w)))" "\<And>s. A s \<Longrightarrow> connection_sound s"
  shows "triple I A p A"
proof (rule tripleI)
  fix s w r s' w'
  assume "A s" "I w" "p s w = (r, s', w')"
  with assms(1) [of s w] assms(2) [of w s] assms(3) [of s]
  show "I w' \<and> (case r of Inl _ \<Rightarrow> connection_sound s' | Inr _ \<Rightarrow> A s')" by (cases r) auto
qed

lemma triple_call: "(\<And>w. I w \<Longrightarrow> I (snd (g w))) \<Longrightarrow> (\<And>s. A s \<Longrightarrow> connection_sound s) \<Longrightarrow> triple I A (io_call g) A"
  by (rule triple_same) (simp_all add: io_call_def case_prod_beta)

lemma triple_handle: "(\<And>h w. I w \<Longrightarrow> I (snd (g h w))) \<Longrightarrow> (\<And>s. A s \<Longrightarrow> connection_sound s) \<Longrightarrow> triple I A (on_handle g) A"
  by (rule triple_same) (simp_all add: on_handle_def io_call_def case_prod_beta)

lemma triple_socket: "(\<And>k w. I w \<Longrightarrow> I (snd (g k w))) \<Longrightarrow> (\<And>s. A s \<Longrightarrow> connection_sound s) \<Longrightarrow> triple I A (on_socket g) A"
  by (rule triple_same) (simp_all add: on_socket_def io_call_def case_prod_beta split: option.split)

lemmas sound_calls [sound_rules] = triple_call [where A = connection_sound] triple_handle [where A = connection_sound]
  triple_socket [where A = connection_sound]

lemma triple_then:
  assumes "triple I A p R" "\<And>x. triple I R (f x) B"
  shows "triple I A (io_then p f) B"
proof (rule tripleI)
  fix s w r s' w'
  assume a: "A s" "I w" and e: "io_then p f s w = (r, s', w')"
  obtain r1 s1 w1 where 1: "p s w = (r1, s1, w1)" by (metis prod_cases3)
  from tripleD [OF assms(1) a 1] e 1 tripleD [OF assms(2)]
  show "I w' \<and> (case r of Inl _ \<Rightarrow> connection_sound s' | Inr _ \<Rightarrow> B s')"
    by (cases r1) (auto simp: io_then_def)
qed

lemmas sound_then [sound_rules] = triple_then [where R = connection_sound]

lemma triple_catch:
  assumes "triple I A p B" "\<And>e. triple I connection_sound (h e) B"
  shows "triple I A (io_catch handled p h) B"
proof (rule tripleI)
  fix s w r s' w'
  assume a: "A s" "I w" and e: "io_catch handled p h s w = (r, s', w')"
  obtain r1 s1 w1 where 1: "p s w = (r1, s1, w1)" by (metis prod_cases3)
  from tripleD [OF assms(1) a 1] e 1 tripleD [OF assms(2)]
  show "I w' \<and> (case r of Inl _ \<Rightarrow> connection_sound s' | Inr _ \<Rightarrow> B s')"
    by (cases r1) (auto simp: io_catch_def split: if_splits)
qed

lemmas sound_catch [sound_rules] = triple_catch [where A = connection_sound and B = connection_sound]

lemma triple_weaken: "triple I A p B \<Longrightarrow> (\<And>s. B s \<Longrightarrow> B' s) \<Longrightarrow> triple I A p B'"
  by (fastforce simp: triple_def split: sum.splits)

lemma triple_try:
  assumes "triple I A p B" "\<And>s. connection_sound s \<Longrightarrow> B s"
  shows "triple I A (io_try p) B"
  unfolding io_try_def
  by (rule triple_catch [OF assms(1)]) (rule triple_weaken [OF triple_return [where A = connection_sound] assms(2)])

lemma sound_try [sound_rules]: "sound I p \<Longrightarrow> sound I (io_try p)"
  by (rule triple_try)

lemma sound_invoke [sound_rules]: "sound I p \<Longrightarrow> sound I (invoke_func p)"
  by (simp add: invoke_func_def sound_try)

lemma sound_if [sound_rules]:
  "sound I p \<Longrightarrow> sound I q \<Longrightarrow> sound I (\<lambda>s w. if c s w then p s w else q s w)"
  by (simp add: triple_def)

lemma sound_if_const [sound_rules]: "sound I p \<Longrightarrow> sound I q \<Longrightarrow> sound I (if b then p else q)"
  by simp

lemma sound_unless:
  assumes "triple I (\<lambda>s. connection_sound s \<and> \<not> c s) p connection_sound"
  shows "sound I (\<lambda>s w. if c s then (r, s, w) else p s w)"
proof (rule soundI)
  fix s w r' s' w'
  assume s: "connection_sound s" "I w" and e: "(if c s then (r, s, w) else p s w) = (r', s', w')"
  show "I w' \<and> connection_sound s'"
    using s e tripleD [OF assms _ s(2), of s r' s' w'] by (cases "c s"; cases r') auto
qed

lemma triple_pre: "triple I A p B \<Longrightarrow> (\<And>s. A' s \<Longrightarrow> A s) \<Longrightarrow> triple I A' p B"
  by (simp add: triple_def)

lemma connection_sound_simps [simp]:
  "connection_sound (s\<lparr>so_handle := h\<rparr>) = connection_sound s"
  "connection_sound (s\<lparr>so_reader := m\<rparr>) = connection_sound s"
  "connection_sound (s\<lparr>so_write := b\<rparr>) = connection_sound s"
  "connection_sound (s\<lparr>so_next_index := i\<rparr>) = connection_sound s"
  "connection_sound (s\<lparr>so_state := io_idle\<rparr>)"
  "connection_sound (s\<lparr>so_socket := Some k\<rparr>)"
  by (simp_all add: connection_sound_def)

section \<open>The connection\<close>

locale sound_connection =
  fixes env :: "('s, 'w) io_env" and I :: "'w \<Rightarrow> bool"
  assumes socket_calls: "I w \<Longrightarrow> I (snd (sk_new env w))" "I w \<Longrightarrow> I (snd (sk_reuseport env k w))"
      "I w \<Longrightarrow> I (snd (sk_nonblocking env k w))" "I w \<Longrightarrow> I (snd (sk_close env k w))"
      "I w \<Longrightarrow> I (snd (sk_connect env k info w))" "I w \<Longrightarrow> I (snd (sk_finalize env k w))"
      "I w \<Longrightarrow> I (snd (sk_read env k w n))" "I w \<Longrightarrow> I (snd (sk_write env k w xs))"
    and looper_calls: "I w \<Longrightarrow> I (snd (lo_add env k ev w))" "I w \<Longrightarrow> I (snd (lo_remove env h w))"
      "I w \<Longrightarrow> I (snd (lo_request env h ev t w))"
    and owner_calls: "sound I (cb_connect env)" "sound I (cb_close env)" "sound I (cb_message env header xs n)"
begin

lemma stop_internal_sound: "sound I (stop_internal env inform)"
proof -
  have detach: "sound I (\<lambda>s w.
      if so_handle s \<noteq> empty_handle then
        io_then (on_handle (lo_remove env)) (\<lambda>_. io_modify (\<lambda>s. s\<lparr>so_handle := empty_handle\<rparr>)) s w
      else (Inr (), s, w))"
    by (intro sound_rules looper_calls triple_modify) simp_all
  have close: "triple I connection_sound
      (io_try (io_then (on_socket (sk_close env)) (\<lambda>_. io_modify (\<lambda>s. s\<lparr>so_socket := None\<rparr>)))) (\<lambda>_. True)"
    by (intro triple_try sound_then sound_calls socket_calls triple_modify) simp_all
  have rest: "triple I (\<lambda>_. True) (io_then (io_modify (\<lambda>s. s\<lparr>so_state := io_idle\<rparr>)) (\<lambda>_.
      if inform then invoke_func (cb_close env) else io_return ())) connection_sound"
    by (rule sound_then [OF triple_modify]) (simp, intro sound_rules owner_calls)
  show ?thesis
    unfolding stop_internal_def [abs_def]
    by (rule sound_if [OF triple_done]) (rule sound_then [OF sound_try [OF detach] triple_then [OF close rest]])
qed

lemma io_stop_sound: "sound I (io_stop env)"
  unfolding io_stop_def [abs_def] by (intro sound_rules stop_internal_sound)

lemma start_with_sound: "sound I (start_with env k connected)"
proof -
  let ?A = "\<lambda>s. so_socket s \<noteq> None"
  have A: "\<And>s. ?A s \<Longrightarrow> connection_sound s" by (simp add: connection_sound_def)
  show ?thesis
    unfolding start_with_def [abs_def]
    by (intro sound_if triple_done triple_then [where R = ?A] triple_socket triple_call socket_calls looper_calls
        triple_modify A) (simp_all add: connection_sound_def)
qed

lemma io_start_sound: "sound I (io_start env)"
  unfolding io_start_def [abs_def] by (intro sound_rules socket_calls start_with_sound)

lemma io_connect_sound: "sound I (io_connect env info)"
proof -
  let ?R = "\<lambda>s. so_state s \<noteq> io_idle \<and> so_socket s \<noteq> None"
  let ?c = "io_catch is_io_exception
     (io_then (io_modify (\<lambda>s. s\<lparr>so_state := io_connecting\<rparr>)) (\<lambda>_. on_socket (\<lambda>k. sk_connect env k info)))
     (\<lambda>e. io_then (stop_internal env True) (\<lambda>_. io_throw e))"
  have R: "\<And>s. ?R s \<Longrightarrow> connection_sound s" by (simp add: connection_sound_def)
  have "triple I ?R ?c connection_sound"
    by (intro triple_catch triple_then [where R = ?R] triple_modify sound_rules stop_internal_sound
        triple_weaken [OF triple_socket [where A = ?R]] socket_calls R) simp_all
  note whole = triple_then [OF triple_handle [where A = ?R] triple_then [OF this sound_calls(2)]]
  show ?thesis
    unfolding io_connect_def [abs_def]
    by (rule sound_unless [OF triple_pre [OF whole]]) (auto simp: looper_calls connection_sound_def)
qed

lemma io_write_sound: "sound I (io_write env t p)"
proof (rule soundI)
  fix s w r s' w'
  assume s: "connection_sound s" "I w" and e: "io_write env t p s w = (r, s', w')"
  have fin: "sound I (io_then (on_handle (\<lambda>h. lo_request env h event_out eu_append)) (\<lambda>_. io_return True))"
    by (intro sound_rules looper_calls) simp_all
  have stop: "sound I (io_then (stop_internal env True) (\<lambda>_. io_return False))"
    by (intro sound_rules stop_internal_sound)
  show "I w' \<and> connection_sound s'"
    using s e by (auto simp: io_write_def Let_def split: if_splits prod.splits bool.splits
        dest!: soundD [OF fin _ s(2), rotated] soundD [OF stop _ s(2), rotated])
qed

lemma on_write_ready_sound: "sound I (on_write_ready env)"
proof (rule soundI)
  fix s w r s' w'
  assume s: "connection_sound s" "I w" and e: "on_write_ready env s w = (r, s', w')"
  have ask: "sound I (on_handle (\<lambda>h. lo_request env h event_out eu_remove))" by (intro sound_rules looper_calls)
  show "I w' \<and> connection_sound s'"
  proof (cases "so_state s")
    case io_connecting
    with s(1) obtain k where k: "so_socket s = Some k" by (auto simp: connection_sound_def)
    obtain r1 w1 where 1: "sk_finalize env k w = (r1, w1)" by fastforce
    then have w1: "I w1" using socket_calls(6) [OF s(2), of k] by simp
    have rest: "triple I (\<lambda>s. so_socket s \<noteq> None) (io_then (io_modify (\<lambda>s. s\<lparr>so_state := io_connected\<rparr>)) (\<lambda>_.
        io_then (on_handle (\<lambda>h. lo_request env h event_in eu_append)) (\<lambda>_. invoke_func (cb_connect env)))) connection_sound"
      by (rule sound_then [OF triple_modify], simp add: connection_sound_def) (intro sound_rules looper_calls owner_calls)
    have stop: "sound I (io_then (stop_internal env True) (\<lambda>_. io_return False))"
      by (intro sound_rules stop_internal_sound)
    show ?thesis
    proof (cases r1)
      case (Inl x)
      obtain r2 s2 w2 where "io_then (stop_internal env True) (\<lambda>_. io_return False) s w1 = (r2, s2, w2)"
        by (metis prod_cases3)
      with soundD [OF stop s(1) w1 this] Inl 1 k e io_connecting s(1) w1 show ?thesis
        by (auto simp: on_write_ready_def io_defs split: if_splits sum.splits prod.splits)
    next
      case (Inr u)
      with 1 k e io_connecting have "io_then (io_modify (\<lambda>s. s\<lparr>so_state := io_connected\<rparr>)) (\<lambda>_.
        io_then (on_handle (\<lambda>h. lo_request env h event_in eu_append)) (\<lambda>_. invoke_func (cb_connect env))) s w1 = (r, s', w')"
        by (simp add: on_write_ready_def io_catch_def io_then_def on_socket_def io_call_def io_return_def)
      from tripleD [OF rest _ w1 this] k show ?thesis by (cases r) auto
    qed
  next
    case io_connected
    have "sound I (\<lambda>s w. case so_socket s of
        None \<Rightarrow> (Inl Undefined_behaviour, s, w)
      | Some k \<Rightarrow> (case circ_write_into (sk_write env k) (so_write s) w of (r, b, w) \<Rightarrow> (r, s\<lparr>so_write := b\<rparr>, w)))"
      using write_into_keeps [of I "sk_write env _"] socket_calls(8)
      by (intro soundI) (auto split: option.splits prod.splits, metis snd_conv)
    then have "sound I (io_catch is_io_exception
        (io_then
           (\<lambda>s w. case so_socket s of
              None \<Rightarrow> (Inl Undefined_behaviour, s, w)
            | Some k \<Rightarrow> (case circ_write_into (sk_write env k) (so_write s) w of (r, b, w) \<Rightarrow> (r, s\<lparr>so_write := b\<rparr>, w)))
           (\<lambda>wrote. if \<not> wrote then on_handle (\<lambda>h. lo_request env h event_out eu_remove) else io_return ()))
        (\<lambda>e. stop_internal env True))"
      by (intro sound_catch sound_then sound_if_const ask triple_return stop_internal_sound)
    from soundD [OF this s] e io_connected show ?thesis by (simp add: on_write_ready_def)
  qed (use soundD [OF ask s] e in \<open>simp_all add: on_write_ready_def\<close>)
qed

lemma read_update_sound: "sound I (read_update env)"
proof -
  have "sound I (\<lambda>s w. case so_socket s of
      None \<Rightarrow> (Inl Undefined_behaviour, s, w)
    | Some k \<Rightarrow>
        (case reader_update (sk_read env k) (so_reader s) w of
           (r, m, w) \<Rightarrow> (map_sum id (\<lambda>_. ()) r, s\<lparr>so_reader := m\<rparr>, w)))"
    using read_from_keeps [of I "sk_read env _"] socket_calls(7)
    by (intro soundI) (auto simp: reader_update_def split: option.splits prod.splits, metis snd_conv)
  then show ?thesis unfolding read_update_def by (intro sound_rules stop_internal_sound)
qed

lemma process_new_data_sound:
  "process_new_data env s w = Some (r, s', w') \<Longrightarrow> connection_sound s \<Longrightarrow> I w \<Longrightarrow> I w' \<and> connection_sound s'"
proof -
  have "e = env \<Longrightarrow> connection_sound s \<Longrightarrow> I w \<Longrightarrow> I (snd (snd y)) \<and> connection_sound (fst (snd y))"
    if "process_new_data e s w = Some y" for e s w y
    using that
  proof (induction e s w y rule: process_new_data.raw_induct [rotated 1, consumes 1, case_names step])
    case (step rec e s w y)
    show ?case
    proof (cases "reader_process (so_reader s)")
      case (Some p)
      obtain r m where p: "p = (r, m)" by (cases p)
      let ?s = "s\<lparr>so_reader := m\<rparr>"
      let ?msg = "invoke_func (cb_message env (rd_header (sm_data m)) (rd_message (sm_data m))
          (unat (mh_size (rd_header (sm_data m)))))"
      obtain r2 s2 w2 where msg: "?msg ?s w = (r2, s2, w2)" by (cases "?msg ?s w")
      have s: "connection_sound ?s" using step(4) by simp
      have ok2: "I w2" "connection_sound s2" using soundD [OF sound_invoke [OF owner_calls(3)] s step(5) msg] by auto
      obtain r3 s3 w3 where stop: "stop_internal env True ?s w = (r3, s3, w3)" by (cases "stop_internal env True ?s w")
      have ok3: "I w3" "connection_sound s3" using soundD [OF stop_internal_sound s step(5) stop] by auto
      note again = step(1) [of env "s2\<lparr>so_reader := reader_reset (so_reader s2)\<rparr>" w2 y]
      show ?thesis
      proof (cases r)
        case (Inl x)
        with step(2-5) Some p show ?thesis by auto
      next
        case (Inr u)
        consider "is_errored m" | "\<not> is_errored m" "is_finished m" | "\<not> is_errored m" "\<not> is_finished m" by blast
        then show ?thesis
        proof cases
          case 1
          with step(2,3) Some p Inr stop ok3 show ?thesis by auto
        next
          case 2
          then show ?thesis using step(2-4) Some p Inr msg ok2 again by (cases r2) auto
        next
          case 3
          then show ?thesis using step(2-5) Some p Inr by auto
        qed
      qed
    qed (use step in simp)
  qed
  then show "process_new_data env s w = Some (r, s', w') \<Longrightarrow> connection_sound s \<Longrightarrow> I w \<Longrightarrow> I w' \<and> connection_sound s'"
    by (metis fst_conv snd_conv)
qed

lemma io_event_sound:
  assumes "io_event env ev s w = Some (r, s', w')" "connection_sound s" "I w"
  shows "I w' \<and> connection_sound s'"
proof -
  have rd: "I w2 \<and> connection_sound s2"
    if "on_read_ready env s w = Some (r1, s2, w2)" "connection_sound s" "I w" for s w r1 s2 w2
  proof (cases "so_state s = io_connected")
    case True
    obtain r0 s0 w0 where u: "read_update env s w = (r0, s0, w0)" by (cases "read_update env s w")
    note ok = soundD [OF read_update_sound that(2,3) u]
    show ?thesis
    proof (cases r0)
      case (Inl x)
      with ok True that(1) u show ?thesis by (simp add: on_read_ready_def)
    next
      case (Inr x)
      with True that(1) u have "process_new_data env s0 w0 = Some (r1, s2, w2)" by (simp add: on_read_ready_def)
      from process_new_data_sound [OF this] ok show ?thesis by simp
    qed
  next
    case False
    have "sound I (on_handle (\<lambda>h. lo_request env h event_in eu_remove))" by (intro sound_rules looper_calls)
    from soundD [OF this that(2,3)] False that(1) show ?thesis by (auto simp: on_read_ready_def)
  qed
  note stopped = soundD [OF stop_internal_sound assms(2,3)]
  consider "ev AND (event_hung OR event_error) \<noteq> 0"
    | "ev AND (event_hung OR event_error) = 0" "ev AND event_in \<noteq> 0"
    | "ev AND (event_hung OR event_error) = 0" "ev AND event_in = 0" by blast
  then show ?thesis
  proof cases
    case 1
    with assms(1) stopped show ?thesis by (simp add: io_event_def on_hung_or_error_def)
  next
    case 2
    then obtain r1 s1 w1 where 3: "on_read_ready env s w = Some (r1, s1, w1)"
      using assms(1) by (auto simp: io_event_def split: option.splits)
    note ok = rd [OF this assms(2,3)]
    show ?thesis
    proof (cases r1)
      case (Inl x)
      with ok 2 3 assms(1) show ?thesis by (simp add: io_event_def)
    next
      case (Inr x)
      with 2 3 assms(1) have "on_write_ready env s1 w1 = (r, s', w') \<or> (s1, w1) = (s', w')"
        by (auto simp: io_event_def split: if_splits)
      with ok soundD [OF on_write_ready_sound] show ?thesis by blast
    qed
  next
    case 3
    with assms(1) have "on_write_ready env s w = (r, s', w') \<or> (s, w) = (s', w')"
      by (auto simp: io_event_def split: if_splits)
    with assms(2,3) soundD [OF on_write_ready_sound] show ?thesis by blast
  qed
qed

end

section \<open>The client\<close>

abbreviation client_sound :: "('s, 'c, 'o, 'x) client_op \<Rightarrow> bool" where
  "client_sound p \<equiv> sound (\<lambda>_. True) p"

lemma client_same: "(\<And>s w. fst (snd (p s w)) = s) \<Longrightarrow> client_sound p"
  by (rule triple_same) simp_all

lemma client_primitives [sound_rules]:
  "client_sound (on_client f)" "client_sound (ask_client g)" "client_sound (set_client_state st)"
  "client_sound (client_out c)" "client_sound (client_times ne)" "client_sound (client_now r)"
  "client_sound (client_storage op)" "client_sound (client_sync r d)" "client_sound (client_parse t buffer sz)"
  "client_sound (io_eval e)"
  by (rule client_same, simp add: client_helpers world_defs io_call_def client_sync_def client_parse_def Let_def
      case_prod_beta)+

lemma client_invoke_sound [sound_rules]: "client_sound (invoke_storage op)"
  unfolding invoke_storage_def [abs_def] by (intro sound_rules)

lemma client_lock_sound [sound_rules]:
  assumes "client_sound p"
  shows "client_sound (client_lock p)"
proof (rule soundI)
  fix s w r s' w'
  assume s: "connection_sound s" and e: "client_lock p s w = (r, s', w')"
  obtain r1 s1 w1 where "p s (w\<lparr>cw_client := (cw_client w)\<lparr>nc_locked := True\<rparr>\<rparr>) = (r1, s1, w1)" by (metis prod_cases3)
  with soundD [OF assms s TrueI this] s e show "True \<and> connection_sound s'"
    by (auto simp: client_lock_def with_lock_def split: if_splits)
qed

lemma client_close_sound [sound_rules]: "client_sound (client_on_close ne)"
  unfolding client_on_close_def by (intro sound_rules)

interpretation client_own_sound: sound_connection "client_calls ne" "\<lambda>_. True" for ne :: "('s, 'o) net_env"
  by unfold_locales (simp_all add: client_calls_def lift_env_def sound_rules)

lemma client_destination_sound:
  assumes "connection_sound (fst sw)"
  shows "connection_sound (fst (snd (io_destination (client_calls ne) t b sw)))"
proof -
  obtain r s w where "io_write (client_calls ne) t b (fst sw) (snd sw) = (r, s, w)" by (metis prod_cases3)
  with soundD [OF client_own_sound.io_write_sound assms TrueI this] show ?thesis by (simp add: io_destination_def)
qed

lemma client_enqueue_sound [sound_rules]: "client_sound (client_enqueue ne m flags)"
  by (rule soundI) (auto simp: client_enqueue_def split: prod.splits
      dest!: enqueue_keeps [where I = "\<lambda>sw. connection_sound (fst sw)", OF client_destination_sound, rotated 2])

lemma client_process_queue_sound [sound_rules]: "client_sound (client_process_queue ne)"
  by (rule soundI) (auto simp: client_process_queue_def mq_process_def split: prod.splits
      dest!: drain_keeps [where I = "\<lambda>sw. connection_sound (fst sw)", OF client_destination_sound, rotated 2])

lemma client_connect_sound [sound_rules]: "client_sound (client_on_connect ne)"
  unfolding client_on_connect_def by (intro sound_rules)

lemma client_message_sound [sound_rules]: "client_sound (client_on_message ne header buffer sz)"
proof -
  have "client_sound (client_dispatch ne t d)" for t d
    unfolding client_dispatch_def by (cases t; simp only: message_type.case; intro sound_rules)
  then show ?thesis unfolding client_on_message_def Let_def by (intro sound_rules)
qed

interpretation client_run_sound: sound_connection "client_env ne" "\<lambda>_. True" for ne :: "('s, 'o) net_env"
  by unfold_locales (simp_all add: client_env_def lift_env_def sound_rules)

lemma process_storage_sound [sound_rules]: "client_sound (process_storage ne)"
proof (rule soundI)
  fix s w r s' w'
  assume s: "connection_sound s" and e: "process_storage ne s w = (r, s', w')"
  let ?J = "\<lambda>sw. connection_sound (fst (snd sw))"
  have "?J (snd (publish_entry ne d sw))" if "?J sw" for d sw
    using that by (cases sw) (auto simp: publish_entry_def Let_def split: prod.split
        dest!: soundD [OF client_enqueue_sound _ TrueI, rotated])
  then have "?J (snd (act_on_dirty_entries (publish_entry ne) (cw_storage w, (s, w))))"
    unfolding act_on_dirty_entries_def by (rule act_on_keeps) (use s in auto)
  with s e show "True \<and> connection_sound s'" by (auto simp: process_storage_def split: if_splits prod.splits)
qed

lemma client_ops_sound:
  "client_sound (client_attach_storage present)" "client_sound (configure_target info)" "client_sound (client_start ne)"
  "client_sound (client_stop_request ne)" "client_sound (client_tick ne)"
proof -
  show "client_sound (client_attach_storage present)" "client_sound (configure_target info)" "client_sound (client_start ne)"
    "client_sound (client_stop_request ne)"
    unfolding client_attach_storage_def configure_target_def client_start_def client_stop_request_def
    by (intro sound_rules client_own_sound.io_stop_sound)+
  have "client_sound (do_open_and_connect ne)"
    unfolding do_open_and_connect_def
    by (intro sound_rules client_own_sound.io_start_sound client_own_sound.io_connect_sound client_own_sound.io_stop_sound)
  moreover have "client_sound (client_sync_request ne tm)" for tm
    unfolding client_sync_request_def by (intro sound_rules)
  ultimately have "client_sound (client_update ne)"
    unfolding client_update_def
    by (intro sound_then sound_if_const triple_return client_primitives)
       (auto split: client_state.split intro!: sound_rules)
  then show "client_sound (client_tick ne)" unfolding client_tick_def by (rule client_lock_sound)
qed

end
