(* ===== verification/Obsr_Server_Sound.thy ===== *)
theory Obsr_Server_Sound
  imports Obsr_Io_Sound
begin

text \<open>
  The listening side and the connections of its clients: one that is idle has neither a socket nor clients,
  one that listens has a socket, and every connection of a client is sound. Every operation of the server keeps
  this, as long as closing a socket does not throw and opening one throws what its handler catches.
\<close>

section \<open>Triples\<close>

definition w_triple :: "(exn \<Rightarrow> 'w \<Rightarrow> bool) \<Rightarrow> ('w \<Rightarrow> bool) \<Rightarrow> ('w, 'x) world_op \<Rightarrow> ('w \<Rightarrow> bool) \<Rightarrow> bool" where
  "w_triple K A p B \<longleftrightarrow> (\<forall>w. A w \<longrightarrow> (case p w of (r, w') \<Rightarrow> (case r of Inl e \<Rightarrow> K e w' | Inr _ \<Rightarrow> B w')))"

lemma w_tripleD:
  assumes "w_triple K A p B" "A w" "p w = (r, w')"
  shows "case r of Inl e \<Rightarrow> K e w' | Inr _ \<Rightarrow> B w'"
  using assms(1) [unfolded w_triple_def, rule_format, OF assms(2)] assms(3) by simp

lemma w_tripleI:
  assumes "\<And>w r w'. A w \<Longrightarrow> p w = (r, w') \<Longrightarrow> case r of Inl e \<Rightarrow> K e w' | Inr _ \<Rightarrow> B w'"
  shows "w_triple K A p B"
  unfolding w_triple_def
proof (intro allI impI)
  fix w
  assume "A w"
  then show "case p w of (r, w') \<Rightarrow> (case r of Inl e \<Rightarrow> K e w' | Inr _ \<Rightarrow> B w')"
    using assms [of w "fst (p w)"] by (cases "p w") auto
qed

lemma w_triple_keeps: "w_triple (\<lambda>_. I) I p I \<longleftrightarrow> w_keeps I p"
proof
  show "w_triple (\<lambda>_. I) I p I \<Longrightarrow> w_keeps I p"
    by (rule w_keepsI) (auto dest: w_tripleD split: sum.splits)
  show "w_keeps I p \<Longrightarrow> w_triple (\<lambda>_. I) I p I"
    by (rule w_tripleI) (auto dest: w_keepsD split: sum.splits)
qed

lemma w_triple_then:
  assumes "w_triple K A p R" "\<And>x. w_triple K R (f x) B"
  shows "w_triple K A (w_then p f) B"
proof (rule w_tripleI)
  fix w r w'
  assume a: "A w" and e: "w_then p f w = (r, w')"
  obtain r1 w1 where 1: "p w = (r1, w1)" by (cases "p w")
  from w_tripleD [OF assms(1) a 1] e 1 w_tripleD [OF assms(2)]
  show "case r of Inl e \<Rightarrow> K e w' | Inr _ \<Rightarrow> B w'" by (cases r1) (auto simp: w_then_def)
qed

lemma w_triple_catch:
  assumes "w_triple E A p B" "\<And>e. handled e \<Longrightarrow> w_triple K (E e) (h e) B" "\<And>e w. \<not> handled e \<Longrightarrow> E e w \<Longrightarrow> K e w"
  shows "w_triple K A (w_catch handled p h) B"
proof (rule w_tripleI)
  fix w r w'
  assume a: "A w" and e: "w_catch handled p h w = (r, w')"
  obtain r1 w1 where 1: "p w = (r1, w1)" by (cases "p w")
  show "case r of Inl e \<Rightarrow> K e w' | Inr _ \<Rightarrow> B w'"
  proof (cases r1)
    case (Inl x)
    with w_tripleD [OF assms(1) a 1] e 1 w_tripleD [OF assms(2)] assms(3) show ?thesis
      by (cases "handled x") (auto simp: w_catch_def)
  next
    case (Inr y)
    with w_tripleD [OF assms(1) a 1] e 1 show ?thesis by (auto simp: w_catch_def)
  qed
qed

lemma w_triple_weaken: "w_triple K A p B \<Longrightarrow> (\<And>w. A' w \<Longrightarrow> A w) \<Longrightarrow> (\<And>w. B w \<Longrightarrow> B' w) \<Longrightarrow> w_triple K A' p B'"
  unfolding w_triple_def by (fastforce split: sum.splits)

lemma w_triple_modify: "(\<And>w. A w \<Longrightarrow> B (f w)) \<Longrightarrow> w_triple K A (w_modify f) B"
  by (simp add: w_triple_def w_modify_def)

lemma w_triple_return: "w_triple K A (w_return x) A"
  by (simp add: w_triple_def w_return_def)

lemma w_triple_throw: "(\<And>w. A w \<Longrightarrow> K e w) \<Longrightarrow> w_triple K A (w_throw e) B"
  by (simp add: w_triple_def w_throw_def)

lemma w_triple_ask: "w_triple K A (w_ask f) A"
  by (simp add: w_triple_def w_ask_def)

lemma w_triple_if: "w_triple K A p B \<Longrightarrow> w_triple K A q B \<Longrightarrow> w_triple K A (if b then p else q) B"
  by simp

section \<open>The listening side\<close>

definition listener_sound :: "('s, 'l) server_io \<Rightarrow> bool" where
  "listener_sound x \<longleftrightarrow>
     (if si_state x = sio_idle then si_socket x = None \<and> si_clients x = [] else si_socket x \<noteq> None) \<and>
     (\<forall>c\<in>set (si_clients x). connection_sound (ic_io (snd c)))"

abbreviation heard :: "('s, 'l, 'z) io_world_scheme \<Rightarrow> bool" where
  "heard w \<equiv> listener_sound (iw_io w)"

definition same_io :: "(('s, 'l, 'z) io_world_scheme, 'x) world_op \<Rightarrow> bool" where
  "same_io p \<longleftrightarrow> (\<forall>w. iw_io (snd (p w)) = iw_io w)"

lemma same_ioD: "same_io p \<Longrightarrow> p w = (r, w') \<Longrightarrow> iw_io w' = iw_io w"
  unfolding same_io_def by (metis snd_conv)

lemma same_io_heard: "same_io p \<Longrightarrow> w_keeps heard p"
  by (rule w_keepsI) (simp add: same_ioD)

lemma same_io_triple: "same_io p \<Longrightarrow> (\<And>w e. A (iw_io w) \<Longrightarrow> K e w) \<Longrightarrow> w_triple K (\<lambda>w. A (iw_io w)) p (\<lambda>w. A (iw_io w))"
  by (rule w_tripleI) (auto dest: same_ioD split: sum.split)

lemma heard_client: "heard w \<Longrightarrow> find_client i w = Some c \<Longrightarrow> connection_sound (ic_io c)"
  by (auto simp: listener_sound_def find_client_def dest!: map_of_SomeD)

lemma heard_put: "heard w \<Longrightarrow> connection_sound s \<Longrightarrow> heard (put_io i s w)"
  by (auto simp: listener_sound_def put_io_def)

text \<open>A server socket whose closing does not throw, and whose opening throws \<open>io_exception\<close>s only.\<close>

definition socket_throws :: "('s, 'l, 'w) server_env \<Rightarrow> bool" where
  "socket_throws env \<longleftrightarrow> (\<forall>l w. \<not> isl (fst (ss_close env l w))) \<and>
     (\<forall>w. pred_sum is_io_exception (\<lambda>_. True) (fst (ss_new env w))) \<and>
     (\<forall>l w. pred_sum is_io_exception (\<lambda>_. True) (fst (ss_reuseport env l w))) \<and>
     (\<forall>l w. pred_sum is_io_exception (\<lambda>_. True) (fst (ss_nonblocking env l w))) \<and>
     (\<forall>l port w. pred_sum is_io_exception (\<lambda>_. True) (fst (ss_bind env l port w))) \<and>
     (\<forall>l n w. pred_sum is_io_exception (\<lambda>_. True) (fst (ss_listen env l n w)))"

locale sound_server =
  fixes env :: "('s, 'l, ('s, 'l, 'z) io_world_scheme) server_env"
  assumes os_calls: "same_io (sk_new env)" "same_io (sk_reuseport env k)" "same_io (sk_nonblocking env k)"
      "same_io (sk_close env k)" "same_io (sk_connect env k info)" "same_io (sk_finalize env k)"
      "iw_io (snd (sk_read env k w n)) = iw_io w" "iw_io (snd (sk_write env k w xs)) = iw_io w"
      "same_io (lo_add env k ev)" "same_io (lo_remove env h)" "same_io (lo_request env h ev t)"
    and server_calls: "same_io (ss_new env)" "same_io (ss_reuseport env l)" "same_io (ss_nonblocking env l)"
      "same_io (ss_bind env l port)" "same_io (ss_listen env l m)" "same_io (ss_accept env l)"
      "same_io (ss_close env l)" "same_io (sl_add env l ev)"
    and callbacks: "w_keeps heard (scb_connect env i)" "w_keeps heard (scb_disconnect env i)" "w_keeps heard (scb_close env)"
      "w_keeps heard (scb_message env i header buf sz)"
begin

lemma callback_sound:
  assumes "w_keeps heard op"
  shows "sound heard (owner_callback i op)"
proof (rule soundI)
  fix s w r s' w'
  assume s: "connection_sound s" "heard w" and e: "owner_callback i op s w = (r, s', w')"
  obtain r1 w1 where 1: "op (put_io i s w) = (r1, w1)" by fastforce
  have "heard w1" using w_keepsD [OF assms heard_put [OF s(2,1)] 1] .
  with s(1) e 1 heard_client [of w1 i] show "heard w' \<and> connection_sound s'"
    by (auto simp: owner_callback_def split: option.splits)
qed

lemma connection: "sound_connection (io_client_env env i) heard"
  by unfold_locales (simp_all add: io_client_env_def callback_sound w_keeps_try callbacks os_calls(7,8)
      os_calls(1-6,9-11) [unfolded same_io_def, THEN spec])

lemma with_client_sound:
  assumes "sound heard op"
  shows "w_keeps heard (with_client i op)"
proof (rule w_keepsI)
  fix w r w'
  assume w: "heard w" and e: "with_client i op w = (r, w')"
  show "heard w'"
  proof (cases "find_client i w")
    case (Some c)
    obtain r1 s1 w1 where 1: "op (ic_io c) w = (r1, s1, w1)" by (metis prod_cases3)
    from soundD [OF assms heard_client [OF w Some] w 1] e Some 1 show ?thesis
      by (auto simp: with_client_def heard_put)
  qed (use w e in \<open>simp add: with_client_def\<close>)
qed

lemma socket_sound: "(\<And>k. same_io (g k)) \<Longrightarrow> same_io (on_server_socket g)"
  by (simp add: same_io_def on_server_socket_def split: option.split)

lemma erase_sound: "w_keeps heard (erase_client i)"
  by (auto simp: w_keeps_def erase_client_def listener_sound_def AList.delete_eq split: option.split)

lemmas pieces = os_calls(1-6,9-11) [THEN same_io_heard] server_calls [THEN same_io_heard] callbacks with_client_sound
  socket_sound [THEN same_io_heard]

lemma stop_clients_sound: "w_keeps heard (stop_clients env is)"
proof (induction "is")
  case (Cons i "is")
  have "w_keeps heard (on_io (\<lambda>x. x\<lparr>si_clients :=
      map (\<lambda>(j, c). (j, if j = i then c\<lparr>ic_closing := True\<rparr> else c)) (si_clients x)\<rparr>))"
    unfolding on_io_def by (rule w_keeps_modify) (auto simp: listener_sound_def)
  then show ?case
    by (auto intro!: w_rules pieces Cons sound_connection.io_stop_sound [OF connection])
qed (simp add: w_keeps_return)

lemma sio_stop_internal_sound:
  assumes "socket_throws env"
  shows "w_keeps heard (sio_stop_internal env notify_owner)"
proof -
  let ?K = "\<lambda>_. heard" and ?C = "\<lambda>w. heard w \<and> si_clients (iw_io w) = []"
    and ?D = "\<lambda>w. si_clients (iw_io w) = [] \<and> si_socket (iw_io w) = None"
  have handle: "w_keeps heard (on_io (\<lambda>x. x\<lparr>si_handle := h\<rparr>))" for h
    unfolding on_io_def by (rule w_keeps_modify) (simp add: listener_sound_def)
  have clear: "w_triple ?K heard clear_clients ?C"
    by (auto simp: w_triple_def clear_clients_def listener_sound_def)
  have close: "w_triple ?K ?C (w_try (w_then (on_server_socket (ss_close env)) (\<lambda>_. on_io (\<lambda>x. x\<lparr>si_socket := None\<rparr>)))) ?D"
  proof (rule w_tripleI)
    fix w r w'
    assume w: "?C w" and e: "w_try (w_then (on_server_socket (ss_close env)) (\<lambda>_. on_io (\<lambda>x. x\<lparr>si_socket := None\<rparr>))) w = (r, w')"
    show "case r of Inl e \<Rightarrow> heard w' | Inr _ \<Rightarrow> ?D w'"
    proof (cases "si_socket (iw_io w)")
      case None
      with w e show ?thesis by (auto simp: w_defs on_server_socket_def split: if_splits)
    next
      case (Some l)
      obtain r1 w1 where 1: "ss_close env l w = (r1, w1)" by fastforce
      from assms have "\<not> isl (fst (ss_close env l w))" by (simp add: socket_throws_def)
      with 1 same_ioD [OF server_calls(7) 1] w e Some show ?thesis
        by (cases r1) (auto simp: w_defs on_server_socket_def on_io_def)
    qed
  qed
  have idle: "w_triple ?K ?D (on_io (\<lambda>x. x\<lparr>si_state := sio_idle\<rparr>)) heard"
    unfolding on_io_def by (rule w_triple_modify) (simp add: listener_sound_def)
  have rest: "w_keeps heard (if notify_owner then w_try (scb_close env) else w_return ())"
    by (intro w_rules pieces)
  have detach: "w_keeps heard (w_try (if si_handle x \<noteq> empty_handle then
      w_then (lo_remove env (si_handle x)) (\<lambda>_. on_io (\<lambda>x. x\<lparr>si_handle := empty_handle\<rparr>)) else w_return ()))" for x
    by (intro w_rules pieces handle)
  have finish: "w_keeps heard (w_then clear_clients (\<lambda>_.
       w_then
         (w_try (w_then (on_server_socket (ss_close env)) (\<lambda>_. on_io (\<lambda>x. x\<lparr>si_socket := None\<rparr>)))) (\<lambda>_.
       w_then (on_io (\<lambda>x. x\<lparr>si_state := sio_idle\<rparr>)) (\<lambda>_.
       if notify_owner then w_try (scb_close env) else w_return ()))))"
    using w_triple_then [OF clear w_triple_then [OF close w_triple_then [OF idle rest [folded w_triple_keeps]]]]
    by (simp add: w_triple_keeps)
  show ?thesis
    unfolding sio_stop_internal_def by (intro w_rules detach stop_clients_sound finish)
qed

lemma sio_stop_sound: "socket_throws env \<Longrightarrow> w_keeps heard (sio_stop env)"
  unfolding sio_stop_def by (intro w_rules sio_stop_internal_sound)

lemma sio_start_sound:
  assumes t: "socket_throws env"
  shows "w_keeps heard (sio_start env port)"
proof -
  let ?K = "\<lambda>_. heard"
  let ?A = "\<lambda>x. si_state x = sio_idle \<and> si_clients x = [] \<and> si_socket x = None"
  let ?B = "\<lambda>x. si_state x = sio_idle \<and> si_clients x = [] \<and> si_socket x \<noteq> None"
  let ?E = "\<lambda>e w. is_io_exception e \<and> si_state (iw_io w) = sio_idle \<and> si_clients (iw_io w) = []"
  have call: "w_triple ?E (\<lambda>w. ?B (iw_io w)) (on_server_socket g) (\<lambda>w. ?B (iw_io w))"
    if "\<And>k. same_io (g k)" "\<And>k w. pred_sum is_io_exception (\<lambda>_. True) (fst (g k w))"
    for g :: "'l \<Rightarrow> (('s, 'l, 'z) io_world_scheme, unit) world_op"
  proof (rule w_tripleI)
    fix w r w'
    assume w: "?B (iw_io w)" and e: "on_server_socket g w = (r, w')"
    then obtain k where "g k w = (r, w')" by (auto simp: on_server_socket_def)
    with same_ioD [OF that(1) this] that(2) [of k w] w show "case r of Inl e \<Rightarrow> ?E e w' | Inr _ \<Rightarrow> ?B (iw_io w')"
      by (cases r) auto
  qed
  have new: "w_triple ?E (\<lambda>w. ?A (iw_io w)) (ss_new env) (\<lambda>w. ?A (iw_io w))"
  proof (rule w_tripleI)
    fix w r w'
    assume w: "?A (iw_io w)" and e: "ss_new env w = (r, w')"
    from t have "pred_sum is_io_exception (\<lambda>_. True) (fst (ss_new env w))" by (simp add: socket_throws_def)
    with e same_ioD [OF server_calls(1) e] w show "case r of Inl e \<Rightarrow> ?E e w' | Inr _ \<Rightarrow> ?A (iw_io w')"
      by (cases r) auto
  qed
  have set: "w_triple ?E (\<lambda>w. ?A (iw_io w)) (on_io (\<lambda>x. x\<lparr>si_socket := Some k\<rparr>)) (\<lambda>w. ?B (iw_io w))" for k
    unfolding on_io_def by (rule w_triple_modify) simp
  have attempt: "w_triple ?E (\<lambda>w. ?A (iw_io w)) (w_then (ss_new env) (\<lambda>k.
       w_then (on_io (\<lambda>x. x\<lparr>si_socket := Some k\<rparr>)) (\<lambda>_.
       w_then (on_server_socket (ss_reuseport env)) (\<lambda>_.
       w_then (on_server_socket (ss_nonblocking env)) (\<lambda>_.
       w_then (on_server_socket (\<lambda>k. ss_bind env k port)) (\<lambda>_.
       on_server_socket (\<lambda>k. ss_listen env k 2))))))) (\<lambda>w. ?B (iw_io w))"
    by (intro w_triple_then [OF new] w_triple_then [OF set] w_triple_then [OF call] call server_calls)
       (use t in \<open>simp_all add: socket_throws_def\<close>)
  let ?h = "\<lambda>e. w_then (ask_io si_socket) (\<lambda>k.
       w_then
         (if k \<noteq> None then w_then (on_server_socket (ss_close env)) (\<lambda>_. on_io (\<lambda>x. x\<lparr>si_socket := None\<rparr>))
          else w_return ()) (\<lambda>_.
       w_throw e)) :: (('s, 'l, 'z) io_world_scheme, unit) world_op"
  have handler: "w_triple ?K (?E e) (?h e) (\<lambda>w. ?B (iw_io w))" for e
  proof (rule w_tripleI)
    fix w r w'
    assume w: "?E e w" and e: "?h e w = (r, w')"
    show "case r of Inl e \<Rightarrow> heard w' | Inr _ \<Rightarrow> ?B (iw_io w')"
    proof (cases "si_socket (iw_io w)")
      case None
      with w e show ?thesis by (auto simp: w_defs ask_io_def listener_sound_def)
    next
      case (Some l)
      obtain r1 w1 where 1: "ss_close env l w = (r1, w1)" by fastforce
      from t have "\<not> isl (fst (ss_close env l w))" by (simp add: socket_throws_def)
      with 1 same_ioD [OF server_calls(7) 1] w e Some show ?thesis
        by (cases r1) (auto simp: w_defs ask_io_def on_io_def on_server_socket_def listener_sound_def)
    qed
  qed
  have ask: "w_then (ask_io si_state) f w = f (si_state (iw_io w)) w" for f :: "_ \<Rightarrow> (('s, 'l, 'z) io_world_scheme, unit) world_op" and w
    by (simp add: w_then_def ask_io_def w_ask_def)
  have opened: "w_triple ?K (\<lambda>w. ?B (iw_io w)) (on_io (\<lambda>x. x\<lparr>si_state := sio_open\<rparr>)) heard"
    unfolding on_io_def by (rule w_triple_modify) (simp add: listener_sound_def)
  have handle: "w_keeps heard (on_io (\<lambda>x. x\<lparr>si_handle := h\<rparr>))" for h
    unfolding on_io_def by (rule w_keeps_modify) (simp add: listener_sound_def)
  have register: "w_keeps heard (w_then (on_server_socket (\<lambda>k. sl_add env k ev)) (\<lambda>h. on_io (\<lambda>x. x\<lparr>si_handle := h\<rparr>)))" for ev
    by (intro w_rules handle pieces server_calls)
  have clear: "w_triple ?K (\<lambda>w. ?A (iw_io w)) clear_clients (\<lambda>w. ?A (iw_io w))"
    by (auto simp: w_triple_def clear_clients_def listener_sound_def)
  have nxt: "w_triple ?K (\<lambda>w. ?A (iw_io w)) (on_io (\<lambda>x. x\<lparr>si_next := 0\<rparr>)) (\<lambda>w. ?A (iw_io w))"
    unfolding on_io_def by (rule w_triple_modify) simp
  note start = w_triple_then [OF clear w_triple_then [OF nxt
      w_triple_then [OF w_triple_catch [where handled = is_io_exception, OF attempt handler] w_triple_then [OF opened register [of "event_hung OR event_error OR event_in", folded w_triple_keeps]]]]]
  show ?thesis
  proof (rule w_keepsI)
    fix w r w'
    assume w: "heard w" and e: "sio_start env port w = (r, w')"
    show "heard w'"
    proof (cases "si_state (iw_io w) = sio_idle")
      case True
      with w have "?A (iw_io w)" by (simp add: listener_sound_def)
      note ends = w_tripleD [OF start this, where r = r and w' = w']
      have "case r of Inl e \<Rightarrow> heard w' | Inr _ \<Rightarrow> heard w'"
        by (rule ends, blast) (use e in \<open>simp only: sio_start_def ask True simp_thms if_False\<close>)
      then show ?thesis by (cases r) simp_all
    qed (use w e in \<open>simp add: sio_start_def ask_io_def w_defs\<close>)
  qed
qed

lemma write_to_sound: "w_keeps heard (write_to env i t buffer)"
  unfolding write_to_def [abs_def]
  by (intro w_rules pieces sound_connection.io_write_sound [OF connection])

lemma sio_on_read_ready_sound:
  assumes fresh: "connection_sound (ic_io fresh)"
  shows "w_keeps heard (sio_on_read_ready env fresh)"
proof (rule w_keepsI)
  fix w r w'
  assume w: "heard w" and e: "sio_on_read_ready env fresh w = (r, w')"
  let ?O = "\<lambda>w. heard w \<and> si_state (iw_io w) \<noteq> sio_idle"
  have nxt: "w_triple (\<lambda>_. heard) ?O (on_io (\<lambda>x. x\<lparr>si_next := i\<rparr>)) ?O" for i
    unfolding on_io_def by (rule w_triple_modify) (simp add: listener_sound_def)
  have add: "w_triple (\<lambda>_. heard) ?O (on_io (\<lambda>x. x\<lparr>si_clients := si_clients x @ [(i, fresh)]\<rparr>)) heard" for i
    unfolding on_io_def by (rule w_triple_modify) (use fresh in \<open>auto simp: listener_sound_def\<close>)
  have connect: "w_keeps heard (w_then (with_client i (start_with (io_client_env env i) socket True)) (\<lambda>_.
      w_try (scb_connect env i)))" for i socket
    by (intro w_rules pieces sound_connection.start_with_sound [OF connection])
  have pre: "w_triple (\<lambda>_. heard) ?O p heard" if "w_keeps heard p" for p :: "(('s, 'l, 'z) io_world_scheme, unit) world_op"
    by (rule w_triple_weaken [OF that [folded w_triple_keeps]]) auto
  have "w_triple (\<lambda>_. heard) ?O (w_then (on_io (\<lambda>x. x\<lparr>si_next := i + 1\<rparr>)) (\<lambda>_.
     w_then (w_ask (find_client i)) (\<lambda>old.
     if old \<noteq> None then sk_close env socket
     else
       w_then (on_io (\<lambda>x. x\<lparr>si_clients := si_clients x @ [(i, fresh)]\<rparr>)) (\<lambda>_.
       w_then (with_client i (start_with (io_client_env env i) socket True)) (\<lambda>_.
       w_try (scb_connect env i)))))) heard" for i socket
    by (intro w_triple_then [OF nxt] w_triple_then [OF w_triple_ask] w_triple_if pre [OF same_io_heard [OF os_calls(4)]]
        w_triple_then [OF add connect [folded w_triple_keeps]])
  then have accepted: "w_triple (\<lambda>_. heard) ?O (w_catch is_io_exception
      (w_then (on_io (\<lambda>x. x\<lparr>si_next := i + 1\<rparr>)) (\<lambda>_.
       w_then (w_ask (find_client i)) (\<lambda>old.
       if old \<noteq> None then sk_close env socket
       else
         w_then (on_io (\<lambda>x. x\<lparr>si_clients := si_clients x @ [(i, fresh)]\<rparr>)) (\<lambda>_.
         w_then (with_client i (start_with (io_client_env env i) socket True)) (\<lambda>_.
         w_try (scb_connect env i))))))
      (\<lambda>e. if i \<noteq> invalid_client_id then erase_client i else w_return ())) heard" for i socket
    by (rule w_triple_catch) (simp_all add: w_triple_keeps erase_sound w_keeps_return)
  obtain r1 w1 where 1: "on_server_socket (ss_accept env) w = (r1, w1)" by fastforce
  have same: "iw_io w1 = iw_io w" using same_ioD [OF socket_sound 1] server_calls(6) by blast
  show "heard w'"
  proof (cases r1)
    case (Inl x)
    with 1 e same w show ?thesis by (auto simp: sio_on_read_ready_def Let_def)
  next
    case (Inr socket)
    with 1 have "si_socket (iw_io w) \<noteq> None" by (auto simp: on_server_socket_def split: option.splits)
    with w same have "?O w1" by (auto simp: listener_sound_def split: if_splits)
    from w_tripleD [OF accepted this, of "si_next (iw_io w)" socket r w'] 1 e Inr show ?thesis
      by (cases r) (auto simp: sio_on_read_ready_def Let_def)
  qed
qed

lemma sio_event_sound:
  "socket_throws env \<Longrightarrow> connection_sound (ic_io fresh) \<Longrightarrow> w_keeps heard (sio_event env fresh ev)"
  unfolding sio_event_def [abs_def] sio_on_hung_or_error_def
  by (intro w_rules sio_stop_internal_sound sio_on_read_ready_sound)

lemma sio_client_event_sound:
  assumes "sio_client_event env i ev w = Some (r, w')" "heard w"
  shows "heard w'"
proof (cases "find_client i w")
  case (Some c)
  with assms(1) obtain s1 w1 where 1: "io_event (io_client_env env i) ev (ic_io c) w = Some (r, s1, w1)"
    "w' = put_io i s1 w1" by (auto simp: sio_client_event_def split: option.splits)
  from sound_connection.io_event_sound [OF connection 1(1) heard_client [OF assms(2) Some] assms(2)] 1(2)
  show ?thesis by (simp add: heard_put)
qed (use assms in \<open>simp add: sio_client_event_def\<close>)

end

section \<open>The server\<close>

named_theorems heard_rules

lemma server_same: "same_io (on_server f)" "same_io (ask_server g)" "same_io (server_out c)" "same_io (server_times ne)"
  "same_io (server_now r)" "same_io (server_storage op)" "same_io (on_store op)" "same_io (server_parse t buf sz)"
  by (simp_all add: same_io_def server_helpers server_parse_def lift_call_def w_modify_def w_ask_def case_prod_beta)

lemmas heard_same [heard_rules] = server_same [THEN same_io_heard]

lemma heard_invoke [heard_rules]: "w_keeps heard (invoke_store op)"
  unfolding invoke_store_def [abs_def] by (intro w_rules heard_rules)

lemma heard_lock [heard_rules]:
  assumes "w_keeps heard p"
  shows "w_keeps heard (server_lock p)"
proof (rule w_keepsI)
  fix w r w'
  assume w: "heard w" and e: "server_lock p w = (r, w')"
  let ?w = "w\<lparr>sw_server := (sw_server w)\<lparr>ns_locked := True\<rparr>\<rparr>"
  obtain r1 w1 where 1: "p ?w = (r1, w1)" by (cases "p ?w")
  from w_keepsD [OF assms _ 1] w e 1 show "heard w'"
    by (auto simp: server_lock_def split: if_splits)
qed

lemma heard_helpers [heard_rules]: "w_keeps heard (assign_id_to_entry name)"
  "w_keeps heard (enqueue_message_for_clients m i)" "w_keeps heard (publish_and_update_entry_for_clients e name v t i)"
  "w_keeps heard (handle_do_handshake_for_client ne i)" "w_keeps heard (server_on_connect block i)"
  "w_keeps heard (server_on_disconnect i)" "w_keeps heard server_on_close"
  unfolding assign_id_to_entry_def enqueue_message_for_clients_def publish_and_update_entry_for_clients_def Let_def
    handle_do_handshake_for_client_def server_on_connect_def server_on_disconnect_def server_on_close_def
  by (intro w_rules heard_rules)+

lemma server_calls_sound:
  assumes "\<And>i header buf sz. w_keeps heard (on_message i header buf sz)"
  shows "sound_server (server_calls ne block on_message)"
  by unfold_locales
    (simp_all add: server_calls_def heard_rules assms server_same same_io_def [THEN iffD1, OF server_same(3), rule_format])

interpretation server_own_sound: sound_server "server_calls ne block (\<lambda>_ _ _ _. w_return ())"
  for ne :: "('s, 'l, 'o) net_server_env" and block
  by (rule server_calls_sound) (rule w_keeps_return)

lemma heard_destination: "heard w \<Longrightarrow> heard (snd (client_destination ne block i t b w))"
  unfolding client_destination_def by (rule w_keeps_snd [OF server_own_sound.write_to_sound])

lemma heard_on_queue:
  assumes "\<And>q w. heard w \<Longrightarrow> heard (snd (snd (f q w)))"
  shows "w_keeps heard (on_client_queue i f)"
proof (rule w_keepsI)
  fix w r w'
  assume w: "heard w" and e: "on_client_queue i f w = (r, w')"
  show "heard w'"
  proof (cases "map_of (ns_clients (sw_server w)) i")
    case (Some c)
    obtain r1 q w1 where 1: "f (sc_queue c) w = (r1, q, w1)" by (metis prod_cases3)
    have "heard w1" using assms [OF w, of "sc_queue c"] 1 by simp
    with e Some 1 show ?thesis by (auto simp: on_client_queue_def split: if_splits)
  qed (use w e in \<open>simp add: on_client_queue_def\<close>)
qed

lemma heard_queue_ops [heard_rules]:
  "w_keeps heard (enqueue_message_for_client ne block i m flags)"
  "w_keeps heard (on_client_queue i (mq_process (client_destination ne block i)))"
proof -
  have "heard (snd (snd (enqueue (client_destination ne block i) m flags q w)))" if "heard w" for q w
  proof -
    obtain r q' w' where "enqueue (client_destination ne block i) m flags q w = (r, q', w')" by (metis prod_cases3)
    with enqueue_keeps [where I = heard, OF heard_destination that this] show ?thesis by simp
  qed
  then show "w_keeps heard (enqueue_message_for_client ne block i m flags)"
    unfolding enqueue_message_for_client_def by (rule heard_on_queue)
  have "heard (snd (snd (mq_process (client_destination ne block i) q w)))" if "heard w" for q w
    using drain_keeps [where I = heard, OF heard_destination that]
    by (auto simp: mq_process_def split: prod.split)
  then show "w_keeps heard (on_client_queue i (mq_process (client_destination ne block i)))"
    by (rule heard_on_queue)
qed

lemma heard_message [heard_rules]: "w_keeps heard (server_on_message ne block i header buf sz)"
proof -
  have "w_keeps heard (server_dispatch ne block i t d)" for t d
    unfolding server_dispatch_def by (cases t; simp only: message_type.case; intro w_rules heard_rules)
  then show ?thesis unfolding server_on_message_def Let_def by (intro w_rules heard_rules)
qed

interpretation server_run_sound: sound_server "server_env_of ne block"
  for ne :: "('s, 'l, 'o) net_server_env" and block
  unfolding server_env_of_def by (rule server_calls_sound) (rule heard_message)

lemma heard_update_entry: "heard w \<Longrightarrow> heard (snd (snd (update_entry ne d (st, w))))"
proof -
  assume w: "heard w"
  let ?p = "w_then
      (if se_net_id d = id_not_assigned then assign_id_to_entry (se_path d) else w_return (se_net_id d)) (\<lambda>i.
    w_then (if has_flags flag_internal_deleted d then server_times ne else w_return (\<lambda>_. 0)) (\<lambda>tm.
    w_then (server_now (tm 0)) (\<lambda>now.
    w_then (on_server (\<lambda>n. n\<lparr>ns_clients :=
        map (\<lambda>(j, c). (j, send_update i (se_path d) (update_message now i d) c)) (ns_clients n)\<rparr>)) (\<lambda>_.
    w_return True))))"
  have "w_keeps heard ?p" by (intro w_rules heard_rules)
  from w_keeps_snd [OF this, of "w\<lparr>sw_storage := st\<rparr>"] w show ?thesis
    by (auto simp: update_entry_def split: prod.split)
qed

lemma heard_process_dirty [heard_rules]: "w_keeps heard (process_dirty ne)"
proof (rule w_keepsI)
  fix w r w'
  assume w: "heard w" and e: "process_dirty ne w = (r, w')"
  let ?J = "\<lambda>sw. heard (snd sw)"
  have "?J (snd (act_on_dirty_entries (update_entry ne) (sw_storage w, w)))"
    unfolding act_on_dirty_entries_def
    by (rule act_on_keeps) (use w in \<open>auto simp: heard_update_entry\<close>)
  with w e show "heard w'" by (auto simp: process_dirty_def split: if_splits prod.splits)
qed

lemma heard_process_updates [heard_rules]: "w_keeps heard (server_process_updates ne block)"
proof -
  have "w_keeps heard (update_clients ne block is)" for "is"
    by (induction "is") (auto intro!: w_rules heard_rules)
  then show ?thesis unfolding server_process_updates_def by (intro w_rules heard_rules)
qed

text \<open>The server socket of the outside.\<close>

definition listening_throws :: "('s, 'l, 'o) net_server_env \<Rightarrow> bool" where
  "listening_throws ne \<longleftrightarrow> (\<forall>l k. \<not> isl (fst (so_close ne l k))) \<and>
     (\<forall>k. pred_sum is_io_exception (\<lambda>_. True) (fst (so_new ne k))) \<and>
     (\<forall>l k. pred_sum is_io_exception (\<lambda>_. True) (fst (so_reuseport ne l k))) \<and>
     (\<forall>l k. pred_sum is_io_exception (\<lambda>_. True) (fst (so_nonblocking ne l k))) \<and>
     (\<forall>l port k. pred_sum is_io_exception (\<lambda>_. True) (fst (so_bind ne l port k))) \<and>
     (\<forall>l n k. pred_sum is_io_exception (\<lambda>_. True) (fst (so_listen ne l n k)))"

lemma server_socket_throws: "listening_throws ne \<Longrightarrow> socket_throws (server_env_of ne block)"
  by (simp add: listening_throws_def socket_throws_def server_env_of_def server_calls_def server_out_def lift_call_def
      case_prod_beta)

lemma server_ops_heard:
  "w_keeps heard (server_attach_storage present)" "w_keeps heard (configure_bind port)" "w_keeps heard (server_start ne)"
  "listening_throws ne \<Longrightarrow> w_keeps heard (server_stop_request ne block)"
  "listening_throws ne \<Longrightarrow> w_keeps heard (server_update ne block)"
proof -
  show "w_keeps heard (server_attach_storage present)" "w_keeps heard (configure_bind port)" "w_keeps heard (server_start ne)"
    unfolding server_attach_storage_def configure_bind_def server_start_def by (intro w_rules heard_rules)+
  assume t: "listening_throws ne"
  show "w_keeps heard (server_stop_request ne block)"
    unfolding server_stop_request_def
    by (intro w_rules heard_rules server_run_sound.sio_stop_sound server_socket_throws t)
  have "w_keeps heard (do_open ne block)"
    unfolding do_open_def
    by (intro w_rules heard_rules server_run_sound.sio_start_sound server_run_sound.sio_stop_sound server_socket_throws t)
  note opens = this
  show "w_keeps heard (server_update ne block)"
    unfolding server_update_def
    by (rule w_keeps_then [OF heard_same(2)], split server_state.split, intro conjI impI)
      (intro w_rules heard_rules opens)+
qed

end
