(* ===== verification/Obsr_Teardown.thy ===== *)
theory Obsr_Teardown
  imports Obsr_Library Obsr_Server_Sound
begin

text \<open>
  The end of a network: when the instance drops it, the destructors of its connections abort the process
  unless they have been stopped. A stop that can stop the timer of the network stops all its connections,
  whatever the calls on the sockets throw; one that cannot leaves them as they are.
\<close>

section \<open>Stopping a connection\<close>

text \<open>A call that throws exceptions at most, and keeps a predicate of the world.\<close>

definition may_throw :: "('w \<Rightarrow> bool) \<Rightarrow> ('w \<Rightarrow> (exn + 'x) \<times> 'w) \<Rightarrow> bool" where
  "may_throw I g \<longleftrightarrow> (\<forall>w. I w \<longrightarrow> pred_sum catchable (\<lambda>_. True) (fst (g w)) \<and> I (snd (g w)))"

lemma may_throwE:
  assumes "may_throw I g" "I w"
  obtains r w' where "g w = (r, w')" "pred_sum catchable (\<lambda>_. True) r" "I w'"
  using assms unfolding may_throw_def by (metis prod.collapse)

lemma io_stop_stops:
  assumes "connection_sound s" "I w" "\<And>h. may_throw I (lo_remove env h)" "\<And>k. may_throw I (sk_close env k)"
  shows "\<exists>s' w'. io_stop env s w = (Inr (), s', w') \<and> so_state s' = io_idle \<and> I w'"
proof (cases "so_state s = io_idle")
  case False
  then obtain k where k: "so_socket s = Some k" using assms(1) by (auto simp: connection_sound_def)
  let ?p1 = "io_try (\<lambda>s w.
     if so_handle s \<noteq> empty_handle then
       io_then (on_handle (lo_remove env)) (\<lambda>_. io_modify (\<lambda>s. s\<lparr>so_handle := empty_handle\<rparr>)) s w
     else (Inr (), s, w))"
  have 1: "\<exists>s1 w1. ?p1 s w = (Inr (), s1, w1) \<and> so_socket s1 = Some k \<and> I w1"
  proof (cases "so_handle s = empty_handle")
    case False
    obtain r w1 where "lo_remove env (so_handle s) w = (r, w1)" "pred_sum catchable (\<lambda>_. True) r" "I w1"
      using may_throwE [OF assms(3,2)] .
    with False k show ?thesis by (cases r) (auto simp: io_defs)
  qed (use k assms(2) in \<open>simp add: io_defs\<close>)
  then obtain s1 w1 where s1: "?p1 s w = (Inr (), s1, w1)" "so_socket s1 = Some k" "I w1" by blast
  let ?p2 = "io_try (io_then (on_socket (sk_close env)) (\<lambda>_. io_modify (\<lambda>s. s\<lparr>so_socket := None\<rparr>)))"
  obtain r w2 where "sk_close env k w1 = (r, w2)" "pred_sum catchable (\<lambda>_. True) r" "I w2"
    using may_throwE [OF assms(4) s1(3)] .
  with s1(2) obtain s2 where s2: "?p2 s1 w1 = (Inr (), s2, w2)" "I w2" by (cases r) (auto simp: io_defs)
  have "io_stop env s w = (Inr (), s2\<lparr>so_state := io_idle\<rparr>, w2)"
    using False s1(1) s2(1) by (simp add: io_stop_def stop_internal_def io_then_def io_modify_def io_return_def)
  with s2(2) show ?thesis by simp
qed (use assms(2) in \<open>simp add: io_stop_def\<close>)

section \<open>Stopping the listening side\<close>

text \<open>A call that leaves the connections alone.\<close>

definition outside_call :: "(('s, 'l, 'z) io_world_scheme \<Rightarrow> bool) \<Rightarrow>
    (('s, 'l, 'z) io_world_scheme \<Rightarrow> (exn + 'x) \<times> ('s, 'l, 'z) io_world_scheme) \<Rightarrow> bool" where
  "outside_call I g \<longleftrightarrow> (\<forall>x. may_throw (\<lambda>w. I w \<and> iw_io w = x) g)"

lemma outside_callE:
  assumes "outside_call I g" "I w"
  obtains r w' where "g w = (r, w')" "pred_sum catchable (\<lambda>_. True) r" "I w'" "iw_io w' = iw_io w"
  using assms may_throwE [of "\<lambda>w'. I w' \<and> iw_io w' = iw_io w" g w] unfolding outside_call_def by blast

definition closing_calls ::
  "('s, 'l, ('s, 'l, 'z) io_world_scheme) server_env \<Rightarrow> (('s, 'l, 'z) io_world_scheme \<Rightarrow> bool) \<Rightarrow> bool" where
  "closing_calls env I \<longleftrightarrow>
     (\<forall>w x. I w \<longrightarrow> I (w\<lparr>iw_io := x\<rparr>)) \<and> (\<forall>h. outside_call I (lo_remove env h)) \<and>
     (\<forall>k. outside_call I (sk_close env k)) \<and> (\<forall>l. outside_call I (ss_close env l))"

lemma closing_callsD:
  assumes "closing_calls env I"
  shows "I w \<Longrightarrow> I (w\<lparr>iw_io := x\<rparr>)" "outside_call I (lo_remove env h)" "outside_call I (sk_close env k)"
    "outside_call I (ss_close env l)"
  using assms by (simp_all add: closing_calls_def)

lemma stop_client:
  assumes env: "closing_calls env I" and w: "I w" and c: "find_client i w = Some c" "connection_sound (ic_io c)"
  shows "\<exists>s w'. with_client i (io_stop (io_client_env env i)) w = (Inr (), put_io i s w') \<and>
     so_state s = io_idle \<and> I w' \<and> iw_io w' = iw_io w"
proof -
  let ?I = "\<lambda>w'. I w' \<and> iw_io w' = iw_io w" and ?env = "io_client_env env i"
  have "may_throw ?I (lo_remove ?env h)" "may_throw ?I (sk_close ?env k)" for h k
    using closing_callsD(2,3) [OF env] by (simp_all add: io_client_env_def outside_call_def)
  then obtain s w' where "io_stop ?env (ic_io c) w = (Inr (), s, w')" "so_state s = io_idle" "?I w'"
    using io_stop_stops [of "ic_io c" ?I w ?env] w c(2) by blast
  with c(1) show ?thesis by (auto simp: with_client_def)
qed

text \<open>The clients that are still to be stopped, and those that have been.\<close>

definition stopped_but :: "u16 set \<Rightarrow> (u16 \<times> 's io_client) list \<Rightarrow> bool" where
  "stopped_but A cs \<longleftrightarrow> A \<subseteq> fst ` set cs \<and>
     (\<forall>(j, c)\<in>set cs. connection_sound (ic_io c) \<and> (j \<notin> A \<longrightarrow> so_state (ic_io c) = io_idle))"

lemma stopped_but_map:
  assumes "stopped_but A cs" "\<And>j c. (j, c) \<in> set cs \<Longrightarrow> connection_sound (ic_io (f j c)) \<and>
      (j \<notin> B \<longrightarrow> so_state (ic_io c) = io_idle \<or> j \<in> A \<longrightarrow> so_state (ic_io (f j c)) = io_idle)" "B \<subseteq> A"
  shows "stopped_but B (map (\<lambda>(j, c). (j, f j c)) cs)"
  using assms unfolding stopped_but_def by (fastforce simp: image_image case_prod_beta)

lemma stop_clients_stops:
  assumes env: "closing_calls env I" and "I w" "stopped_but (set is) (si_clients (iw_io w))"
  shows "\<exists>w' cs. stop_clients env is w = (Inr (), w') \<and> I w' \<and> iw_io w' = (iw_io w)\<lparr>si_clients := cs\<rparr> \<and>
     stopped_but {} cs"
  using assms(2-)
proof (induction "is" arbitrary: w)
  case Nil
  then show ?case by (auto simp: w_return_def intro!: exI [of _ "si_clients (iw_io w)"])
next
  case (Cons i "is")
  note io_free = closing_callsD(1) [OF env]
  let ?cs = "map (\<lambda>(j, c). (j, if j = i then c\<lparr>ic_closing := True\<rparr> else c)) (si_clients (iw_io w))"
  let ?w = "w\<lparr>iw_io := (iw_io w)\<lparr>si_clients := ?cs\<rparr>\<rparr>"
  have cs: "stopped_but (set (i # is)) ?cs"
    using Cons.prems(2) by (rule stopped_but_map) (use Cons.prems(2) in \<open>auto simp: stopped_but_def\<close>)
  then have "i \<in> fst ` set ?cs" by (simp add: stopped_but_def)
  then obtain c where c: "find_client i ?w = Some c"
    by (cases "map_of ?cs i") (simp_all add: find_client_def map_of_eq_None_iff)
  from map_of_SomeD [OF this [unfolded find_client_def]] cs have "connection_sound (ic_io c)"
    by (auto simp: stopped_but_def)
  from stop_client [OF env io_free [OF Cons.prems(1)] c this] obtain s w1 where
    1: "with_client i (io_stop (io_client_env env i)) ?w = (Inr (), put_io i s w1)"
      "so_state s = io_idle" "I w1" "iw_io w1 = iw_io ?w" by blast
  let ?w1 = "put_io i s w1" and ?cs1 = "map (\<lambda>(j, c). (j, if j = i then c\<lparr>ic_io := s\<rparr> else c)) ?cs"
  have io: "iw_io ?w1 = (iw_io w)\<lparr>si_clients := ?cs1\<rparr>" using 1(4) by (simp add: put_io_def)
  have "stopped_but (set is) ?cs1" using cs
    by (rule stopped_but_map) (use cs 1(2) in \<open>auto simp: stopped_but_def connection_sound_def\<close>)
  then have w1: "stopped_but (set is) (si_clients (iw_io ?w1))" unfolding io by (simp del: map_map)
  have "I ?w1" unfolding put_io_def by (rule io_free [OF 1(3)])
  from Cons.IH [OF this w1] obtain w' cs' where "stop_clients env is ?w1 = (Inr (), w')" "I w'"
    "iw_io w' = (iw_io ?w1)\<lparr>si_clients := cs'\<rparr>" "stopped_but {} cs'" by blast
  then show ?case
    using 1(1) by (auto simp: w_then_def w_try_def w_catch_def on_io_def w_modify_def io intro!: exI [of _ cs'])
qed

lemma sio_stop_stops:
  assumes env: "closing_calls env I" and w: "I w" "listener_sound (iw_io w)"
  shows "\<exists>w'. sio_stop env w = (Inr (), w') \<and> I w' \<and> si_state (iw_io w') = sio_idle \<and> si_clients (iw_io w') = []"
proof (cases "si_state (iw_io w) = sio_idle")
  case False
  note io_free = closing_callsD(1) [OF env]
  let ?x = "iw_io w"
  let ?p1 = "w_try (if si_handle ?x \<noteq> empty_handle then
      w_then (lo_remove env (si_handle ?x)) (\<lambda>_. on_io (\<lambda>x. x\<lparr>si_handle := empty_handle\<rparr>)) else w_return ())"
  have "\<exists>w1 h. ?p1 w = (Inr (), w1) \<and> I w1 \<and> iw_io w1 = ?x\<lparr>si_handle := h\<rparr>"
  proof (cases "si_handle ?x = empty_handle")
    case True
    then show ?thesis using w(1) by (auto simp: w_defs intro!: exI [of _ "si_handle ?x"])
  next
    case h: False
    obtain r w1 where "lo_remove env (si_handle ?x) w = (r, w1)" "pred_sum catchable (\<lambda>_. True) r" "I w1"
      "iw_io w1 = ?x" using outside_callE [OF closing_callsD(2) [OF env] w(1)] .
    with h show ?thesis
      by (cases r) (auto simp: w_defs on_io_def io_free intro: exI [of _ "si_handle ?x"])
  qed
  then obtain w1 h where 1: "?p1 w = (Inr (), w1)" "I w1" "iw_io w1 = ?x\<lparr>si_handle := h\<rparr>" by blast
  have "stopped_but (set (map fst (si_clients ?x))) (si_clients (iw_io w1))"
    using w(2) 1(3) by (auto simp: listener_sound_def stopped_but_def intro: rev_image_eqI)
  from stop_clients_stops [OF env 1(2) this] obtain w2 cs where
    2: "stop_clients env (map fst (si_clients ?x)) w1 = (Inr (), w2)" "I w2"
      "iw_io w2 = (iw_io w1)\<lparr>si_clients := cs\<rparr>" "stopped_but {} cs" by blast
  let ?w3 = "w2\<lparr>iw_io := (iw_io w2)\<lparr>si_clients := []\<rparr>\<rparr>"
  have 3: "clear_clients w2 = (Inr (), ?w3)" using 2(3,4) by (auto simp: clear_clients_def stopped_but_def)
  obtain l where l: "si_socket (iw_io ?w3) = Some l"
    using w(2) False 1(3) 2(3) by (auto simp: listener_sound_def)
  let ?p4 = "w_try (w_then (on_server_socket (ss_close env)) (\<lambda>_. on_io (\<lambda>x. x\<lparr>si_socket := None\<rparr>)))"
  obtain r w4 where c: "ss_close env l ?w3 = (r, w4)" "pred_sum catchable (\<lambda>_. True) r" "I w4" "iw_io w4 = iw_io ?w3"
    using outside_callE [OF closing_callsD(4) [OF env] io_free [OF 2(2)]] .
  then obtain w5 where 5: "?p4 ?w3 = (Inr (), w5)" "I w5" "si_clients (iw_io w5) = []"
    using l by (cases r) (auto simp: w_defs on_server_socket_def on_io_def io_free)
  have "sio_stop env w = (Inr (), w5\<lparr>iw_io := (iw_io w5)\<lparr>si_state := sio_idle\<rparr>\<rparr>)"
    using False 1 2(1) 3 5(1)
    by (simp add: sio_stop_def sio_stop_internal_def ask_io_def w_then_def w_ask_def w_return_def on_io_def w_modify_def)
  with 5 show ?thesis by (simp add: io_free)
qed (use w in \<open>simp add: sio_stop_def ask_io_def w_defs listener_sound_def\<close>)

section \<open>Stopping the network of the instance\<close>

text \<open>What removing and closing may throw is caught.\<close>

definition quiet_closing :: "('s, 'l, 'c, 'o) host_env \<Rightarrow> bool" where
  "quiet_closing env \<longleftrightarrow> (\<forall>h. may_throw (\<lambda>_. True) (lo_remove (he_net env) h)) \<and>
     (\<forall>k. may_throw (\<lambda>_. True) (sk_close (he_net env) k)) \<and> (\<forall>l. may_throw (\<lambda>_. True) (so_close (he_net env) l))"

fun network_sound :: "('s, 'l) network \<Rightarrow> bool" where
  "network_sound (nw_client io n) = connection_sound io"
| "network_sound (nw_server io n) = listener_sound io"

lemma may_throw_lift:
  assumes "may_throw (\<lambda>_. True) g" "\<And>k w. I w \<Longrightarrow> I (put k w)"
  shows "may_throw I (lift_call get put g)"
  using assms by (auto simp: may_throw_def lift_call_def split: prod.split) (metis fst_conv)

lemma client_calls_close:
  fixes env :: "('s, 'l, 'c, 'o) host_env"
  assumes "quiet_closing env" "\<And>k (w :: ('c, 'o) client_world). I (w\<lparr>cw_out := k\<rparr>) = I w"
  shows "may_throw I (lo_remove (client_calls (net_env.truncate (he_net env))) h)"
    "may_throw I (sk_close (client_calls (net_env.truncate (he_net env))) k)"
  using assms by (auto simp: client_calls_def lift_env_def quiet_closing_def net_env.defs intro!: may_throw_lift)

lemma server_calls_close:
  fixes env :: "('s, 'l, 'c, 'o) host_env"
  assumes "quiet_closing env" "\<And>k x (w :: ('s, 'l, 'c, 'o) server_world). I (w\<lparr>sw_out := k\<rparr>) = I w \<and> I (w\<lparr>iw_io := x\<rparr>) = I w"
  shows "closing_calls (server_env_of (he_net env) block) I"
  using assms by (auto simp: closing_calls_def outside_call_def server_env_of_def server_calls_def server_out_def
      quiet_closing_def intro!: may_throw_lift)

text \<open>The looper lets the update timer go, or there is none; or it refuses.\<close>

definition timer_stops :: "('s, 'l, 'c, 'o) host_env \<Rightarrow> handle \<Rightarrow> 'o \<Rightarrow> bool" where
  "timer_stops env t k \<longleftrightarrow> t = empty_handle \<or> \<not> isl (fst (ne_stop_timer (he_net env) t k))"

text \<open>What the request does that a stop hands to the looper, and then the stop as a whole.\<close>

lemma client_request_stops:
  fixes env :: "('s, 'l, 'c, 'o) host_env" and w :: "('c, 'o) client_world"
  assumes q: "quiet_closing env" and c: "\<not> nc_locked (cw_client w)" "connection_sound s"
    and t: "pred_sum catchable (\<lambda>_. True) (fst (ne_stop_timer (he_net env) (nc_timer_handle (cw_client w)) (cw_out w)))"
  shows "\<exists>r s' w'. client_stop_request (net_env.truncate (he_net env)) s w = (r, s', w') \<and>
     pred_sum catchable (\<lambda>_. True) r \<and> \<not> nc_locked (cw_client w') \<and>
     so_state s' = (if timer_stops env (nc_timer_handle (cw_client w)) (cw_out w) then io_idle else so_state s)"
proof -
  let ?ne = "net_env.truncate (he_net env)" and ?h = "nc_timer_handle (cw_client w)"
  let ?w = "w\<lparr>cw_client := (cw_client w)\<lparr>nc_locked := True\<rparr>\<rparr>"
  obtain r k where rk: "ne_stop_timer (he_net env) ?h (cw_out w) = (r, k)" by fastforce
  show ?thesis
  proof (cases "timer_stops env ?h (cw_out w)")
    case True
    define w1 where "w1 = (if ?h = empty_handle then ?w else
      ?w\<lparr>cw_out := k, cw_client := (cw_client ?w)\<lparr>nc_timer_handle := empty_handle\<rparr>\<rparr>)"
    obtain s' w' where "io_stop (client_calls ?ne) s w1 = (Inr (), s', w')" "so_state s' = io_idle"
      using io_stop_stops [OF c(2), of "\<lambda>_. True" w1, OF TrueI client_calls_close [OF q, of "\<lambda>_. True"]] by auto
    with True c(1) rk show ?thesis
      by (cases r) (auto simp: client_stop_request_def client_run timer_stops_def w1_def net_env.defs)
  next
    case False
    with c(1) rk t show ?thesis
      by (cases r) (auto simp: client_stop_request_def client_run timer_stops_def net_env.defs)
  qed
qed

lemma server_request_stops:
  fixes env :: "('s, 'l, 'c, 'o) host_env" and w :: "('s, 'l, 'c, 'o) server_world"
  assumes q: "quiet_closing env" and c: "\<not> ns_locked (sw_server w)" "heard w"
    and t: "pred_sum catchable (\<lambda>_. True) (fst (ne_stop_timer (he_net env) (ns_timer_handle (sw_server w)) (sw_out w)))"
  shows "\<exists>r w'. server_stop_request (he_net env) block w = (r, w') \<and> pred_sum catchable (\<lambda>_. True) r \<and>
     \<not> ns_locked (sw_server w') \<and>
     (if timer_stops env (ns_timer_handle (sw_server w)) (sw_out w)
      then si_state (iw_io w') = sio_idle \<and> si_clients (iw_io w') = [] else iw_io w' = iw_io w)"
proof -
  let ?ne = "he_net env" and ?h = "ns_timer_handle (sw_server w)"
  let ?w = "w\<lparr>sw_server := (sw_server w)\<lparr>ns_locked := True\<rparr>\<rparr>"
  obtain r k where rk: "ne_stop_timer ?ne ?h (sw_out w) = (r, k)" by fastforce
  show ?thesis
  proof (cases "timer_stops env ?h (sw_out w)")
    case True
    define w1 where "w1 = (if ?h = empty_handle then ?w else
      ?w\<lparr>sw_out := k, sw_server := (sw_server ?w)\<lparr>ns_timer_handle := empty_handle\<rparr>\<rparr>)"
    have "heard w1" using c(2) by (simp add: w1_def)
    then obtain w' where "sio_stop (server_env_of ?ne block) w1 = (Inr (), w')"
      "si_state (iw_io w') = sio_idle" "si_clients (iw_io w') = []"
      using sio_stop_stops [OF server_calls_close [OF q, of "\<lambda>_. True"] TrueI, of w1 block] by auto
    with True c(1) rk show ?thesis
      by (cases r) (auto simp: server_stop_request_def server_run server_out_def timer_stops_def w1_def)
  next
    case False
    with c(1) rk t show ?thesis
      by (cases r) (auto simp: server_stop_request_def server_run server_out_def timer_stops_def)
  qed
qed

text \<open>A looper that lets every timer go.\<close>

definition timers_stop :: "('s, 'l, 'c, 'o) host_env \<Rightarrow> bool" where
  "timers_stop env \<longleftrightarrow> (\<forall>t k. \<not> isl (fst (ne_stop_timer (he_net env) t k)))"

lemma timers_stopD:
  assumes "timers_stop env"
  shows "timer_stops env t k" "pred_sum catchable (\<lambda>_. True) (fst (ne_stop_timer (he_net env) t k))"
proof -
  have *: "\<not> isl (fst (ne_stop_timer (he_net env) t k))" using assms by (simp add: timers_stop_def)
  then show "timer_stops env t k" by (simp add: timer_stops_def)
  from * show "pred_sum catchable (\<lambda>_. True) (fst (ne_stop_timer (he_net env) t k))"
    by (cases "fst (ne_stop_timer (he_net env) t k)") auto
qed

lemma client_stop_outcome:
  fixes env :: "('s, 'l, 'c, 'o) host_env" and w :: "('c, 'o) client_world"
  assumes env: "quiet_closing env" "timers_stop env" and m: "m s w = (Inr (), s1, w1)" "connection_sound s1"
    and e: "client_stop (net_env.truncate (he_net env)) m s w = (r, s', w')"
  shows "r = Inr () \<and> so_state s' = io_idle \<or> r = Inl (Illegal_state ''not running'') \<and> s' = s \<or> r = Inl Deadlock"
proof (cases "nc_locked (cw_client w) \<or> nc_state (cw_client w) = cs_idle")
  case True
  with e show ?thesis by (auto simp: client_stop_def client_run split: if_splits)
next
  case False
  let ?ne = "net_env.truncate (he_net env)"
  have unlocked: "w\<lparr>cw_client := (cw_client w)\<lparr>nc_locked := False\<rparr>\<rparr> = w" using False by (cases w; cases "cw_client w") simp
  show ?thesis
  proof (cases "nc_locked (cw_client w1)")
    case True
    then have "client_stop_request ?ne s1 w1 = (Inl Deadlock, s1, w1)"
      by (simp add: client_stop_request_def client_run)
    with False m(1) e show ?thesis
      by (simp add: client_stop_def client_run io_try_def io_catch_def unlocked catchable_def)
  next
    case c: False
    from client_request_stops [OF env(1) c m(2) timers_stopD(2) [OF env(2)]] timers_stopD(1) [OF env(2)]
    obtain r2 s2 w2 where "client_stop_request ?ne s1 w1 = (r2, s2, w2)" "pred_sum catchable (\<lambda>_. True) r2"
      "\<not> nc_locked (cw_client w2)" "so_state s2 = io_idle" by auto
    with False m(1) e show ?thesis
      by (cases r2) (auto simp: client_stop_def client_run io_try_def io_catch_def unlocked)
  qed
qed

lemma server_stop_outcome:
  fixes env :: "('s, 'l, 'c, 'o) host_env" and w :: "('s, 'l, 'c, 'o) server_world"
  assumes env: "quiet_closing env" "timers_stop env" and m: "m w = (Inr (), w1)" "heard w1"
    and e: "server_stop (he_net env) block m w = (r, w')"
  shows "r = Inr () \<and> si_state (iw_io w') = sio_idle \<and> si_clients (iw_io w') = [] \<or>
     r = Inl (Illegal_state ''not running'') \<and> iw_io w' = iw_io w \<or> r = Inl Deadlock"
proof (cases "ns_locked (sw_server w) \<or> ns_state (sw_server w) = ss_idle")
  case True
  with e show ?thesis by (auto simp: server_stop_def server_run split: if_splits)
next
  case False
  have unlocked: "w\<lparr>sw_server := (sw_server w)\<lparr>ns_locked := False\<rparr>\<rparr> = w" using False by (cases w; cases "sw_server w") simp
  show ?thesis
  proof (cases "ns_locked (sw_server w1)")
    case True
    then have "server_stop_request (he_net env) block w1 = (Inl Deadlock, w1)"
      by (simp add: server_stop_request_def server_run)
    with False m(1) e show ?thesis
      by (simp add: server_stop_def server_run w_try_def w_catch_def unlocked catchable_def)
  next
    case c: False
    from server_request_stops [OF env(1) c m(2) timers_stopD(2) [OF env(2)], of block] timers_stopD(1) [OF env(2)]
    obtain r2 w2 where "server_stop_request (he_net env) block w1 = (r2, w2)" "pred_sum catchable (\<lambda>_. True) r2"
      "\<not> ns_locked (sw_server w2)" "si_state (iw_io w2) = sio_idle" "si_clients (iw_io w2) = []" by auto
    with False m(1) e show ?thesis
      by (cases r2) (auto simp: server_stop_def server_run w_try_def w_catch_def unlocked)
  qed
qed

section \<open>Every run is sound\<close>

lemma client_turn_sound: "client_sound (client_turn ne t)"
  by (rule soundI; cases t)
     (auto split: option.splits dest: client_run_sound.io_event_sound soundD [OF client_ops_sound(5) _ TrueI])

lemma client_turns_sound:
  assumes "connection_sound s"
  obtains s' w' where "client_turns ne ts s w = (Inr (), s', w')" "connection_sound s'"
proof -
  have "\<exists>s' w'. client_turns ne ts s w = (Inr (), s', w') \<and> connection_sound s'"
    using assms
  proof (induction ts arbitrary: s w)
    case (Cons t ts)
    obtain r s1 w1 where 1: "client_turn ne t s w = (r, s1, w1)" by (metis prod_cases3)
    from Cons.IH soundD [OF client_turn_sound Cons.prems TrueI 1] 1 show ?case by auto
  qed simp
  with that show thesis by blast
qed

lemma server_turn_heard:
  assumes "listening_throws (he_net env)"
  shows "w_keeps heard (server_turn env t)"
proof (rule w_keepsI)
  fix w r w'
  assume w: "heard w" and e: "server_turn env t w = (r, w')"
  have fresh: "connection_sound (ic_io (io_client_new junk block block'))" for junk block block'
    by (simp add: io_client_new_def socket_io_new_def connection_sound_def)
  show "heard w'"
  proof (cases t)
    case Update
    with e w_keepsD [OF server_ops_heard(5) [OF assms] w] show ?thesis by simp
  next
    case (Event ev)
    with e w_keepsD [OF server_run_sound.sio_event_sound [OF server_socket_throws [OF assms] fresh] w] show ?thesis by simp
  next
    case (Client_event i ev)
    with e w server_run_sound.sio_client_event_sound [OF _ w] show ?thesis by (auto split: option.splits)
  qed
qed

lemma server_turns_heard:
  assumes "listening_throws (he_net env)" "heard w"
  obtains w' where "server_turns env ts w = (Inr (), w')" "heard w'"
proof -
  have "\<exists>w'. server_turns env ts w = (Inr (), w') \<and> heard w'"
    using assms(2)
  proof (induction ts arbitrary: w)
    case (Cons t ts)
    obtain r w1 where 1: "server_turn env t w = (r, w1)" by fastforce
    from Cons.IH w_keepsD [OF server_turn_heard [OF assms(1)] Cons.prems 1] 1 show ?case by auto
  qed simp
  with that show thesis by blast
qed

text \<open>What one may assume of the outside: nothing refuses to close, and opening fails as the handlers expect.\<close>

definition calm_outside :: "('s, 'l, 'c, 'o) host_env \<Rightarrow> bool" where
  "calm_outside env \<longleftrightarrow> quiet_closing env \<and> timers_stop env \<and> listening_throws (he_net env) \<and>
     (\<forall>t. may_throw (\<lambda>_. True) (ne_create_timer (he_net env) t))"

lemma meanwhile_calm: "calm_outside (meanwhile ts env) = calm_outside env"
  by (simp add: calm_outside_def meanwhile_def quiet_closing_def timers_stop_def)

lemma virtual_call_sound:
  assumes "client_sound cop" "w_keeps heard sop" "network_sound n" "virtual_call cop sop n h = (r, n', h')"
  shows "network_sound n'"
proof (cases n)
  case (nw_client io c)
  let ?w = "\<lparr>cw_client = c, cw_storage = nh_storage h, cw_out = nh_out h\<rparr>"
  obtain r1 io1 w1 where 1: "cop io ?w = (r1, io1, w1)" by (metis prod_cases3)
  from soundD [OF assms(1) _ TrueI 1] assms(3,4) nw_client 1 show ?thesis by auto
next
  case (nw_server io c)
  let ?w = "\<lparr>iw_io = io, sw_server = c, sw_storage = nh_storage h, sw_out = nh_out h\<rparr>"
  obtain r1 w1 where 1: "sop ?w = (r1, w1)" by fastforce
  from w_keepsD [OF assms(2) _ 1] assms(3,4) nw_server 1 show ?thesis by auto
qed

lemma idle_destroyed: "si_state x = sio_idle \<Longrightarrow> si_clients x = [] \<Longrightarrow> server_io_destroy x = Inr ()"
  by (simp add: server_io_destroy_def)

text \<open>A stop returns with connections that can be destroyed, refuses, or waits for ever.\<close>

lemma ni_stop_outcome:
  assumes env: "calm_outside env" and n: "network_sound n" and e: "ni_stop (meanwhile ts env) n h = (r, n', h')"
  shows "r = Inr () \<and> network_destroy n' = Inr () \<or>
     r = Inl (Illegal_state ''not running'') \<and> network_sound n' \<and> network_destroy n' = network_destroy n \<or>
     r = Inl Deadlock"
proof (cases n)
  case (nw_client io c)
  let ?w = "\<lparr>cw_client = c, cw_storage = nh_storage h, cw_out = nh_out h\<rparr>"
  let ?ne = "net_env.truncate (he_net env)"
  obtain s1 w1 where m: "client_turns ?ne ts io ?w = (Inr (), s1, w1)" "connection_sound s1"
    using client_turns_sound [of io ?ne ts ?w] n nw_client by auto
  obtain r1 io1 w2 where 1: "client_stop ?ne (client_turns ?ne ts) io ?w = (r1, io1, w2)" by (metis prod_cases3)
  from client_stop_outcome [OF _ _ m 1] env e 1 n nw_client show ?thesis
    by (auto simp: calm_outside_def ni_stop_def meanwhile_def socket_io_destroy_def)
next
  case (nw_server io c)
  let ?w = "\<lparr>iw_io = io, sw_server = c, sw_storage = nh_storage h, sw_out = nh_out h\<rparr>"
  have l: "listening_throws (he_net env)" using env by (simp add: calm_outside_def)
  obtain w1 where m: "server_turns env ts ?w = (Inr (), w1)" "heard w1"
    using server_turns_heard [OF l, of ?w ts] n nw_server by auto
  obtain r1 w2 where 1: "server_stop (he_net env) (he_block env) (server_turns env ts) ?w = (r1, w2)" by fastforce
  from server_stop_outcome [OF _ _ m 1] env e 1 n nw_server show ?thesis
    by (auto simp: calm_outside_def ni_stop_def meanwhile_def idle_destroyed)
qed

definition host_sound :: "('s, 'l, 'c, 'o) net_host \<Rightarrow> bool" where
  "host_sound h \<longleftrightarrow> (\<forall>n. nh_network h = Some n \<longrightarrow> network_sound n)"

text \<open>What comes before a stop leaves the connection alone.\<close>

lemma network_calls_calm:
  assumes "calm_outside env"
  shows "ni_attach_storage n h = (r, n', h') \<Longrightarrow>
      r \<noteq> Inl Assertion_failed \<and> network_sound n' = network_sound n \<and> network_destroy n' = network_destroy n"
    and "ni_start env n h = (r, n', h') \<Longrightarrow>
      r \<noteq> Inl Assertion_failed \<and> network_sound n' = network_sound n \<and> network_destroy n' = network_destroy n"
    and "virtual_call (\<lambda>io w. (Inl Undefined_behaviour, io, w)) (configure_bind port) n h = (r, n', h') \<Longrightarrow>
      r \<noteq> Inl Assertion_failed \<and> network_sound n' = network_sound n \<and> network_destroy n' = network_destroy n"
    and "virtual_call (configure_target info) (\<lambda>w. (Inl Undefined_behaviour, w)) n h = (r, n', h') \<Longrightarrow>
      r \<noteq> Inl Assertion_failed \<and> network_sound n' = network_sound n \<and> network_destroy n' = network_destroy n"
proof -
  have timer: "ne_create_timer (he_net env) t k \<noteq> (Inl Assertion_failed, k')" for t k k'
  proof
    assume "ne_create_timer (he_net env) t k = (Inl Assertion_failed, k')"
    moreover have "pred_sum catchable (\<lambda>_. True) (fst (ne_create_timer (he_net env) t k))"
      using assms by (simp add: calm_outside_def may_throw_def)
    ultimately show False by (simp add: catchable_def)
  qed
  show "ni_attach_storage n h = (r, n', h') \<Longrightarrow>
      r \<noteq> Inl Assertion_failed \<and> network_sound n' = network_sound n \<and> network_destroy n' = network_destroy n"
    by (cases n) (auto simp: ni_attach_storage_def client_attach_storage_def server_attach_storage_def client_run server_run
        split: if_splits)
  show "ni_start env n h = (r, n', h') \<Longrightarrow>
      r \<noteq> Inl Assertion_failed \<and> network_sound n' = network_sound n \<and> network_destroy n' = network_destroy n"
    using timer by (cases n) (auto simp: ni_start_def client_start_def server_start_def client_run server_run net_env.defs
        split: if_splits sum.splits prod.splits)
  show "virtual_call (\<lambda>io w. (Inl Undefined_behaviour, io, w)) (configure_bind port) n h = (r, n', h') \<Longrightarrow>
      r \<noteq> Inl Assertion_failed \<and> network_sound n' = network_sound n \<and> network_destroy n' = network_destroy n"
    by (cases n) (auto simp: configure_bind_def server_run split: if_splits)
  show "virtual_call (configure_target info) (\<lambda>w. (Inl Undefined_behaviour, w)) n h = (r, n', h') \<Longrightarrow>
      r \<noteq> Inl Assertion_failed \<and> network_sound n' = network_sound n \<and> network_destroy n' = network_destroy n"
    by (cases n) (auto simp: configure_target_def client_run split: if_splits)
qed

text \<open>The operations of the instance on its network.\<close>

lemma stop_network_sound:
  fixes h :: "('s, 'l, 'c, 'o) net_host"
  assumes env: "calm_outside env" and h: "host_sound h" and e: "stop_network (meanwhile ts env) h = (r, h')"
  shows "r \<noteq> Inl Assertion_failed \<and> (r = Inr () \<longrightarrow> nh_network h' = None)"
proof (cases "nh_network h")
  case (Some n)
  obtain r1 n1 h1 where 1: "ni_stop (meanwhile ts env) n h = (r1, n1, h1)" by (metis prod_cases3)
  have "network_sound n" using h Some by (simp add: host_sound_def)
  from ni_stop_outcome [OF env this 1] show ?thesis
    using e 1 Some by (auto simp: stop_network_def stop_net_def destroyed_def)
qed (use e h in \<open>auto simp: stop_network_def\<close>)

lemma virtual_call_network:
  "virtual_call cop sop n h = (r, n', h') \<Longrightarrow> nh_network h' = nh_network h"
  by (cases n) (auto split: prod.splits)

lemma start_network_sound:
  fixes h :: "('s, 'l, 'c, 'o) net_host"
  assumes env: "calm_outside env" and h: "host_sound h" and e: "start_network (meanwhile ts env) n configure h = (r, h')"
    and n: "network_sound n" "network_destroy n = Inr ()"
    and c: "\<And>r n' h'. configure n h = (r, n', h') \<Longrightarrow> nh_network h' = nh_network h"
       "\<And>r n' h'. configure n h = (r, n', h') \<Longrightarrow>
        r \<noteq> Inl Assertion_failed \<and> network_sound n' = network_sound n \<and> network_destroy n' = network_destroy n"
  shows "r \<noteq> Inl Assertion_failed \<and> host_sound h'"
proof (cases "nh_network h = None")
  case True
  let ?env = "meanwhile ts env"
  have env': "calm_outside ?env" using env by (simp add: meanwhile_calm)
  obtain r1 n1 h1 where 1: "configure n h = (r1, n1, h1)" by (metis prod_cases3)
  obtain r2 n2 h2 where 2: "ni_attach_storage n1 h1 = (r2, n2, h2)" by (metis prod_cases3)
  obtain r3 n3 h3 where 3: "ni_start ?env n2 h2 = (r3, n3, h3)" by (metis prod_cases3)
  note ok = c(2) [OF 1] network_calls_calm(1) [OF env' 2] network_calls_calm(2) [OF env' 3]
  note none = c(1) [OF 1] virtual_call_network [OF 2 [unfolded ni_attach_storage_def]]
    virtual_call_network [OF 3 [unfolded ni_start_def]]
  obtain r4 n4 h4 where 4: "(case configure n h of (Inl e, n, h) \<Rightarrow> (Inl e, n, h)
      | (Inr _, n, h) \<Rightarrow> start_net ?env n h) = (r4, n4, h4)" by (rule prod_cases3)
  then have ok4: "r4 \<noteq> Inl Assertion_failed" "network_sound n4" "network_destroy n4 = Inr ()" "nh_network h4 = None"
    using ok none n True 1 2 3 by (cases r1; cases r2; auto simp: start_net_def)+
  obtain r5 n5 h5 where 5: "ni_stop ?env n4 h4 = (r5, n5, h5)" by (metis prod_cases3)
  from ni_stop_outcome [OF env ok4(2) 5] virtual_call_network [OF 5 [unfolded ni_stop_def]] ok4 5 e True show ?thesis
    unfolding start_network_def 4
    by (cases r4) (auto simp: stop_net_def destroyed_def host_sound_def catchable_def split: if_splits)
qed (use e h in \<open>auto simp: start_network_def\<close>)

lemma starts_sound:
  fixes h :: "('s, 'l, 'c, 'o) net_host"
  assumes env: "calm_outside env" and h: "host_sound h"
  shows "start_server (meanwhile ts env) port h = (r, h') \<Longrightarrow> r \<noteq> Inl Assertion_failed \<and> host_sound h'"
    and "start_client (meanwhile ts env) address port h = (r, h') \<Longrightarrow> r \<noteq> Inl Assertion_failed \<and> host_sound h'"
proof -
  show "start_server (meanwhile ts env) port h = (r, h') \<Longrightarrow> r \<noteq> Inl Assertion_failed \<and> host_sound h'"
    unfolding start_server_def
    by (erule start_network_sound [OF env h _ _ _ _ network_calls_calm(3) [OF env]])
       (auto simp: server_io_new_def listener_sound_def server_io_destroy_def simp del: virtual_call.simps
         dest: virtual_call_network)
  show "start_client (meanwhile ts env) address port h = (r, h') \<Longrightarrow> r \<noteq> Inl Assertion_failed \<and> host_sound h'"
    unfolding start_client_def
    by (erule start_network_sound [OF env h _ _ _ _ network_calls_calm(4) [OF env]])
       (auto simp: socket_io_new_def connection_sound_def socket_io_destroy_def simp del: virtual_call.simps
         dest: virtual_call_network)
qed

lemma client_stop_sound: "client_sound m \<Longrightarrow> client_sound (client_stop ne m)"
  unfolding client_stop_def by (intro sound_rules client_ops_sound)

lemma server_stop_heard: "listening_throws ne \<Longrightarrow> w_keeps heard m \<Longrightarrow> w_keeps heard (server_stop ne block m)"
  unfolding server_stop_def by (intro w_rules heard_rules server_ops_heard)

lemma turns_sound:
  "client_sound (client_turns ne ts)" "listening_throws (he_net env) \<Longrightarrow> w_keeps heard (server_turns env ts)"
proof -
  show "client_sound (client_turns ne ts)"
    by (rule soundI) (metis client_turns_sound prod.inject)
  assume l: "listening_throws (he_net env)"
  show "w_keeps heard (server_turns env ts)"
    by (rule w_keepsI) (metis server_turns_heard [OF l] prod.inject)
qed

lemma host_ops_sound:
  fixes h :: "('s, 'l, 'c, 'o) net_host"
  assumes env: "calm_outside env" and h: "host_sound h"
  shows "host_sound (snd (start_server (meanwhile ts env) port h))"
    and "host_sound (snd (start_client (meanwhile ts env) address port h))"
    and "host_sound (snd (stop_network (meanwhile ts env) h))"
    and "host_sound (snd (looper_turn env t h))"
proof -
  have l: "listening_throws (he_net env)" using env by (simp add: calm_outside_def)
  show "host_sound (snd (stop_network (meanwhile ts env) h))"
  proof (cases "nh_network h")
    case (Some n)
    obtain r n' h' where 1: "ni_stop (meanwhile ts env) n h = (r, n', h')" by (metis prod_cases3)
    have "network_sound n'"
      by (rule virtual_call_sound [OF _ _ _ 1 [unfolded ni_stop_def]])
         (use h Some l in \<open>simp_all add: host_sound_def meanwhile_def client_stop_sound server_stop_heard turns_sound\<close>)
    with Some 1 show ?thesis
      by (cases r; cases "network_destroy n'") (auto simp: stop_network_def stop_net_def host_sound_def destroyed_def)
  qed (use h in \<open>simp add: stop_network_def\<close>)
  show "host_sound (snd (looper_turn env t h))"
  proof (cases "nh_network h")
    case (Some n)
    obtain r n' h' where 1: "virtual_call (client_turn (net_env.truncate (he_net env)) t) (server_turn env t) n h =
        (r, n', h')" by (metis prod_cases3)
    have "network_sound n'"
      by (rule virtual_call_sound [OF client_turn_sound server_turn_heard [OF l] _ 1]) (use h Some in \<open>simp add: host_sound_def\<close>)
    with Some 1 show ?thesis by (simp add: looper_turn_def host_sound_def)
  qed (use h in \<open>simp add: looper_turn_def\<close>)
  show "host_sound (snd (start_server (meanwhile ts env) port h))" "host_sound (snd (start_client (meanwhile ts env) address port h))"
    using starts_sound [OF env h prod.collapse [symmetric]] by blast+
qed

text \<open>The library.\<close>

definition library_sound :: "('s, 'l, 'c, 'o) library \<Rightarrow> bool" where
  "library_sound lib \<longleftrightarrow> (\<forall>n. lib_network lib = Some n \<longrightarrow> network_sound n)"

lemma library_sound_ops:
  "library_sound (snd (on_instance op lib)) = library_sound lib"
  "library_sound (snd (delivery_turn oob lib)) = library_sound lib"
  "library_sound (lib\<lparr>lib_out := k\<rparr>) = library_sound lib"
  "library_sound lib = host_sound (host_of lib)"
  by (simp_all add: library_sound_def on_instance_def delivery_turn_def host_of_def host_sound_def Let_def case_prod_beta)

lemma on_host_sound:
  assumes "library_sound lib" "\<And>h. host_sound h \<Longrightarrow> host_sound (snd (op h))"
  shows "library_sound (snd (on_host op lib))"
proof -
  have "host_sound (snd (op (host_of lib)))" using assms by (simp add: library_sound_ops(4))
  then show ?thesis by (auto simp: on_host_def library_sound_def host_sound_def split: prod.splits)
qed

lemma library_reach_sound:
  assumes "library_reach env lib" "calm_outside env"
  shows "library_sound lib"
  using assms(1)
proof (induction rule: library_reach.induct)
  case (loaded k)
  then show ?case by (simp add: library_sound_def library_new_def)
qed (simp_all add: api_get_object_def api_get_entry_def api_get_child_def api_get_entry_in_def api_delete_object_def
    api_delete_entry_def api_set_value_def api_clear_value_def api_listen_object_def api_listen_entry_def
    api_delete_listener_def api_start_server_def api_start_client_def api_stop_network_def library_sound_ops(1-3)
    on_host_sound host_ops_sound assms(2))

lemma api_stop_outcome:
  fixes lib :: "('s, 'l, 'c, 'o) library"
  assumes env: "calm_outside env" and lib: "library_sound lib" and e: "api_stop_network (meanwhile ts env) lib = (r, lib')"
  shows "r = Inr () \<and> lib_network lib' = None \<or> r = Inl (Illegal_state ''not running'') \<or> r = Inl Deadlock"
proof -
  obtain r' h' where h: "stop_network (meanwhile ts env) (host_of lib) = (r', h')" by fastforce
  then have r: "r' = r" "lib_network lib' = nh_network h'" using e by (auto simp: api_stop_network_def on_host_def)
  show ?thesis
  proof (cases "nh_network (host_of lib)")
    case (Some n)
    obtain r1 n1 h1 where 1: "ni_stop (meanwhile ts env) n (host_of lib) = (r1, n1, h1)" by (metis prod_cases3)
    have "network_sound n" using lib Some by (simp add: library_sound_def host_of_def)
    from ni_stop_outcome [OF env this 1] h r 1 Some show ?thesis
      by (auto simp: stop_network_def stop_net_def destroyed_def)
  qed (use h r in \<open>auto simp: stop_network_def\<close>)
qed

text \<open>
  C10 In no run of the library does starting or stopping the network abort the process, although the destructors
  of the connections abort when they have not been stopped: whatever the looper does while a stop waits for it, and
  whatever the sockets throw, a stop that returns has stopped the connection of the client, or the listening
  socket and the connections of all clients, and leaves the instance without a network; otherwise it refuses because
  the network does not run, or waits for ever. This takes a looper that lets timers go, a server socket whose
  closing does not throw, and calls that throw exceptions the code handles.
\<close>

theorem network_never_aborts:
  assumes "library_reach env lib" and "calm_outside env"
  shows "fst (api_start_server (meanwhile ts env) port lib) \<noteq> Inl Assertion_failed \<and>
     fst (api_start_client (meanwhile ts env) address port lib) \<noteq> Inl Assertion_failed \<and>
     (case api_stop_network (meanwhile ts env) lib of (r, lib') \<Rightarrow>
        r = Inr () \<and> lib_network lib' = None \<or> r = Inl (Illegal_state ''not running'') \<or> r = Inl Deadlock)"
proof -
  note lib = library_reach_sound [OF assms]
  then have h: "host_sound (host_of lib)" by (simp add: library_sound_ops(4))
  note starts = starts_sound(1) [OF assms(2) h prod.collapse [symmetric]] starts_sound(2) [OF assms(2) h prod.collapse [symmetric]]
  have "fst (on_host op lib) = fst (op (host_of lib))" for op :: "('a, 'b, 'c, 'd, unit) host_op"
    by (simp add: on_host_def split: prod.split)
  with starts api_stop_outcome [OF assms(2) lib] show ?thesis
    by (simp add: api_start_server_def api_start_client_def split: prod.split)
qed

text \<open>A client that is connecting when it is stopped.\<close>

lemma sample_tick_connects:
  fixes w :: "('c, unit) client_world"
  assumes "\<not> nc_locked (cw_client w)" "nc_state (cw_client w) = cs_opening" "so_state s = io_idle"
    "nc_retry (cw_client w) = timer_stop timer_new" "nc_sync (cw_client w) = timer_stop timer_new"
  shows "\<exists>s' w'. client_tick (net_env.truncate sample_network) s w = (Inr (), s', w') \<and> so_state s' = io_connecting"
  using assms by (simp add: client_tick_def client_update_def client_sync_request_def do_open_and_connect_def io_start_def
      start_with_def io_connect_def client_calls_def lift_env_def io_defs client_run sample_network_def net_env.defs
      timer_due_def timer_waits_def timer_stop_def timer_new_def timer_is_running_def)

theorem network_never_aborts_witness:
  "\<exists>lib io n lib'. library_reach sample_host_env lib \<and> lib_network lib = Some (nw_client io n) \<and> so_state io = io_connecting \<and>
     fst (api_stop_network (meanwhile [] sample_host_env) lib) \<noteq> Inl Assertion_failed"
proof -
  let ?env = "meanwhile [] sample_host_env" and ?new = "library_new () :: (nat, nat, string, unit) library"
  let ?started = "snd (api_start_client ?env ''10.0.0.2'' 5000 ?new)"
  let ?lib = "snd (on_host (looper_turn sample_host_env Update) ?started)"
  have r: "library_reach sample_host_env ?lib"
    by (intro library_reach.looper library_reach.start_client library_reach.loaded)
  have "start_client ?env ''10.0.0.2'' 5000 (host_of ?new) = (Inr (), started_client ?env ''10.0.0.2'' 5000 0 () (host_of ?new))"
    by (intro start_client_starts) (simp_all add: meanwhile_def sample_host_env_def sample_network_def host_of_def library_new_def)
  then have "lib_network ?started = nh_network (started_client ?env ''10.0.0.2'' 5000 0 () (host_of ?new))"
    by (simp add: api_start_client_def on_host_def)
  then obtain io n where n: "nh_network (host_of ?started) = Some (nw_client io n)" "so_state io = io_idle" "\<not> nc_locked n"
      "nc_state n = cs_opening" "nc_retry n = timer_stop timer_new" "nc_sync n = timer_stop timer_new"
    by (simp add: started_client_def host_of_def socket_io_new_def net_client_new_def)
  let ?w = "\<lparr>cw_client = n, cw_storage = nh_storage (host_of ?started), cw_out = nh_out (host_of ?started)\<rparr>"
  obtain s' w' where t: "client_tick (net_env.truncate sample_network) io ?w = (Inr (), s', w')" "so_state s' = io_connecting"
    using sample_tick_connects [of ?w io] n by auto
  then have c: "lib_network ?lib = Some (nw_client s' (cw_client w'))"
    using n(1) by (simp add: on_host_def looper_turn_def sample_host_env_def)
  have calm: "calm_outside sample_host_env"
    by (simp add: calm_outside_def quiet_closing_def timers_stop_def listening_throws_def may_throw_def sample_host_env_def
        sample_network_def)
  obtain res lib' where stop: "api_stop_network ?env ?lib = (res, lib')" by fastforce
  have "res \<noteq> Inl Assertion_failed" using network_never_aborts [OF r calm, of "[]"] unfolding stop by auto
  with stop have "fst (api_stop_network ?env ?lib) \<noteq> Inl Assertion_failed" by simp
  with r c t(2) show ?thesis by blast
qed

text \<open>
  With a looper that refuses to stop the timer the request ends there: the connection is left running, and the
  destructor aborts. That \<open>stop_timer\<close> can refuse a timer that exists is shown in \<open>Obsr_Timer_Props\<close>.
\<close>

lemma refused_timer_aborts:
  assumes "nh_network h = Some (nw_client io n)" "\<not> nc_locked n" "nc_state n \<noteq> cs_idle" "so_state io \<noteq> io_idle"
    and "nc_timer_handle n \<noteq> empty_handle" "ne_stop_timer (he_net env) (nc_timer_handle n) (nh_out h) = (Inl e, k)" "catchable e"
    and "he_client_meanwhile env = io_return ()"
  shows "fst (stop_network env h) = Inl Assertion_failed"
proof -
  have unlocked: "n\<lparr>nc_locked := False\<rparr> = n" using assms(2) by (cases n) simp
  show ?thesis
    using assms by (simp add: stop_network_def stop_net_def ni_stop_def client_stop_def client_stop_request_def client_run
        io_try_def io_catch_def net_env.defs unlocked destroyed_def socket_io_destroy_def)
qed

end
