(* ===== verification/Spec2Isabelle.thy ===== *)
theory Spec2Isabelle
  imports Obsr_IO_Props Obsr_Protocol Obsr_Handles Obsr_Time Obsr_Listeners Obsr_Storage_Props
    Obsr_Instance_Props Obsr_Reader Obsr_Looper_Props Obsr_Timer_Props Obsr_Io_Safety
    Obsr_Reconnect Obsr_Dialogue Obsr_Convergence Obsr_Os_Socket Obsr_Instance_Net Obsr_Type_Props Obsr_Handshake Obsr_Library Obsr_Print Obsr_Os_Signal Obsr_Poll Obsr_Trace Obsr_Teardown
begin

text \<open>
  obsr is a store of typed values under slash-separated paths, shared between one server process and
  its clients. A user of the library names objects and entries by handles, sets and reads values, and
  registers listeners; a network thread carries the changes to the other processes.

  The parts, from the bottom up, with the files under \<open>src/\<close> that they model:

  \<^item> Data. \<open>Obsr_Prelude\<close>: machine integers, bytes of an integer in memory, strings, \<open>size_t\<close>, ordered maps.
    \<open>Obsr_Types\<close> (\<open>include/obsr_types.h\<close>, \<open>include/obsr_except.h\<close>): the tagged union \<open>value\<close> with its tag kept
    apart from its content, as in the code, so that a wrong tag can be seen; events; the exceptions as one
    datatype. Undefined behaviour, failed assertions and a thread that waits for itself are exceptions of
    their own, which no handler of the code catches.
  \<^item> Buffers and wire format. \<open>Obsr_Buffers\<close>, \<open>Obsr_Circular\<close> (\<open>src/io/buffer.cpp\<close>): the three buffers, with the
    interfaces \<open>buffer_reader\<close> and \<open>buffer_writer\<close> as locales. \<open>Obsr_Wire\<close> (\<open>src/io/serialize.cpp\<close>,
    \<open>src/util/bits.h\<close>): integers, strings, arrays and values on any such buffer. \<open>Obsr_State_Machine\<close>
    (\<open>src/util/state.h\<close>): the loop of the two parsers.
  \<^item> Protocol. \<open>Obsr_Messages\<close>, \<open>Obsr_Queue\<close> (\<open>src/net/serialize.cpp\<close>): the parser of message bodies, the outgoing
    messages and their queue.
  \<^item> Tables and time. \<open>Obsr_Handles\<close> (\<open>src/util/handles.h\<close>) and \<open>Obsr_Time\<close> (\<open>src/util/time.cpp\<close>).
  \<^item> Storage. \<open>Obsr_Listeners\<close> (\<open>src/storage/listener_storage.cpp\<close>): listeners and, as a transition system, the thread
    that delivers events. \<open>Obsr_Storage\<close> (\<open>src/storage/storage.cpp\<close>): the entries and all operations on them.
    \<open>Obsr_Instance\<close> (\<open>src/instance.cpp\<close>): objects and paths.
  \<^item> Event loop. \<open>Obsr_Looper\<close> (\<open>src/events/events.cpp\<close>, \<open>src/os/poller.cpp\<close>): resources, timers, requests, a round of
    the loop, and its thread; \<open>Obsr_Poll\<close>: the array of the events that a poll finds. \<open>Obsr_Os_Socket\<close> (\<open>src/os/socket.cpp\<close>, \<open>src/os/io.cpp\<close>) and \<open>Obsr_Os_Signal\<close>
    (\<open>src/os/signal.cpp\<close>): what the descriptors do with the system calls.
  \<^item> Connections. \<open>Obsr_Reader\<close>, \<open>Obsr_Socket_Io\<close>, \<open>Obsr_Server_Io\<close> (\<open>src/net/io.cpp\<close>): the reader of frames, a
    connection, the listening side.
  \<^item> Network. \<open>Obsr_Net\<close> (\<open>src/util/general.h\<close>, \<open>src/net/net.h\<close>), \<open>Obsr_Client\<close> (\<open>src/net/client.cpp\<close>), \<open>Obsr_Server\<close>
    (\<open>src/net/server.cpp\<close>), \<open>Obsr_Instance_Net\<close> (the part of \<open>src/instance.cpp\<close> that starts and stops them).
  \<^item> Public interface (\<open>src/obsr.cpp\<close>). \<open>Obsr_Library\<close>: its functions on the one instance of the process, with the
    threads behind it. \<open>Obsr_Print\<close>: its output operators.
  \<^item> Tracing. \<open>Obsr_Trace\<close> (\<open>src/debug.cpp\<close>, \<open>src/debug.h\<close>): what a build traces, where to, and in which format. It
    stands beside the other theories, which leave their trace statements out.

  How they are modelled. An operation takes the state of its object and returns it changed, together with
  an exception or a result; what an operation leaves changed when it throws is part of its result. An
  operation that reaches into another object (the socket, the looper, the callbacks of an owner) works on the
  rest of the world as well: \<open>io_op\<close> for a connection, \<open>server_op\<close> for a server. What lies outside the
  repository (the kernel, the clock readings, the callbacks of users) is a record of functions over an unknown
  state, an argument of the definitions. Mutexes are flags that an operation takes and releases: an operation
  that takes one that its own thread holds is a deadlock. The threads are interleaved operation by
  operation, as the mutexes make them be, in the relations \<open>delivery_step\<close>, \<open>client_reach\<close>, \<open>socket_reach\<close> and
  \<open>library_reach\<close>.

  What the lemmas show.

  \<^item> \<open>Obsr_IO_Props\<close>, \<open>Obsr_Type_Props\<close>: values are read back as they were written; the circular buffer is a queue
    of bytes, through partial reads and writes of a socket too, up to the sizes at which it is not.
  \<^item> \<open>Obsr_Protocol\<close>: messages round trip, and the queue delivers them in order; a message of more than 512 bytes
    blocks it.
  \<^item> \<open>Obsr_Storage_Lemmas\<close>, \<open>Obsr_Storage_Props\<close>, \<open>Obsr_Instance_Props\<close>: the invariant of the storage; an entry under
    time-stamped updates is a last-writer-wins register, so that replicas that see the same updates in any
    order agree; paths and objects fit together until an object is deleted.
  \<^item> \<open>Obsr_Looper_Props\<close>, \<open>Obsr_Timer_Props\<close>: what is asked of the loop reaches the poller, timers fire when due.
  \<^item> \<open>Obsr_Connection\<close>, \<open>Obsr_Io_Safety\<close>: frames come out as they went in however the stream is cut into pieces, and
    processing what has arrived ends; what the reader does not recover from.
  \<^item> \<open>Obsr_Client_Props\<close>, \<open>Obsr_Server_Props\<close>, \<open>Obsr_Sync\<close>: what each message does, what a handshake tells, that every
    dirty entry is sent once, and the way of a value from the storage of the server to that of a client.
  \<^item> \<open>Obsr_Replication\<close>, \<open>Obsr_Join\<close>, \<open>Obsr_Reconnect\<close>: the storages as replicas. A change at a client is the same write
    at the server and at every other client; a client that joins shows what the server has, and whatever it
    had that is newer; one that reconnects to a server that has started anew mixes up its entries.
  \<^item> \<open>Obsr_Transport\<close>: the layers put together, from the queue of one side over the bytes of the connection to what the
    client at its other end does. \<open>Obsr_Dialogue\<close>: the handshake of a client and the server comes to its end.
  \<^item> \<open>Obsr_Cells\<close>, \<open>Obsr_Convergence\<close>: the whole network on the entries it shares. The protocol is first proved right on the
    cells of one entry (what a side shows of it, whether it is to be published, and the queues between the sides), then the
    operations of the storages, of the server and of its clients are shown to be steps of the cells of each entry, which
    stay out of each other's way in the shared queues: whatever the users do and in whatever order
    the sides exchange what they have, the exchange comes to an end, and then all storages show the newest change. This
    takes clocks that give every change a time stamp of its own, later than that of the entry it changes; with a clock that is
    behind the storages stay apart.
  \<^item> \<open>Obsr_Io_Invariant\<close>, \<open>Obsr_World_Invariant\<close>: rules by which an invariant of the world is carried through every
    operation of connections, callbacks included. They carry \<open>Obsr_Handshake\<close> (a client in its handshake sends
    nothing of the storage), \<open>Obsr_Consistency\<close> and \<open>Obsr_Library\<close> (every run of the library keeps the
    storage, the objects and the server well formed).
  \<^item> \<open>Obsr_Io_Sound\<close>, \<open>Obsr_Server_Sound\<close>: an invariant of the connections themselves, by triples over their state.
    \<open>Obsr_Teardown\<close>: with it, no run of the library drops a network whose connections still run, so that the
    destructors, which abort then, do not.

  Interfaces are locales with an interpretation on the definitions above: the buffers, the table of handles,
  \<open>epoll\<close>, the network object of an instance, the worlds of connections.

  Bounds. The block of a circular buffer of a connection and the largest message have 1024 bytes, the buffer
  of the message serializer 512, a handle table 256 slots (16 for timers), identifiers 16 bits and handles 32;
  they are those of the code, and the properties that need them say so. Where a loop of the code ends only
  because of what its callbacks do (\<open>find_header\<close>, \<open>process_new_data\<close>, \<open>execute_requests\<close>, \<open>thread_main\<close>, the loop of the
  state machines) it is a partial function into an option, and that it returns is a property
  (\<open>received_bytes_are_processed\<close>, \<open>parser_always_returns\<close>). \<open>thread_run\<close> is bounded by a number of steps, which its
  property shows to exist.

  Not modelled: the trace statements among the other code, and what is computed for them only; the memory of objects
  other than where the code can read what it did not write (then the content is a parameter); destructors that
  only release memory; the mutex of the instance, which every function of it holds from its first line to
  its last; the text of floating point numbers, which are bit patterns throughout; the order in which
  \<open>std::unordered_map\<close> is visited, here that of insertion.
\<close>

end
